(* ===== verification/Errors.thy ===== *)
theory Errors
  imports Main
begin

text \<open>
  Strings, bytes and exceptions.

  A Python string is a sequence of Unicode code points, so it is modelled as a list of
  natural numbers (lone surrogates included, as Python allows them); a byte string is a list
  of numbers below 256.  The exceptions of every module are values of one type
  \<open>exn\<close>, tagged with the module they come from, because Python exceptions travel across modules and an \<open>except\<close> clause selects
  them by class.  Messages are dropped; the fields that code reads back (a detail, a
  provider error, a host) are kept.  The predicates below are the subclass tests behind
  the \<open>except\<close> clauses of the repository.
\<close>

type_synonym pystr = "nat list"
type_synonym bytes = "nat list"

definition lit :: "string \<Rightarrow> pystr" where
  "lit s = map of_char s"

lemma lit_eq_iff [simp]: "lit s = lit t \<longleftrightarrow> s = t"
  unfolding lit_def by (simp add: inj_map_eq_map inj_on_def)

lemma lit_Nil_iff [simp]: "lit s = [] \<longleftrightarrow> s = []" "[] = lit s \<longleftrightarrow> s = []"
  by (auto simp: lit_def)

text \<open>The audit-only refusal reasons of \<open>authz/errors.py\<close>.\<close>

datatype denial_reason =
    INVALID_ARTIFACT | CLOUD_UNREACHABLE | REVOKED | NO_GRANT | EXPIRED | SUPERSEDED
  | VALIDITY_EXCEEDS_POLICY | MODE_MISMATCH | SCOPE | REPLAY | VERSION_REGRESS
  | STATE_UNAVAILABLE | INTERNAL_ERROR

fun denial_value :: "denial_reason \<Rightarrow> pystr" where
  "denial_value INVALID_ARTIFACT = lit ''denied_invalid_artifact''"
| "denial_value CLOUD_UNREACHABLE = lit ''denied_cloud_unreachable''"
| "denial_value REVOKED = lit ''denied_revoked''"
| "denial_value NO_GRANT = lit ''denied_no_grant''"
| "denial_value EXPIRED = lit ''denied_expired''"
| "denial_value SUPERSEDED = lit ''denied_superseded''"
| "denial_value VALIDITY_EXCEEDS_POLICY = lit ''denied_validity_exceeds_policy''"
| "denial_value MODE_MISMATCH = lit ''denied_mode_mismatch''"
| "denial_value SCOPE = lit ''denied_scope''"
| "denial_value REPLAY = lit ''denied_replay''"
| "denial_value VERSION_REGRESS = lit ''denied_version_regress''"
| "denial_value STATE_UNAVAILABLE = lit ''denied_state_unavailable''"
| "denial_value INTERNAL_ERROR = lit ''denied_internal''"

lemma denial_value_inj: "denial_value a = denial_value b \<Longrightarrow> a = b"
  by (cases a; cases b; simp)

datatype py_exn =
    ValueError | KeyError | TypeError | AttributeError | RuntimeError | AssertionError
  | UnicodeEncodeError | OSError | URLError | TimeoutError | FileNotFoundError | HTTPException
  | OverflowError | TimeoutExpired | SystemExit int

datatype canon_exn =
    JcsError | PayloadSchemaError | AttachmentsNotSupportedError | UnknownActionError
  | MessageIdNotConfiguredError

datatype store_exn =
    ProposalNotFoundError pystr | ProposalExpiredError pystr | DuplicateIdempotencyError
  | ProposalStateError | AuditSchemaError

datatype fsm_exn =
    IllegalTransitionError | AutoSendNotEnabledError | AgentUnreachableRequiredError
  | NoAutoRetryError | AlreadySettledError

datatype authz_exn =
    CertificateError "pystr option" | AuthorizationUnavailable
  | DenialSignal denial_reason "pystr option" | AuthorizationDenied
  | ContinuousClockUnavailable

datatype db_exn = OperationalError | ConnectionEvicted

datatype key_exn =
    KeyUnavailableError | KeyBackendUnavailableError | KeyMaterialError | SealedRecordError
  | DecryptionError

datatype tok_exn =
    TokenStoreError | CredentialsMissing | KeychainUnavailable | CredentialsCorrupt
  | CommitInvalidated

datatype oauth_exn =
    LoopbackRequiredError | ScopeViolationError | PKCEError | StateMismatchError
  | MissingCodeError | ProviderError pystr | OAuthTimeoutError | OAuthExchangeError
  | ReauthorizationRequiredError | TokenRefreshError

datatype gw_exn =
    EgressBlockedError pystr | BundleError | TriggerError | SupervisorError | LocalConnectConfigError

datatype exn =
    Py py_exn | Canon canon_exn | Store store_exn | Fsm fsm_exn | Authz authz_exn
  | Db db_exn | Key key_exn | Tok tok_exn | OAuth oauth_exn | Gw gw_exn

text \<open>\<open>except CertificateError\<close>, with the detail it carries.\<close>

fun cert_detail :: "exn \<Rightarrow> pystr option option" where
  "cert_detail (Authz (CertificateError d)) = Some d"
| "cert_detail _ = None"

text \<open>\<open>except ValueError\<close>: the class and its subclasses.\<close>

definition is_value_error :: "exn \<Rightarrow> bool" where
  "is_value_error e \<longleftrightarrow> e \<in> {Py ValueError, Py UnicodeEncodeError, Canon JcsError,
     Canon PayloadSchemaError, Canon MessageIdNotConfiguredError, Store ProposalStateError,
     Store AuditSchemaError, Key KeyMaterialError, Key SealedRecordError, OAuth PKCEError}"

text \<open>\<open>except PayloadSchemaError\<close>.\<close>

definition is_payload_schema_error :: "exn \<Rightarrow> bool" where
  "is_payload_schema_error e \<longleftrightarrow>
     e \<in> {Canon PayloadSchemaError, Canon MessageIdNotConfiguredError}"

text \<open>\<open>except OAuthError\<close>: every error of the OAuth modules but \<open>PKCEError\<close>, which is a
  \<open>ValueError\<close>.\<close>

definition is_oauth_error :: "exn \<Rightarrow> bool" where
  "is_oauth_error e \<longleftrightarrow> (case e of OAuth x \<Rightarrow> x \<noteq> PKCEError | _ \<Rightarrow> False)"

text \<open>\<open>except OSError\<close>: \<open>URLError\<close>, \<open>TimeoutError\<close> and \<open>FileNotFoundError\<close> are subclasses;
  \<open>http.client.HTTPException\<close> is not one.\<close>

definition is_os_error :: "exn \<Rightarrow> bool" where
  "is_os_error e \<longleftrightarrow> e \<in> {Py OSError, Py URLError, Py TimeoutError, Py FileNotFoundError}"

end
