(* ===== verification/Prelude.thy ===== *)
theory Prelude
  imports Errors "HOL-Library.List_Lexorder" "HOL-Library.Code_Target_Nat"
begin

text \<open>
  The two ways the code can go wrong, as result types, and the generic lemmas shared by
  the components.  A pure function that may raise returns \<open>exn + 'a\<close> (\<open>Inl\<close> the
  exception); a method that reads and writes state and may raise has type \<open>('s, 'a) pm\<close>:
  it returns the outcome together with the state, so the writes done before a \<open>raise\<close> are
  kept, as they are in Python.
\<close>

named_theorems pm_simps "unfolding the state-and-exception operators"
named_theorems pm_inv "inversion of a returned or a raised outcome"

type_synonym 'a res = "exn + 'a"
type_synonym ('s, 'a) pm = "'s \<Rightarrow> 'a res \<times> 's"

subsection \<open>Pure fallible functions\<close>

fun rbind :: "'a res \<Rightarrow> ('a \<Rightarrow> 'b res) \<Rightarrow> 'b res" where
  "rbind (Inl e) f = Inl e"
| "rbind (Inr a) f = f a"

fun rmap :: "('a \<Rightarrow> 'b) \<Rightarrow> 'a res \<Rightarrow> 'b res" where
  "rmap f (Inl e) = Inl e"
| "rmap f (Inr a) = Inr (f a)"

definition rguard :: "bool \<Rightarrow> exn \<Rightarrow> unit res" where
  "rguard b e = (if b then Inr () else Inl e)"

text \<open>\<open>try: m except ...: handler\<close> around a pure function.\<close>

fun rcatch :: "'a res \<Rightarrow> (exn \<Rightarrow> 'a res) \<Rightarrow> 'a res" where
  "rcatch (Inl e) h = h e"
| "rcatch (Inr a) h = Inr a"

lemma rbind_Inr_iff [pm_inv]: "rbind m f = Inr b \<longleftrightarrow> (\<exists>a. m = Inr a \<and> f a = Inr b)"
  by (cases m) auto

lemma rmap_Inr_iff [pm_inv]: "rmap f m = Inr b \<longleftrightarrow> (\<exists>a. m = Inr a \<and> b = f a)"
  by (cases m) auto

lemma rguard_Inr_iff [pm_inv]: "rguard b e = Inr u \<longleftrightarrow> b"
  by (simp add: rguard_def)

lemma rbind_Inl_iff: "rbind m f = Inl e \<longleftrightarrow> m = Inl e \<or> (\<exists>a. m = Inr a \<and> f a = Inl e)"
  by (cases m) auto

lemma rmap_Inl_iff: "rmap f m = Inl e \<longleftrightarrow> m = Inl e"
  by (cases m) auto

lemma rbind_cong [fundef_cong]:
  "m = n \<Longrightarrow> (\<And>a. n = Inr a \<Longrightarrow> f a = g a) \<Longrightarrow> rbind m f = rbind n g"
  by (cases n) auto

text \<open>A comprehension over a list whose body may raise: the first raise ends it.\<close>

fun traverse :: "('a \<Rightarrow> 'b res) \<Rightarrow> 'a list \<Rightarrow> 'b list res" where
  "traverse f [] = Inr []"
| "traverse f (x # xs) = rbind (f x) (\<lambda>y. rmap (\<lambda>ys. y # ys) (traverse f xs))"

lemma traverse_cong [fundef_cong]:
  "xs = ys \<Longrightarrow> (\<And>x. x \<in> set ys \<Longrightarrow> f x = g x) \<Longrightarrow> traverse f xs = traverse g ys"
proof (induction ys arbitrary: xs)
  case (Cons y ys)
  then have "f y = g y" and "traverse f ys = traverse g ys"
    by auto
  with Cons.prems show ?case by simp
qed simp

lemma traverse_Inr_Cons:
  "traverse f (x # xs) = Inr zs \<longleftrightarrow> (\<exists>y ys. f x = Inr y \<and> traverse f xs = Inr ys \<and> zs = y # ys)"
  by (auto simp: rbind_Inr_iff rmap_Inr_iff)

lemma traverse_Inr_length: "traverse f xs = Inr ys \<Longrightarrow> length ys = length xs"
  by (induction xs arbitrary: ys) (auto simp: pm_inv)

lemma traverse_Inr_all: "traverse f xs = Inr ys \<Longrightarrow> x \<in> set xs \<Longrightarrow> \<exists>y. f x = Inr y \<and> y \<in> set ys"
  by (induction xs arbitrary: ys) (auto simp: pm_inv)

lemma traverse_Inr_from: "traverse f xs = Inr ys \<Longrightarrow> y \<in> set ys \<Longrightarrow> \<exists>x \<in> set xs. f x = Inr y"
  by (induction xs arbitrary: ys) (auto simp: pm_inv)

lemma traverse_InrI: "(\<And>x. x \<in> set xs \<Longrightarrow> f x = Inr (g x)) \<Longrightarrow> traverse f xs = Inr (map g xs)"
  by (induction xs) auto

lemma traverse_Inl_from: "traverse f xs = Inl e \<Longrightarrow> \<exists>x \<in> set xs. f x = Inl e"
  by (induction xs) (auto simp: rbind_Inl_iff rmap_Inl_iff)

text \<open>Which exceptions can leave a function.\<close>

definition raises_only :: "(exn \<Rightarrow> bool) \<Rightarrow> 'a res \<Rightarrow> bool" where
  "raises_only P m \<longleftrightarrow> (\<forall>e. m = Inl e \<longrightarrow> P e)"

named_theorems raises_only_intro "the exceptions of a composed function"

lemma raises_only_rbind [raises_only_intro]:
  "raises_only P m \<Longrightarrow> (\<And>a. m = Inr a \<Longrightarrow> raises_only P (f a)) \<Longrightarrow> raises_only P (rbind m f)"
  by (cases m) (auto simp: raises_only_def)

lemma raises_only_rmap [raises_only_intro]: "raises_only P m \<Longrightarrow> raises_only P (rmap f m)"
  by (cases m) (auto simp: raises_only_def)

lemma raises_only_Inr [raises_only_intro]: "raises_only P (Inr a)"
  and raises_only_Inl [raises_only_intro]: "P e \<Longrightarrow> raises_only P (Inl e)"
  and raises_only_rguard [raises_only_intro]: "P e \<Longrightarrow> raises_only P (rguard b e)"
  by (simp_all add: raises_only_def rguard_def)

lemma raises_only_mono: "raises_only P m \<Longrightarrow> (\<And>e. P e \<Longrightarrow> Q e) \<Longrightarrow> raises_only Q m"
  by (simp add: raises_only_def)

lemma raises_only_traverse [raises_only_intro]:
  "(\<And>x. x \<in> set xs \<Longrightarrow> raises_only P (f x)) \<Longrightarrow> raises_only P (traverse f xs)"
  using traverse_Inl_from [of f xs] by (fastforce simp: raises_only_def)

lemma raises_onlyD: "raises_only P m \<Longrightarrow> m = Inl e \<Longrightarrow> P e"
  by (simp add: raises_only_def)

subsection \<open>Stateful methods that may raise\<close>

definition preturn :: "'a \<Rightarrow> ('s, 'a) pm" where
  "preturn a s = (Inr a, s)"

definition praise :: "exn \<Rightarrow> ('s, 'a) pm" where
  "praise e s = (Inl e, s)"

definition plift :: "'a res \<Rightarrow> ('s, 'a) pm" where
  "plift r s = (r, s)"

definition pbind :: "('s, 'a) pm \<Rightarrow> ('a \<Rightarrow> ('s, 'b) pm) \<Rightarrow> ('s, 'b) pm" where
  "pbind m f s = (case m s of (Inl e, t) \<Rightarrow> (Inl e, t) | (Inr a, t) \<Rightarrow> f a t)"

text \<open>\<open>try: m except ...: handler\<close>; the handler re-raises what its clauses do not name.\<close>

definition pcatch :: "('s, 'a) pm \<Rightarrow> (exn \<Rightarrow> ('s, 'a) pm) \<Rightarrow> ('s, 'a) pm" where
  "pcatch m h s = (case m s of (Inl e, t) \<Rightarrow> h e t | (Inr a, t) \<Rightarrow> (Inr a, t))"

text \<open>\<open>try: m except ...: return early\<close>: the handler leaves the function, the rest runs
  only when \<open>m\<close> returned.\<close>

definition ptry :: "('s, 'a) pm \<Rightarrow> (exn \<Rightarrow> ('s, 'b) pm) \<Rightarrow> ('a \<Rightarrow> ('s, 'b) pm) \<Rightarrow> ('s, 'b) pm" where
  "ptry m h f s = (case m s of (Inl e, t) \<Rightarrow> h e t | (Inr a, t) \<Rightarrow> f a t)"

lemmas pm_defs [pm_simps] = preturn_def praise_def plift_def pbind_def pcatch_def ptry_def

lemma preturn_Inr_iff [pm_inv]: "preturn a s = (Inr b, t) \<longleftrightarrow> b = a \<and> t = s"
  and preturn_Inl_iff [pm_inv]: "preturn a s = (Inl e, t) \<longleftrightarrow> False"
  and praise_Inr_iff [pm_inv]: "praise x s = (Inr b, t) \<longleftrightarrow> False"
  and praise_Inl_iff [pm_inv]: "praise x s = (Inl e, t) \<longleftrightarrow> e = x \<and> t = s"
  and plift_iff [pm_inv]: "plift r s = (q, t) \<longleftrightarrow> r = q \<and> t = s"
  by (auto simp: preturn_def praise_def plift_def)

lemma pbind_Inr_iff [pm_inv]:
  "pbind m f s = (Inr b, u) \<longleftrightarrow> (\<exists>a t. m s = (Inr a, t) \<and> f a t = (Inr b, u))"
  by (auto simp: pbind_def split: prod.splits sum.splits)

text \<open>Running a step whose outcome is known.\<close>

lemma pbind_returns: "m s = (Inr a, t) \<Longrightarrow> pbind m f s = f a t"
  and pbind_raises: "m s = (Inl e, t) \<Longrightarrow> pbind m f s = (Inl e, t)"
  by (simp_all add: pbind_def)

lemma pbind_plift_Inr [simp]: "pbind (plift (Inr a)) f = f a"
  and pbind_plift_Inl [simp]: "pbind (plift (Inl e)) f = praise e"
  and pbind_preturn [simp]: "pbind (preturn a) f = f a"
  and pbind_praise [simp]: "pbind (praise e) f = praise e"
  by (rule ext, simp add: pbind_def plift_def preturn_def praise_def)+

lemma preturn_apply [simp]: "preturn a s = (Inr a, s)"
  and praise_apply [simp]: "praise e s = (Inl e, s)"
  by (simp_all add: preturn_def praise_def)

lemma ptry_Inr_iff:
  "ptry m h f s = (Inr b, u) \<longleftrightarrow>
     (\<exists>a t. m s = (Inr a, t) \<and> f a t = (Inr b, u)) \<or> (\<exists>e t. m s = (Inl e, t) \<and> h e t = (Inr b, u))"
  by (auto simp: ptry_def split: prod.splits sum.splits)

lemma pbind_Inl_iff:
  "pbind m f s = (Inl e, u) \<longleftrightarrow>
     m s = (Inl e, u) \<or> (\<exists>a t. m s = (Inr a, t) \<and> f a t = (Inl e, u))"
  by (auto simp: pbind_def split: prod.splits sum.splits)

text \<open>A part of the state that a method leaves alone.\<close>

definition keeps :: "('s \<Rightarrow> 'v) \<Rightarrow> ('s, 'a) pm \<Rightarrow> bool" where
  "keeps f m \<longleftrightarrow> (\<forall>s r t. m s = (r, t) \<longrightarrow> f t = f s)"

named_theorems keeps_intro "methods that leave a part of the state alone"

lemma keepsD: "keeps f m \<Longrightarrow> m s = (r, t) \<Longrightarrow> f t = f s"
  by (simp add: keeps_def)

lemma keeps_pbind [keeps_intro]: "keeps f m \<Longrightarrow> (\<And>a. keeps f (g a)) \<Longrightarrow> keeps f (pbind m g)"
  by (fastforce simp: keeps_def pbind_def split: prod.splits sum.splits)

lemma keeps_ptry [keeps_intro]:
  "keeps f m \<Longrightarrow> (\<And>e. keeps f (h e)) \<Longrightarrow> (\<And>a. keeps f (g a)) \<Longrightarrow> keeps f (ptry m h g)"
  by (fastforce simp: keeps_def ptry_def split: prod.splits sum.splits)

lemma keeps_pure [keeps_intro]: "keeps f (preturn a)" "keeps f (praise e)" "keeps f (plift r)"
  by (auto simp: keeps_def preturn_def praise_def plift_def)

subsection \<open>Association lists as Python dicts\<close>

text \<open>
  A dict keeps its insertion order: an assignment to a present key changes its value in
  place, to an absent one appends the pair.
\<close>

fun dset :: "('k \<times> 'v) list \<Rightarrow> 'k \<Rightarrow> 'v \<Rightarrow> ('k \<times> 'v) list" where
  "dset [] k v = [(k, v)]"
| "dset ((k', v') # d) k v = (if k' = k then (k, v) # d else (k', v') # dset d k v)"

definition dkeys :: "('k \<times> 'v) list \<Rightarrow> 'k set" where
  "dkeys d = fst ` set d"

lemma map_of_dset [simp]: "map_of (dset d k v) = (map_of d)(k \<mapsto> v)"
  by (induction d) auto

lemma dkeys_Nil [simp]: "dkeys [] = {}"
  and dkeys_Cons [simp]: "dkeys ((k, v) # d) = insert k (dkeys d)"
  by (simp_all add: dkeys_def)

lemma dkeys_dset [simp]: "dkeys (dset d k v) = insert k (dkeys d)"
  by (induction d) (auto split: if_splits)

lemma map_of_None_dkeys: "map_of d k = None \<longleftrightarrow> k \<notin> dkeys d"
  by (simp add: dkeys_def map_of_eq_None_iff)

end
