(* ===== verification/PyValues.thy ===== *)
theory PyValues
  imports Prelude Complex_Main
begin

text \<open>
  The dynamically typed values the code inspects: what \<open>json.loads\<close> returns, what a caller
  passes as \<open>params\<close>, what a signed artifact holds.  Every \<open>isinstance\<close> test of the source is
  a pattern match here.  A float is a rational number or one of the non-finite values; of
  floats the code only ever asks whether one is falsy and whether it equals an integer.
  A dict has string keys (all dicts here come from JSON or from literals of the source) in
  insertion order.  \<open>PBytes\<close> stands for every value outside the JSON domain.
\<close>

datatype pyfloat = Finite rat | NonFinite

datatype pyval =
    PNone
  | PBool bool
  | PInt int
  | PFloat pyfloat
  | PStr pystr
  | PBytes bytes
  | PList "pyval list"
  | PTuple "pyval list"
  | PDict "(pystr \<times> pyval) list"

type_synonym dict = "(pystr \<times> pyval) list"

text \<open>\<open>bool(v)\<close>.\<close>

fun truthy :: "pyval \<Rightarrow> bool" where
  "truthy PNone = False"
| "truthy (PBool b) = b"
| "truthy (PInt i) = (i \<noteq> 0)"
| "truthy (PFloat (Finite q)) = (q \<noteq> 0)"
| "truthy (PFloat NonFinite) = True"
| "truthy (PStr s) = (s \<noteq> [])"
| "truthy (PBytes b) = (b \<noteq> [])"
| "truthy (PList xs) = (xs \<noteq> [])"
| "truthy (PTuple xs) = (xs \<noteq> [])"
| "truthy (PDict d) = (d \<noteq> [])"

text \<open>\<open>v == i\<close> for an integer \<open>i\<close>: a bool and a float compare by value.\<close>

fun py_eq_int :: "pyval \<Rightarrow> int \<Rightarrow> bool" where
  "py_eq_int (PInt j) i = (j = i)"
| "py_eq_int (PBool b) i = (of_bool b = i)"
| "py_eq_int (PFloat (Finite q)) i = (q = of_int i)"
| "py_eq_int _ i = False"

text \<open>\<open>d.get(k)\<close>, and \<open>d.get(k, v)\<close>.\<close>

definition dget :: "dict \<Rightarrow> pystr \<Rightarrow> pyval" where
  "dget d k = (case map_of d k of None \<Rightarrow> PNone | Some v \<Rightarrow> v)"

definition dget_or :: "dict \<Rightarrow> pystr \<Rightarrow> pyval \<Rightarrow> pyval" where
  "dget_or d k v = (case map_of d k of None \<Rightarrow> v | Some w \<Rightarrow> w)"

text \<open>\<open>d[k]\<close>.\<close>

definition dindex :: "dict \<Rightarrow> pystr \<Rightarrow> pyval res" where
  "dindex d k = (case map_of d k of None \<Rightarrow> Inl (Py KeyError) | Some v \<Rightarrow> Inr v)"

text \<open>The \<open>isinstance\<close> tests, as projections.\<close>

fun as_str :: "pyval \<Rightarrow> pystr option" where
  "as_str (PStr s) = Some s"
| "as_str _ = None"

fun as_dict :: "pyval \<Rightarrow> dict option" where
  "as_dict (PDict d) = Some d"
| "as_dict _ = None"

fun as_list :: "pyval \<Rightarrow> pyval list option" where
  "as_list (PList xs) = Some xs"
| "as_list _ = None"

text \<open>\<open>isinstance(v, int) and not isinstance(v, bool)\<close>.\<close>

fun as_int :: "pyval \<Rightarrow> int option" where
  "as_int (PInt i) = Some i"
| "as_int _ = None"

lemma as_str_Some [simp]: "as_str v = Some s \<longleftrightarrow> v = PStr s"
  and as_dict_Some [simp]: "as_dict v = Some d \<longleftrightarrow> v = PDict d"
  and as_list_Some [simp]: "as_list v = Some xs \<longleftrightarrow> v = PList xs"
  and as_int_Some [simp]: "as_int v = Some i \<longleftrightarrow> v = PInt i"
  by (cases v; auto)+

text \<open>
  A well-formed value: the keys of every dict are distinct, and every string is a list of
  code points (\<open>json.loads\<close> and every dict literal produce nothing else).
\<close>

definition wf_str :: "pystr \<Rightarrow> bool" where
  "wf_str s \<longleftrightarrow> (\<forall>c \<in> set s. c < 1114112)"

lemma wf_str_simps [simp]:
  "wf_str []" "wf_str (c # s) \<longleftrightarrow> c < 1114112 \<and> wf_str s" "wf_str (s @ t) \<longleftrightarrow> wf_str s \<and> wf_str t"
  by (auto simp: wf_str_def)

fun wf_val :: "pyval \<Rightarrow> bool" where
  "wf_val (PStr s) = wf_str s"
| "wf_val (PList xs) = (\<forall>x \<in> set xs. wf_val x)"
| "wf_val (PTuple xs) = (\<forall>x \<in> set xs. wf_val x)"
| "wf_val (PDict d) =
     (distinct (map fst d) \<and> (\<forall>kv \<in> set d. wf_str (fst kv) \<and> wf_val (snd kv)))"
| "wf_val _ = True"

lemma dget_eq: "dget d k = v \<Longrightarrow> v \<noteq> PNone \<Longrightarrow> map_of d k = Some v"
  by (auto simp: dget_def split: option.splits)

end
