(* ===== verification/Jcs.thy ===== *)
theory Jcs
  imports PyValues "HOL-Library.Multiset"
begin

text \<open>
  \<open>canonicalizer/jcs.py\<close>: the RFC 8785 serializer and the digest over it.  Strings are
  escaped one code point at a time, numbers are decimal and limited to the safe-integer
  range, object members are ordered by the UTF-16 code units of their keys, and the result
  is encoded as UTF-8.  \<open>hashlib.sha256\<close> is the parameter \<open>H\<close> of the digest functions: the
  results below hold of every function in its place.  The main results: the members' order
  never shows in the bytes, and equal bytes come from equal values only.
\<close>

subsection \<open>String and number serialization\<close>

text \<open>\<open>_MAX_SAFE_INTEGER = 2 ** 53 - 1\<close>.\<close>

definition max_safe_integer :: int where
  "max_safe_integer = 9007199254740991"

text \<open>\<open>_SHORT_ESCAPES.get(cp)\<close>: backslash is 92, the letters b t n f r are 98, 116, 110,
  102 and 114.\<close>

definition short_escape :: "nat \<Rightarrow> pystr option" where
  "short_escape cp =
    (if cp = 8 then Some [92, 98] else if cp = 9 then Some [92, 116]
     else if cp = 10 then Some [92, 110] else if cp = 12 then Some [92, 102]
     else if cp = 13 then Some [92, 114] else if cp = 34 then Some [92, 34]
     else if cp = 92 then Some [92, 92] else None)"

text \<open>One lowercase hexadecimal digit, and the escape of a control character with four of
  them; 48, 97 and 117 are the characters 0, a and u.\<close>

definition hex_digit :: "nat \<Rightarrow> nat" where
  "hex_digit d = (if d < 10 then 48 + d else 87 + d)"

definition escape_char :: "nat \<Rightarrow> pystr" where
  "escape_char cp = (case short_escape cp of
     Some e \<Rightarrow> e
   | None \<Rightarrow> (if cp < 32
              then [92, 117, hex_digit (cp div 4096 mod 16), hex_digit (cp div 256 mod 16),
                    hex_digit (cp div 16 mod 16), hex_digit (cp mod 16)]
              else [cp]))"

definition serialize_string :: "pystr \<Rightarrow> pystr" where
  "serialize_string s = 34 # concat (map escape_char s) @ [34]"

text \<open>\<open>str(n)\<close> of an integer.\<close>

fun dec_nat :: "nat \<Rightarrow> pystr" where
  "dec_nat n = (if n < 10 then [48 + n] else dec_nat (n div 10) @ [48 + n mod 10])"

declare dec_nat.simps [simp del]

definition dec_int :: "int \<Rightarrow> pystr" where
  "dec_int i = (if i < 0 then 45 # dec_nat (nat (- i)) else dec_nat (nat i))"

text \<open>The caller has handled bool; a float raises here.\<close>

definition serialize_number :: "pyval \<Rightarrow> pystr res" where
  "serialize_number v = (case v of
     PInt i \<Rightarrow> (if max_safe_integer < \<bar>i\<bar> then Inl (Canon JcsError) else Inr (dec_int i))
   | _ \<Rightarrow> Inl (Canon JcsError))"

subsection \<open>UTF-16 keys and UTF-8 bytes\<close>

definition surrogate :: "nat \<Rightarrow> bool" where
  "surrogate c \<longleftrightarrow> 55296 \<le> c \<and> c < 57344"

definition utf16_char :: "nat \<Rightarrow> bytes" where
  "utf16_char c =
    (if c < 65536 then [c div 256, c mod 256]
     else let d = c - 65536; hi = 55296 + d div 1024; lo = 56320 + d mod 1024
          in [hi div 256, hi mod 256, lo div 256, lo mod 256])"

definition utf16_be :: "pystr \<Rightarrow> bytes" where
  "utf16_be s = concat (map utf16_char s)"

text \<open>\<open>key.encode("utf-16-be")\<close>: a lone surrogate cannot be encoded.\<close>

definition utf16_sort_key :: "pystr \<Rightarrow> bytes res" where
  "utf16_sort_key key =
     (if (\<exists>c \<in> set key. surrogate c) then Inl (Py UnicodeEncodeError) else Inr (utf16_be key))"

definition utf8_char :: "nat \<Rightarrow> bytes" where
  "utf8_char c =
    (if c < 128 then [c]
     else if c < 2048 then [192 + c div 64, 128 + c mod 64]
     else if c < 65536 then [224 + c div 4096, 128 + c div 64 mod 64, 128 + c mod 64]
     else [240 + c div 262144, 128 + c div 4096 mod 64, 128 + c div 64 mod 64, 128 + c mod 64])"

definition utf8 :: "pystr \<Rightarrow> bytes" where
  "utf8 s = concat (map utf8_char s)"

definition encode_utf8 :: "pystr \<Rightarrow> bytes res" where
  "encode_utf8 s =
     (if (\<exists>c \<in> set s. surrogate c) then Inl (Py UnicodeEncodeError) else Inr (utf8 s))"

subsection \<open>The serializer\<close>

fun join :: "'a list \<Rightarrow> 'a list list \<Rightarrow> 'a list" where
  "join sep [] = []"
| "join sep [x] = x"
| "join sep (x # xs) = x @ sep @ join sep xs"

text \<open>
  \<open>sorted(value.items(), key=...)\<close>: all keys are encoded first (the first lone surrogate
  raises), then the members are sorted by them, stably.
\<close>

definition sort_members :: "(pystr \<times> 'v) list \<Rightarrow> (pystr \<times> 'v) list" where
  "sort_members d = sort_key (\<lambda>kv. utf16_be (fst kv)) d"

lemma set_sort_members [simp]: "set (sort_members d) = set d"
  by (simp add: sort_members_def)

lemma size_member: "kv \<in> set (d :: dict) \<Longrightarrow> size (snd kv) < Suc (size_list (size_prod (\<lambda>_. 0) size) d)"
  by (induction d) auto

lemma size_element: "x \<in> set (xs :: pyval list) \<Longrightarrow> size x < Suc (size_list size xs)"
  by (induction xs) auto

function serialize :: "pyval \<Rightarrow> pystr res" where
  "serialize PNone = Inr (lit ''null'')"
| "serialize (PBool b) = Inr (if b then lit ''true'' else lit ''false'')"
| "serialize (PStr s) = Inr (serialize_string s)"
| "serialize (PFloat f) = serialize_number (PFloat f)"
| "serialize (PInt i) = serialize_number (PInt i)"
| "serialize (PList xs) =
     rmap (\<lambda>ss. 91 # join [44] ss @ [93]) (traverse serialize xs)"
| "serialize (PTuple xs) =
     rmap (\<lambda>ss. 91 # join [44] ss @ [93]) (traverse serialize xs)"
| "serialize (PDict d) =
     rbind (traverse (\<lambda>kv. utf16_sort_key (fst kv)) d) (\<lambda>_.
     rmap (\<lambda>ss. 123 # join [44] ss @ [125])
       (traverse (\<lambda>kv. rmap (\<lambda>s. serialize_string (fst kv) @ 58 # s) (serialize (snd kv)))
          (sort_members d)))"
| "serialize (PBytes b) = Inl (Canon JcsError)"
  by pat_completeness auto
termination
proof (relation "measure size", goal_cases)
  case (4 d x kv)
  then show ?case by (simp add: size_member)
qed (simp_all add: size_element)

definition canonicalize :: "pyval \<Rightarrow> bytes res" where
  "canonicalize v = rbind (serialize v) encode_utf8"

definition digest :: "(bytes \<Rightarrow> pystr) \<Rightarrow> pyval \<Rightarrow> pystr res" where
  "digest H v = rmap H (canonicalize v)"

subsection \<open>Decimal numerals\<close>

definition is_digit :: "nat \<Rightarrow> bool" where
  "is_digit c \<longleftrightarrow> 48 \<le> c \<and> c \<le> 57"

text \<open>\<open>int(s)\<close> of a string of digits.\<close>

definition digits_value :: "pystr \<Rightarrow> nat" where
  "digits_value s = foldl (\<lambda>a c. 10 * a + (c - 48)) 0 s"

lemma dec_nat_digits: "\<forall>c \<in> set (dec_nat n). is_digit c"
proof (induction n rule: dec_nat.induct)
  case (1 n)
  then show ?case
    by (auto simp: dec_nat.simps [of n] is_digit_def)
qed

lemma dec_nat_nonempty [simp]: "dec_nat n \<noteq> []"
  by (subst dec_nat.simps) simp

lemma digits_value_dec_nat [simp]: "digits_value (dec_nat n) = n"
proof (induction n rule: dec_nat.induct)
  case (1 n)
  then show ?case
    by (cases "n < 10") (simp_all add: dec_nat.simps [of n] digits_value_def)
qed

lemma dec_nat_inj [simp]: "dec_nat m = dec_nat n \<longleftrightarrow> m = n"
  by (metis digits_value_dec_nat)

text \<open>What may follow a serialized value: the end, or a character that is no digit.\<close>

definition delimited :: "pystr \<Rightarrow> bool" where
  "delimited r \<longleftrightarrow> (case r of [] \<Rightarrow> True | c # _ \<Rightarrow> \<not> is_digit c)"

lemma takeWhile_digits:
  "\<forall>c \<in> set s. is_digit c \<Longrightarrow> delimited r \<Longrightarrow> takeWhile is_digit (s @ r) = s"
  by (cases r) (auto simp: delimited_def takeWhile_append)

lemma dec_nat_append_inj:
  assumes "dec_nat m @ r = dec_nat n @ r'" and "delimited r" and "delimited r'"
  shows "m = n \<and> r = r'"
proof -
  have "dec_nat m = dec_nat n"
    using takeWhile_digits [OF dec_nat_digits assms(2), of m]
      takeWhile_digits [OF dec_nat_digits assms(3), of n] assms(1) by simp
  with assms(1) show ?thesis by simp
qed

lemma hd_dec_nat: "is_digit (hd (dec_nat n))"
  using dec_nat_digits [of n] by (cases "dec_nat n") auto

lemma sign_not_digits: "dec_nat n @ x \<noteq> 45 # y" "45 # y \<noteq> dec_nat n @ x"
  using hd_dec_nat [of n] by (cases "dec_nat n"; auto simp: is_digit_def)+

lemma dec_int_append_inj:
  assumes eq: "dec_int i @ r = dec_int j @ r'" and d: "delimited r" "delimited r'"
  shows "i = j \<and> r = r'"
proof (cases "i < 0")
  case True
  with eq have "j < 0"
    using sign_not_digits by (auto simp: dec_int_def split: if_splits)
  with eq True have "dec_nat (nat (- i)) @ r = dec_nat (nat (- j)) @ r'"
    by (simp add: dec_int_def)
  with d have "nat (- i) = nat (- j) \<and> r = r'"
    using dec_nat_append_inj by blast
  with True \<open>j < 0\<close> show ?thesis by arith
next
  case False
  with eq have "\<not> j < 0"
    using sign_not_digits by (auto simp: dec_int_def split: if_splits)
  with eq False have "dec_nat (nat i) @ r = dec_nat (nat j) @ r'"
    by (simp add: dec_int_def)
  with d have "nat i = nat j \<and> r = r'"
    using dec_nat_append_inj by blast
  with False \<open>\<not> j < 0\<close> show ?thesis by arith
qed

subsection \<open>Strings are read back uniquely\<close>

lemma escape_char_cases:
  "escape_char c = [c] \<and> 32 \<le> c \<and> c \<noteq> 34 \<and> c \<noteq> 92 \<or>
   (\<exists>e. escape_char c = [92, e] \<and> e \<noteq> 117 \<and> short_escape c = Some [92, e]) \<or>
   escape_char c = [92, 117, 48, 48, hex_digit (c div 16), hex_digit (c mod 16)] \<and> c < 32"
  by (auto simp: escape_char_def short_escape_def hex_digit_def)

lemma short_escape_inj: "short_escape c = Some e \<Longrightarrow> short_escape d = Some e \<Longrightarrow> c = d"
  by (auto simp: short_escape_def split: if_splits)

lemma hex_digit_inj: "hex_digit a = hex_digit b \<Longrightarrow> a < 16 \<Longrightarrow> b < 16 \<Longrightarrow> a = b"
  by (auto simp: hex_digit_def split: if_splits)

lemma escape_char_append_inj:
  assumes "escape_char c @ r = escape_char d @ r'"
  shows "c = d \<and> r = r'"
proof -
  have hex: "a = b" if "a div 16 = b div 16" "a mod 16 = b mod (16 :: nat)" for a b
    using that by (metis div_mult_mod_eq)
  show ?thesis
    using escape_char_cases [of c] escape_char_cases [of d] assms
    by (auto intro: short_escape_inj hex dest!: hex_digit_inj)
qed

lemma escape_char_not_quote: "escape_char c @ x \<noteq> 34 # y" "34 # y \<noteq> escape_char c @ x"
  using escape_char_cases [of c] by auto

lemma serialize_body_inj:
  "concat (map escape_char s) @ 34 # r = concat (map escape_char t) @ 34 # r' \<Longrightarrow> s = t \<and> r = r'"
proof (induction s arbitrary: t)
  case Nil
  then show ?case
    using escape_char_not_quote by (cases t) simp_all
next
  case (Cons c s)
  show ?case
  proof (cases t)
    case Nil
    with Cons.prems show ?thesis
      using escape_char_not_quote by simp
  next
    case t: (Cons d t')
    with Cons.prems have
      "escape_char c @ (concat (map escape_char s) @ 34 # r) =
       escape_char d @ (concat (map escape_char t') @ 34 # r')"
      by simp
    from escape_char_append_inj [OF this] Cons.IH [of t'] t show ?thesis by simp
  qed
qed

lemma serialize_string_append_inj:
  "serialize_string s @ r = serialize_string t @ r' \<Longrightarrow> s = t \<and> r = r'"
  using serialize_body_inj [of s r t r'] by (simp add: serialize_string_def)

subsection \<open>The value a serialization stands for\<close>

text \<open>Two values are the same JSON value when their normal forms agree: members ordered by
  key, tuples read as lists.\<close>

fun jnorm :: "pyval \<Rightarrow> pyval" where
  "jnorm (PList xs) = PList (map jnorm xs)"
| "jnorm (PTuple xs) = PList (map jnorm xs)"
| "jnorm (PDict d) = PDict (sort_members (map (\<lambda>kv. (fst kv, jnorm (snd kv))) d))"
| "jnorm v = v"

text \<open>The first character tells the kind of a value, and is never a closing bracket.\<close>

lemma serialize_first:
  assumes "serialize v = Inr s"
  shows "s \<noteq> [] \<and> hd s \<noteq> 93 \<and> hd s \<noteq> 125 \<and> hd s \<noteq> 44"
proof (cases v)
  case (PInt i)
  with assms have "s = dec_int i"
    by (auto simp: serialize_number_def split: if_splits)
  then show ?thesis
    using hd_dec_nat [of "nat i"] by (auto simp: dec_int_def is_digit_def split: if_splits)
qed (use assms in \<open>auto simp: serialize_number_def serialize_string_def lit_def pm_inv split: if_splits\<close>)

lemma member_first:
  assumes "rmap (\<lambda>s. serialize_string k @ 58 # s) (serialize v) = Inr m"
  shows "\<exists>m'. m = 34 # m'"
  using assms by (auto simp: pm_inv serialize_string_def)

text \<open>Comma-joined lists whose pieces are read back uniquely are read back uniquely.\<close>

lemma join_Cons: "join sep (x # xs) = x @ (if xs = [] then [] else sep @ join sep xs)"
  by (cases xs) auto

lemma join_tail_inj:
  assumes piece: "\<And>x y s t r r'. x \<in> set xs \<Longrightarrow> f x = Inr s \<Longrightarrow> g y = Inr t \<Longrightarrow> s @ r = t @ r' \<Longrightarrow>
      delimited r \<Longrightarrow> delimited r' \<Longrightarrow> P x y \<and> r = r'"
    and stop: "\<not> is_digit b" "b \<noteq> 44"
  shows "xs \<noteq> [] \<Longrightarrow> ys \<noteq> [] \<Longrightarrow> traverse f xs = Inr ss \<Longrightarrow> traverse g ys = Inr ts \<Longrightarrow>
    join [44] ss @ b # r = join [44] ts @ b # r' \<Longrightarrow> list_all2 P xs ys \<and> r = r'"
  using piece
proof (induction xs arbitrary: ys ss ts)
  case (Cons x xs)
  from Cons.prems obtain y ys' where ys: "ys = y # ys'" by (cases ys) auto
  obtain s ss' where s: "f x = Inr s" "traverse f xs = Inr ss'" "ss = s # ss'"
    using Cons.prems(3) unfolding traverse_Inr_Cons by blast
  obtain t ts' where t: "g y = Inr t" "traverse g ys' = Inr ts'" "ts = t # ts'"
    using Cons.prems(4) unfolding ys traverse_Inr_Cons by blast
  define u where "u = (if ss' = [] then [] else 44 # join [44] ss') @ b # r"
  define u' where "u' = (if ts' = [] then [] else 44 # join [44] ts') @ b # r'"
  have d: "delimited u" "delimited u'"
    using stop(1) by (auto simp: u_def u'_def delimited_def is_digit_def)
  have "s @ u = t @ u'"
    using Cons.prems(5) s(3) t(3) by (simp add: u_def u'_def join_Cons split: if_splits)
  with Cons.prems(6) s(1) t(1) d have P: "P x y" and u: "u = u'"
    by (meson list.set_intros(1))+
  have e: "ss' = [] \<longleftrightarrow> xs = []" "ts' = [] \<longleftrightarrow> ys' = []"
    using traverse_Inr_length [OF s(2)] traverse_Inr_length [OF t(2)] by auto
  show ?case
  proof (cases "xs = []")
    case True
    with u e stop have "ys' = [] \<and> r = r'"
      by (auto simp: u_def u'_def split: if_splits)
    with True P ys show ?thesis by simp
  next
    case False
    with u e stop have "ys' \<noteq> []" and j: "join [44] ss' @ b # r = join [44] ts' @ b # r'"
      by (auto simp: u_def u'_def split: if_splits)
    have "list_all2 P xs ys' \<and> r = r'"
      using Cons.IH [OF False \<open>ys' \<noteq> []\<close> s(2) t(2) j] Cons.prems(6) by (meson list.set_intros(2))
    with P ys show ?thesis by simp
  qed
qed simp

text \<open>The kind of a value, and the character class that shows it.\<close>

fun kind :: "pyval \<Rightarrow> nat" where
  "kind PNone = 110"
| "kind (PBool b) = (if b then 116 else 102)"
| "kind (PInt i) = 48"
| "kind (PFloat f) = 0"
| "kind (PStr s) = 34"
| "kind (PBytes b) = 0"
| "kind (PList xs) = 91"
| "kind (PTuple xs) = 91"
| "kind (PDict d) = 123"

definition class_of :: "nat \<Rightarrow> nat" where
  "class_of c = (if is_digit c \<or> c = 45 then 48 else c)"

lemma serialize_kind:
  assumes "serialize v = Inr s"
  shows "s \<noteq> [] \<and> class_of (hd s) = kind v"
proof (cases v)
  case (PInt i)
  with assms have "s = dec_int i"
    by (auto simp: serialize_number_def split: if_splits)
  with PInt show ?thesis
    using hd_dec_nat [of "nat i"] by (auto simp: dec_int_def class_of_def is_digit_def)
qed (use assms in \<open>auto simp: serialize_number_def serialize_string_def lit_def pm_inv
      class_of_def is_digit_def split: if_splits\<close>)

lemma serialize_kind_eq:
  assumes "serialize v = Inr s" and "serialize w = Inr t" and "s @ r = t @ r'"
  shows "kind v = kind w"
  using serialize_kind [OF assms(1)] serialize_kind [OF assms(2)] assms(3)
  by (metis hd_append2)

lemma insort_key_map:
  "(\<And>x. f' (g x) = f x) \<Longrightarrow> insort_key f' (g x) (map g xs) = map g (insort_key f x xs)"
  by (induction xs) auto

lemma sort_key_map: "(\<And>x. f' (g x) = f x) \<Longrightarrow> sort_key f' (map g xs) = map g (sort_key f xs)"
  by (induction xs) (simp_all add: insort_key_map)

lemma sort_members_map:
  "sort_members (map (\<lambda>kv. (fst kv, h (snd kv))) d) = map (\<lambda>kv. (fst kv, h (snd kv))) (sort_members d)"
  unfolding sort_members_def by (rule sort_key_map) simp

lemma list_all2_map_eq: "list_all2 (\<lambda>x y. f x = g y) xs ys \<longleftrightarrow> map f xs = map g ys"
  by (simp add: list_all2_conv_all_nth list_eq_iff_nth_eq) auto

lemma join_stop:
  assumes "traverse f xs = Inr ss" and "\<And>x s. f x = Inr s \<Longrightarrow> s \<noteq> [] \<and> hd s \<noteq> b"
    and "join sep ss @ b # r = b # r'"
  shows "xs = [] \<and> r = r'"
proof (cases xs)
  case Nil
  with assms(1,3) show ?thesis by simp
next
  case (Cons x xs')
  with assms(1) obtain s ss' where x: "f x = Inr s" and "ss = s # ss'"
    unfolding Cons traverse_Inr_Cons by blast
  with assms(2) [OF x] assms(3) show ?thesis
    by (cases s) (auto simp: join_Cons)
qed

lemma join_inj:
  assumes piece: "\<And>x y s t r r'. x \<in> set xs \<Longrightarrow> f x = Inr s \<Longrightarrow> g y = Inr t \<Longrightarrow> s @ r = t @ r' \<Longrightarrow>
      delimited r \<Longrightarrow> delimited r' \<Longrightarrow> P x y \<and> r = r'"
    and first: "\<And>x s. f x = Inr s \<Longrightarrow> s \<noteq> [] \<and> hd s \<noteq> b" "\<And>y t. g y = Inr t \<Longrightarrow> t \<noteq> [] \<and> hd t \<noteq> b"
    and stop: "\<not> is_digit b" "b \<noteq> 44"
    and ss: "traverse f xs = Inr ss" and ts: "traverse g ys = Inr ts"
    and eq: "join [44] ss @ b # r = join [44] ts @ b # r'"
  shows "list_all2 P xs ys \<and> r = r'"
proof (cases "xs = [] \<or> ys = []")
  case True
  then have "xs = [] \<and> ys = [] \<and> r = r'"
  proof
    assume "xs = []"
    with ss eq have "join [44] ts @ b # r' = b # r" by simp
    from join_stop [OF ts first(2) this] \<open>xs = []\<close> show ?thesis by simp
  next
    assume "ys = []"
    with ts eq have "join [44] ss @ b # r = b # r'" by simp
    from join_stop [OF ss first(1) this] \<open>ys = []\<close> show ?thesis by simp
  qed
  then show ?thesis by simp
next
  case False
  then have ne: "xs \<noteq> []" "ys \<noteq> []" by auto
  show ?thesis
    by (rule join_tail_inj [OF piece stop ne ss ts eq])
qed

lemma elements_inj:
  assumes IH: "\<And>x w s t r r'. x \<in> set xs \<Longrightarrow> serialize x = Inr s \<Longrightarrow> serialize w = Inr t \<Longrightarrow>
      s @ r = t @ r' \<Longrightarrow> delimited r \<Longrightarrow> delimited r' \<Longrightarrow> jnorm x = jnorm w \<and> r = r'"
    and ss: "traverse serialize xs = Inr ss" and ts: "traverse serialize ys = Inr ts"
    and eq: "join [44] ss @ 93 # r = join [44] ts @ 93 # r'"
  shows "map jnorm xs = map jnorm ys \<and> r = r'"
proof -
  have "list_all2 (\<lambda>x y. jnorm x = jnorm y) xs ys \<and> r = r'"
    by (rule join_inj [OF IH _ _ _ _ ss ts eq]) (auto simp: is_digit_def dest: serialize_first)
  then show ?thesis by (simp add: list_all2_map_eq)
qed

text \<open>One member of an object, as the comprehension of \<open>_serialize\<close> writes it.\<close>

definition serialize_member :: "pystr \<times> pyval \<Rightarrow> pystr res" where
  "serialize_member kv = rmap (\<lambda>s. serialize_string (fst kv) @ 58 # s) (serialize (snd kv))"

lemma serialize_PDict:
  "serialize (PDict d) = rbind (traverse (\<lambda>kv. utf16_sort_key (fst kv)) d)
     (\<lambda>_. rmap (\<lambda>ss. 123 # join [44] ss @ [125]) (traverse serialize_member (sort_members d)))"
  by (simp add: serialize_member_def [abs_def])

lemma members_inj:
  assumes IH: "\<And>kv w s t r r'. kv \<in> set xs \<Longrightarrow> serialize (snd kv) = Inr s \<Longrightarrow> serialize w = Inr t \<Longrightarrow>
      s @ r = t @ r' \<Longrightarrow> delimited r \<Longrightarrow> delimited r' \<Longrightarrow> jnorm (snd kv) = jnorm w \<and> r = r'"
    and ss: "traverse serialize_member xs = Inr ss" and ts: "traverse serialize_member ys = Inr ts"
    and eq: "join [44] ss @ 125 # r = join [44] ts @ 125 # r'"
  shows "map (\<lambda>kv. (fst kv, jnorm (snd kv))) xs = map (\<lambda>kv. (fst kv, jnorm (snd kv))) ys \<and> r = r'"
proof -
  let ?P = "\<lambda>x y. (fst x, jnorm (snd x)) = (fst y, jnorm (snd y))"
  have piece: "?P x y \<and> r = r'"
    if "x \<in> set xs" "serialize_member x = Inr s" "serialize_member y = Inr t" "s @ r = t @ r'"
      "delimited r" "delimited r'" for x y :: "pystr \<times> pyval" and s t r r'
  proof -
    from that obtain s' t' where m: "serialize (snd x) = Inr s'" "serialize (snd y) = Inr t'"
      and "serialize_string (fst x) @ 58 # s' @ r = serialize_string (fst y) @ 58 # t' @ r'"
      by (auto simp: serialize_member_def pm_inv)
    with serialize_string_append_inj have "fst x = fst y" and "s' @ r = t' @ r'" by blast+
    with IH [OF that(1) m _ that(5,6)] show ?thesis by simp
  qed
  have "list_all2 ?P xs ys \<and> r = r'"
    by (rule join_inj [OF piece _ _ _ _ ss ts eq])
      (auto simp: is_digit_def serialize_member_def pm_inv serialize_string_def)
  then show ?thesis by (simp only: list_all2_map_eq)
qed

lemma sequence_inj:
  assumes IH: "\<And>x w s t r r'. x \<in> set xs \<Longrightarrow> serialize x = Inr s \<Longrightarrow> serialize w = Inr t \<Longrightarrow>
      s @ r = t @ r' \<Longrightarrow> delimited r \<Longrightarrow> delimited r' \<Longrightarrow> jnorm x = jnorm w \<and> r = r'"
    and v: "v = PList xs \<or> v = PTuple xs"
    and s: "serialize v = Inr s" and t: "serialize w = Inr t" and eq: "s @ r = t @ r'"
  shows "jnorm v = jnorm w \<and> r = r'"
proof -
  have "kind w = 91"
    using serialize_kind_eq [OF s t eq] v by auto
  then obtain ys where w: "w = PList ys \<or> w = PTuple ys"
    by (cases w) (auto split: if_splits)
  from s v obtain ss where ss: "traverse serialize xs = Inr ss" "s = 91 # join [44] ss @ [93]"
    by (auto simp: pm_inv)
  from t w obtain ts where ts: "traverse serialize ys = Inr ts" "t = 91 # join [44] ts @ [93]"
    by (auto simp: pm_inv)
  have "join [44] ss @ 93 # r = join [44] ts @ 93 # r'"
    using eq ss(2) ts(2) by simp
  from elements_inj [OF IH ss(1) ts(1) this] have "map jnorm xs = map jnorm ys \<and> r = r'" .
  moreover have "jnorm v = PList (map jnorm xs)" "jnorm w = PList (map jnorm ys)"
    using v w by auto
  ultimately show ?thesis by simp
qed

lemma object_inj:
  assumes IH: "\<And>kv w s t r r'. kv \<in> set (sort_members d) \<Longrightarrow> serialize (snd kv) = Inr s \<Longrightarrow>
      serialize w = Inr t \<Longrightarrow> s @ r = t @ r' \<Longrightarrow> delimited r \<Longrightarrow> delimited r' \<Longrightarrow>
      jnorm (snd kv) = jnorm w \<and> r = r'"
    and s: "serialize (PDict d) = Inr s" and t: "serialize w = Inr t" and eq: "s @ r = t @ r'"
  shows "jnorm (PDict d) = jnorm w \<and> r = r'"
proof -
  have "kind w = 123"
    using serialize_kind_eq [OF s t eq] by simp
  then obtain e where w: "w = PDict e"
    by (cases w) (auto split: if_splits)
  from s obtain ss where
    ss: "traverse serialize_member (sort_members d) = Inr ss" "s = 123 # join [44] ss @ [125]"
    unfolding serialize_PDict by (auto simp: pm_inv)
  from t obtain ts where
    ts: "traverse serialize_member (sort_members e) = Inr ts" "t = 123 # join [44] ts @ [125]"
    unfolding w serialize_PDict by (auto simp: pm_inv)
  have "join [44] ss @ 125 # r = join [44] ts @ 125 # r'"
    using eq ss(2) ts(2) by simp
  from members_inj [OF IH ss(1) ts(1) this] show ?thesis
    by (simp add: w sort_members_map)
qed

lemma number_inj:
  assumes "serialize (PInt i) = Inr s" and "serialize w = Inr t" and "s @ r = t @ r'"
    and "delimited r" and "delimited r'"
  shows "w = PInt i \<and> r = r'"
proof -
  have "kind w = 48"
    using serialize_kind_eq [OF assms(1-3)] by simp
  then obtain j where w: "w = PInt j"
    by (cases w) (auto split: if_splits)
  have "s = dec_int i" "t = dec_int j"
    using assms(1,2) w by (simp_all add: serialize_number_def split: if_splits)
  with dec_int_append_inj [of i r j r'] assms(3-5) w show ?thesis by simp
qed

lemma string_inj:
  assumes "serialize (PStr u) = Inr s" and "serialize w = Inr t" and "s @ r = t @ r'"
  shows "w = PStr u \<and> r = r'"
proof -
  have "kind w = 34"
    using serialize_kind_eq [OF assms] by simp
  then obtain u' where w: "w = PStr u'"
    by (cases w) (auto split: if_splits)
  have "serialize_string u @ r = serialize_string u' @ r'"
    using assms w by simp
  from serialize_string_append_inj [OF this] w show ?thesis by simp
qed

lemma literal_inj:
  assumes "v = PNone \<or> (\<exists>b. v = PBool b)"
    and "serialize v = Inr s" and "serialize w = Inr t" and "s @ r = t @ r'"
  shows "w = v \<and> r = r'"
proof -
  have "kind w = kind v"
    using serialize_kind_eq [OF assms(2-4)] by simp
  with assms(1) have "w = v"
    by (cases w) (auto split: if_splits)
  with assms(2-4) show ?thesis by simp
qed

lemma serialize_append_inj:
  "serialize v = Inr s \<Longrightarrow> serialize w = Inr t \<Longrightarrow> s @ r = t @ r' \<Longrightarrow> delimited r \<Longrightarrow> delimited r' \<Longrightarrow>
     jnorm v = jnorm w \<and> r = r'"
proof (induction v arbitrary: w s t r r' rule: serialize.induct)
  case 1
  from literal_inj [OF _ 1(1-3)] show ?case by simp
next
  case (2 b)
  from literal_inj [OF _ 2(1-3)] show ?case by simp
next
  case (3 u)
  from string_inj [OF 3(1-3)] show ?case by simp
next
  case (4 f)
  from 4(1) show ?case by (simp add: serialize_number_def)
next
  case (5 i)
  from number_inj [OF 5] show ?case by simp
next
  case (6 xs)
  show ?case by (rule sequence_inj [OF 6(1) _ 6(2-4)]) simp_all
next
  case (7 xs)
  show ?case by (rule sequence_inj [OF 7(1) _ 7(2-4)]) simp_all
next
  case (8 d)
  from 8(2) obtain ks where ks: "traverse (\<lambda>kv. utf16_sort_key (fst kv)) d = Inr ks"
    unfolding serialize_PDict by (auto simp: pm_inv)
  show ?case by (rule object_inj [OF 8(1) [OF ks] 8(2-4)])
next
  case (9 b)
  from 9(1) show ?case by simp
qed

subsection \<open>Order independence\<close>

lemma traverse_map: "traverse f (map g xs) = traverse (\<lambda>x. f (g x)) xs"
  by (induction xs) auto

lemma sort_members_idem [simp]: "sort_members (sort_members d) = sort_members d"
  by (simp add: sort_members_def sort_key_id_if_sorted)

lemma utf16_keys_Inl: "traverse (\<lambda>kv. utf16_sort_key (fst kv)) d =
    (if \<exists>kv \<in> set d. \<exists>c \<in> set (fst kv). surrogate c then Inl (Py UnicodeEncodeError)
     else Inr (map (\<lambda>kv. utf16_be (fst kv)) d))"
  by (induction d) (auto simp: utf16_sort_key_def)

lemma serialize_jnorm [simp]: "serialize (jnorm v) = serialize v"
proof (induction v rule: serialize.induct)
  case (8 d)
  let ?n = "\<lambda>kv. (fst kv, jnorm (snd kv))"
  have "serialize_member (?n kv) = serialize_member kv"
    if "kv \<in> set (sort_members d)" "\<not> (\<exists>kv \<in> set d. \<exists>c \<in> set (fst kv). surrogate c)" for kv
    using 8 [OF _ that(1)] that(2) by (simp add: serialize_member_def utf16_keys_Inl)
  then show ?case
    by (auto simp: serialize_PDict utf16_keys_Inl traverse_map sort_members_map [of jnorm]
        simp del: serialize.simps intro!: arg_cong [where f = "rmap _"] traverse_cong)
qed (auto simp: traverse_map intro!: arg_cong [where f = "rmap _"] traverse_cong)

text \<open>The first byte tells the length of a character's encoding.\<close>

lemma utf8_char_length:
  "length (utf8_char c) = (let h = hd (utf8_char c) in
     if h < 128 then 1 else if h < 224 then 2 else if h < 240 then 3 else 4)"
  by (auto simp: utf8_char_def Let_def less_mult_imp_div_less)

lemma split_64: "(a :: nat) = b \<longleftrightarrow> a div 64 = b div 64 \<and> a mod 64 = b mod 64"
  by (metis div_mult_mod_eq)

lemma utf8_char_inj:
  assumes "utf8_char c = utf8_char d"
  shows "c = d"
proof -
  have dd: "c div 4096 = c div 64 div 64" "d div 4096 = d div 64 div 64"
    "c div 262144 = c div 64 div 64 div 64" "d div 262144 = d div 64 div 64 div 64"
    by (simp_all add: div_mult2_eq [symmetric])
  have len: "length (utf8_char c) = length (utf8_char d)"
    using assms by simp
  consider "c < 128" "d < 128" | "128 \<le> c" "c < 2048" "128 \<le> d" "d < 2048"
    | "2048 \<le> c" "c < 65536" "2048 \<le> d" "d < 65536" | "65536 \<le> c" "65536 \<le> d"
    using len by (fastforce simp: utf8_char_def split: if_splits)
  then show ?thesis
  proof cases
    case 1
    with assms show ?thesis by (simp add: utf8_char_def)
  next
    case 2
    with assms show ?thesis by (simp add: utf8_char_def split_64 [of c d])
  next
    case 3
    with assms have "c div 64 div 64 = d div 64 div 64 \<and> c div 64 mod 64 = d div 64 mod 64 \<and> c mod 64 = d mod 64"
      by (simp add: utf8_char_def dd)
    then show ?thesis using split_64 by blast
  next
    case 4
    with assms have "c div 64 div 64 div 64 = d div 64 div 64 div 64 \<and>
        c div 64 div 64 mod 64 = d div 64 div 64 mod 64 \<and> c div 64 mod 64 = d div 64 mod 64 \<and> c mod 64 = d mod 64"
      by (simp add: utf8_char_def dd)
    then show ?thesis using split_64 by blast
  qed
qed

lemma utf8_char_append_inj:
  assumes "utf8_char c @ r = utf8_char d @ r'"
  shows "c = d \<and> r = r'"
proof -
  have "hd (utf8_char c) = hd (utf8_char d)"
    using assms by (auto simp: utf8_char_def split: if_splits)
  then have "length (utf8_char c) = length (utf8_char d)"
    by (simp add: utf8_char_length)
  with assms have "utf8_char c = utf8_char d" and "r = r'" by auto
  then show ?thesis using utf8_char_inj by blast
qed

lemma utf8_char_nonempty: "utf8_char c \<noteq> []"
  by (simp add: utf8_char_def)

lemma utf8_inj: "utf8 s = utf8 t \<Longrightarrow> s = t"
proof (induction s arbitrary: t)
  case Nil
  then show ?case by (cases t) (auto simp: utf8_def utf8_char_nonempty)
next
  case (Cons c s)
  then obtain d t' where t: "t = d # t'"
    by (cases t) (auto simp: utf8_def utf8_char_nonempty)
  with Cons.prems have "utf8_char c @ utf8 s = utf8_char d @ utf8 t'"
    by (simp add: utf8_def)
  from utf8_char_append_inj [OF this] Cons.IH t show ?case by blast
qed

subsection \<open>Which values canonicalize\<close>

text \<open>A text without a lone surrogate.\<close>

definition encodable :: "pystr \<Rightarrow> bool" where
  "encodable s \<longleftrightarrow> (\<forall>c \<in> set s. \<not> surrogate c)"

text \<open>Every value the serializer accepts, and nothing else: no float, no integer beyond
  2^53 - 1, no lone surrogate in a key or in a text.\<close>

fun jcs_ok :: "pyval \<Rightarrow> bool" where
  "jcs_ok PNone = True"
| "jcs_ok (PBool b) = True"
| "jcs_ok (PInt i) = (\<bar>i\<bar> \<le> 9007199254740991)"
| "jcs_ok (PFloat f) = False"
| "jcs_ok (PStr s) = encodable s"
| "jcs_ok (PBytes b) = False"
| "jcs_ok (PList xs) = (\<forall>x \<in> set xs. jcs_ok x)"
| "jcs_ok (PTuple xs) = (\<forall>x \<in> set xs. jcs_ok x)"
| "jcs_ok (PDict d) = (\<forall>kv \<in> set d. encodable (fst kv) \<and> jcs_ok (snd kv))"

lemma encodable_simps [simp]:
  "encodable []" "encodable (c # s) \<longleftrightarrow> \<not> surrogate c \<and> encodable s"
  "encodable (s @ t) \<longleftrightarrow> encodable s \<and> encodable t"
  by (auto simp: encodable_def)

lemma lit_encodable [simp]: "encodable (lit s)"
proof -
  have "\<not> surrogate (of_char c)" for c
    using nat_of_char_less_256 [of c] unfolding surrogate_def by linarith
  then show ?thesis by (simp add: encodable_def lit_def)
qed

lemma encodable_concat: "encodable (concat ss) \<longleftrightarrow> (\<forall>s \<in> set ss. encodable s)"
  by (auto simp: encodable_def)

lemma encodable_escape: "encodable (escape_char c) \<longleftrightarrow> \<not> surrogate c"
  using escape_char_cases [of c]
  by (auto simp: surrogate_def hex_digit_def short_escape_def encodable_def split: if_splits)

lemma encodable_string [simp]: "encodable (serialize_string s) \<longleftrightarrow> encodable s"
  by (simp add: serialize_string_def encodable_concat encodable_escape)
    (auto simp: encodable_def surrogate_def)

lemma encodable_join: "encodable (join [44] ss) \<longleftrightarrow> (\<forall>s \<in> set ss. encodable s)"
  by (induction "[44 :: nat]" ss rule: join.induct) (auto simp: surrogate_def)

lemma encodable_dec_int: "encodable (dec_int i)"
proof -
  have "encodable (dec_nat n)" for n
    using dec_nat_digits [of n] by (auto simp: encodable_def surrogate_def is_digit_def)
  then show ?thesis by (simp add: dec_int_def surrogate_def)
qed

lemma traverse_all_iff:
  assumes "\<And>x. x \<in> set xs \<Longrightarrow> (\<exists>s. f x = Inr s \<and> E s) \<longleftrightarrow> P x"
  shows "(\<exists>ss. traverse f xs = Inr ss \<and> (\<forall>s \<in> set ss. E s)) \<longleftrightarrow> (\<forall>x \<in> set xs. P x)"
  using assms
proof (induction xs)
  case (Cons x xs)
  have "(\<exists>ss. traverse f (x # xs) = Inr ss \<and> (\<forall>s \<in> set ss. E s)) \<longleftrightarrow>
      (\<exists>s. f x = Inr s \<and> E s) \<and> (\<exists>ss. traverse f xs = Inr ss \<and> (\<forall>s \<in> set ss. E s))"
    unfolding traverse_Inr_Cons by auto
  with Cons show ?case by auto
qed simp

lemma serialize_ok_iff: "(\<exists>s. serialize v = Inr s \<and> encodable s) \<longleftrightarrow> jcs_ok v"
proof (induction v rule: serialize.induct)
  case (6 xs)
  from traverse_all_iff [of xs serialize encodable jcs_ok, OF 6] show ?case
    by (auto simp: pm_inv encodable_join surrogate_def)
next
  case (7 xs)
  from traverse_all_iff [of xs serialize encodable jcs_ok, OF 7] show ?case
    by (auto simp: pm_inv encodable_join surrogate_def)
next
  case (8 d)
  show ?case
  proof (cases "\<exists>kv \<in> set d. \<exists>c \<in> set (fst kv). surrogate c")
    case True
    then show ?thesis
      by (auto simp: serialize_PDict utf16_keys_Inl encodable_def simp del: serialize.simps)
  next
    case False
    have m: "(\<exists>s. serialize_member kv = Inr s \<and> encodable s) \<longleftrightarrow> jcs_ok (snd kv)"
      if "kv \<in> set (sort_members d)" for kv
    proof -
      have ih: "(\<exists>s. serialize (snd kv) = Inr s \<and> encodable s) \<longleftrightarrow> jcs_ok (snd kv)"
        using 8 [OF _ that] False by (simp add: utf16_keys_Inl)
      have "encodable (fst kv)"
        using False that by (simp add: encodable_def)
      then show ?thesis
        using ih by (auto simp: serialize_member_def pm_inv surrogate_def)
    qed
    from traverse_all_iff [of "sort_members d" serialize_member encodable "\<lambda>kv. jcs_ok (snd kv)", OF m] False show ?thesis
      by (auto simp: serialize_PDict utf16_keys_Inl pm_inv encodable_join surrogate_def
          encodable_def [of "fst _"] simp del: serialize.simps)
  qed
qed (auto simp: serialize_number_def max_safe_integer_def encodable_dec_int surrogate_def lit_def)

lemma canonicalize_ok_iff: "(\<exists>b. canonicalize v = Inr b) \<longleftrightarrow> jcs_ok v"
  unfolding serialize_ok_iff [symmetric]
  by (auto simp: canonicalize_def encode_utf8_def encodable_def pm_inv)

lemma serialize_errors:
  "serialize v = Inl e \<Longrightarrow> e \<in> {Canon JcsError, Py UnicodeEncodeError}"
proof (induction v rule: serialize.induct)
  case (8 d)
  show ?case
  proof (cases "\<exists>kv \<in> set d. \<exists>c \<in> set (fst kv). surrogate c")
    case True
    with 8(2) show ?thesis by (auto simp: serialize_PDict utf16_keys_Inl simp del: serialize.simps)
  next
    case False
    with 8(2) have "traverse serialize_member (sort_members d) = Inl e"
      by (auto simp: serialize_PDict utf16_keys_Inl rmap_Inl_iff simp del: serialize.simps)
    from traverse_Inl_from [OF this] obtain kv where
      kv: "kv \<in> set (sort_members d)" "serialize (snd kv) = Inl e"
      by (auto simp: serialize_member_def rmap_Inl_iff)
    from 8(1) [OF _ this] False show ?thesis by (simp add: utf16_keys_Inl)
  qed
qed (auto simp: serialize_number_def rmap_Inl_iff dest!: traverse_Inl_from split: if_splits)

lemma canonicalize_errors:
  "canonicalize v = Inl e \<Longrightarrow> e \<in> {Canon JcsError, Py UnicodeEncodeError}"
  using serialize_errors [of v e]
  by (auto simp: canonicalize_def encode_utf8_def rbind_Inl_iff split: if_splits)

subsection \<open>The order of the members\<close>

lemma utf16_char_append_inj:
  assumes "utf16_char c @ r = utf16_char d @ r'" "\<not> surrogate c" "\<not> surrogate d"
    "c < 1114112" "d < 1114112"
  shows "c = d \<and> r = r'"
proof -
  have s: "a = b" if "a div 256 = b div 256" "a mod 256 = b mod (256 :: nat)" for a b
    using that by (metis div_mult_mod_eq)
  have k: "a = b" if "a div 1024 = b div 1024" "a mod 1024 = b mod (1024 :: nat)" for a b
    using that by (metis div_mult_mod_eq)
  have hi: "55296 + (x - 65536) div 1024 < 57344" if "x < 1114112" for x :: nat
  proof -
    have "(x - 65536) div 1024 < 1024" using that by (intro less_mult_imp_div_less) simp
    then show ?thesis by simp
  qed
  consider "c < 65536" "d < 65536" | "65536 \<le> c" "65536 \<le> d"
    | "c < 65536" "65536 \<le> d" | "65536 \<le> c" "d < 65536" by linarith
  then show ?thesis
  proof cases
    case 1
    with assms s [of c d] show ?thesis by (simp add: utf16_char_def)
  next
    case 2
    let ?c = "c - 65536" and ?d = "d - 65536"
    have n: "\<not> c < 65536" "\<not> d < 65536"
      using 2 by simp_all
    have e: "(55296 + ?c div 1024) div 256 = (55296 + ?d div 1024) div 256"
      "(55296 + ?c div 1024) mod 256 = (55296 + ?d div 1024) mod 256"
      "(56320 + ?c mod 1024) div 256 = (56320 + ?d mod 1024) div 256"
      "(56320 + ?c mod 1024) mod 256 = (56320 + ?d mod 1024) mod 256" and r: "r = r'"
      using assms(1) n unfolding utf16_char_def Let_def
      by (simp_all only: if_False append_Cons append_Nil list.inject)
    have "55296 + ?c div 1024 = 55296 + ?d div 1024" "56320 + ?c mod 1024 = 56320 + ?d mod 1024"
      by (rule s [OF e(1,2)], rule s [OF e(3,4)])
    then have "?c div 1024 = ?d div 1024" "?c mod 1024 = ?d mod 1024"
      by (simp_all only: add_left_cancel)
    then have "?c = ?d" by (rule k)
    then have "c = d" using 2 by linarith
    with r show ?thesis by simp
  next
    case 3
    with assms(1) have "c div 256 = (55296 + (d - 65536) div 1024) div 256"
      "c mod 256 = (55296 + (d - 65536) div 1024) mod 256"
      by (simp_all add: utf16_char_def Let_def)
    from s [OF this] hi [OF assms(5)] assms(2) show ?thesis by (simp add: surrogate_def)
  next
    case 4
    with assms(1) have "d div 256 = (55296 + (c - 65536) div 1024) div 256"
      "d mod 256 = (55296 + (c - 65536) div 1024) mod 256"
      by (simp_all add: utf16_char_def Let_def)
    from s [OF this] hi [OF assms(4)] assms(3) show ?thesis by (simp add: surrogate_def)
  qed
qed

lemma utf16_be_inj:
  "utf16_be s = utf16_be t \<Longrightarrow> wf_str s \<Longrightarrow> wf_str t \<Longrightarrow> encodable s \<Longrightarrow> encodable t \<Longrightarrow> s = t"
proof (induction s arbitrary: t)
  case Nil
  then show ?case by (cases t) (auto simp: utf16_be_def utf16_char_def Let_def split: if_splits)
next
  case (Cons c s)
  then obtain d t' where t: "t = d # t'"
    by (cases t) (auto simp: utf16_be_def utf16_char_def Let_def split: if_splits)
  with Cons.prems have "utf16_char c @ utf16_be s = utf16_char d @ utf16_be t'"
    by (simp add: utf16_be_def)
  from utf16_char_append_inj [OF this] Cons t show ?case by simp
qed

lemma sort_members_perm:
  assumes "mset d = mset e" and "distinct (map fst d)"
    and "\<forall>kv \<in> set d. wf_str (fst kv) \<and> encodable (fst kv)"
  shows "sort_members d = sort_members e"
proof -
  let ?f = "\<lambda>kv :: pystr \<times> 'a. utf16_be (fst kv)"
  have set_eq: "set e = set d"
    using assms(1) by (metis mset_eq_setD)
  have inj: "inj_on ?f (set d)"
  proof (rule inj_onI)
    fix x y assume xy: "x \<in> set d" "y \<in> set d" "?f x = ?f y"
    with assms(3) utf16_be_inj have "fst x = fst y" by blast
    with assms(2) xy(1,2) show "x = y"
      by (metis eq_key_imp_eq_value prod.collapse)
  qed
  have dd: "distinct d" and de: "distinct e"
    using assms(1,2) by (auto simp: distinct_map dest: mset_eq_imp_distinct_iff)
  have "map ?f (sort_members d) = map ?f (sort_members e)"
  proof (rule sorted_distinct_set_unique)
    show "sorted (map ?f (sort_members d))" "sorted (map ?f (sort_members e))"
      by (simp_all add: sort_members_def)
    show "distinct (map ?f (sort_members d))" "distinct (map ?f (sort_members e))"
      using dd de inj set_eq by (simp_all add: sort_members_def distinct_map)
    show "set (map ?f (sort_members d)) = set (map ?f (sort_members e))"
      using set_eq by simp
  qed
  moreover have "inj_on ?f (set (sort_members d) \<union> set (sort_members e))"
    using inj set_eq by simp
  ultimately show ?thesis
    using inj_on_map_eq_map by blast
qed

lemma serialize_perm:
  assumes "mset d = mset e" and "wf_val (PDict d)"
  shows "serialize (PDict d) = serialize (PDict e)"
proof (cases "\<exists>kv \<in> set d. \<exists>c \<in> set (fst kv). surrogate c")
  case True
  moreover have "set e = set d"
    using assms(1) by (metis mset_eq_setD)
  ultimately show ?thesis
    by (simp add: serialize_PDict utf16_keys_Inl del: serialize.simps)
next
  case False
  moreover have "set e = set d"
    using assms(1) by (metis mset_eq_setD)
  moreover have "sort_members d = sort_members e"
    using assms False by (intro sort_members_perm) (auto simp: encodable_def)
  ultimately show ?thesis
    by (simp add: serialize_PDict utf16_keys_Inl del: serialize.simps)
qed

lemma canonicalize_inj:
  assumes "canonicalize v = Inr a" and "canonicalize w = Inr a"
  shows "jnorm v = jnorm w"
proof -
  from assms obtain s t where "serialize v = Inr s" "serialize w = Inr t" "utf8 s = utf8 t"
    by (auto simp: canonicalize_def encode_utf8_def pm_inv split: if_splits)
  with serialize_append_inj [of v s w t "[]" "[]"] utf8_inj show ?thesis
    by (simp add: delimited_def)
qed

subsection \<open>Properties\<close>

text \<open>
  C15. Canonical bytes are a complete invariant of the value: two values that canonicalize
  have the same bytes exactly when they are the same value up to the order of the members of
  each object (and list against tuple).  The digest of the bytes can therefore collide only
  where SHA-256 does: a payload the operator approved and a different one never share bytes.
\<close>

theorem canonicalize_complete_invariant:
  assumes "canonicalize v = Inr a" and "canonicalize w = Inr b"
  shows "a = b \<longleftrightarrow> jnorm v = jnorm w"
proof
  assume "a = b"
  with assms canonicalize_inj show "jnorm v = jnorm w" by blast
next
  assume "jnorm v = jnorm w"
  then have "serialize v = serialize w"
    by (metis serialize_jnorm)
  with assms show "a = b"
    by (simp add: canonicalize_def)
qed

theorem canonicalize_complete_invariant_witness:
  "let v = PDict [(lit ''b'', PInt 1), (lit ''a'', PStr (lit ''x''))];
       w = PDict [(lit ''a'', PStr (lit ''x'')), (lit ''b'', PInt 1)];
       b = map of_char (''{'' @ [CHR 0x22] @ ''a'' @ [CHR 0x22] @ '':'' @ [CHR 0x22] @ ''x'' @ [CHR 0x22]
             @ '','' @ [CHR 0x22] @ ''b'' @ [CHR 0x22] @ '':1}'')
   in canonicalize v = Inr b \<and> canonicalize w = Inr b \<and> jnorm v = jnorm w"
proof -
  let ?v = "PDict [(lit ''b'', PInt 1), (lit ''a'', PStr (lit ''x''))]"
  let ?w = "PDict [(lit ''a'', PStr (lit ''x'')), (lit ''b'', PInt 1)]"
  let ?b = "map of_char (''{'' @ [CHR 0x22] @ ''a'' @ [CHR 0x22] @ '':'' @ [CHR 0x22] @ ''x'' @ [CHR 0x22]
             @ '','' @ [CHR 0x22] @ ''b'' @ [CHR 0x22] @ '':1}'') :: nat list"
  have "canonicalize ?v = Inr ?b" "canonicalize ?w = Inr ?b"
    by code_simp+
  with canonicalize_complete_invariant [of ?v ?b ?w ?b] show ?thesis
    by (simp add: Let_def)
qed

text \<open>
  The order in which a caller or \<open>json.loads\<close> puts the members of an object never
  reaches the bytes or the digest: permuted members give the same outcome, errors included.
\<close>

theorem canonicalize_member_order:
  assumes "mset d = mset e" and "wf_val (PDict d)"
  shows "canonicalize (PDict d) = canonicalize (PDict e) \<and> digest H (PDict d) = digest H (PDict e)"
  using serialize_perm [OF assms] by (simp add: canonicalize_def digest_def del: serialize.simps)

theorem canonicalize_member_order_witness:
  "canonicalize (PDict [(lit ''b'', PInt 1), (lit ''a'', PNone)]) =
   canonicalize (PDict [(lit ''a'', PNone), (lit ''b'', PInt 1)])"
  using canonicalize_member_order [of "[(lit ''b'', PInt 1), (lit ''a'', PNone)]"
      "[(lit ''a'', PNone), (lit ''b'', PInt 1)]" "\<lambda>b. b"]
  by (simp add: lit_def del: serialize.simps)

text \<open>
  The domain of the canonicalizer: it returns bytes exactly for the values without
  floats, without integers beyond the safe range and without lone surrogates, and otherwise
  it raises \<open>JcsError\<close> or the codec's \<open>UnicodeEncodeError\<close>, never anything else.
\<close>

theorem canonicalize_domain:
  "(\<exists>b. canonicalize v = Inr b) = jcs_ok v \<and>
   canonicalize v \<in> Inr ` UNIV \<union> {Inl (Canon JcsError), Inl (Py UnicodeEncodeError)}"
  using canonicalize_ok_iff [of v] canonicalize_errors [of v]
  by (cases "canonicalize v") auto

end
