(* ===== verification/Capability.thy ===== *)
theory Capability
  imports Jcs
begin

text \<open>
  \<open>authz/capability.py\<close>: the signed artifact envelope, the bytes a signature covers, and the closed
  parser of a grant body.  Ed25519 is not part of the repository: a key pair is the record of
  functions \<open>ed25519\<close>, and what the theorems need of it is stated where it is needed.
  \<open>datetime.fromisoformat\<close> accepts more texts on the deployment host's interpreter than on the
  development one, so it is a parameter too: \<open>isoparse t\<close> is \<open>None\<close> where it raises \<open>ValueError\<close>, and otherwise
  whether the time carries a zone, with \<open>int(dt.timestamp())\<close>.
\<close>

subsection \<open>Texts\<close>

text \<open>\<open>bytes.fromhex\<close>: pairs of hexadecimal digits, white space allowed between the pairs.\<close>

definition ascii_space :: "nat \<Rightarrow> bool" where
  "ascii_space c \<longleftrightarrow> 9 \<le> c \<and> c \<le> 13 \<or> c = 32"

definition hex_value :: "nat \<Rightarrow> nat option" where
  "hex_value c = (if 48 \<le> c \<and> c \<le> 57 then Some (c - 48) else if 97 \<le> c \<and> c \<le> 102 then Some (c - 87)
     else if 65 \<le> c \<and> c \<le> 70 then Some (c - 55) else None)"

fun bytes_fromhex :: "pystr \<Rightarrow> bytes option" where
  "bytes_fromhex [] = Some []"
| "bytes_fromhex [c] = (if ascii_space c then Some [] else None)"
| "bytes_fromhex (c # d # s) =
     (if ascii_space c then bytes_fromhex (d # s)
      else case hex_value c of None \<Rightarrow> None
      | Some a \<Rightarrow> (case hex_value d of None \<Rightarrow> None
        | Some b \<Rightarrow> map_option ((#) (16 * a + b)) (bytes_fromhex s)))"

text \<open>\<open>b.hex()\<close>.\<close>

definition bytes_hex :: "bytes \<Rightarrow> pystr" where
  "bytes_hex b = concat (map (\<lambda>x. [hex_digit (x div 16), hex_digit (x mod 16)]) b)"

lemma hex_value_digit: "d < 16 \<Longrightarrow> hex_value (hex_digit d) = Some d"
  by (auto simp: hex_value_def hex_digit_def)

lemma hex_digit_not_space: "\<not> ascii_space (hex_digit d)"
  by (auto simp: ascii_space_def hex_digit_def)

lemma fromhex_hex: "\<forall>x \<in> set b. x < 256 \<Longrightarrow> bytes_fromhex (bytes_hex b) = Some b"
  by (induction b) (auto simp: bytes_hex_def hex_value_digit hex_digit_not_space less_mult_imp_div_less)

text \<open>\<open>re.match\<close> with a pattern that ends in \<open>$\<close>: the dollar also matches before one final newline.\<close>

definition match_to_dollar :: "(pystr \<Rightarrow> bool) \<Rightarrow> pystr \<Rightarrow> bool" where
  "match_to_dollar whole s \<longleftrightarrow> whole s \<or> s \<noteq> [] \<and> last s = 10 \<and> whole (butlast s)"

text \<open>\<open>0|[1-9][0-9]*\<close> and \<open>[0-9a-f]{32}\<close>.\<close>

definition decimal_text :: "pystr \<Rightarrow> bool" where
  "decimal_text s \<longleftrightarrow> s \<noteq> [] \<and> list_all is_digit s \<and> (hd s = 48 \<longrightarrow> s = [48])"

definition lower_hex :: "nat \<Rightarrow> bool" where
  "lower_hex c \<longleftrightarrow> is_digit c \<or> 97 \<le> c \<and> c \<le> 102"

definition grant_id_text :: "pystr \<Rightarrow> bool" where
  "grant_id_text s \<longleftrightarrow> length s = 32 \<and> list_all lower_hex s"

definition canonical_decimal :: "pystr \<Rightarrow> bool" where
  "canonical_decimal = match_to_dollar decimal_text"

definition grant_id_hex :: "pystr \<Rightarrow> bool" where
  "grant_id_hex = match_to_dollar grant_id_text"

text \<open>\<open>int(s)\<close> of a text that \<open>canonical_decimal\<close> accepts: the final newline is white space, and
  the interpreter refuses more than 4300 digits.\<close>

definition int_max_str_digits :: nat where
  "int_max_str_digits = 4300"

definition decimal_digits :: "pystr \<Rightarrow> pystr" where
  "decimal_digits s = (if last s = 10 then butlast s else s)"

definition int_of_decimal :: "pystr \<Rightarrow> int res" where
  "int_of_decimal s =
     (if int_max_str_digits < length (decimal_digits s) then Inl (Py ValueError)
      else Inr (int (digits_value (decimal_digits s))))"

lemma dec_nat_hd: "hd (dec_nat n) = 48 \<Longrightarrow> n = 0"
proof (induction n rule: dec_nat.induct)
  case (1 n)
  then show ?case
    by (cases "n < 10") (auto simp: dec_nat.simps [of n] hd_append)
qed

lemma decimal_dec_nat: "decimal_text (dec_nat n)"
  using dec_nat_digits [of n] dec_nat_hd [of n]
  by (auto simp: decimal_text_def list_all_iff dec_nat.simps [of 0])

lemma canonical_dec_nat: "canonical_decimal (dec_nat n)"
  by (simp add: canonical_decimal_def match_to_dollar_def decimal_dec_nat)

lemma dec_nat_no_newline: "last (dec_nat n) \<noteq> 10"
  using dec_nat_digits [of n] last_in_set [OF dec_nat_nonempty, of n] by (force simp: is_digit_def)

lemma int_of_dec_nat:
  "length (dec_nat n) \<le> int_max_str_digits \<Longrightarrow> int_of_decimal (dec_nat n) = Inr (int n)"
  by (simp add: int_of_decimal_def decimal_digits_def dec_nat_no_newline)

subsection \<open>What a signature covers\<close>

record ed25519 =
  ed_verify :: "bytes \<Rightarrow> bytes \<Rightarrow> bytes \<Rightarrow> bool"   \<comment> \<open>public key, signature, message\<close>
  ed_load :: "bytes \<Rightarrow> bytes option"                \<comment> \<open>\<open>from_public_bytes\<close>\<close>
  ed_public :: "bytes \<Rightarrow> bytes"                     \<comment> \<open>the public key of a private one\<close>
  ed_sign :: "bytes \<Rightarrow> bytes \<Rightarrow> bytes"              \<comment> \<open>private key, message\<close>

definition domain_prefix :: bytes where
  "domain_prefix = lit ''puffo-authz/''"

definition domain_suffix :: bytes where
  "domain_suffix = lit ''/v1'' @ [0]"

definition domain_tag :: "pystr \<Rightarrow> bytes res" where
  "domain_tag ty = rmap (\<lambda>t. domain_prefix @ t @ domain_suffix) (encode_utf8 ty)"

definition signing_input :: "pystr \<Rightarrow> dict \<Rightarrow> bytes res" where
  "signing_input ty body =
     rbind (domain_tag ty) (\<lambda>tag. rmap (\<lambda>b. tag @ b) (canonicalize (PDict body)))"

subsection \<open>Envelope and grant\<close>

datatype subject_kind = OS_ACCOUNT | AGENT_KEY

fun subject_kind_value :: "subject_kind \<Rightarrow> pystr" where
  "subject_kind_value OS_ACCOUNT = lit ''os_account''"
| "subject_kind_value AGENT_KEY = lit ''agent_key''"

datatype approval_mode = AUTO | PER_CALL

fun approval_mode_value :: "approval_mode \<Rightarrow> pystr" where
  "approval_mode_value AUTO = lit ''auto''"
| "approval_mode_value PER_CALL = lit ''per_call''"

record subject =
  sj_kind :: subject_kind
  sj_machine_id :: "pystr option"
  sj_account :: "pystr option"
  sj_agent_pubkey_hex :: "pystr option"
  sj_agent_slug :: "pystr option"

record grant =
  gr_grant_id :: pystr
  gr_grant_version :: pystr
  gr_grant_version_int :: int
  gr_issuer_fp :: pystr
  gr_subject :: subject
  gr_tool :: pystr
  gr_action :: pystr
  gr_scope :: dict
  gr_approval_mode :: approval_mode
  gr_valid_from :: int
  gr_valid_until :: int
  gr_state_version :: pystr

definition permits_auto :: "grant \<Rightarrow> bool" where
  "permits_auto g \<longleftrightarrow> gr_approval_mode g = AUTO"

abbreviation cert_error :: exn where
  "cert_error \<equiv> Authz (CertificateError None)"

definition missing_approval_mode :: pystr where
  "missing_approval_mode = lit ''missing_approval_mode''"

text \<open>\<open>set(d) - allowed\<close> is empty.\<close>

definition closed_keys :: "dict \<Rightarrow> pystr list \<Rightarrow> unit res" where
  "closed_keys d allowed = rguard (list_all (\<lambda>kv. fst kv \<in> set allowed) d) cert_error"

definition parse_envelope :: "pyval \<Rightarrow> (pystr \<times> dict \<times> bytes) res" where
  "parse_envelope env = (case env of
     PDict e \<Rightarrow>
       rbind (closed_keys e [lit ''v'', lit ''type'', lit ''body'', lit ''sig'']) (\<lambda>_.
       rbind (rguard (py_eq_int (dget e (lit ''v'')) 1) cert_error) (\<lambda>_.
       case dget e (lit ''type'') of
         PStr ty \<Rightarrow> (if ty = [] then Inl cert_error else
           (case dget e (lit ''body'') of
              PDict body \<Rightarrow>
                (case dget e (lit ''sig'') of
                   PStr sig_hex \<Rightarrow>
                     (case bytes_fromhex sig_hex of
                        None \<Rightarrow> Inl cert_error
                      | Some sig \<Rightarrow> Inr (ty, body, sig))
                 | _ \<Rightarrow> Inl cert_error)
            | _ \<Rightarrow> Inl cert_error))
       | _ \<Rightarrow> Inl cert_error))
   | _ \<Rightarrow> Inl cert_error)"

definition require_text :: "dict \<Rightarrow> pystr \<Rightarrow> pystr res" where
  "require_text d key = (case dget d key of
     PStr v \<Rightarrow> (if v = [] then Inl cert_error else Inr v) | _ \<Rightarrow> Inl cert_error)"

definition require_grant_id :: "dict \<Rightarrow> pystr res" where
  "require_grant_id d = rbind (require_text d (lit ''grant_id'')) (\<lambda>s.
     if grant_id_hex s then Inr s else Inl cert_error)"

definition require_decimal_str :: "dict \<Rightarrow> pystr \<Rightarrow> (pystr \<times> int) res" where
  "require_decimal_str d key = rbind (require_text d key) (\<lambda>s.
     if canonical_decimal s then rmap (\<lambda>i. (s, i)) (int_of_decimal s) else Inl cert_error)"

definition parse_scope :: "pyval \<Rightarrow> dict res" where
  "parse_scope scope = (case scope of
     PDict s \<Rightarrow>
       rbind (require_text s (lit ''from_account'')) (\<lambda>_.
       rbind (closed_keys s [lit ''from_account'']) (\<lambda>_. Inr s))
   | _ \<Rightarrow> Inl cert_error)"

definition subject_kind_of :: "pyval \<Rightarrow> subject_kind res" where
  "subject_kind_of v =
     (if v = PStr (subject_kind_value OS_ACCOUNT) then Inr OS_ACCOUNT
      else if v = PStr (subject_kind_value AGENT_KEY) then Inr AGENT_KEY else Inl cert_error)"

fun subject_keys :: "subject_kind \<Rightarrow> pystr list" where
  "subject_keys OS_ACCOUNT = [lit ''kind'', lit ''machine_id'', lit ''account'']"
| "subject_keys AGENT_KEY = [lit ''kind'', lit ''agent_pubkey'', lit ''agent_slug'']"

definition parse_subject :: "pyval \<Rightarrow> subject res" where
  "parse_subject v = (case v of
     PDict s \<Rightarrow>
       rbind (subject_kind_of (dget s (lit ''kind''))) (\<lambda>kind.
       rbind (closed_keys s (subject_keys kind)) (\<lambda>_.
       case kind of
         OS_ACCOUNT \<Rightarrow>
           rbind (require_text s (lit ''machine_id'')) (\<lambda>m.
           rbind (require_text s (lit ''account'')) (\<lambda>a.
           Inr \<lparr>sj_kind = kind, sj_machine_id = Some m, sj_account = Some a,
             sj_agent_pubkey_hex = None, sj_agent_slug = None\<rparr>))
       | AGENT_KEY \<Rightarrow>
           rbind (require_text s (lit ''agent_pubkey'')) (\<lambda>k.
           rbind (require_text s (lit ''agent_slug'')) (\<lambda>n.
           Inr \<lparr>sj_kind = kind, sj_machine_id = None, sj_account = None,
             sj_agent_pubkey_hex = Some k, sj_agent_slug = Some n\<rparr>))))
   | _ \<Rightarrow> Inl cert_error)"

definition parse_approval_mode :: "dict \<Rightarrow> approval_mode res" where
  "parse_approval_mode body = (case map_of body (lit ''approval_mode'') of
     None \<Rightarrow> Inl (Authz (CertificateError (Some missing_approval_mode)))
   | Some v \<Rightarrow> (if v = PStr (approval_mode_value AUTO) then Inr AUTO
       else if v = PStr (approval_mode_value PER_CALL) then Inr PER_CALL else Inl cert_error))"

type_synonym iso_parser = "pystr \<Rightarrow> (bool \<times> int) option"

text \<open>A final \<open>Z\<close> (90) is replaced by an explicit zero offset.\<close>

definition zulu_offset :: "pystr \<Rightarrow> pystr" where
  "zulu_offset s = (if s \<noteq> [] \<and> last s = 90 then butlast s @ lit ''+00:00'' else s)"

definition parse_rfc3339 :: "iso_parser \<Rightarrow> dict \<Rightarrow> pystr \<Rightarrow> int res" where
  "parse_rfc3339 isoparse body key = rbind (require_text body key) (\<lambda>s.
     case isoparse (zulu_offset s) of
       None \<Rightarrow> Inl cert_error
     | Some (aware, ts) \<Rightarrow> (if aware then Inr ts else Inl cert_error))"

definition grant_body_keys :: "pystr list" where
  "grant_body_keys = [lit ''grant_id'', lit ''grant_version'', lit ''state_version'', lit ''issuer_fp'',
     lit ''subject'', lit ''tool'', lit ''action'', lit ''scope'', lit ''approval_mode'', lit ''valid_from'',
     lit ''valid_until'']"

definition parse_grant_body :: "iso_parser \<Rightarrow> dict \<Rightarrow> grant res" where
  "parse_grant_body isoparse body =
     rbind (closed_keys body grant_body_keys) (\<lambda>_.
     rbind (require_grant_id body) (\<lambda>grant_id.
     rbind (require_decimal_str body (lit ''grant_version'')) (\<lambda>(grant_version, grant_version_int).
     rbind (require_text body (lit ''issuer_fp'')) (\<lambda>issuer_fp.
     rbind (require_decimal_str body (lit ''state_version'')) (\<lambda>(state_version, _).
     rbind (require_text body (lit ''tool'')) (\<lambda>tool.
     rbind (require_text body (lit ''action'')) (\<lambda>action.
     rbind (rguard (tool = lit ''gmail'' \<and> action = lit ''send'') cert_error) (\<lambda>_.
     rbind (parse_scope (dget body (lit ''scope''))) (\<lambda>scope.
     rbind (parse_subject (dget body (lit ''subject''))) (\<lambda>sub.
     rbind (parse_approval_mode body) (\<lambda>mode.
     rbind (parse_rfc3339 isoparse body (lit ''valid_from'')) (\<lambda>valid_from.
     rbind (parse_rfc3339 isoparse body (lit ''valid_until'')) (\<lambda>valid_until.
     rbind (rguard (valid_from < valid_until) cert_error) (\<lambda>_.
     Inr \<lparr>gr_grant_id = grant_id, gr_grant_version = grant_version,
       gr_grant_version_int = grant_version_int, gr_issuer_fp = issuer_fp, gr_subject = sub,
       gr_tool = tool, gr_action = action, gr_scope = scope, gr_approval_mode = mode,
       gr_valid_from = valid_from, gr_valid_until = valid_until,
       gr_state_version = state_version\<rparr>))))))))))))))"

subsection \<open>A signature belongs to one kind of artifact and one body\<close>

lemma join_set: "set (join sep ss) \<subseteq> set sep \<union> \<Union> (set ` set ss)"
  by (induction sep ss rule: join.induct) auto

lemma escape_char_printable: "x \<in> set (escape_char c) \<Longrightarrow> 32 \<le> x"
  using escape_char_cases [of c]
  by (auto simp: hex_digit_def short_escape_def split: if_splits)

lemma serialize_string_printable: "\<forall>c \<in> set (serialize_string s). 32 \<le> c"
  using escape_char_printable by (auto simp: serialize_string_def)

lemma dec_int_printable: "\<forall>c \<in> set (dec_int i). 32 \<le> c"
  using dec_nat_digits [of "nat i"] dec_nat_digits [of "nat (- i)"] by (auto simp: dec_int_def is_digit_def)

lemma join_printable:
  "(\<And>s. s \<in> set ss \<Longrightarrow> \<forall>c \<in> set s. 32 \<le> c) \<Longrightarrow> \<forall>c \<in> set (join [44] ss). (32 :: nat) \<le> c"
  using join_set [of "[44]" ss] by fastforce

text \<open>The canonical text has no control character, so its bytes have no zero.\<close>

lemma serialize_printable: "serialize v = Inr s \<Longrightarrow> \<forall>c \<in> set s. 32 \<le> c"
proof (induction v arbitrary: s rule: serialize.induct)
  case (6 xs)
  then obtain ss where ss: "traverse serialize xs = Inr ss" "s = 91 # join [44] ss @ [93]"
    by (auto simp: pm_inv)
  with 6(1) have "\<forall>c \<in> set (join [44] ss). 32 \<le> c"
    by (intro join_printable) (auto dest!: traverse_Inr_from)
  with ss show ?case by auto
next
  case (7 xs)
  then obtain ss where ss: "traverse serialize xs = Inr ss" "s = 91 # join [44] ss @ [93]"
    by (auto simp: pm_inv)
  with 7(1) have "\<forall>c \<in> set (join [44] ss). 32 \<le> c"
    by (intro join_printable) (auto dest!: traverse_Inr_from)
  with ss show ?case by auto
next
  case (8 d)
  then obtain ks ss where ks: "traverse (\<lambda>kv. utf16_sort_key (fst kv)) d = Inr ks"
    and ss: "traverse serialize_member (sort_members d) = Inr ss" "s = 123 # join [44] ss @ [125]"
    by (auto simp: serialize_PDict pm_inv simp del: serialize.simps)
  have "\<forall>c \<in> set m. 32 \<le> c" if "m \<in> set ss" for m
  proof -
    from traverse_Inr_from [OF ss(1) that] obtain kv where
      kv: "kv \<in> set (sort_members d)" "serialize_member kv = Inr m" by blast
    then obtain t where t: "serialize (snd kv) = Inr t" "m = serialize_string (fst kv) @ 58 # t"
      by (auto simp: serialize_member_def pm_inv)
    from 8(1) [OF ks kv(1) t(1)] t(2) serialize_string_printable [of "fst kv"] show ?thesis by auto
  qed
  then have "\<forall>c \<in> set (join [44] ss). 32 \<le> c" by (rule join_printable)
  with ss show ?case by auto
qed (use serialize_string_printable dec_int_printable in
    \<open>auto simp: serialize_number_def lit_def split: if_splits\<close>)

lemma utf8_char_nonzero: "0 < c \<Longrightarrow> 0 \<notin> set (utf8_char c)"
  by (auto simp: utf8_char_def)

lemma canonicalize_nonzero: "canonicalize v = Inr b \<Longrightarrow> 0 \<notin> set b"
  using serialize_printable [of v] utf8_char_nonzero
  by (fastforce simp: canonicalize_def encode_utf8_def utf8_def pm_inv split: if_splits)

lemma last_zero_split:
  assumes "a @ (0 :: nat) # b = c @ 0 # d" "0 \<notin> set b" "0 \<notin> set d"
  shows "a = c \<and> b = d"
proof -
  have t: "takeWhile (\<lambda>x. x \<noteq> 0) (rev y @ 0 # rev x) = rev y" if "0 \<notin> set y" for x y :: "nat list"
    using that by (subst takeWhile_append2) (auto intro: gr0I)
  have "rev b @ 0 # rev a = rev d @ 0 # rev c"
    using arg_cong [OF assms(1), of rev] by simp
  with t [OF assms(2), of a] t [OF assms(3), of c] have "rev b = rev d" by metis
  with assms(1) show ?thesis by simp
qed

lemma signing_input_Inr:
  "signing_input ty body = Inr m \<longleftrightarrow>
     (\<exists>b. encodable ty \<and> canonicalize (PDict body) = Inr b \<and>
        m = (domain_prefix @ utf8 ty @ lit ''/v1'') @ 0 # b)"
  by (auto simp: signing_input_def domain_tag_def encode_utf8_def encodable_def domain_suffix_def pm_inv)

text \<open>The signed bytes determine the type and the body, up to the order of the members.\<close>

lemma signing_input_inj:
  assumes "signing_input ty body = Inr m" and "signing_input ty' body' = Inr m"
  shows "ty = ty' \<and> jnorm (PDict body) = jnorm (PDict body')"
proof -
  from assms obtain b b' where b: "canonicalize (PDict body) = Inr b" "canonicalize (PDict body') = Inr b'"
    and eq: "(domain_prefix @ utf8 ty @ lit ''/v1'') @ 0 # b = (domain_prefix @ utf8 ty' @ lit ''/v1'') @ 0 # b'"
    by (auto simp: signing_input_Inr)
  from last_zero_split [OF eq] b canonicalize_nonzero have "utf8 ty = utf8 ty'" "b = b'" by auto
  with b show ?thesis using utf8_inj canonicalize_inj by blast
qed

lemma signing_input_errors:
  "signing_input ty body = Inl e \<Longrightarrow> e \<in> {Canon JcsError, Py UnicodeEncodeError}"
  using canonicalize_errors [of "PDict body" e]
  by (auto simp: signing_input_def domain_tag_def encode_utf8_def rbind_Inl_iff rmap_Inl_iff split: if_splits)

subsection \<open>The grants the parser can return\<close>

definition nonempty_text :: "pystr option \<Rightarrow> bool" where
  "nonempty_text t \<longleftrightarrow> t \<noteq> None \<and> t \<noteq> Some []"

definition subject_wf :: "subject \<Rightarrow> bool" where
  "subject_wf s \<longleftrightarrow> (case sj_kind s of
     OS_ACCOUNT \<Rightarrow> nonempty_text (sj_machine_id s) \<and> nonempty_text (sj_account s) \<and>
       sj_agent_pubkey_hex s = None \<and> sj_agent_slug s = None
   | AGENT_KEY \<Rightarrow> nonempty_text (sj_agent_pubkey_hex s) \<and> nonempty_text (sj_agent_slug s) \<and>
       sj_machine_id s = None \<and> sj_account s = None)"

definition scope_wf :: "dict \<Rightarrow> bool" where
  "scope_wf sc \<longleftrightarrow> dkeys sc = {lit ''from_account''} \<and>
     (\<exists>a. a \<noteq> [] \<and> dget sc (lit ''from_account'') = PStr a)"

definition expressible :: "iso_parser \<Rightarrow> int \<Rightarrow> bool" where
  "expressible isoparse t \<longleftrightarrow> (\<exists>s. s \<noteq> [] \<and> isoparse (zulu_offset s) = Some (True, t))"

definition decimal_version :: "pystr \<Rightarrow> int \<Rightarrow> bool" where
  "decimal_version s n \<longleftrightarrow> s \<noteq> [] \<and> canonical_decimal s \<and> int_of_decimal s = Inr n"

definition grant_wf :: "iso_parser \<Rightarrow> grant \<Rightarrow> bool" where
  "grant_wf isoparse g \<longleftrightarrow>
     gr_grant_id g \<noteq> [] \<and> grant_id_hex (gr_grant_id g) \<and>
     decimal_version (gr_grant_version g) (gr_grant_version_int g) \<and> gr_issuer_fp g \<noteq> [] \<and>
     (\<exists>n. decimal_version (gr_state_version g) n) \<and> gr_tool g = lit ''gmail'' \<and> gr_action g = lit ''send'' \<and>
     scope_wf (gr_scope g) \<and> subject_wf (gr_subject g) \<and>
     expressible isoparse (gr_valid_from g) \<and> expressible isoparse (gr_valid_until g) \<and>
     gr_valid_from g < gr_valid_until g"

lemma require_text_Inr [pm_inv]: "require_text d k = Inr s \<longleftrightarrow> dget d k = PStr s \<and> s \<noteq> []"
  by (auto simp: require_text_def split: pyval.splits)

lemma require_text_Inl: "require_text d k = Inl e \<Longrightarrow> e = cert_error"
  by (auto simp: require_text_def split: pyval.splits if_splits)

lemma closed_keys_Inr [pm_inv]: "closed_keys d ks = Inr u \<longleftrightarrow> dkeys d \<subseteq> set ks"
  by (auto simp: closed_keys_def rguard_def list_all_iff dkeys_def)

lemma require_decimal_str_Inr [pm_inv]:
  "require_decimal_str d k = Inr (s, n) \<longleftrightarrow> dget d k = PStr s \<and> decimal_version s n"
  by (auto simp: require_decimal_str_def decimal_version_def pm_inv split: if_splits)

lemma dget_in_dkeys: "dget d k \<noteq> PNone \<Longrightarrow> k \<in> dkeys d"
  using map_of_None_dkeys [of d k] by (auto simp: dget_def)

lemma parse_scope_Inr [pm_inv]: "parse_scope v = Inr sc \<longleftrightarrow> v = PDict sc \<and> scope_wf sc"
proof -
  have "dkeys s = {k}" if "dkeys s \<subseteq> {k}" "dget s k = PStr a" for s k a
    using that dget_in_dkeys [of s k] by auto
  then show ?thesis
    by (auto simp: parse_scope_def scope_wf_def pm_inv split: pyval.splits)
qed

lemma subject_kind_of_Inr [pm_inv]: "subject_kind_of v = Inr k \<longleftrightarrow> v = PStr (subject_kind_value k)"
  by (cases k) (auto simp: subject_kind_of_def)

definition subject_body :: "subject \<Rightarrow> dict" where
  "subject_body s = (lit ''kind'', PStr (subject_kind_value (sj_kind s))) # (case sj_kind s of
     OS_ACCOUNT \<Rightarrow> [(lit ''machine_id'', PStr (the (sj_machine_id s))), (lit ''account'', PStr (the (sj_account s)))]
   | AGENT_KEY \<Rightarrow> [(lit ''agent_pubkey'', PStr (the (sj_agent_pubkey_hex s))),
       (lit ''agent_slug'', PStr (the (sj_agent_slug s)))])"

lemma parse_subject_wf: "parse_subject v = Inr s \<Longrightarrow> subject_wf s"
proof (cases v)
  case (PDict d)
  moreover assume "parse_subject v = Inr s"
  ultimately obtain k where
    "(case k of OS_ACCOUNT \<Rightarrow> rbind (require_text d (lit ''machine_id'')) (\<lambda>m.
        rbind (require_text d (lit ''account'')) (\<lambda>a. Inr \<lparr>sj_kind = k, sj_machine_id = Some m,
          sj_account = Some a, sj_agent_pubkey_hex = None, sj_agent_slug = None\<rparr>))
      | AGENT_KEY \<Rightarrow> rbind (require_text d (lit ''agent_pubkey'')) (\<lambda>p.
        rbind (require_text d (lit ''agent_slug'')) (\<lambda>n. Inr \<lparr>sj_kind = k, sj_machine_id = None,
          sj_account = None, sj_agent_pubkey_hex = Some p, sj_agent_slug = Some n\<rparr>))) = Inr s"
    unfolding parse_subject_def by (simp only: pyval.case rbind_Inr_iff) blast
  then show ?thesis
    by (cases k) (auto simp: subject_wf_def nonempty_text_def pm_inv)
qed (simp_all add: parse_subject_def)

lemma parse_subject_body: "subject_wf s \<Longrightarrow> parse_subject (PDict (subject_body s)) = Inr s"
proof (cases "sj_kind s")
  case OS_ACCOUNT
  moreover assume "subject_wf s"
  ultimately obtain m a where "s = \<lparr>sj_kind = OS_ACCOUNT, sj_machine_id = Some m, sj_account = Some a,
      sj_agent_pubkey_hex = None, sj_agent_slug = None\<rparr>" "m \<noteq> []" "a \<noteq> []"
    by (cases s) (auto simp: subject_wf_def nonempty_text_def)
  then show ?thesis
    by (simp add: parse_subject_def subject_body_def subject_kind_of_def closed_keys_def rguard_def
        require_text_def dget_def)
next
  case AGENT_KEY
  moreover assume "subject_wf s"
  ultimately obtain k n where "s = \<lparr>sj_kind = AGENT_KEY, sj_machine_id = None, sj_account = None,
      sj_agent_pubkey_hex = Some k, sj_agent_slug = Some n\<rparr>" "k \<noteq> []" "n \<noteq> []"
    by (cases s) (auto simp: subject_wf_def nonempty_text_def)
  then show ?thesis
    by (simp add: parse_subject_def subject_body_def subject_kind_of_def closed_keys_def rguard_def
        require_text_def dget_def)
qed

lemma parse_approval_mode_Inr [pm_inv]:
  "parse_approval_mode body = Inr m \<longleftrightarrow> dget body (lit ''approval_mode'') = PStr (approval_mode_value m)"
  by (cases m) (auto simp: parse_approval_mode_def dget_def split: option.splits)

lemma parse_rfc3339_Inr [pm_inv]:
  "parse_rfc3339 isoparse body k = Inr t \<longleftrightarrow>
     (\<exists>s. dget body k = PStr s \<and> s \<noteq> [] \<and> isoparse (zulu_offset s) = Some (True, t))"
  by (auto simp: parse_rfc3339_def pm_inv split: option.split_asm prod.split_asm if_split_asm)

text \<open>The body a user signs for a grant, with the two times as texts.\<close>

definition grant_body :: "grant \<Rightarrow> pystr \<Rightarrow> pystr \<Rightarrow> dict" where
  "grant_body g from until =
     [(lit ''grant_id'', PStr (gr_grant_id g)), (lit ''grant_version'', PStr (gr_grant_version g)),
      (lit ''state_version'', PStr (gr_state_version g)), (lit ''issuer_fp'', PStr (gr_issuer_fp g)),
      (lit ''subject'', PDict (subject_body (gr_subject g))), (lit ''tool'', PStr (gr_tool g)),
      (lit ''action'', PStr (gr_action g)), (lit ''scope'', PDict (gr_scope g)),
      (lit ''approval_mode'', PStr (approval_mode_value (gr_approval_mode g))),
      (lit ''valid_from'', PStr from), (lit ''valid_until'', PStr until)]"

lemma parse_grant_body_Inr:
  "parse_grant_body isoparse body = Inr g \<Longrightarrow> grant_wf isoparse g \<and> dkeys body \<subseteq> set grant_body_keys"
  by (auto simp: parse_grant_body_def grant_wf_def require_grant_id_def expressible_def pm_inv
      split: if_splits prod.splits dest: parse_subject_wf)

lemma require_text_body:
  "dget d k = PStr s \<Longrightarrow> s \<noteq> [] \<Longrightarrow> require_text d k = Inr s"
  by (simp add: require_text_def)

lemma parse_grant_body_body:
  assumes g: "grant_wf isoparse g" and t: "from \<noteq> []" "isoparse (zulu_offset from) = Some (True, gr_valid_from g)"
    "until \<noteq> []" "isoparse (zulu_offset until) = Some (True, gr_valid_until g)"
  shows "parse_grant_body isoparse (grant_body g from until) = Inr g"
proof -
  let ?b = "grant_body g from until"
  note get = grant_body_def dget_def
  have "closed_keys ?b grant_body_keys = Inr ()"
    by (simp add: closed_keys_def rguard_def grant_body_def grant_body_keys_def)
  moreover have "require_grant_id ?b = Inr (gr_grant_id g)"
    using g by (simp add: require_grant_id_def require_text_def get grant_wf_def)
  moreover have "require_decimal_str ?b (lit ''grant_version'') = Inr (gr_grant_version g, gr_grant_version_int g)"
    using g by (simp add: require_decimal_str_Inr get grant_wf_def)
  moreover have "require_text ?b (lit ''issuer_fp'') = Inr (gr_issuer_fp g)"
    using g by (simp add: require_text_def get grant_wf_def)
  moreover obtain n where "require_decimal_str ?b (lit ''state_version'') = Inr (gr_state_version g, n)"
    using g by (auto simp: require_decimal_str_Inr get grant_wf_def)
  moreover have "require_text ?b (lit ''tool'') = Inr (gr_tool g)" "require_text ?b (lit ''action'') = Inr (gr_action g)"
    using g by (simp_all add: require_text_def get grant_wf_def)
  moreover have "rguard (gr_tool g = lit ''gmail'' \<and> gr_action g = lit ''send'') cert_error = Inr ()"
    "rguard (gr_valid_from g < gr_valid_until g) cert_error = Inr ()"
    using g by (simp_all add: grant_wf_def rguard_def)
  moreover have "parse_scope (dget ?b (lit ''scope'')) = Inr (gr_scope g)"
    using g by (simp add: parse_scope_Inr get grant_wf_def)
  moreover have "parse_subject (dget ?b (lit ''subject'')) = Inr (gr_subject g)"
    using g parse_subject_body by (simp add: get grant_wf_def)
  moreover have "parse_approval_mode ?b = Inr (gr_approval_mode g)"
    by (simp add: parse_approval_mode_Inr get)
  moreover have "parse_rfc3339 isoparse ?b (lit ''valid_from'') = Inr (gr_valid_from g)"
    "parse_rfc3339 isoparse ?b (lit ''valid_until'') = Inr (gr_valid_until g)"
    using t by (simp_all add: parse_rfc3339_Inr get)
  ultimately show ?thesis by (simp add: parse_grant_body_def)
qed

subsection \<open>What a body says\<close>

lemma decimal_text_iff: "decimal_text s \<longleftrightarrow> (\<exists>m. s = dec_nat m)"
proof
  show "\<exists>m. s = dec_nat m" if "decimal_text s"
    using that
  proof (induction s rule: rev_induct)
    case (snoc c s)
    then have c: "is_digit c" by (simp add: decimal_text_def)
    then obtain d where d: "c = 48 + d" "d < 10" by (intro that [of "c - 48"]) (auto simp: is_digit_def)
    show ?case
    proof (cases "s = []")
      case True
      then show ?thesis using d by (intro exI [of _ d]) (simp add: dec_nat.simps [of d])
    next
      case False
      with snoc.prems have h: "hd s \<noteq> 48" "list_all is_digit s" by (auto simp: decimal_text_def)
      with False snoc.IH obtain m where m: "s = dec_nat m" by (auto simp: decimal_text_def)
      with h(1) have "0 < m" by (cases m) (simp_all add: dec_nat.simps [of 0])
      then have "dec_nat (10 * m + d) = dec_nat m @ [48 + d]" using d(2) by (subst dec_nat.simps) simp
      with m d(1) show ?thesis by metis
    qed
  qed (simp add: decimal_text_def)
qed (use decimal_dec_nat in blast)

lemma canonical_decimal_iff: "canonical_decimal s \<longleftrightarrow> (\<exists>m. s = dec_nat m \<or> s = dec_nat m @ [10])"
proof -
  have "s \<noteq> [] \<and> last s = 10 \<and> butlast s = t \<longleftrightarrow> s = t @ [10]" for t
    by (metis append_butlast_last_id butlast_snoc last_snoc snoc_eq_iff_butlast)
  then show ?thesis
    unfolding canonical_decimal_def match_to_dollar_def decimal_text_iff by metis
qed

lemma decimal_digits_dec [simp]: "decimal_digits (dec_nat m) = dec_nat m" "decimal_digits (dec_nat m @ [10]) = dec_nat m"
  by (simp_all add: decimal_digits_def dec_nat_no_newline)

lemma decimal_version_iff: "decimal_version s n \<longleftrightarrow>
    (\<exists>m. (s = dec_nat m \<or> s = dec_nat m @ [10]) \<and> length (dec_nat m) \<le> 4300 \<and> n = int m)"
  unfolding decimal_version_def canonical_decimal_iff
  by (auto simp: int_of_decimal_def int_max_str_digits_def split: if_splits)

text \<open>
  What a body says, key by key: a text that is not empty; the decimal numeral of a natural number, which the pattern
  lets be followed by a newline; a time; a subject with the fields of its kind and no other; an identifier of 32
  lowercase hexadecimal digits, which may be followed by a newline as well.
\<close>

definition text_at :: "dict \<Rightarrow> string \<Rightarrow> pystr \<Rightarrow> bool" where
  "text_at d k s \<longleftrightarrow> s \<noteq> [] \<and> map_of d (lit k) = Some (PStr s)"

lemma text_at_iff: "text_at d k s \<longleftrightarrow> dget d (lit k) = PStr s \<and> s \<noteq> []"
  by (auto simp: text_at_def dget_def split: option.splits)

definition decimal_at :: "dict \<Rightarrow> string \<Rightarrow> pystr \<Rightarrow> int \<Rightarrow> bool" where
  "decimal_at d k s n \<longleftrightarrow> text_at d k s \<and>
     (\<exists>m. (s = dec_nat m \<or> s = dec_nat m @ [10]) \<and> length (dec_nat m) \<le> 4300 \<and> n = int m)"

lemma decimal_at_iff: "decimal_at d k s n \<longleftrightarrow> dget d (lit k) = PStr s \<and> decimal_version s n"
  by (auto simp: decimal_at_def text_at_iff decimal_version_iff)

definition time_at :: "iso_parser \<Rightarrow> dict \<Rightarrow> string \<Rightarrow> int \<Rightarrow> bool" where
  "time_at isoparse d k t \<longleftrightarrow> (\<exists>s. text_at d k s \<and>
     isoparse (if last s = 90 then butlast s @ lit ''+00:00'' else s) = Some (True, t))"

lemma time_at_iff: "time_at isoparse d k t \<longleftrightarrow> parse_rfc3339 isoparse d (lit k) = Inr t"
  by (auto simp: time_at_def text_at_iff parse_rfc3339_Inr zulu_offset_def)

definition subject_at :: "dict \<Rightarrow> subject \<Rightarrow> bool" where
  "subject_at d s \<longleftrightarrow>
     (\<exists>m a. s = \<lparr>sj_kind = OS_ACCOUNT, sj_machine_id = Some m, sj_account = Some a, sj_agent_pubkey_hex = None,
          sj_agent_slug = None\<rparr> \<and>
        dkeys d = {lit ''kind'', lit ''machine_id'', lit ''account''} \<and>
        text_at d ''kind'' (lit ''os_account'') \<and> text_at d ''machine_id'' m \<and> text_at d ''account'' a) \<or>
     (\<exists>k n. s = \<lparr>sj_kind = AGENT_KEY, sj_machine_id = None, sj_account = None, sj_agent_pubkey_hex = Some k,
          sj_agent_slug = Some n\<rparr> \<and>
        dkeys d = {lit ''kind'', lit ''agent_pubkey'', lit ''agent_slug''} \<and>
        text_at d ''kind'' (lit ''agent_key'') \<and> text_at d ''agent_pubkey'' k \<and> text_at d ''agent_slug'' n)"

lemma text_at_dkeys: "text_at d k s \<Longrightarrow> lit k \<in> dkeys d"
  using dget_in_dkeys [of d "lit k"] by (simp add: text_at_iff)

lemma subject_at_iff: "parse_subject v = Inr s \<longleftrightarrow> (\<exists>d. v = PDict d \<and> subject_at d s)"
proof (cases v)
  case (PDict d)
  have k: "dget d k = PStr x \<Longrightarrow> k \<in> dkeys d" for k x using dget_in_dkeys [of d k] by simp
  show ?thesis
  proof
    assume "parse_subject v = Inr s"
    then obtain kind where "dget d (lit ''kind'') = PStr (subject_kind_value kind)" "dkeys d \<subseteq> set (subject_keys kind)"
      "(case kind of OS_ACCOUNT \<Rightarrow> rbind (require_text d (lit ''machine_id'')) (\<lambda>m.
        rbind (require_text d (lit ''account'')) (\<lambda>a. Inr \<lparr>sj_kind = kind, sj_machine_id = Some m,
          sj_account = Some a, sj_agent_pubkey_hex = None, sj_agent_slug = None\<rparr>))
      | AGENT_KEY \<Rightarrow> rbind (require_text d (lit ''agent_pubkey'')) (\<lambda>p.
        rbind (require_text d (lit ''agent_slug'')) (\<lambda>n. Inr \<lparr>sj_kind = kind, sj_machine_id = None,
          sj_account = None, sj_agent_pubkey_hex = Some p, sj_agent_slug = Some n\<rparr>))) = Inr s"
      unfolding parse_subject_def PDict by (simp only: pyval.case rbind_Inr_iff closed_keys_Inr subject_kind_of_Inr) blast
    then show "\<exists>d. v = PDict d \<and> subject_at d s"
      using PDict k by (cases kind) (auto simp: subject_at_def text_at_iff pm_inv)
  next
    assume "\<exists>d. v = PDict d \<and> subject_at d s"
    then show "parse_subject v = Inr s"
      using PDict by (auto simp: subject_at_def parse_subject_def text_at_iff subject_kind_of_def closed_keys_def rguard_def
          require_text_def dkeys_def list_all_iff)
  qed
qed (simp_all add: parse_subject_def)


lemma scope_wf_at: "scope_wf sc \<longleftrightarrow> dkeys sc = {lit ''from_account''} \<and> (\<exists>a. text_at sc ''from_account'' a)"
  by (auto simp: scope_wf_def text_at_iff)

definition grant_id_at :: "dict \<Rightarrow> pystr \<Rightarrow> bool" where
  "grant_id_at d s \<longleftrightarrow> text_at d ''grant_id'' s \<and>
     (\<exists>h. (s = h \<or> s = h @ [10]) \<and> length h = 32 \<and> set h \<subseteq> set (lit ''0123456789abcdef''))"

lemma lower_hex_digit: "lower_hex c \<longleftrightarrow> c \<in> set (lit ''0123456789abcdef'')"
  unfolding lower_hex_def is_digit_def lit_def by (simp; presburger)

lemma grant_id_at_iff: "grant_id_at d s \<longleftrightarrow> require_grant_id d = Inr s"
proof -
  have "s \<noteq> [] \<and> last s = 10 \<and> butlast s = t \<longleftrightarrow> s = t @ [10]" for t
    by (metis append_butlast_last_id butlast_snoc last_snoc snoc_eq_iff_butlast)
  then have "grant_id_hex s \<longleftrightarrow> (\<exists>h. (s = h \<or> s = h @ [10]) \<and> grant_id_text h)"
    unfolding grant_id_hex_def match_to_dollar_def by metis
  moreover have "grant_id_text h \<longleftrightarrow> length h = 32 \<and> set h \<subseteq> set (lit ''0123456789abcdef'')" for h
    by (simp only: grant_id_text_def list_all_iff Ball_def lower_hex_digit subset_iff)
  ultimately show ?thesis
    by (auto simp: grant_id_at_def text_at_iff require_grant_id_def pm_inv)
qed

definition grant_at :: "iso_parser \<Rightarrow> dict \<Rightarrow> grant \<Rightarrow> bool" where
  "grant_at isoparse body g \<longleftrightarrow>
     dkeys body = {lit ''grant_id'', lit ''grant_version'', lit ''state_version'', lit ''issuer_fp'', lit ''subject'', lit ''tool'',
       lit ''action'', lit ''scope'', lit ''approval_mode'', lit ''valid_from'', lit ''valid_until''} \<and>
     grant_id_at body (gr_grant_id g) \<and>
     decimal_at body ''grant_version'' (gr_grant_version g) (gr_grant_version_int g) \<and>
     (\<exists>n. decimal_at body ''state_version'' (gr_state_version g) n) \<and>
     text_at body ''issuer_fp'' (gr_issuer_fp g) \<and>
     text_at body ''tool'' (lit ''gmail'') \<and> gr_tool g = lit ''gmail'' \<and>
     text_at body ''action'' (lit ''send'') \<and> gr_action g = lit ''send'' \<and>
     map_of body (lit ''scope'') = Some (PDict (gr_scope g)) \<and> dkeys (gr_scope g) = {lit ''from_account''} \<and>
     (\<exists>account. text_at (gr_scope g) ''from_account'' account) \<and>
     (\<exists>d. map_of body (lit ''subject'') = Some (PDict d) \<and> subject_at d (gr_subject g)) \<and>
     (text_at body ''approval_mode'' (lit ''auto'') \<and> gr_approval_mode g = AUTO \<or>
      text_at body ''approval_mode'' (lit ''per_call'') \<and> gr_approval_mode g = PER_CALL) \<and>
     time_at isoparse body ''valid_from'' (gr_valid_from g) \<and> time_at isoparse body ''valid_until'' (gr_valid_until g) \<and>
     gr_valid_from g < gr_valid_until g"

lemma mode_at: "parse_approval_mode body = Inr m \<longleftrightarrow>
    text_at body ''approval_mode'' (lit ''auto'') \<and> m = AUTO \<or> text_at body ''approval_mode'' (lit ''per_call'') \<and> m = PER_CALL"
  by (cases m) (auto simp: parse_approval_mode_Inr text_at_iff)

lemma dict_at: "dget d k = PDict x \<longleftrightarrow> map_of d k = Some (PDict x)"
  by (auto simp: dget_def split: option.splits)

lemma parse_grant_body_steps: "parse_grant_body isoparse body = Inr g \<longleftrightarrow>
    dkeys body \<subseteq> set grant_body_keys \<and> require_grant_id body = Inr (gr_grant_id g) \<and>
    require_decimal_str body (lit ''grant_version'') = Inr (gr_grant_version g, gr_grant_version_int g) \<and>
    (\<exists>n. require_decimal_str body (lit ''state_version'') = Inr (gr_state_version g, n)) \<and>
    require_text body (lit ''issuer_fp'') = Inr (gr_issuer_fp g) \<and>
    require_text body (lit ''tool'') = Inr (lit ''gmail'') \<and> gr_tool g = lit ''gmail'' \<and>
    require_text body (lit ''action'') = Inr (lit ''send'') \<and> gr_action g = lit ''send'' \<and>
    parse_scope (dget body (lit ''scope'')) = Inr (gr_scope g) \<and> parse_subject (dget body (lit ''subject'')) = Inr (gr_subject g) \<and>
    parse_approval_mode body = Inr (gr_approval_mode g) \<and>
    parse_rfc3339 isoparse body (lit ''valid_from'') = Inr (gr_valid_from g) \<and>
    parse_rfc3339 isoparse body (lit ''valid_until'') = Inr (gr_valid_until g) \<and> gr_valid_from g < gr_valid_until g"
  unfolding parse_grant_body_def
  by (cases g) (auto simp: rbind_Inr_iff rguard_Inr_iff closed_keys_Inr split: prod.splits simp del: parse_approval_mode_Inr)

lemma parse_grant_body_at: "parse_grant_body isoparse body = Inr g \<longleftrightarrow> grant_at isoparse body g"
proof -
  have all: "dkeys body = set grant_body_keys" if "dkeys body \<subseteq> set grant_body_keys" "\<And>k. k \<in> set grant_body_keys \<Longrightarrow> dget body k \<noteq> PNone"
    using that dget_in_dkeys [of body] by blast
  have keys: "dkeys body = set grant_body_keys" if "parse_grant_body isoparse body = Inr g"
    using that unfolding parse_grant_body_steps
    by (intro all) (auto simp: grant_body_keys_def require_grant_id_def pm_inv time_at_iff [symmetric] time_at_def text_at_iff subject_at_iff)
  have "parse_grant_body isoparse body = Inr g \<longleftrightarrow> dkeys body = set grant_body_keys \<and> parse_grant_body isoparse body = Inr g"
    using keys by blast
  also have "\<dots> \<longleftrightarrow> grant_at isoparse body g"
    unfolding parse_grant_body_steps grant_at_def time_at_iff grant_id_at_iff [symmetric] require_decimal_str_Inr decimal_at_iff
      parse_scope_Inr scope_wf_at subject_at_iff mode_at require_text_Inr text_at_iff [symmetric] dict_at
    by (auto simp: grant_body_keys_def)
  finally show ?thesis .
qed

text \<open>The exceptions.\<close>

lemma require_text_raises [raises_only_intro]: "raises_only ((=) cert_error) (require_text d k)"
  and closed_keys_raises [raises_only_intro]: "raises_only ((=) cert_error) (closed_keys d ks)"
  and subject_kind_raises [raises_only_intro]: "raises_only ((=) cert_error) (subject_kind_of v)"
  by (auto simp: require_text_def closed_keys_def subject_kind_of_def
      intro!: raises_only_intro split: pyval.splits)

lemma require_grant_id_raises [raises_only_intro]: "raises_only ((=) cert_error) (require_grant_id d)"
  by (auto simp: require_grant_id_def intro!: raises_only_intro)

lemma parse_scope_raises [raises_only_intro]: "raises_only ((=) cert_error) (parse_scope v)"
  by (auto simp: parse_scope_def intro!: raises_only_intro split: pyval.splits)

lemma parse_subject_raises [raises_only_intro]: "raises_only ((=) cert_error) (parse_subject v)"
  by (auto simp: parse_subject_def intro!: raises_only_intro split: pyval.splits subject_kind.splits)

lemma parse_rfc3339_raises [raises_only_intro]: "raises_only ((=) cert_error) (parse_rfc3339 isoparse body k)"
  by (auto simp: parse_rfc3339_def intro!: raises_only_intro split: option.splits)

lemma parse_envelope_raises [raises_only_intro]: "raises_only ((=) cert_error) (parse_envelope env)"
  by (auto simp: parse_envelope_def intro!: raises_only_intro split: pyval.splits option.splits)

definition oversized :: "dict \<Rightarrow> string \<Rightarrow> bool" where
  "oversized body k \<longleftrightarrow> (\<exists>s m. text_at body k s \<and> (s = dec_nat m \<or> s = dec_nat m @ [10]) \<and> 4300 < length (dec_nat m))"

definition body_error :: "dict \<Rightarrow> exn \<Rightarrow> bool" where
  "body_error body e \<longleftrightarrow> e = cert_error \<or>
     e = Py ValueError \<and> (oversized body ''grant_version'' \<or> oversized body ''state_version'') \<or>
     e = Authz (CertificateError (Some missing_approval_mode)) \<and> lit ''approval_mode'' \<notin> dkeys body"

lemma body_error_cert: "raises_only ((=) cert_error) m \<Longrightarrow> raises_only (body_error b) m"
  by (erule raises_only_mono) (simp add: body_error_def)

lemma require_decimal_str_raises:
  assumes "k \<in> {''grant_version'', ''state_version''}"
  shows "raises_only (body_error b) (require_decimal_str b (lit k))"
unfolding raises_only_def
proof (intro allI impI)
  fix e assume e: "require_decimal_str b (lit k) = Inl e"
  show "body_error b e"
  proof (cases "require_text b (lit k)")
    case (Inl x)
    with e require_text_Inl show ?thesis by (fastforce simp: require_decimal_str_def body_error_def)
  next
    case (Inr s)
    then have s: "text_at b k s" by (simp add: require_text_Inr text_at_iff)
    show ?thesis
    proof (cases "canonical_decimal s")
      case False
      with e Inr show ?thesis by (simp add: require_decimal_str_def body_error_def)
    next
      case True
      then obtain m where m: "s = dec_nat m \<or> s = dec_nat m @ [10]" unfolding canonical_decimal_iff by blast
      with e Inr True have "e = Py ValueError \<and> 4300 < length (dec_nat m)"
        by (auto simp: require_decimal_str_def int_of_decimal_def int_max_str_digits_def split: if_splits)
      with s m assms show ?thesis by (auto simp: body_error_def oversized_def)
    qed
  qed
qed

lemma parse_approval_mode_raises: "raises_only (body_error body) (parse_approval_mode body)"
  by (auto simp: parse_approval_mode_def body_error_def map_of_None_dkeys
      intro!: raises_only_intro split: option.splits)

lemma parse_grant_body_raises: "raises_only (body_error body) (parse_grant_body isoparse body)"
  unfolding parse_grant_body_def
  by (auto intro!: raises_only_rbind raises_only_Inr require_decimal_str_raises parse_approval_mode_raises
      intro: body_error_cert raises_only_intro split: prod.splits)

lemma parse_envelope_Inr:
  "parse_envelope env = Inr (ty, body, sig) \<longleftrightarrow>
     (\<exists>e h. env = PDict e \<and> dkeys e \<subseteq> {lit ''v'', lit ''type'', lit ''body'', lit ''sig''} \<and>
        py_eq_int (dget e (lit ''v'')) 1 \<and> dget e (lit ''type'') = PStr ty \<and> ty \<noteq> [] \<and>
        dget e (lit ''body'') = PDict body \<and> dget e (lit ''sig'') = PStr h \<and> bytes_fromhex h = Some sig)"
proof (cases env)
  case (PDict e)
  then show ?thesis
    by (auto simp: parse_envelope_def pm_inv split: pyval.split_asm option.split_asm if_split_asm)
qed (auto simp: parse_envelope_def)

subsection \<open>Properties\<close>

text \<open>
  C25. The grant parser, exactly.  It returns a grant just when the body has the eleven keys of the schema and no other and says this
  grant: every field of the result, the approval mode and the kind of the subject included, is what the body has under its key, tool and
  action are the only ones there are, the scope is the account alone, versions are canonical decimals with their value, and the validity
  is not empty.  Every other body is refused with the certificate error, tagged as a missing approval mode only when that
  key is absent, or with the \<open>ValueError\<close> of a version of more than 4300 digits.  An identifier or a version may carry one final
  newline, which the patterns of the source let pass.
\<close>

theorem grant_parser_exact:
  "(parse_grant_body isoparse body = Inr g \<longleftrightarrow> grant_at isoparse body g) \<and>
   (\<forall>e. parse_grant_body isoparse body = Inl e \<longrightarrow>
      e = Authz (CertificateError None) \<or>
      e = Authz (CertificateError (Some (lit ''missing_approval_mode''))) \<and> lit ''approval_mode'' \<notin> dkeys body \<or>
      e = Py ValueError \<and> (oversized body ''grant_version'' \<or> oversized body ''state_version''))"
  using parse_grant_body_at raises_onlyD [OF parse_grant_body_raises, of isoparse body]
  by (auto simp: body_error_def missing_approval_mode_def)

definition sample_body :: "pystr \<Rightarrow> dict" where
  "sample_body mode =
     [(lit ''grant_id'', PStr (replicate 32 97)), (lit ''grant_version'', PStr (lit ''7'')), (lit ''state_version'', PStr (lit ''12'')),
      (lit ''issuer_fp'', PStr (lit ''fp'')),
      (lit ''subject'', PDict [(lit ''kind'', PStr (lit ''agent_key'')), (lit ''agent_pubkey'', PStr (lit ''k'')), (lit ''agent_slug'', PStr (lit ''n''))]),
      (lit ''tool'', PStr (lit ''gmail'')), (lit ''action'', PStr (lit ''send'')),
      (lit ''scope'', PDict [(lit ''from_account'', PStr (lit ''me''))]), (lit ''approval_mode'', PStr mode),
      (lit ''valid_from'', PStr (lit ''0Z'')), (lit ''valid_until'', PStr (lit ''1Z''))]"

text \<open>A per-call grant, and the same body with an approval mode that does not exist.\<close>

theorem grant_parser_exact_witness:
  "\<exists>g. grant_at (\<lambda>s. Some (True, int (hd s))) (sample_body (lit ''per_call'')) g \<and> gr_approval_mode g = PER_CALL \<and>
     gr_grant_version_int g = 7 \<and> parse_grant_body (\<lambda>s. Some (True, int (hd s))) (sample_body (lit ''never'')) = Inl (Authz (CertificateError None))"
proof -
  let ?iso = "\<lambda>s. Some (True, int (hd s))"
  have "map_sum (\<lambda>_. ()) (\<lambda>g. (gr_approval_mode g, gr_grant_version_int g)) (parse_grant_body ?iso (sample_body (lit ''per_call''))) =
      Inr (PER_CALL, 7)" by code_simp
  then obtain g where g: "parse_grant_body ?iso (sample_body (lit ''per_call'')) = Inr g" "gr_approval_mode g = PER_CALL"
    "gr_grant_version_int g = 7" by (cases "parse_grant_body ?iso (sample_body (lit ''per_call''))") auto
  have "map_sum (\<lambda>e. e \<noteq> Py ValueError) (\<lambda>_. ()) (parse_grant_body ?iso (sample_body (lit ''never''))) = Inl True" by code_simp
  then obtain e where e: "parse_grant_body ?iso (sample_body (lit ''never'')) = Inl e" "e \<noteq> Py ValueError"
    by (cases "parse_grant_body ?iso (sample_body (lit ''never''))") auto
  have "lit ''approval_mode'' \<in> dkeys (sample_body (lit ''never''))" by (simp add: sample_body_def)
  with grant_parser_exact [of ?iso "sample_body (lit ''never'')"] e have "e = Authz (CertificateError None)" by blast
  with grant_parser_exact [of ?iso "sample_body (lit ''per_call'')" g] g e(1) show ?thesis by blast
qed

text \<open>
  The pattern of a grant identifier ends in a dollar, so an identifier followed by a newline,
  33 characters long, passes for the 32 hexadecimal characters the comment promises, and it is
  another identifier to every comparison made with it.
\<close>

theorem grant_id_accepts_newline:
  assumes "grant_id_text s"
  shows "require_grant_id [(lit ''grant_id'', PStr (s @ [10]))] = Inr (s @ [10]) \<and>
    require_grant_id [(lit ''grant_id'', PStr s)] = Inr s \<and> length (s @ [10]) = 33"
proof -
  have "s \<noteq> []" "length s = 32" using assms by (auto simp: grant_id_text_def)
  with assms show ?thesis
    by (simp add: require_grant_id_def require_text_def dget_def grant_id_hex_def match_to_dollar_def)
qed

theorem grant_id_accepts_newline_witness:
  "require_grant_id [(lit ''grant_id'', PStr (replicate 32 97 @ [10]))] = Inr (replicate 32 97 @ [10])"
proof -
  have "grant_id_text (replicate 32 97)"
    by (simp add: grant_id_text_def lower_hex_def is_digit_def list_all_iff)
  from grant_id_accepts_newline [OF this] show ?thesis by blast
qed

end
