(* ===== verification/Kv_Backend.thy ===== *)
theory Kv_Backend
  imports PyValues
begin

text \<open>
  \<open>store/backend.py\<close>: the persistence seam.  \<open>KVBackend\<close> and \<open>AppendLog\<close> are Protocols of
  injected objects, so a backend is a record of methods over the caller's state, and the store
  logic takes the record as an argument, as the constructors do.

  Two contracts of the seam are stated as locales.  \<open>kv_atomic\<close> is what every backend promises under
  any failure of its storage: an operation either returns and had its whole effect, or raises and
  had none.  \<open>kv_live\<close> adds what a backend without storage failures promises: no operation
  raises.  The in-memory backends are modelled and interpreted here, the SQLite ones in
  \<open>Persistence\<close>.
\<close>

record 's kv =
  kv_get :: "pystr \<Rightarrow> ('s, dict option) pm"
  kv_put :: "pystr \<Rightarrow> dict \<Rightarrow> ('s, unit) pm"
  kv_claim :: "pystr \<Rightarrow> dict \<Rightarrow> ('s, bool) pm"
  kv_delete :: "pystr \<Rightarrow> ('s, unit) pm"
  kv_values :: "('s, dict list) pm"

record 's append_log =
  log_append :: "dict \<Rightarrow> ('s, unit) pm"
  log_entries :: "('s, dict list) pm"

subsection \<open>The in-memory backends\<close>

type_synonym kv_rows = "(pystr \<times> dict) list"

text \<open>\<open>d.pop(k, None)\<close>.\<close>

definition dpop :: "('k \<times> 'v) list \<Rightarrow> 'k \<Rightarrow> ('k \<times> 'v) list" where
  "dpop d k = filter (\<lambda>kv. fst kv \<noteq> k) d"

lemma map_of_dpop [simp]: "map_of (dpop d k) = (map_of d)(k := None)"
  by (induction d) (auto simp: dpop_def)

definition mem_get :: "pystr \<Rightarrow> (kv_rows, dict option) pm" where
  "mem_get k s = (Inr (map_of s k), s)"

definition mem_put :: "pystr \<Rightarrow> dict \<Rightarrow> (kv_rows, unit) pm" where
  "mem_put k v s = (Inr (), dset s k v)"

definition mem_claim :: "pystr \<Rightarrow> dict \<Rightarrow> (kv_rows, bool) pm" where
  "mem_claim k v s = (case map_of s k of
     None \<Rightarrow> (Inr True, dset s k v)
   | Some _ \<Rightarrow> (Inr False, s))"

definition mem_delete :: "pystr \<Rightarrow> (kv_rows, unit) pm" where
  "mem_delete k s = (Inr (), dpop s k)"

definition mem_values :: "(kv_rows, dict list) pm" where
  "mem_values s = (Inr (map snd s), s)"

definition in_memory_kv :: "kv_rows kv" where
  "in_memory_kv = \<lparr>kv_get = mem_get, kv_put = mem_put, kv_claim = mem_claim,
     kv_delete = mem_delete, kv_values = mem_values\<rparr>"

definition in_memory_log :: "dict list append_log" where
  "in_memory_log = \<lparr>log_append = \<lambda>e s. (Inr (), s @ [e]), log_entries = \<lambda>s. (Inr s, s)\<rparr>"

subsection \<open>Sequences of writes\<close>

text \<open>The writes a client can issue; \<open>kv_run\<close> returns those that did not raise, in order, and the
  final state.  The callers go on after an exception, as the threads of a server do.\<close>

datatype kv_op = OpPut pystr dict | OpClaim pystr dict | OpDelete pystr

fun kv_do :: "'s kv \<Rightarrow> kv_op \<Rightarrow> ('s, bool) pm" where
  "kv_do B (OpPut k v) = pbind (kv_put B k v) (\<lambda>_. preturn True)"
| "kv_do B (OpClaim k v) = kv_claim B k v"
| "kv_do B (OpDelete k) = pbind (kv_delete B k) (\<lambda>_. preturn True)"

fun kv_run :: "'s kv \<Rightarrow> kv_op list \<Rightarrow> 's \<Rightarrow> kv_op list \<times> 's" where
  "kv_run B [] s = ([], s)"
| "kv_run B (x # xs) s = (case kv_do B x s of
     (Inl e, t) \<Rightarrow> kv_run B xs t
   | (Inr b, t) \<Rightarrow> (let (ys, u) = kv_run B xs t in (x # ys, u)))"

text \<open>The effect of one write that returned, on the durable rows.\<close>

fun kv_apply :: "kv_op \<Rightarrow> (pystr \<Rightarrow> dict option) \<Rightarrow> (pystr \<Rightarrow> dict option)" where
  "kv_apply (OpPut k v) m = m(k \<mapsto> v)"
| "kv_apply (OpClaim k v) m = (if m k = None then m(k \<mapsto> v) else m)"
| "kv_apply (OpDelete k) m = m(k := None)"

text \<open>How many claims of key \<open>k\<close> in a sequence of writes are told that they won.\<close>

fun claims_won :: "'s kv \<Rightarrow> pystr \<Rightarrow> kv_op list \<Rightarrow> 's \<Rightarrow> nat" where
  "claims_won B k [] s = 0"
| "claims_won B k (x # xs) s = (case kv_do B x s of (r, t) \<Rightarrow>
     (if r = Inr True \<and> (\<exists>v. x = OpClaim k v) then 1 else 0) + claims_won B k xs t)"

subsection \<open>The contracts\<close>

text \<open>\<open>rows s\<close> is what the backend holds durably, \<open>inv\<close> what its operations keep.  What a backend raises is
  an error of its storage.\<close>

definition db_error :: "exn \<Rightarrow> bool" where
  "db_error e \<longleftrightarrow> (case e of Db _ \<Rightarrow> True | _ \<Rightarrow> False)"

lemma db_error_simps [simp]:
  "db_error (Db x)" "\<not> db_error (Store y)" "\<not> db_error (Py z)" "\<not> db_error (Canon a)" "\<not> db_error (Fsm b)"
  by (simp_all add: db_error_def)

lemma db_error_not_store: "db_error e \<Longrightarrow> e \<noteq> Store x"
  by auto

locale kv_atomic =
  fixes B :: "'s kv" and rows :: "'s \<Rightarrow> pystr \<Rightarrow> dict option" and inv :: "'s \<Rightarrow> bool"
  assumes get_atomic: "inv s \<Longrightarrow> kv_get B k s = (r, t) \<Longrightarrow>
      inv t \<and> rows t = rows s \<and> (\<forall>v. r = Inr v \<longrightarrow> v = rows s k) \<and> (\<forall>e. r = Inl e \<longrightarrow> db_error e)"
    and put_atomic: "inv s \<Longrightarrow> kv_put B k v s = (u, t) \<Longrightarrow>
      inv t \<and> rows t = (case u of Inl _ \<Rightarrow> rows s | Inr _ \<Rightarrow> (rows s)(k \<mapsto> v)) \<and>
      (\<forall>e. u = Inl e \<longrightarrow> db_error e)"
    and claim_atomic: "inv s \<Longrightarrow> kv_claim B k v s = (c, t) \<Longrightarrow>
      inv t \<and> (\<forall>w. c = Inr w \<longrightarrow> w = (rows s k = None)) \<and>
      rows t = (if c = Inr True then (rows s)(k \<mapsto> v) else rows s) \<and>
      (\<forall>e. c = Inl e \<longrightarrow> db_error e)"
    and delete_atomic: "inv s \<Longrightarrow> kv_delete B k s = (u, t) \<Longrightarrow>
      inv t \<and> rows t = (case u of Inl _ \<Rightarrow> rows s | Inr _ \<Rightarrow> (rows s)(k := None)) \<and>
      (\<forall>e. u = Inl e \<longrightarrow> db_error e)"
begin

lemma do_atomic:
  assumes "inv s" "kv_do B x s = (r, t)"
  shows "inv t \<and> rows t = (case r of Inl _ \<Rightarrow> rows s | Inr _ \<Rightarrow> kv_apply x (rows s)) \<and>
    (\<forall>k v. x = OpClaim k v \<and> r = Inr True \<longrightarrow> rows s k = None)"
proof (cases x)
  case (OpPut k v)
  with assms show ?thesis
    using put_atomic [OF assms(1), of k v] by (auto simp: pm_simps split: prod.splits sum.splits)
next
  case (OpClaim k v)
  with assms show ?thesis
    using claim_atomic [OF assms(1), of k v r t] by (cases r) (auto split: if_splits)
next
  case (OpDelete k)
  with assms show ?thesis
    using delete_atomic [OF assms(1), of k] by (auto simp: pm_simps split: prod.splits sum.splits)
qed

lemma run_rows:
  "inv s \<Longrightarrow> kv_run B xs s = (ys, t) \<Longrightarrow> inv t \<and> rows t = fold kv_apply ys (rows s)"
proof (induction xs arbitrary: s ys)
  case (Cons x xs)
  obtain r u where x: "kv_do B x s = (r, u)" by fastforce
  note d = do_atomic [OF Cons.prems(1) x]
  show ?case
  proof (cases r)
    case (Inl e)
    with x Cons.prems(2) have "kv_run B xs u = (ys, t)" by simp
    with Cons.IH [of u ys] d Inl show ?thesis by simp
  next
    case (Inr b)
    obtain zs w where "kv_run B xs u = (zs, w)" by fastforce
    with Cons x d Inr show ?thesis by auto
  qed
qed simp

lemma kept:
  assumes "rows s k \<noteq> None" "inv s" "kv_do B x s = (r, t)" "x \<noteq> OpDelete k"
  shows "rows t k \<noteq> None"
  using do_atomic [OF assms(2,3)] assms(1,4) by (cases x; cases r) auto

lemma claims_won_none:
  "rows s k \<noteq> None \<Longrightarrow> inv s \<Longrightarrow> OpDelete k \<notin> set xs \<Longrightarrow> claims_won B k xs s = 0"
proof (induction xs arbitrary: s)
  case (Cons x xs)
  obtain r t where x: "kv_do B x s = (r, t)" by fastforce
  with Cons do_atomic [OF Cons.prems(2) x] kept [OF Cons.prems(1,2) x] show ?case
    by auto
qed simp

lemma claims_won_once:
  "inv s \<Longrightarrow> OpDelete k \<notin> set xs \<Longrightarrow> claims_won B k xs s \<le> 1"
proof (induction xs arbitrary: s)
  case (Cons x xs)
  obtain r t where x: "kv_do B x s = (r, t)" by fastforce
  note d = do_atomic [OF Cons.prems(1) x]
  show ?case
  proof (cases "r = Inr True \<and> (\<exists>v. x = OpClaim k v)")
    case True
    with d have "rows t k \<noteq> None" by auto
    with claims_won_none [of t k xs] d Cons.prems(2) x show ?thesis by simp
  next
    case False
    with x have "claims_won B k (x # xs) s = claims_won B k xs t" by simp
    with Cons.IH [of t] Cons.prems(2) d show ?thesis by simp
  qed
qed simp

end

locale kv_live = kv_atomic +
  fixes live :: "'s \<Rightarrow> bool"
  assumes live_inv: "live s \<Longrightarrow> inv s"
    and get_live: "live s \<Longrightarrow> kv_get B k s = (Inr (rows s k), s)"
    and put_live: "live s \<Longrightarrow> \<exists>t. kv_put B k v s = (Inr (), t) \<and> live t"
    and claim_live: "live s \<Longrightarrow> \<exists>w t. kv_claim B k v s = (Inr w, t) \<and> live t"
    and delete_live: "live s \<Longrightarrow> \<exists>t. kv_delete B k s = (Inr (), t) \<and> live t"
begin

lemma put_returns:
  assumes "live s"
  obtains t where "kv_put B k v s = (Inr (), t)" "live t" "rows t = (rows s)(k \<mapsto> v)"
  using put_live [OF assms, of k v] put_atomic [OF live_inv [OF assms], of k v] by force

lemma claim_returns:
  assumes "live s"
  obtains t where "kv_claim B k v s = (Inr (rows s k = None), t)" "live t"
    "rows t = (if rows s k = None then (rows s)(k \<mapsto> v) else rows s)"
  using claim_live [OF assms, of k v] claim_atomic [OF live_inv [OF assms], of k v] by force

lemma delete_returns:
  assumes "live s"
  obtains t where "kv_delete B k s = (Inr (), t)" "live t" "rows t = (rows s)(k := None)"
  using delete_live [OF assms, of k] delete_atomic [OF live_inv [OF assms], of k] by force

end

text \<open>An append-only log: what was written stays, in order, whatever fails.\<close>

locale log_atomic =
  fixes L :: "'s append_log" and entries :: "'s \<Rightarrow> dict list" and linv :: "'s \<Rightarrow> bool"
  assumes append_atomic: "linv s \<Longrightarrow> log_append L e s = (r, t) \<Longrightarrow>
      linv t \<and> entries t = (case r of Inl _ \<Rightarrow> entries s | Inr _ \<Rightarrow> entries s @ [e])"
    and entries_atomic: "linv s \<Longrightarrow> log_entries L s = (q, t) \<Longrightarrow>
      linv t \<and> entries t = entries s \<and> (\<forall>es. q = Inr es \<longrightarrow> es = entries s)"
begin

lemma append_keeps:
  assumes "linv s" "log_append L e s = (r, t)"
  shows "\<exists>new. entries t = entries s @ new \<and> set new \<subseteq> {e}"
  using append_atomic [OF assms] by (cases r) auto

end

interpretation mem_kv: kv_live in_memory_kv map_of "\<lambda>_. True" "\<lambda>_. True"
  by unfold_locales
    (auto simp: in_memory_kv_def mem_get_def mem_put_def mem_claim_def mem_delete_def
      split: option.splits sum.splits if_splits)

interpretation mem_log: log_atomic in_memory_log "\<lambda>s. s" "\<lambda>_. True"
  by unfold_locales (auto simp: in_memory_log_def)

end
