(* ===== verification/Authz_State.thy ===== *)
theory Authz_State
  imports Capability Kv_Backend "HOL-Library.Product_Lexorder"
begin

text \<open>
  \<open>authz/state.py\<close>: the signed head with the active grants, its parser and the parser of revocation
  artifacts, the control plane \<open>HeadState\<close> that advances the head, and the relay \<open>StubSyncSource\<close>
  that ships it.  The relay shares the control plane object, so its operations take the current
  state of that object as an argument.  A frozen set is a HOL set.
\<close>

definition head_artifact_type :: pystr where
  "head_artifact_type = lit ''authz_state''"

definition revocation_artifact_type :: pystr where
  "revocation_artifact_type = lit ''authz_revocation''"

datatype membership = M_ACTIVE | M_SUPERSEDED | M_REVOKED | M_NO_GRANT

record verified_head =
  vh_state_version :: pystr
  vh_state_version_int :: int
  vh_active_grants :: "(pystr \<times> pystr) set"
  vh_digest :: pystr
  vh_seen_revocations :: "pystr set"

definition membership_of :: "verified_head \<Rightarrow> pystr \<Rightarrow> pystr \<Rightarrow> membership" where
  "membership_of h grant_id grant_version =
     (if grant_id \<in> vh_seen_revocations h then M_REVOKED
      else if (grant_id, grant_version) \<in> vh_active_grants h then M_ACTIVE
      else if \<exists>p \<in> vh_active_grants h. fst p = grant_id then M_SUPERSEDED
      else M_NO_GRANT)"

subsection \<open>Bodies and their parsers\<close>

definition head_entry :: "pystr \<times> pystr \<Rightarrow> pyval" where
  "head_entry p = PDict [(lit ''grant_id'', PStr (fst p)), (lit ''grant_version'', PStr (snd p))]"

definition head_body :: "pystr \<Rightarrow> (pystr \<times> pystr) list \<Rightarrow> dict" where
  "head_body state_version active_grants =
     [(lit ''state_version'', PStr state_version),
      (lit ''active_grants'', PList (map head_entry (sort (remdups active_grants))))]"

definition parse_head_entry :: "pyval \<Rightarrow> (pystr \<times> pystr) res" where
  "parse_head_entry v = (case v of
     PDict e \<Rightarrow>
       (if dkeys e \<noteq> {lit ''grant_id'', lit ''grant_version''} then Inl cert_error
        else case (dget e (lit ''grant_id''), dget e (lit ''grant_version'')) of
          (PStr gid, PStr gver) \<Rightarrow>
            (if grant_id_hex gid \<and> canonical_decimal gver then Inr (gid, gver) else Inl cert_error)
        | _ \<Rightarrow> Inl cert_error)
   | _ \<Rightarrow> Inl cert_error)"

definition parse_head_body :: "pyval \<Rightarrow> (pystr \<times> int \<times> (pystr \<times> pystr) set) res" where
  "parse_head_body v = (case v of
     PDict body \<Rightarrow>
       rbind (closed_keys body [lit ''state_version'', lit ''active_grants'']) (\<lambda>_.
       case dget body (lit ''state_version'') of
         PStr sv \<Rightarrow>
           (if \<not> canonical_decimal sv then Inl cert_error
            else case dget body (lit ''active_grants'') of
              PList active \<Rightarrow>
                rbind (traverse parse_head_entry active) (\<lambda>pairs.
                rmap (\<lambda>n. (sv, n, set pairs)) (int_of_decimal sv))
            | _ \<Rightarrow> Inl cert_error)
       | _ \<Rightarrow> Inl cert_error)
   | _ \<Rightarrow> Inl cert_error)"

definition revocation_body :: "pystr \<Rightarrow> pystr \<Rightarrow> dict" where
  "revocation_body grant_id state_version =
     [(lit ''grant_id'', PStr grant_id), (lit ''state_version'', PStr state_version)]"

definition parse_revocation_body :: "pyval \<Rightarrow> pystr res" where
  "parse_revocation_body v = (case v of
     PDict body \<Rightarrow>
       (if dkeys body \<noteq> {lit ''grant_id'', lit ''state_version''} then Inl cert_error
        else case (dget body (lit ''grant_id''), dget body (lit ''state_version'')) of
          (PStr gid, PStr sv) \<Rightarrow>
            (if grant_id_hex gid \<and> canonical_decimal sv then Inr gid else Inl cert_error)
        | _ \<Rightarrow> Inl cert_error)
   | _ \<Rightarrow> Inl cert_error)"

definition sync_envelope :: "pyval \<Rightarrow> pyval list \<Rightarrow> dict" where
  "sync_envelope head_env revocation_envs =
     [(lit ''head'', head_env), (lit ''revocations'', PList revocation_envs)]"

definition parse_sync_envelope :: "pyval \<Rightarrow> (dict \<times> pyval list) res" where
  "parse_sync_envelope v = (case v of
     PDict env \<Rightarrow>
       rbind (closed_keys env [lit ''head'', lit ''revocations'']) (\<lambda>_.
       case dget env (lit ''head'') of
         PDict head_env \<Rightarrow>
           (case dget_or env (lit ''revocations'') (PList []) of
              PList revocations \<Rightarrow> Inr (head_env, revocations)
            | _ \<Rightarrow> Inl cert_error)
       | _ \<Rightarrow> Inl cert_error)
   | _ \<Rightarrow> Inl cert_error)"

subsection \<open>The control plane\<close>

record head_state =
  hs_user_priv :: bytes
  hs_active :: "(pystr \<times> pystr) list"
  hs_version_int :: int
  hs_revocations :: "(pystr \<times> int) list"

definition hs_state_version :: "head_state \<Rightarrow> pystr" where
  "hs_state_version h = dec_int (hs_version_int h)"

definition hs_revoke :: "pystr \<Rightarrow> head_state \<Rightarrow> head_state" where
  "hs_revoke gid h = h\<lparr>hs_active := dpop (hs_active h) gid, hs_version_int := hs_version_int h + 1,
     hs_revocations := dset (hs_revocations h) gid (hs_version_int h + 1)\<rparr>"

definition hs_supersede :: "pystr \<Rightarrow> int \<Rightarrow> head_state \<Rightarrow> head_state" where
  "hs_supersede gid new_version h =
     h\<lparr>hs_active := dset (hs_active h) gid (dec_int new_version), hs_version_int := hs_version_int h + 1\<rparr>"

definition hs_add :: "pystr \<Rightarrow> pystr \<Rightarrow> head_state \<Rightarrow> head_state" where
  "hs_add gid gver h = h\<lparr>hs_active := dset (hs_active h) gid gver, hs_version_int := hs_version_int h + 1,
     hs_revocations := dpop (hs_revocations h) gid\<rparr>"

text \<open>The signed artifact: \<open>{v, type, body, sig}\<close>.\<close>

definition signed_artifact :: "ed25519 \<Rightarrow> bytes \<Rightarrow> pystr \<Rightarrow> dict \<Rightarrow> dict res" where
  "signed_artifact E priv ty body = rmap (\<lambda>m.
     [(lit ''v'', PInt 1), (lit ''type'', PStr ty), (lit ''body'', PDict body),
      (lit ''sig'', PStr (bytes_hex (ed_sign E priv m)))]) (signing_input ty body)"

definition hs_head_body :: "head_state \<Rightarrow> dict" where
  "hs_head_body h = head_body (hs_state_version h) (hs_active h)"

definition hs_signed_head :: "ed25519 \<Rightarrow> head_state \<Rightarrow> dict res" where
  "hs_signed_head E h = signed_artifact E (hs_user_priv h) head_artifact_type (hs_head_body h)"

definition hs_signed_revocation :: "ed25519 \<Rightarrow> head_state \<Rightarrow> pystr \<Rightarrow> int \<Rightarrow> dict res" where
  "hs_signed_revocation E h gid ver =
     signed_artifact E (hs_user_priv h) revocation_artifact_type (revocation_body gid (dec_int ver))"

definition hs_signed_revocations :: "ed25519 \<Rightarrow> head_state \<Rightarrow> pyval list res" where
  "hs_signed_revocations E h =
     traverse (\<lambda>gv. rmap PDict (hs_signed_revocation E h (fst gv) (snd gv))) (sort (hs_revocations h))"

definition hs_head_digest :: "(bytes \<Rightarrow> pystr) \<Rightarrow> head_state \<Rightarrow> pystr res" where
  "hs_head_digest H h = digest H (PDict (hs_head_body h))"

subsection \<open>The relay\<close>

record stub_sync =
  sy_reachable :: bool
  sy_withheld :: "dict option"
  sy_include_revocations :: bool

definition sy_set_reachable :: "bool \<Rightarrow> stub_sync \<Rightarrow> stub_sync" where
  "sy_set_reachable b y = y\<lparr>sy_reachable := b\<rparr>"

definition sy_pin_and_withhold :: "ed25519 \<Rightarrow> head_state \<Rightarrow> stub_sync \<Rightarrow> stub_sync res" where
  "sy_pin_and_withhold E h y = rmap (\<lambda>env. y\<lparr>sy_withheld := Some env\<rparr>) (hs_signed_head E h)"

definition sy_withhold_revocations :: "stub_sync \<Rightarrow> stub_sync" where
  "sy_withhold_revocations y = y\<lparr>sy_include_revocations := False\<rparr>"

definition sy_resume :: "stub_sync \<Rightarrow> stub_sync" where
  "sy_resume y = y\<lparr>sy_withheld := None, sy_include_revocations := True\<rparr>"

definition sy_sync :: "ed25519 \<Rightarrow> head_state \<Rightarrow> stub_sync \<Rightarrow> dict res" where
  "sy_sync E h y =
     (if \<not> sy_reachable y then Inl (Authz AuthorizationUnavailable)
      else rbind (case sy_withheld y of Some env \<Rightarrow> Inr env | None \<Rightarrow> hs_signed_head E h) (\<lambda>head_env.
        rmap (sync_envelope (PDict head_env))
          (if sy_include_revocations y then hs_signed_revocations E h else Inr [])))"

subsection \<open>Parsing what the control plane signs\<close>

lemma cert_raises [raises_only_intro]:
  "raises_only ((=) cert_error) (parse_head_entry v)"
  "raises_only ((=) cert_error) (parse_revocation_body v)"
  "raises_only ((=) cert_error) (parse_sync_envelope v)"
  by (auto simp: parse_head_entry_def parse_revocation_body_def parse_sync_envelope_def
      intro!: raises_only_intro split: pyval.splits)

lemma parse_head_body_raises:
  "raises_only (\<lambda>e. e = cert_error \<or> e = Py ValueError) (parse_head_body v)"
proof -
  have c: "raises_only (\<lambda>e. e = cert_error \<or> e = Py ValueError) m" if "raises_only ((=) cert_error) m"
    for m :: "'z res"
    using that by (rule raises_only_mono) simp
  show ?thesis
    by (auto simp: parse_head_body_def int_of_decimal_def intro!: raises_only_rbind raises_only_rmap
        raises_only_Inr raises_only_Inl c [of "closed_keys _ _"] c [of "traverse _ _"]
        intro: raises_only_intro split: pyval.splits)
qed

lemma parse_head_entry_entry:
  "grant_id_hex (fst p) \<Longrightarrow> canonical_decimal (snd p) \<Longrightarrow> parse_head_entry (head_entry p) = Inr p"
  by (simp add: parse_head_entry_def head_entry_def dget_def)

lemma parse_head_body_body:
  assumes "canonical_decimal sv" "int_of_decimal sv = Inr n"
    and "\<And>p. p \<in> set ps \<Longrightarrow> grant_id_hex (fst p) \<and> canonical_decimal (snd p)"
  shows "parse_head_body (PDict (head_body sv ps)) = Inr (sv, n, set ps)"
proof -
  have "traverse parse_head_entry (map head_entry (sort (remdups ps))) = Inr (map (\<lambda>p. p) (sort (remdups ps)))"
    unfolding traverse_map by (rule traverse_InrI) (use assms(3) parse_head_entry_entry in auto)
  then show ?thesis
    using assms by (simp add: parse_head_body_def head_body_def dget_def closed_keys_def rguard_def)
qed

lemma parse_revocation_body_body:
  "grant_id_hex gid \<Longrightarrow> canonical_decimal sv \<Longrightarrow> parse_revocation_body (PDict (revocation_body gid sv)) = Inr gid"
  by (simp add: parse_revocation_body_def revocation_body_def dget_def)

lemma parse_sync_sync: "parse_sync_envelope (PDict (sync_envelope (PDict h) rs)) = Inr (h, rs)"
  by (simp add: parse_sync_envelope_def sync_envelope_def dget_def dget_or_def closed_keys_def rguard_def)

text \<open>A signature is bytes, as the library returns it.\<close>

definition signs_bytes :: "ed25519 \<Rightarrow> bool" where
  "signs_bytes E \<longleftrightarrow> (\<forall>k m. \<forall>x \<in> set (ed_sign E k m). x < 256)"

lemma parse_signed_artifact:
  assumes "signed_artifact E priv ty body = Inr env" "signs_bytes E" "ty \<noteq> []"
  shows "\<exists>m. signing_input ty body = Inr m \<and> parse_envelope (PDict env) = Inr (ty, body, ed_sign E priv m)"
proof -
  from assms(1) obtain m where m: "signing_input ty body = Inr m" and env: "env =
      [(lit ''v'', PInt 1), (lit ''type'', PStr ty), (lit ''body'', PDict body),
       (lit ''sig'', PStr (bytes_hex (ed_sign E priv m)))]"
    by (auto simp: signed_artifact_def pm_inv)
  have "bytes_fromhex (bytes_hex (ed_sign E priv m)) = Some (ed_sign E priv m)"
    using assms(2) by (intro fromhex_hex) (simp add: signs_bytes_def)
  with assms(3) m env show ?thesis
    by (auto simp: parse_envelope_Inr dget_def)
qed

subsection \<open>The authority the control plane implements\<close>

text \<open>The abstract authority: which grant is active at which version, which grants were revoked and not
  granted again, and a counter of the changes.\<close>

record authority =
  au_active :: "pystr \<Rightarrow> pystr option"
  au_revoked :: "pystr set"
  au_version :: int

datatype head_op = HRevoke pystr | HSupersede pystr int | HAdd pystr pystr

fun au_do :: "head_op \<Rightarrow> authority \<Rightarrow> authority" where
  "au_do (HRevoke gid) A = \<lparr>au_active = (au_active A)(gid := None),
     au_revoked = insert gid (au_revoked A), au_version = au_version A + 1\<rparr>"
| "au_do (HSupersede gid n) A = \<lparr>au_active = (au_active A)(gid \<mapsto> dec_int n),
     au_revoked = au_revoked A, au_version = au_version A + 1\<rparr>"
| "au_do (HAdd gid gver) A = \<lparr>au_active = (au_active A)(gid \<mapsto> gver),
     au_revoked = au_revoked A - {gid}, au_version = au_version A + 1\<rparr>"

definition au_decide :: "authority \<Rightarrow> pystr \<Rightarrow> pystr \<Rightarrow> membership" where
  "au_decide A gid gver =
     (if gid \<in> au_revoked A then M_REVOKED
      else case au_active A gid of None \<Rightarrow> M_NO_GRANT
        | Some v \<Rightarrow> if v = gver then M_ACTIVE else M_SUPERSEDED)"

definition au_body :: "authority \<Rightarrow> dict" where
  "au_body A = [(lit ''state_version'', PStr (dec_int (au_version A))),
     (lit ''active_grants'', PList (map head_entry (sorted_list_of_set (Map.graph (au_active A)))))]"

fun hs_do :: "head_op \<Rightarrow> head_state \<Rightarrow> head_state" where
  "hs_do (HRevoke gid) = hs_revoke gid"
| "hs_do (HSupersede gid n) = hs_supersede gid n"
| "hs_do (HAdd gid gver) = hs_add gid gver"

fun head_op_ok :: "head_op \<Rightarrow> bool" where
  "head_op_ok (HRevoke gid) = grant_id_hex gid"
| "head_op_ok (HSupersede gid n) = (grant_id_hex gid \<and> 0 \<le> n)"
| "head_op_ok (HAdd gid gver) = (grant_id_hex gid \<and> canonical_decimal gver)"

definition abs_head :: "head_state \<Rightarrow> authority" where
  "abs_head h = \<lparr>au_active = map_of (hs_active h), au_revoked = dkeys (hs_revocations h),
     au_version = hs_version_int h\<rparr>"

definition hs_wf :: "head_state \<Rightarrow> bool" where
  "hs_wf h \<longleftrightarrow> distinct (map fst (hs_active h)) \<and> 0 \<le> hs_version_int h \<and>
     (\<forall>p \<in> set (hs_active h). grant_id_hex (fst p) \<and> canonical_decimal (snd p)) \<and>
     (\<forall>p \<in> set (hs_revocations h). grant_id_hex (fst p) \<and> 0 \<le> snd p)"

text \<open>
  What the gate knows after it has verified the artifacts of a sync: the active set, and the revocations unless the relay
  withholds them.  This is a view of the state for the statements; that the verification of the signed artifacts arrives at
  it, revocations included, is \<open>sync_verifies\<close> in \<open>Relay_Sync\<close>.
\<close>

definition relay_view :: "bool \<Rightarrow> pystr \<Rightarrow> head_state \<Rightarrow> verified_head" where
  "relay_view include dig h = \<lparr>vh_state_version = hs_state_version h, vh_state_version_int = hs_version_int h,
     vh_active_grants = set (hs_active h), vh_digest = dig,
     vh_seen_revocations = (if include then dkeys (hs_revocations h) else {})\<rparr>"

lemma distinct_dset: "distinct (map fst d) \<Longrightarrow> distinct (map fst (dset d k v))"
proof (induction d)
  case (Cons kv d)
  moreover have "fst ` set (dset d k v) = insert k (fst ` set d)"
    using dkeys_dset [of d k v] by (simp add: dkeys_def)
  ultimately show ?case by (cases kv) auto
qed simp

lemma set_dset: "set (dset d k v) \<subseteq> insert (k, v) (set d)"
  by (induction d) (auto split: if_splits)

lemma set_dpop: "set (dpop d k) = {kv \<in> set d. fst kv \<noteq> k}" "distinct (map fst d) \<Longrightarrow> distinct (map fst (dpop d k))"
  by (auto simp: dpop_def distinct_map inj_on_def)

lemma dkeys_dpop: "dkeys (dpop d k) = dkeys d - {k}"
  by (auto simp: dkeys_def set_dpop)

lemma canonical_dec_int: "0 \<le> i \<Longrightarrow> canonical_decimal (dec_int i)"
  by (simp add: dec_int_def canonical_dec_nat)

lemma int_of_dec_int:
  "0 \<le> i \<Longrightarrow> length (dec_int i) \<le> int_max_str_digits \<Longrightarrow> int_of_decimal (dec_int i) = Inr i"
  by (simp add: dec_int_def int_of_dec_nat)

lemma abs_head_do: "abs_head (hs_do x h) = au_do x (abs_head h)"
  by (cases x) (simp_all add: abs_head_def hs_revoke_def hs_supersede_def hs_add_def dkeys_dpop)

lemma hs_wf_do:
  assumes "hs_wf h" "head_op_ok x"
  shows "hs_wf (hs_do x h)"
proof (cases x)
  case (HRevoke gid)
  with assms set_dset [of "hs_revocations h" gid "hs_version_int h + 1"] show ?thesis
    by (auto simp: hs_wf_def hs_revoke_def set_dpop)
next
  case (HSupersede gid n)
  with assms set_dset [of "hs_active h" gid "dec_int n"] show ?thesis
    by (auto simp: hs_wf_def hs_supersede_def distinct_dset canonical_dec_int)
next
  case (HAdd gid gver)
  with assms set_dset [of "hs_active h" gid gver] show ?thesis
    by (auto simp: hs_wf_def hs_add_def distinct_dset set_dpop)
qed

lemma hs_fold:
  "hs_wf h \<Longrightarrow> list_all head_op_ok ops \<Longrightarrow>
     hs_wf (fold hs_do ops h) \<and> abs_head (fold hs_do ops h) = fold au_do ops (abs_head h)"
  by (induction ops arbitrary: h) (auto simp: abs_head_do hs_wf_do)

lemma au_version_fold: "au_version (fold au_do ops A) = au_version A + int (length ops)"
proof (induction ops arbitrary: A)
  case (Cons x ops)
  have "au_version (au_do x A) = au_version A + 1" by (cases x) simp_all
  with Cons [of "au_do x A"] show ?case by simp
qed simp

lemma hs_user_priv_fold: "hs_user_priv (fold hs_do ops h) = hs_user_priv h"
proof (induction ops arbitrary: h)
  case (Cons x ops)
  have "hs_user_priv (hs_do x h) = hs_user_priv h"
    by (cases x) (simp_all add: hs_revoke_def hs_supersede_def hs_add_def)
  with Cons show ?case by simp
qed simp

lemma graph_map_of: "distinct (map fst d) \<Longrightarrow> Map.graph (map_of d) = set d"
  by (auto simp: Map.graph_def)

lemma head_body_abs: "hs_wf h \<Longrightarrow> hs_head_body h = au_body (abs_head h)"
  by (simp add: hs_head_body_def head_body_def au_body_def abs_head_def hs_state_version_def graph_map_of
      hs_wf_def sorted_list_of_set_sort_remdups)

lemma parse_hs_head:
  assumes "hs_wf h" "length (hs_state_version h) \<le> int_max_str_digits"
  shows "parse_head_body (PDict (hs_head_body h)) =
    Inr (hs_state_version h, hs_version_int h, set (hs_active h))"
  unfolding hs_head_body_def
  by (rule parse_head_body_body)
    (use assms in \<open>auto simp: hs_wf_def hs_state_version_def canonical_dec_int int_of_dec_int\<close>)

lemma membership_abs:
  assumes "hs_wf h" "vh_active_grants v = set (hs_active h)" "vh_seen_revocations v = revoked"
  shows "membership_of v gid gver = au_decide ((abs_head h)\<lparr>au_revoked := revoked\<rparr>) gid gver"
proof -
  have "(gid, gver) \<in> set (hs_active h) \<longleftrightarrow> map_of (hs_active h) gid = Some gver"
    using assms(1) by (simp add: hs_wf_def)
  moreover have "(\<exists>p \<in> set (hs_active h). fst p = gid) \<longleftrightarrow> map_of (hs_active h) gid \<noteq> None"
    by (force simp: map_of_eq_None_iff)
  ultimately show ?thesis
    using assms(2,3) by (auto simp: membership_of_def au_decide_def abs_head_def split: option.splits)
qed

subsection \<open>A concrete head\<close>

definition sample_gid :: "nat \<Rightarrow> pystr" where
  "sample_gid c = replicate 32 c"

definition sample_head :: head_state where
  "sample_head = \<lparr>hs_user_priv = [1], hs_active = [(sample_gid 97, [49])], hs_version_int = 1, hs_revocations = []\<rparr>"

end
