(* ===== verification/Decision_Policy.thy ===== *)
theory Decision_Policy
  imports Authz_State
begin

text \<open>
  \<open>authz/service.py\<close> and \<open>authz/decision_policy.py\<close>: the request and the cloud decision with the bytes
  their signatures cover, the single-use consumer and the high-water mark with their contracts, the stub
  decision service, and the policy that binds every field of a decision.  \<open>uuid4().hex\<close> of the stub is
  an argument.
\<close>

definition validity_cap_seconds :: int where
  "validity_cap_seconds = 7 * 24 * 3600"

definition clock_skew_seconds :: int where
  "clock_skew_seconds = 300"

definition request_freshness_seconds :: int where
  "request_freshness_seconds = 300"

definition decided_at_slack_seconds :: int where
  "decided_at_slack_seconds = 300"

definition response_deadline_ns :: int where
  "response_deadline_ns = 5 * 1000000000"

datatype disposition = AUTHORIZED | NEEDS_APPROVAL

fun disposition_value :: "disposition \<Rightarrow> pystr" where
  "disposition_value AUTHORIZED = lit ''authorized''"
| "disposition_value NEEDS_APPROVAL = lit ''needs_approval''"

record peer_identity =
  pi_machine_id :: pystr
  pi_account :: pystr

record authorization_request =
  rq_grant_envelope :: pyval
  rq_request_id :: pystr
  rq_action_digest :: pystr
  rq_authz_state_digest :: pystr
  rq_issued_at :: int
  rq_channel_binding :: pystr
  rq_peer_verified :: bool
  rq_peer_machine_id :: pystr
  rq_peer_account :: pystr
  rq_agent_sig :: "bytes option"

text \<open>
  The decision as the decision service builds it, with texts for its labels and an integer for its time; the stub is the one
  provider of the repository.  A provider that put other values there would see them compared with \<open>==\<close>, so refused, or
  raise \<open>TypeError\<close> where the time is ordered.
\<close>

record decision =
  dc_decision_id :: pystr
  dc_grant_id :: pystr
  dc_grant_version :: pystr
  dc_state_version :: pystr
  dc_authz_state_digest :: pystr
  dc_request_id :: pystr
  dc_action_digest :: pystr
  dc_decided_at :: int
  dc_disposition :: pystr
  dc_approval_mode :: pystr
  dc_subject_kind :: pystr
  dc_sig :: bytes

text \<open>The fields of the dataclass.\<close>

definition decision_fields :: "pystr list" where
  "decision_fields = [lit ''decision_id'', lit ''grant_id'', lit ''grant_version'', lit ''state_version'',
     lit ''authz_state_digest'', lit ''request_id'', lit ''action_digest'', lit ''decided_at'',
     lit ''disposition'', lit ''approval_mode'', lit ''subject_kind'', lit ''sig'']"

definition request_binding_dict :: "pystr \<Rightarrow> pystr \<Rightarrow> pystr \<Rightarrow> int \<Rightarrow> pystr \<Rightarrow> dict" where
  "request_binding_dict grant_id request_id action_digest issued_at channel_binding =
     [(lit ''grant_id'', PStr grant_id), (lit ''request_id'', PStr request_id),
      (lit ''action_digest'', PStr action_digest), (lit ''issued_at'', PInt issued_at),
      (lit ''channel_binding'', PStr channel_binding)]"

definition request_binding :: "pystr \<Rightarrow> pystr \<Rightarrow> pystr \<Rightarrow> int \<Rightarrow> pystr \<Rightarrow> bytes res" where
  "request_binding grant_id request_id action_digest issued_at channel_binding =
     canonicalize (PDict (request_binding_dict grant_id request_id action_digest issued_at channel_binding))"

definition decision_body :: "decision \<Rightarrow> dict" where
  "decision_body d =
     [(lit ''decision_id'', PStr (dc_decision_id d)), (lit ''grant_id'', PStr (dc_grant_id d)),
      (lit ''grant_version'', PStr (dc_grant_version d)), (lit ''state_version'', PStr (dc_state_version d)),
      (lit ''authz_state_digest'', PStr (dc_authz_state_digest d)), (lit ''request_id'', PStr (dc_request_id d)),
      (lit ''action_digest'', PStr (dc_action_digest d)), (lit ''decided_at'', PInt (dc_decided_at d)),
      (lit ''disposition'', PStr (dc_disposition d)), (lit ''approval_mode'', PStr (dc_approval_mode d)),
      (lit ''subject_kind'', PStr (dc_subject_kind d))]"

definition decision_domain :: bytes where
  "decision_domain = lit ''puffo-authz/decision/v1'' @ [0]"

definition decision_signing_input :: "decision \<Rightarrow> bytes res" where
  "decision_signing_input d = rmap (\<lambda>b. decision_domain @ b) (canonicalize (PDict (decision_body d)))"

text \<open>\<open>_verify(key, message, signature)\<close> of a signature that is bytes.\<close>

definition verify_sig :: "ed25519 \<Rightarrow> bytes \<Rightarrow> bytes \<Rightarrow> bytes \<Rightarrow> bool" where
  "verify_sig E key message sig = ed_verify E key sig message"

definition verify_decision_sig :: "ed25519 \<Rightarrow> bytes \<Rightarrow> decision \<Rightarrow> bool res" where
  "verify_decision_sig E key d = rmap (\<lambda>m. verify_sig E key m (dc_sig d)) (decision_signing_input d)"

subsection \<open>Local safety state\<close>

text \<open>\<open>LockedConsumer\<close> and \<open>HighWaterMark\<close>: each method runs under the object's lock, so it is one step.\<close>

definition locked_consume_once :: "pystr \<Rightarrow> pystr \<Rightarrow> ((pystr \<times> pystr) list, bool) pm" where
  "locked_consume_once key action_digest s =
     (case map_of s key of Some _ \<Rightarrow> (Inr False, s) | None \<Rightarrow> (Inr True, dset s key action_digest))"

definition hw_get :: "(int, int) pm" where
  "hw_get s = (Inr s, s)"

definition hw_raise_to :: "int \<Rightarrow> (int, unit) pm" where
  "hw_raise_to v s = (Inr (), if s < v then v else s)"

text \<open>What the gate is promised of a consumer: a key wins at most once, even when the storage fails.
  \<open>used s\<close> are the keys spent; \<open>ok\<close> is kept.\<close>

locale single_use =
  fixes consume :: "pystr \<Rightarrow> pystr \<Rightarrow> ('s, bool) pm" and used :: "'s \<Rightarrow> pystr set"
  assumes consume_wins: "consume k d s = (Inr True, t) \<Longrightarrow> k \<notin> used s \<and> k \<in> used t"
    and consume_grows: "consume k d s = (r, t) \<Longrightarrow> used s \<subseteq> used t"
begin

text \<open>In any run of consumptions a key wins at most once.\<close>

fun wins :: "pystr \<Rightarrow> (pystr \<times> pystr) list \<Rightarrow> 's \<Rightarrow> nat" where
  "wins k [] s = 0"
| "wins k (x # xs) s = (case consume (fst x) (snd x) s of (r, t) \<Rightarrow>
     (if fst x = k \<and> r = Inr True then 1 else 0) + wins k xs t)"

lemma no_second_win: "k \<in> used s \<Longrightarrow> wins k xs s = 0"
proof (induction xs arbitrary: s)
  case (Cons x xs)
  obtain r t where c: "consume (fst x) (snd x) s = (r, t)" by fastforce
  from consume_grows [OF c] Cons.prems have t: "k \<in> used t" by blast
  have "\<not> (fst x = k \<and> r = Inr True)"
    using consume_wins [of "fst x" "snd x" s t] c Cons.prems by auto
  with Cons.IH [OF t] c show ?case by auto
qed simp

lemma wins_once: "wins k xs s \<le> 1"
proof (induction xs arbitrary: s)
  case (Cons x xs)
  obtain r t where c: "consume (fst x) (snd x) s = (r, t)" by fastforce
  show ?case
  proof (cases "fst x = k \<and> r = Inr True")
    case True
    with consume_wins [of "fst x" "snd x" s t] c have "k \<in> used t" by auto
    with no_second_win [OF this, of xs] c show ?thesis by simp
  next
    case False
    with Cons.IH [of t] c show ?thesis by auto
  qed
qed simp

end

lemma locked_single_use: "single_use locked_consume_once dkeys"
  by unfold_locales (auto simp: locked_consume_once_def map_of_None_dkeys split: option.splits)

interpretation locked: single_use locked_consume_once dkeys
  by (rule locked_single_use)

text \<open>The anti-rollback mark: reading is exact, raising takes the maximum, a failure never lowers it.\<close>

locale high_water =
  fixes get :: "('s, int) pm" and raise_to :: "int \<Rightarrow> ('s, unit) pm" and level :: "'s \<Rightarrow> int"
  assumes get_level: "get s = (r, t) \<Longrightarrow> level t = level s \<and> (\<forall>v. r = Inr v \<longrightarrow> v = level s)"
    and raise_level: "raise_to v s = (u, t) \<Longrightarrow>
      level s \<le> level t \<and> level t \<le> max v (level s) \<and> (u = Inr () \<longrightarrow> level t = max v (level s))"

lemma hwm_high_water: "high_water hw_get hw_raise_to id"
  by unfold_locales (auto simp: hw_get_def hw_raise_to_def)

interpretation hwm: high_water hw_get hw_raise_to id
  by (rule hwm_high_water)

subsection \<open>The stub decision service\<close>

definition grant_disposition :: "grant \<Rightarrow> disposition" where
  "grant_disposition g = (if permits_auto g then AUTHORIZED else NEEDS_APPROVAL)"

record stub_decisions =
  sd_reachable :: bool
  sd_signing_key :: bytes

definition sd_decision_public_key :: "ed25519 \<Rightarrow> stub_decisions \<Rightarrow> bytes" where
  "sd_decision_public_key E D = ed_public E (sd_signing_key D)"

definition sd_decide ::
  "iso_parser \<Rightarrow> (bytes \<Rightarrow> pystr) \<Rightarrow> ed25519 \<Rightarrow> stub_decisions \<Rightarrow> head_state \<Rightarrow> pystr \<Rightarrow>
     authorization_request \<Rightarrow> int \<Rightarrow> decision res" where
  "sd_decide isoparse H E D hs uuid req now =
     (if \<not> sd_reachable D then Inl (Authz AuthorizationUnavailable)
      else rbind (parse_envelope (rq_grant_envelope req)) (\<lambda>(_, body, _).
        rbind (parse_grant_body isoparse body) (\<lambda>g.
        rbind (hs_head_digest H hs) (\<lambda>head_digest.
        let d = \<lparr>dc_decision_id = uuid, dc_grant_id = gr_grant_id g, dc_grant_version = gr_grant_version g,
            dc_state_version = hs_state_version hs, dc_authz_state_digest = head_digest,
            dc_request_id = rq_request_id req, dc_action_digest = rq_action_digest req, dc_decided_at = now,
            dc_disposition = disposition_value (grant_disposition g),
            dc_approval_mode = approval_mode_value (gr_approval_mode g),
            dc_subject_kind = subject_kind_value (sj_kind (gr_subject g)), dc_sig = []\<rparr>
        in rmap (\<lambda>m. d\<lparr>dc_sig := ed_sign E (sd_signing_key D) m\<rparr>) (decision_signing_input d)))))"

subsection \<open>The policy\<close>

record expected_binding =
  ex_request_id :: pystr
  ex_action_digest :: pystr
  ex_authz_state_digest :: pystr
  ex_state_version :: pystr
  ex_grant_id :: pystr
  ex_grant_version :: pystr
  ex_approval_mode :: pystr
  ex_subject_kind :: pystr
  ex_disposition :: pystr

datatype trust_class = CLASS_A | CLASS_B | CLASS_C | CLASS_D | CLASS_E

type_synonym binding_check = "decision \<Rightarrow> expected_binding \<Rightarrow> pystr option"

definition cmp_field ::
  "(decision \<Rightarrow> pystr) \<Rightarrow> (expected_binding \<Rightarrow> pystr) \<Rightarrow> pystr \<Rightarrow> binding_check" where
  "cmp_field fd fe detail d e = (if fd d \<noteq> fe e then Some detail else None)"

definition approval_modes :: "pystr list" where
  "approval_modes = [approval_mode_value AUTO, approval_mode_value PER_CALL]"

definition subject_kinds :: "pystr list" where
  "subject_kinds = [subject_kind_value OS_ACCOUNT, subject_kind_value AGENT_KEY]"

definition dispositions :: "pystr list" where
  "dispositions = [disposition_value AUTHORIZED, disposition_value NEEDS_APPROVAL]"

definition check_approval_mode :: binding_check where
  "check_approval_mode d e =
     (if dc_approval_mode d \<notin> set approval_modes then Some (lit ''decision_approval_mode_mismatch'')
      else if dc_approval_mode d \<noteq> ex_approval_mode e then Some (lit ''decision_approval_mode_mismatch'')
      else None)"

definition check_subject_kind :: binding_check where
  "check_subject_kind d e =
     (if dc_subject_kind d \<notin> set subject_kinds then Some (lit ''decision_subject_kind_mismatch'')
      else if dc_subject_kind d \<noteq> ex_subject_kind e then Some (lit ''decision_subject_kind_mismatch'')
      else None)"

definition check_disposition :: binding_check where
  "check_disposition d e =
     (if dc_disposition d \<notin> set dispositions then Some (lit ''decision_disposition_mismatch'')
      else if dc_disposition d \<noteq> ex_disposition e then Some (lit ''decision_disposition_mismatch'')
      else None)"

record field_policy =
  fp_field :: pystr
  fp_cls :: trust_class
  fp_check :: "binding_check option"

definition policy :: "string \<Rightarrow> trust_class \<Rightarrow> binding_check option \<Rightarrow> field_policy" where
  "policy f c check = \<lparr>fp_field = lit f, fp_cls = c, fp_check = check\<rparr>"

definition decision_policy :: "field_policy list" where
  "decision_policy =
    [policy ''request_id'' CLASS_A (Some (cmp_field dc_request_id ex_request_id (lit ''decision_request_mismatch''))),
     policy ''action_digest'' CLASS_A (Some (cmp_field dc_action_digest ex_action_digest (lit ''action_digest_mismatch''))),
     policy ''authz_state_digest'' CLASS_A
       (Some (cmp_field dc_authz_state_digest ex_authz_state_digest (lit ''decision_head_mismatch''))),
     policy ''grant_id'' CLASS_A (Some (cmp_field dc_grant_id ex_grant_id (lit ''decision_grant_id_mismatch''))),
     policy ''grant_version'' CLASS_A
       (Some (cmp_field dc_grant_version ex_grant_version (lit ''decision_grant_version_mismatch''))),
     policy ''state_version'' CLASS_A
       (Some (cmp_field dc_state_version ex_state_version (lit ''decision_version_mismatch''))),
     policy ''decision_id'' CLASS_B None,
     policy ''approval_mode'' CLASS_C (Some check_approval_mode),
     policy ''subject_kind'' CLASS_C (Some check_subject_kind),
     policy ''disposition'' CLASS_C (Some check_disposition),
     policy ''decided_at'' CLASS_D None]"

fun first_mismatch :: "field_policy list \<Rightarrow> binding_check" where
  "first_mismatch [] d e = None"
| "first_mismatch (p # ps) d e = (case fp_check p of
     None \<Rightarrow> first_mismatch ps d e
   | Some check \<Rightarrow> (case check d e of Some detail \<Rightarrow> Some detail | None \<Rightarrow> first_mismatch ps d e))"

definition check_binding :: binding_check where
  "check_binding = first_mismatch decision_policy"

definition fields_in_class :: "trust_class \<Rightarrow> pystr list" where
  "fields_in_class c = map fp_field (filter (\<lambda>p. fp_cls p = c) decision_policy)"

definition authenticator_field :: pystr where
  "authenticator_field = lit ''sig''"

definition assert_policy_covers_decision :: "unit res" where
  "assert_policy_covers_decision =
     rbind (rguard (authenticator_field \<notin> set (map fp_field decision_policy)) (Py AssertionError)) (\<lambda>_.
     rguard (insert authenticator_field (set (map fp_field decision_policy)) = set decision_fields)
       (Py AssertionError))"

subsection \<open>What the checks establish\<close>

definition decision_matches :: "decision \<Rightarrow> expected_binding \<Rightarrow> bool" where
  "decision_matches d e \<longleftrightarrow>
     dc_request_id d = ex_request_id e \<and> dc_action_digest d = ex_action_digest e \<and>
     dc_authz_state_digest d = ex_authz_state_digest e \<and> dc_grant_id d = ex_grant_id e \<and>
     dc_grant_version d = ex_grant_version e \<and> dc_state_version d = ex_state_version e \<and>
     dc_approval_mode d = ex_approval_mode e \<and> dc_subject_kind d = ex_subject_kind e \<and>
     dc_disposition d = ex_disposition e"

definition expects_known_values :: "expected_binding \<Rightarrow> bool" where
  "expects_known_values e \<longleftrightarrow> ex_approval_mode e \<in> set approval_modes \<and>
     ex_subject_kind e \<in> set subject_kinds \<and> ex_disposition e \<in> set dispositions"

lemmas binding_checks = check_approval_mode_def check_subject_kind_def check_disposition_def cmp_field_def

lemma check_binding_matches: "check_binding d e = None \<Longrightarrow> decision_matches d e"
  by (auto simp: check_binding_def decision_policy_def policy_def binding_checks decision_matches_def
      split: if_splits)

lemma check_binding_accepts:
  "decision_matches d e \<Longrightarrow> expects_known_values e \<Longrightarrow> check_binding d e = None"
  by (simp add: check_binding_def decision_policy_def policy_def binding_checks decision_matches_def
      expects_known_values_def)

text \<open>Equal objects have equal members, key by key.\<close>

lemma map_of_jnorm: "map_of (map (\<lambda>kv. (fst kv, jnorm (snd kv))) d) k = map_option jnorm (map_of d k)"
  by (induction d) auto

lemma jnorm_lookup:
  assumes "jnorm (PDict d) = jnorm (PDict e)" and "distinct (map fst d)" and "distinct (map fst e)"
  shows "map_option jnorm (map_of d k) = map_option jnorm (map_of e k)"
proof -
  let ?n = "map (\<lambda>kv. (fst kv, jnorm (snd kv)))"
  have "set (?n d) = set (?n e)"
    using arg_cong [of _ _ set, OF assms(1) [simplified]] by simp
  moreover have "distinct (map fst (?n d))" "distinct (map fst (?n e))"
    using assms(2,3) by (simp_all add: comp_def)
  ultimately have "map_of (?n d) = map_of (?n e)"
    using map_of_inject_set by blast
  then show ?thesis by (metis map_of_jnorm)
qed

lemma decision_body_jnorm:
  assumes "jnorm (PDict (decision_body d)) = jnorm (PDict (decision_body d'))"
  shows "d\<lparr>dc_sig := s\<rparr> = d'\<lparr>dc_sig := s\<rparr>"
proof -
  have "distinct (map fst (decision_body x))" for x by (simp add: decision_body_def)
  note l = jnorm_lookup [OF assms this this]
  have "dc_decision_id d = dc_decision_id d'" using l [of "lit ''decision_id''"] by (simp add: decision_body_def)
  moreover have "dc_grant_id d = dc_grant_id d'" using l [of "lit ''grant_id''"] by (simp add: decision_body_def)
  moreover have "dc_grant_version d = dc_grant_version d'" using l [of "lit ''grant_version''"] by (simp add: decision_body_def)
  moreover have "dc_state_version d = dc_state_version d'" using l [of "lit ''state_version''"] by (simp add: decision_body_def)
  moreover have "dc_authz_state_digest d = dc_authz_state_digest d'"
    using l [of "lit ''authz_state_digest''"] by (simp add: decision_body_def)
  moreover have "dc_request_id d = dc_request_id d'" using l [of "lit ''request_id''"] by (simp add: decision_body_def)
  moreover have "dc_action_digest d = dc_action_digest d'" using l [of "lit ''action_digest''"] by (simp add: decision_body_def)
  moreover have "dc_decided_at d = dc_decided_at d'" using l [of "lit ''decided_at''"] by (simp add: decision_body_def)
  moreover have "dc_disposition d = dc_disposition d'" using l [of "lit ''disposition''"] by (simp add: decision_body_def)
  moreover have "dc_approval_mode d = dc_approval_mode d'" using l [of "lit ''approval_mode''"] by (simp add: decision_body_def)
  moreover have "dc_subject_kind d = dc_subject_kind d'" using l [of "lit ''subject_kind''"] by (simp add: decision_body_def)
  ultimately show ?thesis by (cases d; cases d') simp
qed

lemma request_binding_jnorm:
  assumes "jnorm (PDict (request_binding_dict g r a i c)) = jnorm (PDict (request_binding_dict g' r' a' i' c'))"
  shows "g = g' \<and> r = r' \<and> a = a' \<and> i = i' \<and> c = c'"
proof -
  have "distinct (map fst (request_binding_dict u v w x y))" for u v w x y
    by (simp add: request_binding_dict_def)
  note l = jnorm_lookup [OF assms this this]
  show ?thesis
    using l [of "lit ''grant_id''"] l [of "lit ''request_id''"] l [of "lit ''action_digest''"]
      l [of "lit ''issued_at''"] l [of "lit ''channel_binding''"]
    by (simp add: request_binding_dict_def)
qed

lemma decision_signing_input_alt:
  "encodable (lit ''decision'') \<and> decision_signing_input d = signing_input (lit ''decision'') (decision_body d)"
proof -
  have "domain_tag (lit ''decision'') = Inr decision_domain"
    by (simp add: domain_tag_def encode_utf8_def decision_domain_def domain_prefix_def domain_suffix_def
        utf8_def utf8_char_def surrogate_def lit_def)
  then show ?thesis
    by (simp add: decision_signing_input_def signing_input_def surrogate_def lit_def)
qed

lemma canonicalize_dict_first: "canonicalize (PDict d) = Inr m \<Longrightarrow> hd m = 123 \<and> m \<noteq> []"
  by (auto simp: canonicalize_def encode_utf8_def pm_inv utf8_def utf8_char_def split: if_splits)

lemma signing_input_first: "signing_input ty body = Inr m \<Longrightarrow> hd m = 112"
  by (auto simp: signing_input_Inr domain_prefix_def lit_def)

lemma decision_signing_input_inj:
  assumes "decision_signing_input d = Inr m" "decision_signing_input d' = Inr m"
  shows "d\<lparr>dc_sig := s\<rparr> = d'\<lparr>dc_sig := s\<rparr>"
proof -
  from assms have "signing_input (lit ''decision'') (decision_body d) = Inr m"
    "signing_input (lit ''decision'') (decision_body d') = Inr m"
    by (simp_all add: decision_signing_input_alt)
  from signing_input_inj [OF this] show ?thesis by (blast intro: decision_body_jnorm)
qed

lemma decision_not_artifact:
  assumes "decision_signing_input d = Inr m" "signing_input ty b = Inr m"
  shows "ty \<notin> {lit ''grant'', head_artifact_type, revocation_artifact_type}"
proof -
  from assms(1) have "signing_input (lit ''decision'') (decision_body d) = Inr m"
    by (simp add: decision_signing_input_alt)
  from signing_input_inj [OF assms(2) this] show ?thesis
    by (simp add: head_artifact_type_def revocation_artifact_type_def)
qed

lemma request_binding_inj:
  assumes "request_binding g r a i c = Inr m" "request_binding g' r' a' i' c' = Inr m"
  shows "g = g' \<and> r = r' \<and> a = a' \<and> i = i' \<and> c = c'"
  using canonicalize_inj [OF assms [unfolded request_binding_def]] by (rule request_binding_jnorm)

lemma request_binding_separate:
  assumes "request_binding g r a i c = Inr m"
  shows "signing_input ty b \<noteq> Inr m \<and> decision_signing_input d \<noteq> Inr m"
  using canonicalize_dict_first [OF assms [unfolded request_binding_def]] signing_input_first [of _ _ m]
  by (auto simp: decision_signing_input_alt)

subsection \<open>Properties\<close>

text \<open>
  Signed messages never stand in for one another: the bytes signed for an artifact determine its
  type and its body, the bytes signed for a decision determine every field of the decision and are those of no
  artifact the gate accepts, and the bytes an agent signs for a request determine grant, request, payload,
  time and channel, and are neither.
\<close>

theorem signed_messages_separate:
  "(signing_input ty b = Inr m \<longrightarrow> signing_input ty' b' = Inr m \<longrightarrow>
      ty = ty' \<and> jnorm (PDict b) = jnorm (PDict b')) \<and>
   (decision_signing_input d = Inr m \<longrightarrow> decision_signing_input d' = Inr m \<longrightarrow> d\<lparr>dc_sig := s\<rparr> = d'\<lparr>dc_sig := s\<rparr>) \<and>
   (decision_signing_input d = Inr m \<longrightarrow> signing_input ty b = Inr m \<longrightarrow>
      ty \<notin> {lit ''grant'', head_artifact_type, revocation_artifact_type}) \<and>
   (request_binding g r a i c = Inr m \<longrightarrow> request_binding g' r' a' i' c' = Inr m \<longrightarrow>
      g = g' \<and> r = r' \<and> a = a' \<and> i = i' \<and> c = c') \<and>
   (request_binding g r a i c = Inr m \<longrightarrow> signing_input ty b \<noteq> Inr m \<and> decision_signing_input d \<noteq> Inr m)"
  using signing_input_inj [of ty b m ty' b'] decision_signing_input_inj [of d m d' s] decision_not_artifact [of d m ty b]
    request_binding_inj [of g r a i c m g' r' a' i' c'] request_binding_separate [of g r a i c m ty b d]
  by (intro conjI impI) blast+

text \<open>
  The policy covers the decision: the construction-time guard passes, and a decision that passes the
  comparison agrees with what the gate derived in every compared field, so two decisions that pass against the
  same expectation differ in nothing but their identifier, their time and their signature; conversely a decision that agrees
  in every field passes.
\<close>

theorem binding_pins_decision:
  "assert_policy_covers_decision = Inr () \<and>
   (check_binding d e = None \<longrightarrow> decision_matches d e) \<and>
   (expects_known_values e \<longrightarrow> (check_binding d e = None) = decision_matches d e) \<and>
   (check_binding d e = None \<longrightarrow> check_binding d' e = None \<longrightarrow>
      d' = d\<lparr>dc_decision_id := dc_decision_id d', dc_decided_at := dc_decided_at d', dc_sig := dc_sig d'\<rparr>)"
proof -
  have "assert_policy_covers_decision = Inr ()" by code_simp
  moreover have "d' = d\<lparr>dc_decision_id := dc_decision_id d', dc_decided_at := dc_decided_at d', dc_sig := dc_sig d'\<rparr>"
    if "decision_matches d e" "decision_matches d' e"
    using that by (cases d; cases d') (simp add: decision_matches_def)
  ultimately show ?thesis using check_binding_matches check_binding_accepts by blast
qed

definition sample_decision :: decision where
  "sample_decision = \<lparr>dc_decision_id = lit ''d1'', dc_grant_id = sample_gid 97, dc_grant_version = lit ''1'',
     dc_state_version = lit ''1'', dc_authz_state_digest = lit ''h'', dc_request_id = lit ''r1'',
     dc_action_digest = lit ''a'', dc_decided_at = 1000, dc_disposition = lit ''authorized'',
     dc_approval_mode = lit ''auto'', dc_subject_kind = lit ''os_account'', dc_sig = []\<rparr>"

definition sample_expected :: expected_binding where
  "sample_expected = \<lparr>ex_request_id = lit ''r1'', ex_action_digest = lit ''a'', ex_authz_state_digest = lit ''h'',
     ex_state_version = lit ''1'', ex_grant_id = sample_gid 97, ex_grant_version = lit ''1'',
     ex_approval_mode = lit ''auto'', ex_subject_kind = lit ''os_account'', ex_disposition = lit ''authorized''\<rparr>"

theorem signed_messages_separate_witness:
  "\<exists>m. decision_signing_input sample_decision = Inr m \<and>
     signing_input (lit ''grant'') (decision_body sample_decision) \<noteq> Inr m"
proof -
  have "jcs_ok (PDict (decision_body sample_decision))" by code_simp
  then obtain b where "canonicalize (PDict (decision_body sample_decision)) = Inr b"
    using canonicalize_ok_iff by blast
  then have m: "decision_signing_input sample_decision = Inr (decision_domain @ b)"
    by (simp add: decision_signing_input_def)
  with signed_messages_separate [of "lit ''grant''" "decision_body sample_decision" "decision_domain @ b"
      "[]" "[]" sample_decision sample_decision "[]" "[]" "[]" "[]" 0 "[]" "[]" "[]" "[]" 0 "[]"]
  show ?thesis by blast
qed

theorem binding_pins_decision_witness:
  "check_binding sample_decision sample_expected = None \<and> decision_matches sample_decision sample_expected \<and>
   check_binding (sample_decision\<lparr>dc_action_digest := lit ''b''\<rparr>) sample_expected \<noteq> None"
proof -
  have "check_binding sample_decision sample_expected = None"
    "\<not> decision_matches (sample_decision\<lparr>dc_action_digest := lit ''b''\<rparr>) sample_expected" by code_simp+
  with binding_pins_decision [of sample_decision sample_expected sample_decision]
    binding_pins_decision [of "sample_decision\<lparr>dc_action_digest := lit ''b''\<rparr>" sample_expected sample_decision]
  show ?thesis by blast
qed

end
