(* ===== verification/Persistence.thy ===== *)
theory Persistence
  imports Kv_Backend
begin

text \<open>
  \<open>gateway/persistence.py\<close>: the SQLite backends.  The connection is modelled down to the implicit
  transaction: the committed rows, the rows inside a transaction that has not committed, and
  whether the store was evicted.  Every statement, commit and rollback may fail: the field
  \<open>sq_faults\<close> is the schedule of failures the storage will show, one entry per call, and
  the theorems hold for every schedule.  The lock makes each method one atomic step.
  \<open>json.dumps\<close> and \<open>json.loads\<close> are the identity on the JSON-native shapes the store passes.

  A key with a lone surrogate cannot be bound to a statement: \<open>sqlite3\<close> raises \<open>UnicodeEncodeError\<close> there.  In the model
  that is a statement the schedule lets fail, so what holds under every schedule covers it, up to the class
  of the exception; the schedule may also let such a statement succeed, which the library never does.
\<close>

record 'r sqlite =
  sq_committed :: 'r
  sq_pending :: "'r option"
  sq_broken :: bool
  sq_faults :: "bool list"

subsection \<open>The connection\<close>

text \<open>The next call of the connection fails when the schedule says so.\<close>

definition sq_step :: "('r sqlite, unit) pm" where
  "sq_step s = (case sq_faults s of
     [] \<Rightarrow> (Inr (), s)
   | b # bs \<Rightarrow> ((if b then Inl (Db OperationalError) else Inr ()), s\<lparr>sq_faults := bs\<rparr>))"

definition sq_visible :: "'r sqlite \<Rightarrow> 'r" where
  "sq_visible s = (case sq_pending s of None \<Rightarrow> sq_committed s | Some r \<Rightarrow> r)"

definition sq_select :: "('r \<Rightarrow> 'a) \<Rightarrow> ('r sqlite, 'a) pm" where
  "sq_select f = pbind sq_step (\<lambda>_ s. (Inr (f (sq_visible s)), s))"

text \<open>A write statement opens the implicit transaction, even when it then fails.\<close>

definition sq_execute :: "('r \<Rightarrow> 'a \<times> 'r) \<Rightarrow> ('r sqlite, 'a) pm" where
  "sq_execute f s = pbind sq_step
     (\<lambda>_ s. (Inr (fst (f (sq_visible s))), s\<lparr>sq_pending := Some (snd (f (sq_visible s)))\<rparr>))
     (s\<lparr>sq_pending := Some (sq_visible s)\<rparr>)"

definition sq_commit :: "('r sqlite, unit) pm" where
  "sq_commit = pbind sq_step (\<lambda>_ s. (Inr (), s\<lparr>sq_committed := sq_visible s, sq_pending := None\<rparr>))"

definition sq_rollback :: "('r sqlite, unit) pm" where
  "sq_rollback = pbind sq_step (\<lambda>_ s. (Inr (), s\<lparr>sq_pending := None\<rparr>))"

subsection \<open>The eviction discipline\<close>

definition ensure_live :: "('r sqlite, unit) pm" where
  "ensure_live s = (if sq_broken s then (Inl (Db ConnectionEvicted), s) else (Inr (), s))"

text \<open>A failed rollback evicts the connection and closes it; closing drops the transaction.\<close>

definition discard_failed_write :: "('r sqlite, unit) pm" where
  "discard_failed_write =
     pcatch sq_rollback (\<lambda>_ s. (Inr (), s\<lparr>sq_broken := True, sq_pending := None\<rparr>))"

text \<open>The body of every mutator: execute, commit, and on failure discard and re-raise.\<close>

definition write_commit :: "('r \<Rightarrow> 'a \<times> 'r) \<Rightarrow> ('r sqlite, 'a) pm" where
  "write_commit f =
     pcatch (pbind (sq_execute f) (\<lambda>a. pbind sq_commit (\<lambda>_. preturn a)))
       (\<lambda>e. pbind discard_failed_write (\<lambda>_. praise e))"

subsection \<open>SqliteKV\<close>

definition sqlite_get :: "pystr \<Rightarrow> (kv_rows sqlite, dict option) pm" where
  "sqlite_get key = pbind ensure_live (\<lambda>_. sq_select (\<lambda>r. map_of r key))"

definition sqlite_put :: "pystr \<Rightarrow> dict \<Rightarrow> (kv_rows sqlite, unit) pm" where
  "sqlite_put key v = pbind ensure_live (\<lambda>_. write_commit (\<lambda>r. ((), dset r key v)))"

text \<open>\<open>ON CONFLICT(key) DO NOTHING\<close>, and \<open>rowcount == 1\<close>.\<close>

definition sqlite_claim :: "pystr \<Rightarrow> dict \<Rightarrow> (kv_rows sqlite, bool) pm" where
  "sqlite_claim key v = pbind ensure_live (\<lambda>_.
     write_commit (\<lambda>r. case map_of r key of None \<Rightarrow> (True, dset r key v) | Some _ \<Rightarrow> (False, r)))"

definition sqlite_delete :: "pystr \<Rightarrow> (kv_rows sqlite, unit) pm" where
  "sqlite_delete key = pbind ensure_live (\<lambda>_. write_commit (\<lambda>r. ((), dpop r key)))"

definition sqlite_values :: "(kv_rows sqlite, dict list) pm" where
  "sqlite_values = pbind ensure_live (\<lambda>_. sq_select (map snd))"

text \<open>The read-modify-write: the decision \<open>fn\<close> gets the current row and returns the new row or
  the \<open>ABORT\<close> sentinel (\<open>None\<close> here); it may raise, which leaves the row as it is.\<close>

definition sqlite_update ::
  "pystr \<Rightarrow> (dict option \<Rightarrow> dict option res) \<Rightarrow> (kv_rows sqlite, dict option) pm" where
  "sqlite_update key fn =
     pbind ensure_live (\<lambda>_.
     pbind (sq_select (\<lambda>r. map_of r key)) (\<lambda>current.
     pbind (plift (fn current)) (\<lambda>result. case result of
       None \<Rightarrow> preturn None
     | Some v \<Rightarrow> write_commit (\<lambda>r. (Some v, dset r key v)))))"

definition sqlite_kv :: "kv_rows sqlite kv" where
  "sqlite_kv = \<lparr>kv_get = sqlite_get, kv_put = sqlite_put, kv_claim = sqlite_claim,
     kv_delete = sqlite_delete, kv_values = sqlite_values\<rparr>"

subsection \<open>SqliteAppendLog\<close>

definition sqlite_append :: "dict \<Rightarrow> (dict list sqlite, unit) pm" where
  "sqlite_append entry = pbind ensure_live (\<lambda>_. write_commit (\<lambda>r. ((), r @ [entry])))"

definition sqlite_entries :: "(dict list sqlite, dict list) pm" where
  "sqlite_entries = pbind ensure_live (\<lambda>_. sq_select (\<lambda>r. r))"

definition sqlite_log :: "dict list sqlite append_log" where
  "sqlite_log = \<lparr>log_append = sqlite_append, log_entries = sqlite_entries\<rparr>"

subsection \<open>Nothing is left pending\<close>

text \<open>Between two methods no transaction is open.\<close>

definition clean :: "'r sqlite \<Rightarrow> bool" where
  "clean s \<longleftrightarrow> sq_pending s = None"

text \<open>Without failures and eviction.\<close>

definition healthy :: "'r sqlite \<Rightarrow> bool" where
  "healthy s \<longleftrightarrow> sq_pending s = None \<and> \<not> sq_broken s \<and> sq_faults s = []"

lemmas sq_defs = sq_step_def sq_visible_def sq_select_def sq_execute_def sq_commit_def sq_rollback_def
  ensure_live_def discard_failed_write_def

lemma write_commit_atomic:
  assumes "clean s" and "write_commit f s = (r, t)"
  shows "clean t \<and> (case r of
      Inl e \<Rightarrow> sq_committed t = sq_committed s \<and> db_error e
    | Inr a \<Rightarrow> a = fst (f (sq_committed s)) \<and> sq_committed t = snd (f (sq_committed s)) \<and>
        sq_broken t = sq_broken s)"
  using assms
  by (auto simp: write_commit_def sq_defs clean_def pm_simps split: list.splits if_splits)

lemma write_commit_healthy:
  assumes "healthy s"
  shows "write_commit f s = (Inr (fst (f (sq_committed s))), s\<lparr>sq_committed := snd (f (sq_committed s))\<rparr>)"
  using assms by (cases s) (auto simp: write_commit_def sq_defs healthy_def pm_simps)

lemma select_atomic:
  assumes "clean s" and "sq_select f s = (r, t)"
  shows "clean t \<and> sq_committed t = sq_committed s \<and> sq_broken t = sq_broken s \<and>
    (\<forall>v. r = Inr v \<longrightarrow> v = f (sq_committed s)) \<and> (\<forall>e. r = Inl e \<longrightarrow> db_error e)"
  using assms by (auto simp: sq_defs clean_def pm_simps split: list.splits if_splits)

lemma select_healthy: "healthy s \<Longrightarrow> sq_select f s = (Inr (f (sq_committed s)), s)"
  by (auto simp: sq_defs healthy_def pm_simps)

lemma ensure_live_iff [pm_inv]:
  "ensure_live s = (Inr u, t) \<longleftrightarrow> \<not> sq_broken s \<and> t = s"
  "ensure_live s = (Inl e, t) \<longleftrightarrow> sq_broken s \<and> e = Db ConnectionEvicted \<and> t = s"
  by (auto simp: ensure_live_def)

text \<open>Any guarded statement, in one lemma each.\<close>

lemma guarded_write:
  assumes "clean s" and "pbind ensure_live (\<lambda>_. write_commit f) s = (r, t)"
  shows "clean t \<and> (case r of
      Inl e \<Rightarrow> sq_committed t = sq_committed s \<and> db_error e
    | Inr a \<Rightarrow> a = fst (f (sq_committed s)) \<and> sq_committed t = snd (f (sq_committed s)))"
proof (cases "sq_broken s")
  case True
  with assms show ?thesis by (auto simp: pbind_def ensure_live_def)
next
  case False
  with assms(2) have "write_commit f s = (r, t)" by (simp add: pbind_def ensure_live_def)
  from write_commit_atomic [OF assms(1) this] show ?thesis by (auto split: sum.splits)
qed

lemma guarded_read:
  assumes "clean s" and "pbind ensure_live (\<lambda>_. sq_select f) s = (r, t)"
  shows "clean t \<and> sq_committed t = sq_committed s \<and> (\<forall>v. r = Inr v \<longrightarrow> v = f (sq_committed s)) \<and>
    (\<forall>e. r = Inl e \<longrightarrow> db_error e)"
proof (cases "sq_broken s")
  case True
  with assms show ?thesis by (auto simp: pbind_def ensure_live_def)
next
  case False
  with assms(2) have "sq_select f s = (r, t)" by (simp add: pbind_def ensure_live_def)
  from select_atomic [OF assms(1) this] show ?thesis by blast
qed

lemma healthy_live: "healthy s \<Longrightarrow> ensure_live s = (Inr (), s)"
  by (simp add: healthy_def ensure_live_def)

lemma healthy_clean: "healthy s \<Longrightarrow> clean s"
  by (simp add: healthy_def clean_def)

lemma healthy_commit: "healthy s \<Longrightarrow> healthy (s\<lparr>sq_committed := r\<rparr>)"
  by (simp add: healthy_def)

lemma guarded_healthy_write:
  assumes "healthy s"
  shows "\<exists>t. pbind ensure_live (\<lambda>_. write_commit f) s = (Inr (fst (f (sq_committed s))), t) \<and> healthy t"
  using assms by (simp add: pbind_def healthy_live write_commit_healthy healthy_commit)

lemma guarded_healthy_read:
  "healthy s \<Longrightarrow> pbind ensure_live (\<lambda>_. sq_select f) s = (Inr (f (sq_committed s)), s)"
  by (simp add: pbind_def healthy_live select_healthy)

lemma sqlite_kv_simps:
  "kv_get sqlite_kv = sqlite_get" "kv_put sqlite_kv = sqlite_put" "kv_claim sqlite_kv = sqlite_claim"
  "kv_delete sqlite_kv = sqlite_delete" "kv_values sqlite_kv = sqlite_values"
  by (simp_all add: sqlite_kv_def)

lemma sqlite_get_atomic:
  assumes "clean s" "sqlite_get k s = (r, t)"
  shows "clean t \<and> map_of (sq_committed t) = map_of (sq_committed s) \<and>
    (\<forall>v. r = Inr v \<longrightarrow> v = map_of (sq_committed s) k) \<and> (\<forall>e. r = Inl e \<longrightarrow> db_error e)"
  using guarded_read [OF assms(1) assms(2) [unfolded sqlite_get_def]] by simp

lemma sqlite_put_atomic:
  assumes "clean s" "sqlite_put k v s = (r, t)"
  shows "clean t \<and> map_of (sq_committed t) =
    (case r of Inl _ \<Rightarrow> map_of (sq_committed s) | Inr _ \<Rightarrow> (map_of (sq_committed s))(k \<mapsto> v)) \<and>
    (\<forall>e. r = Inl e \<longrightarrow> db_error e)"
  using guarded_write [OF assms(1) assms(2) [unfolded sqlite_put_def]] by (cases r) simp_all

lemma sqlite_delete_atomic:
  assumes "clean s" "sqlite_delete k s = (r, t)"
  shows "clean t \<and> map_of (sq_committed t) =
    (case r of Inl _ \<Rightarrow> map_of (sq_committed s) | Inr _ \<Rightarrow> (map_of (sq_committed s))(k := None)) \<and>
    (\<forall>e. r = Inl e \<longrightarrow> db_error e)"
  using guarded_write [OF assms(1) assms(2) [unfolded sqlite_delete_def]] by (cases r) simp_all

lemma sqlite_claim_atomic:
  assumes "clean s" "sqlite_claim k v s = (r, t)"
  shows "clean t \<and> (\<forall>w. r = Inr w \<longrightarrow> w = (map_of (sq_committed s) k = None)) \<and>
    map_of (sq_committed t) =
      (if r = Inr True then (map_of (sq_committed s))(k \<mapsto> v) else map_of (sq_committed s)) \<and>
    (\<forall>e. r = Inl e \<longrightarrow> db_error e)"
  using guarded_write [OF assms(1) assms(2) [unfolded sqlite_claim_def]]
  by (cases r; cases "map_of (sq_committed s) k") simp_all

interpretation sqlite: kv_live sqlite_kv "\<lambda>s. map_of (sq_committed s)" clean healthy
proof unfold_locales
  show "\<exists>t. kv_put sqlite_kv k v s = (Inr (), t) \<and> healthy t" if "healthy s" for k v s
    using guarded_healthy_write [OF that, of "\<lambda>r. ((), dset r k v)"]
    by (simp add: sqlite_kv_simps sqlite_put_def)
  show "\<exists>t. kv_delete sqlite_kv k s = (Inr (), t) \<and> healthy t" if "healthy s" for k s
    using guarded_healthy_write [OF that, of "\<lambda>r. ((), dpop r k)"]
    by (simp add: sqlite_kv_simps sqlite_delete_def)
  show "\<exists>w t. kv_claim sqlite_kv k v s = (Inr w, t) \<and> healthy t" if "healthy s" for k v s
    unfolding sqlite_kv_simps sqlite_claim_def using guarded_healthy_write [OF that] by blast
  show "kv_get sqlite_kv k s = (Inr (map_of (sq_committed s) k), s)" if "healthy s" for k s
    using that by (simp add: sqlite_kv_simps sqlite_get_def guarded_healthy_read)
qed (unfold sqlite_kv_simps, (rule sqlite_get_atomic sqlite_put_atomic sqlite_delete_atomic
      sqlite_claim_atomic healthy_clean; assumption)+)

interpretation sqlite_audit: log_atomic sqlite_log sq_committed clean
proof unfold_locales
  fix s :: "dict list sqlite" and t e r q
  assume s: "clean s"
  show "clean t \<and> sq_committed t = (case r of Inl _ \<Rightarrow> sq_committed s | Inr _ \<Rightarrow> sq_committed s @ [e])"
    if "log_append sqlite_log e s = (r, t)"
    using guarded_write [OF s, of "\<lambda>r. ((), r @ [e])" r t] that
    by (cases r) (simp_all add: sqlite_log_def sqlite_append_def)
  show "clean t \<and> sq_committed t = sq_committed s \<and> (\<forall>es. q = Inr es \<longrightarrow> es = sq_committed s)"
    if "log_entries sqlite_log s = (q, t)"
    using guarded_read [OF s, of "\<lambda>r. r" q t] that by (simp add: sqlite_log_def sqlite_entries_def)
qed

subsection \<open>Properties\<close>

text \<open>
  C17. Whatever fails and whenever, the durable rows are exactly the effect of the
  writes that returned, in order: a write that raised leaves no trace and is never folded into a
  later commit, also when the rollback itself fails.
\<close>

theorem sqlite_writes_exact:
  assumes "clean s" and "kv_run sqlite_kv ops s = (returned, t)"
  shows "clean t \<and> map_of (sq_committed t) = fold kv_apply returned (map_of (sq_committed s))"
  by (rule sqlite.run_rows [OF assms])

theorem sqlite_writes_exact_witness:
  "let s = \<lparr>sq_committed = [], sq_pending = None, sq_broken = False,
      sq_faults = [False, True, False, False, False]\<rparr>;
     ops = [OpPut (lit ''a'') [], OpPut (lit ''b'') []]
   in kv_run sqlite_kv ops s = ([OpPut (lit ''b'') []], s\<lparr>sq_committed := [(lit ''b'', [])], sq_faults := []\<rparr>) \<and>
      map_of (sq_committed (snd (kv_run sqlite_kv ops s))) (lit ''a'') = None"
proof -
  let ?s = "\<lparr>sq_committed = [], sq_pending = None, sq_broken = False,
      sq_faults = [False, True, False, False, False]\<rparr> :: kv_rows sqlite"
  let ?ops = "[OpPut (lit ''a'') [], OpPut (lit ''b'') []]"
  let ?t = "?s\<lparr>sq_committed := [(lit ''b'', [])], sq_faults := []\<rparr>"
  have run: "kv_run sqlite_kv ?ops ?s = ([OpPut (lit ''b'') []], ?t)"
    by (simp add: sqlite_kv_simps sqlite_put_def write_commit_def sq_defs pm_simps)
  have "clean ?s" by (simp add: clean_def)
  from sqlite_writes_exact [OF this run] run show ?thesis by (simp add: Let_def)
qed

text \<open>
  A claim is won once: however many callers claim a key, interleaved with any other
  writes and under any failures, at most one is told it won, as long as nobody deletes the key.
\<close>

theorem sqlite_claim_exclusive:
  assumes "clean s" and "OpDelete k \<notin> set ops"
  shows "claims_won sqlite_kv k ops s \<le> 1"
  by (rule sqlite.claims_won_once [OF assms])

theorem sqlite_claim_exclusive_witness:
  "claims_won sqlite_kv (lit ''k'') [OpClaim (lit ''k'') [], OpClaim (lit ''k'') []]
     \<lparr>sq_committed = [], sq_pending = None, sq_broken = False, sq_faults = []\<rparr> \<le> 1"
  using sqlite_claim_exclusive [of "\<lparr>sq_committed = [], sq_pending = None, sq_broken = False, sq_faults = []\<rparr>"
      "lit ''k''" "[OpClaim (lit ''k'') [], OpClaim (lit ''k'') []]"]
  by (simp add: clean_def)

text \<open>
  After a failed rollback the handle is dead: every operation raises
  \<open>ConnectionEvicted\<close> and changes nothing, so no later commit can carry the failed write.
\<close>

theorem sqlite_evicted_refuses:
  assumes "sq_broken s"
  shows "sqlite_get k s = (Inl (Db ConnectionEvicted), s) \<and> sqlite_put k v s = (Inl (Db ConnectionEvicted), s) \<and>
    sqlite_claim k v s = (Inl (Db ConnectionEvicted), s) \<and> sqlite_delete k s = (Inl (Db ConnectionEvicted), s) \<and>
    sqlite_update k fn s = (Inl (Db ConnectionEvicted), s) \<and> sqlite_values s = (Inl (Db ConnectionEvicted), s)"
  using assms
  by (simp add: sqlite_get_def sqlite_put_def sqlite_claim_def sqlite_delete_def sqlite_update_def
      sqlite_values_def ensure_live_def pbind_def)

theorem sqlite_evicted_refuses_witness:
  "let s = snd (sqlite_put (lit ''a'') [] \<lparr>sq_committed = [], sq_pending = None, sq_broken = False,
      sq_faults = [True, True]\<rparr>)
   in sq_broken s \<and> sqlite_get (lit ''a'') s = (Inl (Db ConnectionEvicted), s)"
proof -
  let ?s = "snd (sqlite_put (lit ''a'') [] \<lparr>sq_committed = [], sq_pending = None, sq_broken = False,
      sq_faults = [True, True]\<rparr>)"
  have "sq_broken ?s"
    by (simp add: sqlite_put_def write_commit_def sq_defs pm_simps)
  with sqlite_evicted_refuses [of ?s "lit ''a''" "[]"] show ?thesis by (simp add: Let_def)
qed

end
