(* ===== verification/Proposals.thy ===== *)
theory Proposals
  imports Persistence
begin

text \<open>
  \<open>store/proposals.py\<close>: the proposal record, its row format, and the store over a backend.
  The store keeps two kinds of rows in one table: a proposal under its id, and an index row
  under \<open>idem:\<close> and the idempotency key.  The invariant \<open>index_inv\<close> relates them: a
  claimed key always leads to an existing proposal with that key.  It is proved in the backend's contract
  \<open>kv_atomic\<close>, hence for a crash or a storage failure at any point of any operation.

  A row whose members have other types than \<open>to_dict\<close> writes (there is none) has no typed
  record; the model raises on it.
\<close>

datatype proposal_status = PENDING | CONFIRMED | SENT | FAILED | OUTCOME_UNKNOWN

fun status_value :: "proposal_status \<Rightarrow> pystr" where
  "status_value PENDING = lit ''pending''"
| "status_value CONFIRMED = lit ''confirmed''"
| "status_value SENT = lit ''sent''"
| "status_value FAILED = lit ''failed''"
| "status_value OUTCOME_UNKNOWN = lit ''outcome_unknown''"

text \<open>\<open>ProposalStatus(v)\<close>.\<close>

definition status_of :: "pyval \<Rightarrow> proposal_status res" where
  "status_of v =
    (if v = PStr (lit ''pending'') then Inr PENDING
     else if v = PStr (lit ''confirmed'') then Inr CONFIRMED
     else if v = PStr (lit ''sent'') then Inr SENT
     else if v = PStr (lit ''failed'') then Inr FAILED
     else if v = PStr (lit ''outcome_unknown'') then Inr OUTCOME_UNKNOWN
     else Inl (Py ValueError))"

definition terminal :: "proposal_status \<Rightarrow> bool" where
  "terminal st \<longleftrightarrow> st \<in> {SENT, FAILED, OUTCOME_UNKNOWN}"

record proposal =
  p_proposal_id :: pystr
  p_payload_digest :: pystr
  p_expires_at :: int
  p_created_at :: int
  p_status :: proposal_status
  p_idempotency_key :: "pystr option"

definition opt_str :: "pystr option \<Rightarrow> pyval" where
  "opt_str o' = (case o' of None \<Rightarrow> PNone | Some s \<Rightarrow> PStr s)"

definition proposal_to_dict :: "proposal \<Rightarrow> dict" where
  "proposal_to_dict p =
    [(lit ''proposal_id'', PStr (p_proposal_id p)),
     (lit ''payload_digest'', PStr (p_payload_digest p)),
     (lit ''expires_at'', PInt (p_expires_at p)),
     (lit ''created_at'', PInt (p_created_at p)),
     (lit ''status'', PStr (status_value (p_status p))),
     (lit ''idempotency_key'', opt_str (p_idempotency_key p))]"

text \<open>The types of the record's fields.\<close>

definition typed_str :: "pyval \<Rightarrow> pystr res" where
  "typed_str v = (case v of PStr s \<Rightarrow> Inr s | _ \<Rightarrow> Inl (Py TypeError))"

definition typed_int :: "pyval \<Rightarrow> int res" where
  "typed_int v = (case v of PInt i \<Rightarrow> Inr i | _ \<Rightarrow> Inl (Py TypeError))"

definition typed_opt_str :: "pyval \<Rightarrow> pystr option res" where
  "typed_opt_str v = (case v of PNone \<Rightarrow> Inr None | PStr s \<Rightarrow> Inr (Some s) | _ \<Rightarrow> Inl (Py TypeError))"

definition proposal_from_dict :: "dict \<Rightarrow> proposal res" where
  "proposal_from_dict d = rcatch
     (rbind (rbind (dindex d (lit ''proposal_id'')) typed_str) (\<lambda>pid.
      rbind (rbind (dindex d (lit ''payload_digest'')) typed_str) (\<lambda>dig.
      rbind (rbind (dindex d (lit ''expires_at'')) typed_int) (\<lambda>ex.
      rbind (rbind (dindex d (lit ''created_at'')) typed_int) (\<lambda>cr.
      rbind (rbind (dindex d (lit ''status'')) status_of) (\<lambda>st.
      rbind (typed_opt_str (dget d (lit ''idempotency_key''))) (\<lambda>k.
      Inr \<lparr>p_proposal_id = pid, p_payload_digest = dig, p_expires_at = ex, p_created_at = cr,
           p_status = st, p_idempotency_key = k\<rparr>)))))))
     (\<lambda>e. if e = Py KeyError \<or> is_value_error e then Inl (Store ProposalStateError) else Inl e)"

definition validate_ts :: "int \<Rightarrow> unit res" where
  "validate_ts v = rguard (0 \<le> v) (Store ProposalStateError)"

subsection \<open>The store\<close>

definition idem_index_key :: "pystr \<Rightarrow> pystr" where
  "idem_index_key k = lit ''idem:'' @ k"

definition index_row :: "pystr \<Rightarrow> dict" where
  "index_row pid = [(lit ''proposal_id'', PStr pid)]"

text \<open>The tail of \<open>create\<close>: claim the idempotency key, or undo the write.\<close>

definition ps_claim :: "'s kv \<Rightarrow> proposal \<Rightarrow> pystr \<Rightarrow> ('s, proposal) pm" where
  "ps_claim B p k =
     pbind (kv_claim B (idem_index_key k) (index_row (p_proposal_id p))) (\<lambda>won.
     if won then preturn p
     else pbind (kv_delete B (p_proposal_id p)) (\<lambda>_. praise (Store DuplicateIdempotencyError)))"

definition ps_create :: "'s kv \<Rightarrow> proposal \<Rightarrow> ('s, proposal) pm" where
  "ps_create B p =
     pbind (plift (validate_ts (p_expires_at p))) (\<lambda>_.
     pbind (plift (validate_ts (p_created_at p))) (\<lambda>_.
     pbind (plift (rguard (p_created_at p < p_expires_at p) (Store ProposalStateError))) (\<lambda>_.
     pbind (kv_get B (p_proposal_id p)) (\<lambda>old.
     if old \<noteq> None then praise (Store ProposalStateError)
     else pbind (kv_put B (p_proposal_id p) (proposal_to_dict p)) (\<lambda>_.
       case p_idempotency_key p of
         None \<Rightarrow> preturn p
       | Some k \<Rightarrow> ps_claim B p k)))))"

definition ps_get :: "'s kv \<Rightarrow> pystr \<Rightarrow> ('s, proposal) pm" where
  "ps_get B pid = pbind (kv_get B pid) (\<lambda>raw. case raw of
     None \<Rightarrow> praise (Store (ProposalNotFoundError pid))
   | Some d \<Rightarrow> plift (proposal_from_dict d))"

definition ps_find_by_idempotency :: "'s kv \<Rightarrow> pystr \<Rightarrow> ('s, proposal option) pm" where
  "ps_find_by_idempotency B key = pbind (kv_get B (idem_index_key key)) (\<lambda>idx. case idx of
     None \<Rightarrow> preturn None
   | Some d \<Rightarrow> pbind (plift (rbind (dindex d (lit ''proposal_id'')) typed_str)) (\<lambda>pid.
       pbind (ps_get B pid) (\<lambda>p. preturn (Some p))))"

definition ps_is_live :: "proposal \<Rightarrow> int \<Rightarrow> bool res" where
  "ps_is_live p now = rmap (\<lambda>_. terminal (p_status p) \<or> now < p_expires_at p) (validate_ts now)"

definition ps_get_live :: "'s kv \<Rightarrow> pystr \<Rightarrow> int \<Rightarrow> ('s, proposal) pm" where
  "ps_get_live B pid now =
     pbind (ps_get B pid) (\<lambda>p.
     pbind (plift (ps_is_live p now)) (\<lambda>live.
     if live then preturn p else praise (Store (ProposalExpiredError pid))))"

definition ps_set_status :: "'s kv \<Rightarrow> pystr \<Rightarrow> proposal_status \<Rightarrow> ('s, proposal) pm" where
  "ps_set_status B pid st =
     pbind (ps_get B pid) (\<lambda>p.
     pbind (kv_put B pid (proposal_to_dict (p\<lparr>p_status := st\<rparr>))) (\<lambda>_.
     preturn (p\<lparr>p_status := st\<rparr>)))"

subsection \<open>The row format\<close>

lemma status_of_value [simp]: "status_of (PStr (status_value st)) = Inr st"
  by (cases st) (simp_all add: status_of_def)

lemma typed_opt_str_opt [simp]: "typed_opt_str (opt_str o') = Inr o'"
  by (cases o') (simp_all add: typed_opt_str_def opt_str_def)

lemma from_dict_to_dict [simp]: "proposal_from_dict (proposal_to_dict p) = Inr p"
  by (simp add: proposal_from_dict_def proposal_to_dict_def dindex_def dget_def typed_str_def typed_int_def)

lemma from_dict_index_row [simp]: "proposal_from_dict (index_row pid) = Inl (Store ProposalStateError)"
  by (simp add: proposal_from_dict_def index_row_def dindex_def typed_str_def)

lemma idem_index_key_inj [simp]: "idem_index_key j = idem_index_key k \<longleftrightarrow> j = k"
  by (simp add: idem_index_key_def)

subsection \<open>The invariant\<close>

definition index_key :: "pystr \<Rightarrow> bool" where
  "index_key k \<longleftrightarrow> (\<exists>i. k = idem_index_key i)"

text \<open>Every row is an index row of a claimed key that leads to an existing proposal with that
  key, or a proposal under its own id.\<close>

definition index_inv :: "(pystr \<Rightarrow> dict option) \<Rightarrow> bool" where
  "index_inv m \<longleftrightarrow>
    (\<forall>i d. m (idem_index_key i) = Some d \<longrightarrow> (\<exists>p. d = index_row (p_proposal_id p) \<and>
       m (p_proposal_id p) = Some (proposal_to_dict p) \<and> p_idempotency_key p = Some i)) \<and>
    (\<forall>k d. m k = Some d \<and> \<not> index_key k \<longrightarrow> (\<exists>p. d = proposal_to_dict p \<and> p_proposal_id p = k))"

lemma to_dict_not_index: "proposal_to_dict p \<noteq> index_row pid"
  by (simp add: proposal_to_dict_def index_row_def)

lemma index_inv_index:
  "index_inv m \<Longrightarrow> m (idem_index_key i) = Some d \<Longrightarrow> \<exists>p. d = index_row (p_proposal_id p) \<and>
     m (p_proposal_id p) = Some (proposal_to_dict p) \<and> p_idempotency_key p = Some i"
  by (simp add: index_inv_def)

lemma not_index_key: "\<not> index_key k \<Longrightarrow> k \<noteq> idem_index_key i" "\<not> index_key k \<Longrightarrow> idem_index_key i \<noteq> k"
  by (auto simp: index_key_def)

lemma index_invD:
  assumes "index_inv m" "m (idem_index_key i) = Some d"
  obtains p where "d = index_row (p_proposal_id p)" "m (p_proposal_id p) = Some (proposal_to_dict p)"
    "p_idempotency_key p = Some i" "\<not> index_key (p_proposal_id p)"
proof -
  from assms obtain p where p: "d = index_row (p_proposal_id p)"
    "m (p_proposal_id p) = Some (proposal_to_dict p)" "p_idempotency_key p = Some i"
    using index_inv_index by blast
  have "\<not> index_key (p_proposal_id p)"
  proof
    assume "index_key (p_proposal_id p)"
    then obtain j where "p_proposal_id p = idem_index_key j" by (auto simp: index_key_def)
    with p(2) have "m (idem_index_key j) = Some (proposal_to_dict p)" by simp
    from index_inv_index [OF assms(1) this]
    obtain q :: proposal where "proposal_to_dict p = index_row (p_proposal_id q)" by blast
    with to_dict_not_index show False by blast
  qed
  with p that show ?thesis by blast
qed

lemma index_inv_proposal:
  "index_inv m \<Longrightarrow> m k = Some d \<Longrightarrow> \<not> index_key k \<Longrightarrow> \<exists>p. d = proposal_to_dict p \<and> p_proposal_id p = k"
  by (simp add: index_inv_def)

lemma index_inv_read:
  assumes "index_inv m" "m k = Some d" "proposal_from_dict d = Inr p"
  shows "d = proposal_to_dict p \<and> p_proposal_id p = k \<and> \<not> index_key k"
proof -
  have "\<not> index_key k"
  proof
    assume "index_key k"
    then obtain i where "k = idem_index_key i" by (auto simp: index_key_def)
    with assms(2) have "m (idem_index_key i) = Some d" by simp
    from index_inv_index [OF assms(1) this] obtain q :: proposal where "d = index_row (p_proposal_id q)" by blast
    with assms(3) show False by simp
  qed
  moreover from index_inv_proposal [OF assms(1,2) this] assms(3) show ?thesis
    using \<open>\<not> index_key k\<close> by auto
qed

text \<open>The four ways the store changes a row.\<close>

lemma index_inv_new:
  assumes m: "index_inv m" and p: "m (p_proposal_id p) = None" "\<not> index_key (p_proposal_id p)"
  shows "index_inv (m(p_proposal_id p \<mapsto> proposal_to_dict p))"
  unfolding index_inv_def
proof (intro conjI allI impI)
  fix i d assume "(m(p_proposal_id p \<mapsto> proposal_to_dict p)) (idem_index_key i) = Some d"
  with not_index_key [OF p(2)] have "m (idem_index_key i) = Some d"
    by simp
  from index_inv_index [OF m this] p(1) show "\<exists>q. d = index_row (p_proposal_id q) \<and>
      (m(p_proposal_id p \<mapsto> proposal_to_dict p)) (p_proposal_id q) = Some (proposal_to_dict q) \<and>
      p_idempotency_key q = Some i"
    by (metis fun_upd_apply option.distinct(1))
next
  fix k d assume "(m(p_proposal_id p \<mapsto> proposal_to_dict p)) k = Some d \<and> \<not> index_key k"
  with index_inv_proposal [OF m] show "\<exists>q. d = proposal_to_dict q \<and> p_proposal_id q = k"
    by (auto split: if_splits)
qed

lemma index_inv_claim:
  assumes m: "index_inv m" and p: "m (p_proposal_id p) = Some (proposal_to_dict p)"
    "p_idempotency_key p = Some i" "\<not> index_key (p_proposal_id p)"
  shows "index_inv (m(idem_index_key i \<mapsto> index_row (p_proposal_id p)))"
  unfolding index_inv_def
proof (intro conjI allI impI)
  fix j d assume d: "(m(idem_index_key i \<mapsto> index_row (p_proposal_id p))) (idem_index_key j) = Some d"
  have other: "(m(idem_index_key i \<mapsto> index_row (p_proposal_id p))) k = m k" if "\<not> index_key k" for k
    using that by (auto simp: index_key_def)
  show "\<exists>q. d = index_row (p_proposal_id q) \<and>
      (m(idem_index_key i \<mapsto> index_row (p_proposal_id p))) (p_proposal_id q) = Some (proposal_to_dict q) \<and>
      p_idempotency_key q = Some j"
  proof (cases "j = i")
    case True
    with d p other [OF p(3)] show ?thesis by (intro exI [of _ p]) simp
  next
    case False
    with d have "m (idem_index_key j) = Some d" by simp
    from index_invD [OF m this] obtain q where "d = index_row (p_proposal_id q)"
      "m (p_proposal_id q) = Some (proposal_to_dict q)" "p_idempotency_key q = Some j"
      "\<not> index_key (p_proposal_id q)" .
    with other show ?thesis by (intro exI [of _ q]) simp
  qed
next
  fix k d assume "(m(idem_index_key i \<mapsto> index_row (p_proposal_id p))) k = Some d \<and> \<not> index_key k"
  with index_inv_proposal [OF m] show "\<exists>q. d = proposal_to_dict q \<and> p_proposal_id q = k"
    by (auto simp: index_key_def split: if_splits)
qed

lemma index_inv_undo:
  assumes m: "index_inv m" and new: "m pid = None" and pid: "\<not> index_key pid"
  shows "index_inv ((m(pid \<mapsto> d))(pid := None))"
  using assms by (simp add: fun_upd_idem)

lemma index_inv_status:
  assumes m: "index_inv m" and p: "m pid = Some (proposal_to_dict p)" "p_proposal_id p = pid"
    "\<not> index_key pid"
  shows "index_inv (m(pid \<mapsto> proposal_to_dict (p\<lparr>p_status := st\<rparr>)))"
  unfolding index_inv_def
proof (intro conjI allI impI)
  fix i d assume "(m(pid \<mapsto> proposal_to_dict (p\<lparr>p_status := st\<rparr>))) (idem_index_key i) = Some d"
  with not_index_key [OF p(3)] have d: "m (idem_index_key i) = Some d"
    by simp
  then obtain q where q: "d = index_row (p_proposal_id q)" "m (p_proposal_id q) = Some (proposal_to_dict q)"
    "p_idempotency_key q = Some i"
    using index_inv_index [OF m d] by blast
  show "\<exists>q. d = index_row (p_proposal_id q) \<and>
      (m(pid \<mapsto> proposal_to_dict (p\<lparr>p_status := st\<rparr>))) (p_proposal_id q) = Some (proposal_to_dict q) \<and>
      p_idempotency_key q = Some i"
  proof (cases "p_proposal_id q = pid")
    case True
    with q(2) p(1) have "proposal_to_dict q = proposal_to_dict p" by simp
    then have "q = p" by (metis from_dict_to_dict sum.inject(2))
    with q p(2) show ?thesis by (intro exI [of _ "p\<lparr>p_status := st\<rparr>"]) simp
  next
    case False
    with q show ?thesis by (intro exI [of _ q]) simp
  qed
next
  fix k d assume "(m(pid \<mapsto> proposal_to_dict (p\<lparr>p_status := st\<rparr>))) k = Some d \<and> \<not> index_key k"
  with index_inv_proposal [OF m] p(2) show "\<exists>q. d = proposal_to_dict q \<and> p_proposal_id q = k"
    by (cases "k = pid") (auto intro: exI [of _ "p\<lparr>p_status := st\<rparr>"])
qed

subsection \<open>The operations keep the invariant, whatever fails\<close>

context kv_atomic
begin

lemma get_step:
  assumes "inv s" "ps_get B pid s = (r, t)"
  shows "inv t \<and> rows t = rows s \<and>
    (\<forall>p. r = Inr p \<longrightarrow> (\<exists>d. rows s pid = Some d \<and> proposal_from_dict d = Inr p))"
proof -
  obtain g u where g: "kv_get B pid s = (g, u)" by fastforce
  from get_atomic [OF assms(1) g] assms(2) g show ?thesis
    by (cases g) (auto simp: ps_get_def pm_simps split: option.splits)
qed

lemma get_live_step:
  assumes "inv s" "ps_get_live B pid now s = (r, t)"
  shows "inv t \<and> rows t = rows s \<and>
    (\<forall>p. r = Inr p \<longrightarrow> (\<exists>d. rows s pid = Some d \<and> proposal_from_dict d = Inr p) \<and>
       0 \<le> now \<and> (terminal (p_status p) \<or> now < p_expires_at p))"
proof -
  obtain g u where g: "ps_get B pid s = (g, u)" by fastforce
  from get_step [OF assms(1) g] assms(2) g show ?thesis
    by (cases g; cases "0 \<le> now")
      (auto simp: ps_get_live_def pm_simps ps_is_live_def validate_ts_def rguard_def split: if_splits)
qed

text \<open>\<open>set_status\<close> writes one row, or nothing.\<close>

lemma set_status_step:
  assumes "inv s" "ps_set_status B pid st s = (r, t)"
  shows "inv t \<and> (rows t = rows s \<and> (\<exists>e. r = Inl e) \<or>
    (\<exists>d p. rows s pid = Some d \<and> proposal_from_dict d = Inr p \<and> r = Inr (p\<lparr>p_status := st\<rparr>) \<and>
       rows t = (rows s)(pid \<mapsto> proposal_to_dict (p\<lparr>p_status := st\<rparr>))))"
proof -
  obtain g u where g: "ps_get B pid s = (g, u)" by fastforce
  note gs = get_step [OF assms(1) g]
  show ?thesis
  proof (cases g)
    case (Inl e)
    with gs assms(2) g show ?thesis by (auto simp: ps_set_status_def pm_simps)
  next
    case (Inr p)
    obtain w v where w: "kv_put B pid (proposal_to_dict (p\<lparr>p_status := st\<rparr>)) u = (w, v)" by fastforce
    with gs have "inv v \<and> rows v = (case w of Inl _ \<Rightarrow> rows u
        | Inr _ \<Rightarrow> (rows u)(pid \<mapsto> proposal_to_dict (p\<lparr>p_status := st\<rparr>)))"
      using put_atomic by blast
    with gs assms(2) g w Inr show ?thesis
      by (cases w) (auto simp: ps_set_status_def pm_simps)
  qed
qed

lemma set_status_inv:
  assumes "inv s" "ps_set_status B pid st s = (r, t)" "index_inv (rows s)"
  shows "inv t \<and> index_inv (rows t)"
  using set_status_step [OF assms(1,2)]
proof (elim conjE disjE exE)
  fix d p
  assume d: "rows s pid = Some d" "proposal_from_dict d = Inr p" and t: "inv t"
    "rows t = (rows s)(pid \<mapsto> proposal_to_dict (p\<lparr>p_status := st\<rparr>))"
  from index_inv_read [OF assms(3) d] index_inv_status [OF assms(3), of pid p st] d t
  show ?thesis by simp
qed (use assms(3) in simp)

text \<open>\<open>create\<close> after its checks: the write, then the claim.\<close>

lemma create_checks:
  "ps_create B p s =
    (if \<not> (0 \<le> p_expires_at p \<and> 0 \<le> p_created_at p \<and> p_created_at p < p_expires_at p)
     then (Inl (Store ProposalStateError), s)
     else case kv_get B (p_proposal_id p) s of
       (Inl e, u) \<Rightarrow> (Inl e, u)
     | (Inr (Some _), u) \<Rightarrow> (Inl (Store ProposalStateError), u)
     | (Inr None, u) \<Rightarrow> pbind (kv_put B (p_proposal_id p) (proposal_to_dict p))
         (\<lambda>_. case p_idempotency_key p of None \<Rightarrow> preturn p
            | Some k \<Rightarrow> ps_claim B p k) u)"
proof (cases "0 \<le> p_expires_at p \<and> 0 \<le> p_created_at p \<and> p_created_at p < p_expires_at p")
  case False
  then show ?thesis by (auto simp: ps_create_def validate_ts_def rguard_def)
next
  case True
  obtain g u where g: "kv_get B (p_proposal_id p) s = (g, u)" by fastforce
  show ?thesis
  proof (cases g)
    case (Inl e)
    with True g show ?thesis by (simp add: ps_create_def validate_ts_def rguard_def pbind_raises)
  next
    case (Inr old)
    with True g show ?thesis
      by (cases old) (simp_all add: ps_create_def validate_ts_def rguard_def pbind_returns)
  qed
qed

lemma claim_step:
  assumes "inv s" "ps_claim B p k s = (r, t)" "rows s (p_proposal_id p) = Some (proposal_to_dict p)"
  shows "inv t \<and>
    (rows t = rows s \<and> (\<exists>e. r = Inl e \<and> e \<noteq> Store DuplicateIdempotencyError) \<or>
     rows t = (rows s)(idem_index_key k \<mapsto> index_row (p_proposal_id p)) \<and> r = Inr p \<and>
       rows s (idem_index_key k) = None \<or>
     rows t = (rows s)(p_proposal_id p := None) \<and> r = Inl (Store DuplicateIdempotencyError) \<and>
       rows s (idem_index_key k) \<noteq> None)"
proof -
  let ?pid = "p_proposal_id p"
  obtain q y where q: "kv_claim B (idem_index_key k) (index_row ?pid) s = (q, y)" by fastforce
  note qs = claim_atomic [OF assms(1) q]
  show ?thesis
  proof (cases q)
    case (Inl e)
    with q assms(2) have "r = Inl e" "t = y"
      by (simp_all add: ps_claim_def pbind_raises)
    with qs Inl db_error_not_store show ?thesis by simp
  next
    case (Inr won)
    show ?thesis
    proof (cases won)
      case True
      with q Inr assms(2) have "r = Inr p" "t = y"
        by (simp_all add: ps_claim_def pbind_returns)
      with qs Inr True show ?thesis by auto
    next
      case False
      obtain z a where z: "kv_delete B ?pid y = (z, a)" by fastforce
      from qs have "inv y" by blast
      note zs = delete_atomic [OF this z]
      have "t = a \<and> r = (case z of Inl e \<Rightarrow> Inl e | Inr _ \<Rightarrow> Inl (Store DuplicateIdempotencyError))"
        using q Inr False z assms(2)
        by (cases z) (simp_all add: ps_claim_def pbind_returns pbind_raises)
      moreover have "rows y = rows s" "rows s (idem_index_key k) \<noteq> None"
        using qs Inr False by auto
      ultimately show ?thesis
        using zs db_error_not_store by (cases z) simp_all
    qed
  qed
qed

text \<open>What \<open>create\<close> may do to the rows, on every path.\<close>

lemma create_step:
  assumes s: "inv s" and c: "ps_create B p s = (r, t)"
  shows "inv t \<and>
   (rows t = rows s \<and> (\<exists>e. r = Inl e \<and> e \<noteq> Store DuplicateIdempotencyError) \<or>
    rows s (p_proposal_id p) = None \<and>
     (let m = (rows s)(p_proposal_id p \<mapsto> proposal_to_dict p) in
      rows t = m \<and> ((\<exists>e. r = Inl e \<and> e \<noteq> Store DuplicateIdempotencyError) \<or>
        r = Inr p \<and> p_idempotency_key p = None) \<or>
      (\<exists>k. p_idempotency_key p = Some k \<and>
        (rows t = m(idem_index_key k \<mapsto> index_row (p_proposal_id p)) \<and> r = Inr p \<and>
           m (idem_index_key k) = None \<or>
         rows t = m(p_proposal_id p := None) \<and> r = Inl (Store DuplicateIdempotencyError) \<and>
           m (idem_index_key k) \<noteq> None))))"
proof -
  let ?pid = "p_proposal_id p" and ?d = "proposal_to_dict p"
  let ?m = "(rows s)(?pid \<mapsto> ?d)"
  obtain g u where g: "kv_get B ?pid s = (g, u)" by fastforce
  note gs = get_atomic [OF s g]
  show ?thesis
  proof (cases "0 \<le> p_expires_at p \<and> 0 \<le> p_created_at p \<and> p_created_at p < p_expires_at p \<and> g = Inr None")
    case False
    with c g have "t = s \<and> r = Inl (Store ProposalStateError) \<or> t = u \<and> r = Inl (Store ProposalStateError) \<or>
        (\<exists>e. g = Inl e \<and> t = u \<and> r = Inl e)"
      by (auto simp: create_checks split: sum.splits option.splits if_splits)
    with s gs db_error_not_store show ?thesis by fastforce
  next
    case True
    with gs have new: "rows s ?pid = None" and u: "inv u" "rows u = rows s" by simp_all
    obtain w v where w: "kv_put B ?pid ?d u = (w, v)" by fastforce
    note ws = put_atomic [OF u(1) w]
    show ?thesis
    proof (cases w)
      case (Inl e)
      with c g True w have "t = v" "r = Inl e" by (simp_all add: create_checks pbind_raises)
      with ws u Inl db_error_not_store show ?thesis by simp
    next
      case (Inr x)
      with ws u have v: "inv v" "rows v = ?m" by simp_all
      show ?thesis
      proof (cases "p_idempotency_key p")
        case None
        with c g True w Inr have "t = v" "r = Inr p" by (simp_all add: create_checks pbind_returns)
        with v new None show ?thesis by (simp add: Let_def)
      next
        case (Some k)
        with c g True w Inr have "ps_claim B p k v = (r, t)" by (simp add: create_checks pbind_returns)
        from claim_step [OF v(1) this] v(2) new Some show ?thesis by (auto simp: Let_def)
      qed
    qed
  qed
qed

lemma create_inv:
  assumes s: "inv s" and c: "ps_create B p s = (r, t)" and m: "index_inv (rows s)"
    and pid: "\<not> index_key (p_proposal_id p)"
  shows "inv t \<and> index_inv (rows t)"
proof -
  let ?pid = "p_proposal_id p" and ?m = "(rows s)(p_proposal_id p \<mapsto> proposal_to_dict p)"
  have new: "index_inv ?m" if "rows s ?pid = None"
    by (rule index_inv_new [OF m that pid])
  have claim: "index_inv (?m(idem_index_key k \<mapsto> index_row ?pid))"
    if "rows s ?pid = None" "p_idempotency_key p = Some k" for k
    by (rule index_inv_claim [OF new [OF that(1)] _ that(2) pid]) simp
  have undo: "index_inv (?m(?pid := None))" if "rows s ?pid = None"
    by (rule index_inv_undo [OF m that pid])
  from create_step [OF s c] new claim undo m show ?thesis
    unfolding Let_def by (elim conjE disjE exE) simp_all
qed

lemma find_step:
  assumes "inv s" "ps_find_by_idempotency B k s = (r, t)" "index_inv (rows s)"
  shows "inv t \<and> rows t = rows s \<and>
    (\<forall>q. r = Inr q \<longrightarrow> (case q of
       None \<Rightarrow> rows s (idem_index_key k) = None
     | Some p \<Rightarrow> rows s (idem_index_key k) = Some (index_row (p_proposal_id p)) \<and>
         rows s (p_proposal_id p) = Some (proposal_to_dict p) \<and> p_idempotency_key p = Some k))"
proof -
  obtain g u where g: "kv_get B (idem_index_key k) s = (g, u)" by fastforce
  note gs = get_atomic [OF assms(1) g]
  consider e where "g = Inl e" | "g = Inr None" | d where "g = Inr (Some d)"
    by (cases g) auto
  then show ?thesis
  proof cases
    case 3
    with gs have "rows s (idem_index_key k) = Some d" by simp
    from index_inv_index [OF assms(3) this] obtain p where
      p: "d = index_row (p_proposal_id p)" "rows s (p_proposal_id p) = Some (proposal_to_dict p)"
      "p_idempotency_key p = Some k" by blast
    obtain h v where h: "ps_get B (p_proposal_id p) u = (h, v)" by fastforce
    have "ps_find_by_idempotency B k s = pbind (ps_get B (p_proposal_id p)) (\<lambda>p. preturn (Some p)) u"
      using g 3 p(1) by (simp add: ps_find_by_idempotency_def pm_simps index_row_def dindex_def typed_str_def)
    with assms(2) h have rt: "t = v" "r = (case h of Inl e \<Rightarrow> Inl e | Inr q \<Rightarrow> Inr (Some q))"
      by (auto simp: pm_simps split: sum.splits)
    from gs have u: "inv u" "rows u = rows s" by auto
    from get_step [OF u(1) h] u(2) p(2) rt(1) have v: "inv t" "rows t = rows s"
      "\<forall>q. h = Inr q \<longrightarrow> q = p"
      by auto
    from v(3) rt(2) p \<open>rows s (idem_index_key k) = Some d\<close> have
      "\<forall>q. r = Inr q \<longrightarrow> q = Some p" by (auto split: sum.splits)
    with v(1,2) p \<open>rows s (idem_index_key k) = Some d\<close> show ?thesis by auto
  qed (use gs assms(2) g in \<open>auto simp: ps_find_by_idempotency_def pm_simps\<close>)
qed

end

text \<open>Without storage failures nothing raises that the store itself does not raise.\<close>

context kv_live
begin

lemma get_returns:
  assumes "live s" "rows s pid = Some (proposal_to_dict p)"
  shows "ps_get B pid s = (Inr p, s)"
  using assms by (simp add: ps_get_def pm_simps get_live)

lemma find_returns:
  assumes s: "live s" and m: "index_inv (rows s)"
  shows "\<exists>q. ps_find_by_idempotency B k s = (Inr q, s)"
proof (cases "rows s (idem_index_key k)")
  case None
  with s show ?thesis by (simp add: ps_find_by_idempotency_def pm_simps get_live)
next
  case (Some d)
  from index_inv_index [OF m this] obtain p where
    p: "d = index_row (p_proposal_id p)" "rows s (p_proposal_id p) = Some (proposal_to_dict p)" by blast
  with get_returns [OF s p(2)] Some s show ?thesis
    by (simp add: ps_find_by_idempotency_def pm_simps get_live index_row_def dindex_def typed_str_def)
qed

lemma create_returns:
  assumes s: "live s" and ts: "0 \<le> p_created_at p" "p_created_at p < p_expires_at p"
    and new: "rows s (p_proposal_id p) = None"
    and key: "\<And>k. p_idempotency_key p = Some k \<Longrightarrow>
      rows s (idem_index_key k) = None \<and> idem_index_key k \<noteq> p_proposal_id p"
  obtains t where "ps_create B p s = (Inr p, t)" "live t"
    "rows t (p_proposal_id p) = Some (proposal_to_dict p)"
    "\<And>k. p_idempotency_key p = Some k \<Longrightarrow> rows t (idem_index_key k) = Some (index_row (p_proposal_id p))"
proof -
  let ?pid = "p_proposal_id p"
  obtain u where u: "kv_put B ?pid (proposal_to_dict p) s = (Inr (), u)" "live u"
    "rows u = (rows s)(?pid \<mapsto> proposal_to_dict p)"
    by (rule put_returns [OF s])
  have go: "ps_create B p s = (case p_idempotency_key p of None \<Rightarrow> (Inr p, u) | Some k \<Rightarrow> ps_claim B p k u)"
    using s ts new u(1)
    by (simp add: create_checks get_live pbind_returns split: option.splits)
  show thesis
  proof (cases "p_idempotency_key p")
    case None
    with go u that [of u] show ?thesis by simp
  next
    case (Some k)
    obtain w where w: "kv_claim B (idem_index_key k) (index_row ?pid) u = (Inr (rows u (idem_index_key k) = None), w)"
      "live w" "rows w = (if rows u (idem_index_key k) = None
        then (rows u)(idem_index_key k \<mapsto> index_row ?pid) else rows u)"
      by (rule claim_returns [OF u(2)])
    have ne: "p_proposal_id p \<noteq> idem_index_key k"
      using key [OF Some] by metis
    with go Some key [OF Some] u(3) w that [of w] show ?thesis
      by (simp add: ps_claim_def pbind_returns)
  qed
qed

end

context kv_live
begin

lemma create_duplicate:
  assumes s: "live s" and ts: "0 \<le> p_created_at p" "p_created_at p < p_expires_at p"
    and new: "rows s (p_proposal_id p) = None"
    and k: "p_idempotency_key p = Some k" "rows s (idem_index_key k) \<noteq> None"
  shows "\<exists>t. ps_create B p s = (Inl (Store DuplicateIdempotencyError), t) \<and> live t \<and> rows t = rows s"
proof -
  let ?pid = "p_proposal_id p"
  have ne: "idem_index_key k \<noteq> ?pid"
    using new k(2) by metis
  obtain u where u: "kv_put B ?pid (proposal_to_dict p) s = (Inr (), u)" "live u"
    "rows u = (rows s)(?pid \<mapsto> proposal_to_dict p)"
    by (rule put_returns [OF s])
  obtain w where w: "kv_claim B (idem_index_key k) (index_row ?pid) u = (Inr (rows u (idem_index_key k) = None), w)"
    "live w" "rows w = (if rows u (idem_index_key k) = None
      then (rows u)(idem_index_key k \<mapsto> index_row ?pid) else rows u)"
    by (rule claim_returns [OF u(2)])
  obtain x where x: "kv_delete B ?pid w = (Inr (), x)" "live x" "rows x = (rows w)(?pid := None)"
    by (rule delete_returns [OF w(2)])
  have lost: "rows u (idem_index_key k) \<noteq> None"
    using k(2) ne u(3) by simp
  have "ps_create B p s = (Inl (Store DuplicateIdempotencyError), x)"
    using s ts new u(1) w(1) x(1) k(1) lost
    by (simp add: create_checks get_live ps_claim_def pm_simps)
  moreover have "rows w = rows u"
    using w(3) lost by (simp only: if_False)
  then have "rows x = rows s"
    using x(3) u(3) new by (simp add: fun_upd_idem)
  ultimately show ?thesis using x(2) by blast
qed

end

text \<open>The calls of the store's clients, and a sequence of them; a caller goes on after an
  exception.\<close>

datatype store_op = StCreate proposal | StSetStatus pystr proposal_status

fun store_do :: "'s kv \<Rightarrow> store_op \<Rightarrow> ('s, proposal) pm" where
  "store_do B (StCreate p) = ps_create B p"
| "store_do B (StSetStatus pid st) = ps_set_status B pid st"

fun store_run :: "'s kv \<Rightarrow> store_op list \<Rightarrow> 's \<Rightarrow> 's" where
  "store_run B [] s = s"
| "store_run B (x # xs) s = store_run B xs (snd (store_do B x s))"

fun store_op_ok :: "store_op \<Rightarrow> bool" where
  "store_op_ok (StCreate p) = (take 5 (p_proposal_id p) \<noteq> lit ''idem:'')"
| "store_op_ok (StSetStatus pid st) = True"

lemma not_index_prefix: "take 5 k \<noteq> lit ''idem:'' \<Longrightarrow> \<not> index_key k"
  by (auto simp: index_key_def idem_index_key_def lit_def)

context kv_atomic
begin

lemma store_run_inv:
  "inv s \<Longrightarrow> index_inv (rows s) \<Longrightarrow> \<forall>x \<in> set ops. store_op_ok x \<Longrightarrow>
     inv (store_run B ops s) \<and> index_inv (rows (store_run B ops s))"
proof (induction ops arbitrary: s)
  case (Cons x ops)
  obtain r t where x: "store_do B x s = (r, t)" by fastforce
  have "inv t \<and> index_inv (rows t)"
  proof (cases x)
    case (StCreate p)
    with x Cons.prems(3) have "ps_create B p s = (r, t)" "\<not> index_key (p_proposal_id p)"
      using not_index_prefix by simp_all
    from create_inv [OF Cons.prems(1) this(1) Cons.prems(2) this(2)] show ?thesis .
  next
    case (StSetStatus pid st)
    with x have "ps_set_status B pid st s = (r, t)" by simp
    from set_status_inv [OF Cons.prems(1) this Cons.prems(2)] show ?thesis .
  qed
  with Cons.IH [of t] Cons.prems(3) x show ?case by simp
qed simp

end

subsection \<open>Properties\<close>

text \<open>
  The idempotency index is never wedged.  Starting from an empty store, after any calls of
  the store and any storage failures at any point inside them, every claimed
  key leads to an existing proposal that carries the key, and a lookup by key on a
  store that answers returns without an exception.
\<close>

theorem store_index_invariant:
  assumes "clean s" and "sq_committed s = []" and "\<forall>x \<in> set ops. store_op_ok x"
    and "store_run sqlite_kv ops s = t"
  shows "clean t \<and> index_inv (map_of (sq_committed t)) \<and>
    (healthy t \<longrightarrow> (\<exists>q. ps_find_by_idempotency sqlite_kv k t = (Inr q, t) \<and>
       (\<forall>p. q = Some p \<longrightarrow> p_idempotency_key p = Some k \<and> ps_get sqlite_kv (p_proposal_id p) t = (Inr p, t))))"
proof -
  have "index_inv (map_of (sq_committed s))"
    using assms(2) by (simp add: index_inv_def)
  from sqlite.store_run_inv [OF assms(1) this assms(3)] assms(4)
  have t: "clean t" "index_inv (map_of (sq_committed t))" by auto
  show ?thesis
  proof (intro conjI impI t)
    assume h: "healthy t"
    from sqlite.find_returns [OF h t(2)] obtain q where q: "ps_find_by_idempotency sqlite_kv k t = (Inr q, t)"
      by blast
    have "p_idempotency_key p = Some k \<and> ps_get sqlite_kv (p_proposal_id p) t = (Inr p, t)"
      if "q = Some p" for p
      using sqlite.find_step [OF t(1) q t(2)] that sqlite.get_returns [OF h] by simp
    with q show "\<exists>q. ps_find_by_idempotency sqlite_kv k t = (Inr q, t) \<and>
       (\<forall>p. q = Some p \<longrightarrow> p_idempotency_key p = Some k \<and> ps_get sqlite_kv (p_proposal_id p) t = (Inr p, t))"
      by blast
  qed
qed

definition sample_proposal :: proposal where
  "sample_proposal = \<lparr>p_proposal_id = lit ''p1'', p_payload_digest = lit ''d'', p_expires_at = 20,
     p_created_at = 10, p_status = PENDING, p_idempotency_key = Some (lit ''k'')\<rparr>"

definition empty_sqlite :: "bool list \<Rightarrow> kv_rows sqlite" where
  "empty_sqlite faults = \<lparr>sq_committed = [], sq_pending = None, sq_broken = False, sq_faults = faults\<rparr>"

text \<open>The crash window: the commit of the claim fails after the proposal was written.\<close>

theorem store_index_invariant_witness:
  "let t = store_run sqlite_kv [StCreate sample_proposal] (empty_sqlite [False, False, False, False, True, False])
   in sq_committed t = [(lit ''p1'', proposal_to_dict sample_proposal)] \<and>
      ps_find_by_idempotency sqlite_kv (lit ''k'') t = (Inr None, t)"
proof -
  let ?s = "empty_sqlite [False, False, False, False, True, False]"
  let ?t = "store_run sqlite_kv [StCreate sample_proposal] ?s"
  have t: "sq_committed ?t = [(lit ''p1'', proposal_to_dict sample_proposal)]" "healthy ?t"
    by (simp_all add: ps_create_def ps_claim_def sample_proposal_def empty_sqlite_def validate_ts_def rguard_def sqlite_kv_simps
        sqlite_put_def sqlite_get_def sqlite_claim_def write_commit_def sq_defs pm_simps healthy_def)
  have "clean ?s" "sq_committed ?s = []" "\<forall>x \<in> set [StCreate sample_proposal]. store_op_ok x"
    by (simp_all add: clean_def empty_sqlite_def sample_proposal_def lit_def)
  from store_index_invariant [OF this refl, of "lit ''k''"] t(2) obtain q where
    q: "ps_find_by_idempotency sqlite_kv (lit ''k'') ?t = (Inr q, ?t)" by blast
  have "kv_get sqlite_kv (idem_index_key (lit ''k'')) ?t = (Inr None, ?t)"
    using sqlite.get_live [OF t(2)] t(1) by (simp add: idem_index_key_def lit_def)
  then have "ps_find_by_idempotency sqlite_kv (lit ''k'') ?t = (Inr None, ?t)"
    by (simp add: ps_find_by_idempotency_def pm_simps)
  with t(1) show ?thesis by (simp add: Let_def)
qed

text \<open>
  One proposal per idempotency key: a created proposal is read back unchanged by its id and
  by its key, and a later \<open>create\<close> with the same key raises \<open>DuplicateIdempotencyError\<close>
  and leaves the rows as they were.
\<close>

theorem create_claims_key:
  assumes "healthy s" and "map_of (sq_committed s) (p_proposal_id p) = None"
    and "0 \<le> p_created_at p" and "p_created_at p < p_expires_at p"
    and "p_idempotency_key p = Some k" and "map_of (sq_committed s) (idem_index_key k) = None"
    and "idem_index_key k \<noteq> p_proposal_id p"
  shows "\<exists>t. ps_create sqlite_kv p s = (Inr p, t) \<and> healthy t \<and>
    ps_get sqlite_kv (p_proposal_id p) t = (Inr p, t) \<and>
    ps_find_by_idempotency sqlite_kv k t = (Inr (Some p), t) \<and>
    (\<forall>q. p_idempotency_key q = Some k \<and> map_of (sq_committed t) (p_proposal_id q) = None \<and>
         0 \<le> p_created_at q \<and> p_created_at q < p_expires_at q \<longrightarrow>
       (\<exists>u. ps_create sqlite_kv q t = (Inl (Store DuplicateIdempotencyError), u) \<and>
          map_of (sq_committed u) = map_of (sq_committed t)))"
proof -
  obtain t where t: "ps_create sqlite_kv p s = (Inr p, t)" "healthy t"
    "map_of (sq_committed t) (p_proposal_id p) = Some (proposal_to_dict p)"
    "map_of (sq_committed t) (idem_index_key k) = Some (index_row (p_proposal_id p))"
    by (rule sqlite.create_returns [OF assms(1,3,4,2)]) (use assms(5-7) in auto)
  have get: "ps_get sqlite_kv (p_proposal_id p) t = (Inr p, t)"
    by (rule sqlite.get_returns [OF t(2,3)])
  have "ps_find_by_idempotency sqlite_kv k t = (Inr (Some p), t)"
    using sqlite.get_live [OF t(2)] t(4) get
    by (simp add: ps_find_by_idempotency_def pm_simps index_row_def dindex_def typed_str_def)
  moreover have "\<exists>u. ps_create sqlite_kv q t = (Inl (Store DuplicateIdempotencyError), u) \<and>
      map_of (sq_committed u) = map_of (sq_committed t)"
    if "p_idempotency_key q = Some k \<and> map_of (sq_committed t) (p_proposal_id q) = None \<and>
       0 \<le> p_created_at q \<and> p_created_at q < p_expires_at q" for q
    using sqlite.create_duplicate [OF t(2), of q k] that t(4) by auto
  ultimately show ?thesis using t get by blast
qed

theorem create_claims_key_witness:
  "\<exists>t. ps_create sqlite_kv sample_proposal (empty_sqlite []) = (Inr sample_proposal, t) \<and>
     ps_find_by_idempotency sqlite_kv (lit ''k'') t = (Inr (Some sample_proposal), t)"
  using create_claims_key [of "empty_sqlite []" sample_proposal "lit ''k''"]
  by (auto simp: empty_sqlite_def healthy_def sample_proposal_def idem_index_key_def lit_def)

end
