(* ===== verification/Ledger.thy ===== *)
theory Ledger
  imports Proposals
begin

text \<open>
  \<open>store/ledger.py\<close>: the audit event with its closed field set, and the append-only ledger over a
  log backend.
\<close>

datatype audit_event_type =
    PROPOSAL_CREATED | PROPOSAL_CONFIRMED | PROPOSAL_EXPIRED
  | SEND_ATTEMPTED | SEND_SUCCEEDED | SEND_FAILED | SEND_OUTCOME_UNKNOWN

fun event_type_value :: "audit_event_type \<Rightarrow> pystr" where
  "event_type_value PROPOSAL_CREATED = lit ''proposal_created''"
| "event_type_value PROPOSAL_CONFIRMED = lit ''proposal_confirmed''"
| "event_type_value PROPOSAL_EXPIRED = lit ''proposal_expired''"
| "event_type_value SEND_ATTEMPTED = lit ''send_attempted''"
| "event_type_value SEND_SUCCEEDED = lit ''send_succeeded''"
| "event_type_value SEND_FAILED = lit ''send_failed''"
| "event_type_value SEND_OUTCOME_UNKNOWN = lit ''outcome_unknown''"

definition allowed_fields :: "pystr list" where
  "allowed_fields = [lit ''event_type'', lit ''at'', lit ''proposal_id'', lit ''payload_digest'',
     lit ''outcome'', lit ''error_code'', lit ''message_id_sha256'', lit ''thread_id_sha256'',
     lit ''egress_hosts'']"

record audit_event =
  ae_event_type :: audit_event_type
  ae_at :: int
  ae_proposal_id :: pystr
  ae_payload_digest :: "pystr option"
  ae_outcome :: "pystr option"
  ae_error_code :: "pystr option"
  ae_message_id_sha256 :: "pystr option"
  ae_thread_id_sha256 :: "pystr option"
  ae_egress_hosts :: "pystr list"

text \<open>The constructor with the dataclass's defaults.\<close>

definition audit_event0 :: "audit_event_type \<Rightarrow> int \<Rightarrow> pystr \<Rightarrow> audit_event" where
  "audit_event0 ty now pid = \<lparr>ae_event_type = ty, ae_at = now, ae_proposal_id = pid,
     ae_payload_digest = None, ae_outcome = None, ae_error_code = None,
     ae_message_id_sha256 = None, ae_thread_id_sha256 = None, ae_egress_hosts = []\<rparr>"

definition event_to_dict :: "audit_event \<Rightarrow> dict" where
  "event_to_dict e =
    [(lit ''event_type'', PStr (event_type_value (ae_event_type e))), (lit ''at'', PInt (ae_at e)),
     (lit ''proposal_id'', PStr (ae_proposal_id e)), (lit ''payload_digest'', opt_str (ae_payload_digest e)),
     (lit ''outcome'', opt_str (ae_outcome e)), (lit ''error_code'', opt_str (ae_error_code e)),
     (lit ''message_id_sha256'', opt_str (ae_message_id_sha256 e)),
     (lit ''thread_id_sha256'', opt_str (ae_thread_id_sha256 e)),
     (lit ''egress_hosts'', PList (map PStr (ae_egress_hosts e)))]"

text \<open>\<open>_assert_closed_schema\<close>: the fields of the dataclass are the declared ones, in order.\<close>

definition assert_closed_schema :: "unit res" where
  "assert_closed_schema = rguard
     (map fst (event_to_dict (audit_event0 PROPOSAL_CREATED 0 [])) = allowed_fields)
     (Store AuditSchemaError)"

definition ledger_record :: "'s append_log \<Rightarrow> audit_event \<Rightarrow> ('s, unit) pm" where
  "ledger_record L e =
     pbind (plift (rguard (0 \<le> ae_at e) (Store AuditSchemaError))) (\<lambda>_.
     log_append L (event_to_dict e))"

lemma event_fields: "map fst (event_to_dict e) = allowed_fields"
  by (simp add: event_to_dict_def allowed_fields_def)

lemma opt_str_eq [simp]: "opt_str a = opt_str b \<longleftrightarrow> a = b"
  by (cases a; cases b) (simp_all add: opt_str_def)

lemma event_type_value_inj [simp]: "event_type_value a = event_type_value b \<longleftrightarrow> a = b"
  by (cases a; cases b; simp)

lemma event_to_dict_inj: "event_to_dict a = event_to_dict b \<Longrightarrow> a = b"
proof -
  assume eq: "event_to_dict a = event_to_dict b"
  have "inj PStr" by (simp add: inj_def)
  with eq show "a = b" by (simp add: event_to_dict_def inj_map_eq_map)
qed

text \<open>What an entry of the ledger is evidence of.\<close>

definition entry_is :: "audit_event_type \<Rightarrow> pystr \<Rightarrow> dict \<Rightarrow> bool" where
  "entry_is ty pid d \<longleftrightarrow> dget d (lit ''event_type'') = PStr (event_type_value ty) \<and>
     dget d (lit ''proposal_id'') = PStr pid"

lemma entry_is_event [simp]:
  "entry_is ty pid (event_to_dict e) \<longleftrightarrow> ae_event_type e = ty \<and> ae_proposal_id e = pid"
  by (auto simp: entry_is_def event_to_dict_def dget_def)

context log_atomic
begin

lemma record_atomic:
  assumes "linv s" "ledger_record L e s = (r, t)"
  shows "linv t \<and> entries t = (case r of Inl _ \<Rightarrow> entries s | Inr _ \<Rightarrow> entries s @ [event_to_dict e]) \<and>
    (\<forall>x. r = Inr x \<longrightarrow> 0 \<le> ae_at e)"
proof (cases "0 \<le> ae_at e")
  case True
  with assms(2) have "log_append L (event_to_dict e) s = (r, t)"
    by (simp add: ledger_record_def pm_simps rguard_def)
  from append_atomic [OF assms(1) this] True show ?thesis by simp
next
  case False
  with assms show ?thesis by (auto simp: ledger_record_def pm_simps rguard_def)
qed

end

subsection \<open>Properties\<close>

text \<open>
  The audit schema is closed and the ledger only grows: whatever is recorded, under any
  storage failure, the new entries are the old ones followed by at most one, that one
  is the event's row with exactly the declared fields, and the guard of the constructor passes.
\<close>

theorem ledger_append_only:
  assumes "clean s" and "ledger_record sqlite_log e s = (r, t)"
  shows "clean t \<and> assert_closed_schema = Inr () \<and> map fst (event_to_dict e) = allowed_fields \<and>
    sq_committed t = (case r of Inl _ \<Rightarrow> sq_committed s | Inr _ \<Rightarrow> sq_committed s @ [event_to_dict e])"
  using sqlite_audit.record_atomic [OF assms] event_fields
  by (simp add: assert_closed_schema_def rguard_def)

theorem ledger_append_only_witness:
  "let s = \<lparr>sq_committed = [], sq_pending = None, sq_broken = False, sq_faults = [True]\<rparr>;
     e = audit_event0 SEND_ATTEMPTED 3 (lit ''p'')
   in \<exists>t x. ledger_record sqlite_log e s = (Inl x, t) \<and> sq_committed t = []"
proof -
  let ?s = "\<lparr>sq_committed = [], sq_pending = None, sq_broken = False, sq_faults = [True]\<rparr> :: dict list sqlite"
  let ?e = "audit_event0 SEND_ATTEMPTED 3 (lit ''p'')"
  have "fst (ledger_record sqlite_log ?e ?s) = Inl (Db OperationalError)"
    by (simp add: ledger_record_def audit_event0_def rguard_def sqlite_log_def sqlite_append_def write_commit_def
        sq_defs pm_simps)
  then obtain t where t: "ledger_record sqlite_log ?e ?s = (Inl (Db OperationalError), t)"
    by (metis prod.collapse)
  have "clean ?s" by (simp add: clean_def)
  from ledger_append_only [OF this t] t show ?thesis by (simp add: Let_def)
qed

end
