(* ===== verification/Authz_Audit.thy ===== *)
theory Authz_Audit
  imports Ledger
begin

text \<open>
  \<open>authz/audit.py\<close>: the closed schema of an authorization audit row and the log that appends it, and
  \<open>authz/clock.py\<close>: the choice of the continuous clock.  The attributes of the interpreter's \<open>time\<close> module
  and \<open>clock_gettime_ns\<close> are arguments.
\<close>

subsection \<open>The audit log\<close>

definition authz_allowed_fields :: "pystr list" where
  "authz_allowed_fields = [lit ''at'', lit ''request_id'', lit ''grant_id'', lit ''grant_id_verified'',
     lit ''subject_kind'', lit ''code'', lit ''detail'', lit ''approval_mode'', lit ''decision_id'',
     lit ''state_version'', lit ''authz_state_digest'', lit ''action_digest'']"

record authz_event =
  av_at :: int
  av_request_id :: pystr
  av_code :: pystr
  av_grant_id :: "pystr option"
  av_grant_id_verified :: bool
  av_subject_kind :: "pystr option"
  av_detail :: "pystr option"
  av_approval_mode :: "pystr option"
  av_decision_id :: "pystr option"
  av_state_version :: "pystr option"
  av_authz_state_digest :: "pystr option"
  av_action_digest :: "pystr option"

text \<open>The constructor with the defaults of \<open>record\<close>.\<close>

definition authz_event0 :: "int \<Rightarrow> pystr \<Rightarrow> pystr \<Rightarrow> authz_event" where
  "authz_event0 now rid code = \<lparr>av_at = now, av_request_id = rid, av_code = code, av_grant_id = None,
     av_grant_id_verified = False, av_subject_kind = None, av_detail = None, av_approval_mode = None,
     av_decision_id = None, av_state_version = None, av_authz_state_digest = None, av_action_digest = None\<rparr>"

definition authz_to_dict :: "authz_event \<Rightarrow> dict" where
  "authz_to_dict e =
    [(lit ''at'', PInt (av_at e)), (lit ''request_id'', PStr (av_request_id e)),
     (lit ''grant_id'', opt_str (av_grant_id e)), (lit ''grant_id_verified'', PBool (av_grant_id_verified e)),
     (lit ''subject_kind'', opt_str (av_subject_kind e)), (lit ''code'', PStr (av_code e)),
     (lit ''detail'', opt_str (av_detail e)), (lit ''approval_mode'', opt_str (av_approval_mode e)),
     (lit ''decision_id'', opt_str (av_decision_id e)), (lit ''state_version'', opt_str (av_state_version e)),
     (lit ''authz_state_digest'', opt_str (av_authz_state_digest e)),
     (lit ''action_digest'', opt_str (av_action_digest e))]"

definition authz_closed_schema :: "unit res" where
  "authz_closed_schema = rguard
     (set (map fst (authz_to_dict (authz_event0 0 [] []))) = set authz_allowed_fields) (Py AssertionError)"

definition authz_record :: "'s append_log \<Rightarrow> authz_event \<Rightarrow> ('s, unit) pm" where
  "authz_record L e = log_append L (authz_to_dict e)"

lemma authz_to_dict_inj: "authz_to_dict a = authz_to_dict b \<Longrightarrow> a = b"
  by (simp add: authz_to_dict_def)

lemma authz_closed_schema_ok: "authz_closed_schema = Inr ()"
  by (simp add: authz_closed_schema_def rguard_def authz_to_dict_def authz_allowed_fields_def insert_commute)

subsection \<open>The continuous clock\<close>

definition platform_clock :: "pystr \<Rightarrow> pystr option" where
  "platform_clock platform =
     (if platform = lit ''darwin'' then Some (lit ''CLOCK_MONOTONIC_RAW'')
      else if platform = lit ''linux'' then Some (lit ''CLOCK_BOOTTIME'') else None)"

definition resolve_continuous_clock :: "(pystr \<Rightarrow> int option) \<Rightarrow> pystr \<Rightarrow> (pystr \<times> int) res" where
  "resolve_continuous_clock time_attr platform = (case platform_clock platform of
     None \<Rightarrow> Inl (Authz ContinuousClockUnavailable)
   | Some name \<Rightarrow> (case time_attr name of
       None \<Rightarrow> Inl (Authz ContinuousClockUnavailable)
     | Some clock_id \<Rightarrow> Inr (name, clock_id)))"

text \<open>The reader is bound to the clock resolved at construction.\<close>

definition make_continuous_clock_ns ::
  "(pystr \<Rightarrow> int option) \<Rightarrow> (int \<Rightarrow> ('s, int) pm) \<Rightarrow> pystr \<Rightarrow> (pystr \<times> ('s, int) pm) res" where
  "make_continuous_clock_ns time_attr clock_gettime_ns platform =
     rmap (\<lambda>(name, clock_id). (name, clock_gettime_ns clock_id)) (resolve_continuous_clock time_attr platform)"

lemma resolve_clock_closed:
  "resolve_continuous_clock time_attr platform = Inr (name, clock_id) \<longleftrightarrow>
     (platform = lit ''darwin'' \<and> name = lit ''CLOCK_MONOTONIC_RAW'' \<or>
      platform = lit ''linux'' \<and> name = lit ''CLOCK_BOOTTIME'') \<and> time_attr name = Some clock_id"
  by (auto simp: resolve_continuous_clock_def platform_clock_def split: option.splits)

end
