(* ===== verification/Authz_Gate.thy ===== *)
theory Authz_Gate
  imports Decision_Policy Authz_Audit
begin

text \<open>
  \<open>authz/gate.py\<close>: the gate in front of a send.  Relay, cloud service, clocks, peer resolver, consumers and
  high-water mark are injected objects, so the gate is a record of their methods over one state; each
  may raise, and the \<open>except\<close> clauses are those of the code: only the local safety state and the cloud
  call are wrapped by \<open>except Exception\<close>.
\<close>

record authorization =
  au_decision :: decision
  au_mono_decision_received :: int

record 's gate =
  g_decide :: "authorization_request \<Rightarrow> int \<Rightarrow> ('s, decision) pm"
  g_decision_public_key :: bytes
  g_sync :: "('s, pyval) pm"
  g_audit :: "'s append_log"
  g_user_root_public_key :: bytes
  g_pinned_issuer_fp :: pystr
  g_gateway_account :: pystr
  g_now :: "('s, int) pm"
  g_clock :: "('s, int) pm"
  g_channel_challenge :: pystr
  g_peer_resolver :: "authorization_request \<Rightarrow> ('s, peer_identity option) pm"
  g_request_consume :: "pystr \<Rightarrow> pystr \<Rightarrow> ('s, bool) pm"
  g_decision_consume :: "pystr \<Rightarrow> pystr \<Rightarrow> ('s, bool) pm"
  g_hw_get :: "('s, int) pm"
  g_hw_raise_to :: "int \<Rightarrow> ('s, unit) pm"

definition default_peer_resolver :: "authorization_request \<Rightarrow> peer_identity option" where
  "default_peer_resolver req =
     (if rq_peer_verified req
      then Some \<lparr>pi_machine_id = rq_peer_machine_id req, pi_account = rq_peer_account req\<rparr> else None)"

subsection \<open>Denials\<close>

definition peek_identifiers :: "iso_parser \<Rightarrow> authorization_request \<Rightarrow> pystr option \<times> pystr option" where
  "peek_identifiers isoparse req =
     (case rbind (parse_envelope (rq_grant_envelope req)) (\<lambda>(_, body, _). parse_grant_body isoparse body) of
        Inr g \<Rightarrow> (Some (gr_grant_id g), Some (subject_kind_value (sj_kind (gr_subject g))))
      | Inl _ \<Rightarrow> (case rq_grant_envelope req of
          PDict e \<Rightarrow> (case dget_or e (lit ''body'') (PDict []) of
              PDict body \<Rightarrow> (as_str (dget body (lit ''grant_id'')), None)
            | _ \<Rightarrow> (None, None))
        | _ \<Rightarrow> (None, None)))"

definition denial_event ::
  "iso_parser \<Rightarrow> authorization_request \<Rightarrow> int \<Rightarrow> denial_reason \<Rightarrow> pystr option \<Rightarrow> grant option \<Rightarrow> authz_event" where
  "denial_event isoparse req now reason detail vgrant = (case vgrant of
     Some g \<Rightarrow> (authz_event0 now (rq_request_id req) (denial_value reason))
       \<lparr>av_grant_id := Some (gr_grant_id g), av_grant_id_verified := True,
        av_subject_kind := Some (subject_kind_value (sj_kind (gr_subject g))), av_detail := detail\<rparr>
   | None \<Rightarrow> (authz_event0 now (rq_request_id req) (denial_value reason))
       \<lparr>av_grant_id := fst (peek_identifiers isoparse req), av_grant_id_verified := False,
        av_subject_kind := snd (peek_identifiers isoparse req), av_detail := detail\<rparr>)"

text \<open>\<open>raise self._deny(...)\<close>: the audit row first, then the coarse exception.\<close>

definition deny ::
  "iso_parser \<Rightarrow> 's gate \<Rightarrow> authorization_request \<Rightarrow> int \<Rightarrow> denial_reason \<Rightarrow> pystr option \<Rightarrow> grant option \<Rightarrow>
     ('s, 'a) pm" where
  "deny isoparse G req now reason detail vgrant =
     pbind (authz_record (g_audit G) (denial_event isoparse req now reason detail vgrant)) (\<lambda>_.
     praise (Authz AuthorizationDenied))"

subsection \<open>Step 1: the head\<close>

definition verify_artifact :: "ed25519 \<Rightarrow> bytes \<Rightarrow> pystr \<Rightarrow> dict \<Rightarrow> bytes \<Rightarrow> bool res" where
  "verify_artifact E key ty body sig = rmap (\<lambda>m. verify_sig E key m sig) (signing_input ty body)"

definition verify_revocation :: "ed25519 \<Rightarrow> bytes \<Rightarrow> pyval \<Rightarrow> pystr res" where
  "verify_revocation E key rev_env =
     rbind (parse_envelope rev_env) (\<lambda>(ty, body, sig).
     rbind (rguard (ty = revocation_artifact_type) cert_error) (\<lambda>_.
     rbind (verify_artifact E key revocation_artifact_type body sig) (\<lambda>ok.
     if ok then parse_revocation_body (PDict body) else Inl cert_error)))"

definition verify_revocations :: "ed25519 \<Rightarrow> bytes \<Rightarrow> pyval list \<Rightarrow> pystr set res" where
  "verify_revocations E key revocation_envs = rmap set (traverse (verify_revocation E key) revocation_envs)"

text \<open>The \<open>try\<close> block of \<open>_sync_and_accept\<close>: the head's body with what was read from it.\<close>

definition verify_sync ::
  "ed25519 \<Rightarrow> bytes \<Rightarrow> pyval \<Rightarrow> (dict \<times> pystr \<times> int \<times> (pystr \<times> pystr) set \<times> pystr set) res" where
  "verify_sync E key env =
     rbind (parse_sync_envelope env) (\<lambda>(head_env, revocation_envs).
     rbind (parse_envelope (PDict head_env)) (\<lambda>(ty, body, sig).
     rbind (rguard (ty = head_artifact_type) cert_error) (\<lambda>_.
     rbind (verify_artifact E key head_artifact_type body sig) (\<lambda>ok.
     rbind (rguard ok cert_error) (\<lambda>_.
     rbind (parse_head_body (PDict body)) (\<lambda>(sv, n, pairs).
     rbind (verify_revocations E key revocation_envs) (\<lambda>seen.
     Inr (body, sv, n, pairs, seen))))))))"

definition accept_head ::
  "iso_parser \<Rightarrow> (bytes \<Rightarrow> pystr) \<Rightarrow> 's gate \<Rightarrow> authorization_request \<Rightarrow> int \<Rightarrow>
     dict \<times> pystr \<times> int \<times> (pystr \<times> pystr) set \<times> pystr set \<Rightarrow> ('s, verified_head) pm" where
  "accept_head isoparse H G req now = (\<lambda>(body, sv, n, pairs, seen).
     ptry (g_hw_get G) (\<lambda>_. deny isoparse G req now STATE_UNAVAILABLE None None) (\<lambda>hw.
     if n < hw then deny isoparse G req now VERSION_REGRESS None None
     else ptry (g_hw_raise_to G n) (\<lambda>_. deny isoparse G req now STATE_UNAVAILABLE None None) (\<lambda>_.
       pbind (plift (digest H (PDict body))) (\<lambda>dig.
       preturn \<lparr>vh_state_version = sv, vh_state_version_int = n, vh_active_grants = pairs,
         vh_digest = dig, vh_seen_revocations = seen\<rparr>))))"

definition sync_and_accept ::
  "iso_parser \<Rightarrow> (bytes \<Rightarrow> pystr) \<Rightarrow> ed25519 \<Rightarrow> 's gate \<Rightarrow> authorization_request \<Rightarrow> int \<Rightarrow> ('s, verified_head) pm" where
  "sync_and_accept isoparse H E G req now =
     ptry (g_sync G)
       (\<lambda>e. if e = Authz AuthorizationUnavailable then deny isoparse G req now CLOUD_UNREACHABLE None None
            else praise e)
       (\<lambda>env. case verify_sync E (g_user_root_public_key G) env of
          Inl e \<Rightarrow> (case cert_detail e of
              Some detail \<Rightarrow> deny isoparse G req now INVALID_ARTIFACT detail None
            | None \<Rightarrow> praise e)
        | Inr v \<Rightarrow> accept_head isoparse H G req now v)"

subsection \<open>The grant\<close>

definition cert_denial :: "exn \<Rightarrow> 'a res" where
  "cert_denial e = (case cert_detail e of
     Some detail \<Rightarrow> Inl (Authz (DenialSignal INVALID_ARTIFACT detail)) | None \<Rightarrow> Inl e)"

definition verify_grant :: "iso_parser \<Rightarrow> ed25519 \<Rightarrow> 's gate \<Rightarrow> authorization_request \<Rightarrow> grant res" where
  "verify_grant isoparse E G req =
     rbind (rcatch (parse_envelope (rq_grant_envelope req)) cert_denial) (\<lambda>(ty, body, sig).
     rbind (rguard (ty = lit ''grant'') (Authz (DenialSignal INVALID_ARTIFACT None))) (\<lambda>_.
     rbind (verify_artifact E (g_user_root_public_key G) (lit ''grant'') body sig) (\<lambda>ok.
     rbind (rguard ok (Authz (DenialSignal INVALID_ARTIFACT None))) (\<lambda>_.
     rbind (rcatch (parse_grant_body isoparse body) cert_denial) (\<lambda>g.
     if gr_issuer_fp g \<noteq> g_pinned_issuer_fp G
     then Inl (Authz (DenialSignal INVALID_ARTIFACT (Some (lit ''untrusted_issuer''))))
     else Inr g)))))"

subsection \<open>Step 2: local decisions\<close>

type_synonym denial = "(denial_reason \<times> pystr option) option"

text \<open>\<open>Ed25519PublicKey.from_public_bytes(bytes.fromhex(...))\<close>, \<open>None\<close> for the exceptions caught.\<close>

definition load_agent_key :: "ed25519 \<Rightarrow> pystr option \<Rightarrow> bytes option" where
  "load_agent_key E hex = (case bytes_fromhex (case hex of None \<Rightarrow> [] | Some h \<Rightarrow> h) of
     None \<Rightarrow> None | Some b \<Rightarrow> ed_load E b)"

definition check_agent ::
  "ed25519 \<Rightarrow> 's gate \<Rightarrow> authorization_request \<Rightarrow> int \<Rightarrow> grant \<Rightarrow> denial res" where
  "check_agent E G req now g = (case rq_agent_sig req of
     None \<Rightarrow> Inr (Some (MODE_MISMATCH, None))
   | Some sig \<Rightarrow> (case load_agent_key E (sj_agent_pubkey_hex (gr_subject g)) of
       None \<Rightarrow> Inr (Some (MODE_MISMATCH, None))
     | Some key \<Rightarrow> rmap (\<lambda>binding.
         if \<not> verify_sig E key binding sig then Some (MODE_MISMATCH, None)
         else if request_freshness_seconds < \<bar>now - rq_issued_at req\<bar>
         then Some (INVALID_ARTIFACT, Some (lit ''issued_at_out_of_window''))
         else if rq_channel_binding req \<noteq> g_channel_challenge G
         then Some (INVALID_ARTIFACT, Some (lit ''channel_binding_mismatch''))
         else None)
         (request_binding (gr_grant_id g) (rq_request_id req) (rq_action_digest req) (rq_issued_at req)
           (rq_channel_binding req))))"

definition check_subject ::
  "ed25519 \<Rightarrow> 's gate \<Rightarrow> authorization_request \<Rightarrow> int \<Rightarrow> grant \<Rightarrow> ('s, denial) pm" where
  "check_subject E G req now g = (case sj_kind (gr_subject g) of
     OS_ACCOUNT \<Rightarrow> pbind (g_peer_resolver G req) (\<lambda>peer. preturn (case peer of
         None \<Rightarrow> Some (MODE_MISMATCH, Some (lit ''subject_identity_mismatch''))
       | Some p \<Rightarrow>
           (if Some (pi_machine_id p) \<noteq> sj_machine_id (gr_subject g) \<or> Some (pi_account p) \<noteq> sj_account (gr_subject g)
            then Some (MODE_MISMATCH, Some (lit ''subject_identity_mismatch'')) else None)))
   | AGENT_KEY \<Rightarrow> plift (check_agent E G req now g))"

definition local_decisions ::
  "ed25519 \<Rightarrow> 's gate \<Rightarrow> authorization_request \<Rightarrow> int \<Rightarrow> verified_head \<Rightarrow> grant \<Rightarrow> ('s, denial) pm" where
  "local_decisions E G req now head g =
     (case membership_of head (gr_grant_id g) (gr_grant_version g) of
        M_REVOKED \<Rightarrow> preturn (Some (REVOKED, None))
      | M_SUPERSEDED \<Rightarrow> preturn (Some (SUPERSEDED, None))
      | M_NO_GRANT \<Rightarrow> preturn (Some (NO_GRANT, Some (lit ''inactive_in_verified_head'')))
      | M_ACTIVE \<Rightarrow>
          if now < gr_valid_from g - clock_skew_seconds
          then preturn (Some (EXPIRED, Some (lit ''not_yet_valid'')))
          else if gr_valid_until g + clock_skew_seconds < now then preturn (Some (EXPIRED, None))
          else if validity_cap_seconds < gr_valid_until g - gr_valid_from g
          then preturn (Some (VALIDITY_EXCEEDS_POLICY, None))
          else if dget (gr_scope g) (lit ''from_account'') \<noteq> PStr (g_gateway_account G)
          then preturn (Some (SCOPE, None))
          else check_subject E G req now g)"

subsection \<open>Steps 3 and 4: the cloud decision and the record\<close>

definition expected_binding_of ::
  "authorization_request \<Rightarrow> grant \<Rightarrow> verified_head \<Rightarrow> pystr \<Rightarrow> expected_binding" where
  "expected_binding_of req g head expected_action_digest =
     \<lparr>ex_request_id = rq_request_id req, ex_action_digest = expected_action_digest,
      ex_authz_state_digest = vh_digest head, ex_state_version = vh_state_version head,
      ex_grant_id = gr_grant_id g, ex_grant_version = gr_grant_version g,
      ex_approval_mode = approval_mode_value (gr_approval_mode g),
      ex_subject_kind = subject_kind_value (sj_kind (gr_subject g)),
      ex_disposition = disposition_value (grant_disposition g)\<rparr>"

definition decided_at_in_hygiene_window :: "int \<Rightarrow> int \<Rightarrow> int \<Rightarrow> bool" where
  "decided_at_in_hygiene_window decided_at request_now wall_verified \<longleftrightarrow>
     request_now - decided_at_slack_seconds \<le> decided_at \<and> decided_at \<le> wall_verified + decided_at_slack_seconds"

definition success_event ::
  "authorization_request \<Rightarrow> int \<Rightarrow> grant \<Rightarrow> verified_head \<Rightarrow> expected_binding \<Rightarrow> pystr \<Rightarrow> authz_event" where
  "success_event req now g head ex did = (authz_event0 now (rq_request_id req) (ex_disposition ex))
     \<lparr>av_grant_id := Some (gr_grant_id g), av_grant_id_verified := True,
      av_subject_kind := Some (subject_kind_value (sj_kind (gr_subject g))),
      av_approval_mode := Some (approval_mode_value (gr_approval_mode g)), av_decision_id := Some did,
      av_state_version := Some (vh_state_version head), av_authz_state_digest := Some (vh_digest head),
      av_action_digest := Some (ex_action_digest ex)\<rparr>"

text \<open>After the endpoint clock: the decision is spent, the outcome recorded.\<close>

definition record_outcome ::
  "iso_parser \<Rightarrow> 's gate \<Rightarrow> authorization_request \<Rightarrow> int \<Rightarrow> grant \<Rightarrow> verified_head \<Rightarrow> expected_binding \<Rightarrow> decision \<Rightarrow>
     int \<Rightarrow> ('s, authorization) pm" where
  "record_outcome isoparse G req now g head ex d received =
     ptry (g_decision_consume G (dc_decision_id d) (ex_action_digest ex))
       (\<lambda>_. deny isoparse G req now STATE_UNAVAILABLE None (Some g))
       (\<lambda>fresh. if \<not> fresh
         then deny isoparse G req now REPLAY (Some (lit ''decision_reused'')) (Some g)
         else pbind (authz_record (g_audit G) (success_event req now g head ex (dc_decision_id d))) (\<lambda>_.
           preturn \<lparr>au_decision = d, au_mono_decision_received = received\<rparr>))"

text \<open>From the arrival of the decision to the endpoint clock.\<close>

definition verify_decision ::
  "iso_parser \<Rightarrow> ed25519 \<Rightarrow> 's gate \<Rightarrow> authorization_request \<Rightarrow> int \<Rightarrow> grant \<Rightarrow> verified_head \<Rightarrow> expected_binding \<Rightarrow>
     int \<Rightarrow> decision \<Rightarrow> ('s, authorization) pm" where
  "verify_decision isoparse E G req now g head ex mono_sent d =
     pbind (g_clock G) (\<lambda>received.
     pbind (g_now G) (\<lambda>wall_verified.
     pbind (plift (verify_decision_sig E (g_decision_public_key G) d)) (\<lambda>ok.
     if \<not> ok then deny isoparse G req now INVALID_ARTIFACT (Some (lit ''decision_sig_invalid'')) (Some g)
     else case check_binding d ex of
       Some mismatch \<Rightarrow> deny isoparse G req now INVALID_ARTIFACT (Some mismatch) (Some g)
     | None \<Rightarrow>
         if \<not> decided_at_in_hygiene_window (dc_decided_at d) now wall_verified
         then deny isoparse G req now INVALID_ARTIFACT (Some (lit ''decided_at_out_of_window'')) (Some g)
         else pbind (g_clock G) (\<lambda>verified.
           if response_deadline_ns < verified - mono_sent
           then deny isoparse G req now CLOUD_UNREACHABLE None (Some g)
           else record_outcome isoparse G req now g head ex d received))))"

text \<open>The \<open>except\<close> clauses around \<open>decide\<close>.\<close>

definition decide_denial :: "exn \<Rightarrow> denial_reason \<times> pystr option" where
  "decide_denial e = (case e of
     Authz AuthorizationUnavailable \<Rightarrow> (CLOUD_UNREACHABLE, None)
   | Authz (CertificateError detail) \<Rightarrow> (INVALID_ARTIFACT, detail)
   | Authz (DenialSignal reason detail) \<Rightarrow> (reason, detail)
   | _ \<Rightarrow> (INTERNAL_ERROR, None))"

definition cloud_decision ::
  "iso_parser \<Rightarrow> ed25519 \<Rightarrow> 's gate \<Rightarrow> authorization_request \<Rightarrow> int \<Rightarrow> grant \<Rightarrow> verified_head \<Rightarrow> expected_binding \<Rightarrow>
     ('s, authorization) pm" where
  "cloud_decision isoparse E G req now g head ex =
     pbind (g_clock G) (\<lambda>mono_sent.
     ptry (g_decide G req now)
       (\<lambda>e. deny isoparse G req now (fst (decide_denial e)) (snd (decide_denial e)) (Some g))
       (verify_decision isoparse E G req now g head ex mono_sent))"

definition request_key :: "grant \<Rightarrow> authorization_request \<Rightarrow> pystr" where
  "request_key g req = gr_grant_id g @ 0 # rq_request_id req"

definition consume_request ::
  "iso_parser \<Rightarrow> 's gate \<Rightarrow> authorization_request \<Rightarrow> int \<Rightarrow> grant \<Rightarrow> pystr \<Rightarrow> ('s, unit) pm" where
  "consume_request isoparse G req now g expected_action_digest =
     ptry (g_request_consume G (request_key g req) expected_action_digest)
       (\<lambda>_. deny isoparse G req now STATE_UNAVAILABLE None (Some g))
       (\<lambda>fresh. if fresh then preturn ()
         else deny isoparse G req now REPLAY (Some (lit ''request_id_reused'')) (Some g))"

definition authorize ::
  "iso_parser \<Rightarrow> (bytes \<Rightarrow> pystr) \<Rightarrow> ed25519 \<Rightarrow> 's gate \<Rightarrow> authorization_request \<Rightarrow> pystr \<Rightarrow> ('s, authorization) pm" where
  "authorize isoparse H E G req expected_action_digest =
     pbind (g_now G) (\<lambda>now.
     pbind (sync_and_accept isoparse H E G req now) (\<lambda>head.
     case verify_grant isoparse E G req of
       Inl e \<Rightarrow> (case e of
           Authz (DenialSignal reason detail) \<Rightarrow> deny isoparse G req now reason detail None
         | _ \<Rightarrow> praise e)
     | Inr g \<Rightarrow>
         pbind (local_decisions E G req now head g) (\<lambda>denial. case denial of
           Some (reason, detail) \<Rightarrow> deny isoparse G req now reason detail (Some g)
         | None \<Rightarrow>
             pbind (consume_request isoparse G req now g expected_action_digest) (\<lambda>_.
             cloud_decision isoparse E G req now g head
               (expected_binding_of req g head expected_action_digest)))))"

end
