(* ===== verification/Gate_Contract.thy ===== *)
theory Gate_Contract
  imports Authz_Gate
begin

text \<open>
  What the gate guarantees, over the contract of the objects injected into it: the consumers spend a key
  once, the mark only rises, the audit log is atomic, and each object leaves the others' state alone.
\<close>

subsection \<open>What the checks mean\<close>

definition artifact_signed :: "ed25519 \<Rightarrow> bytes \<Rightarrow> pyval \<Rightarrow> pystr \<Rightarrow> dict \<Rightarrow> bool" where
  "artifact_signed E key env ty body \<longleftrightarrow> (\<exists>sig m. parse_envelope env = Inr (ty, body, sig) \<and>
     signing_input ty body = Inr m \<and> ed_verify E key sig m)"

definition grant_authentic :: "iso_parser \<Rightarrow> ed25519 \<Rightarrow> 's gate \<Rightarrow> authorization_request \<Rightarrow> grant \<Rightarrow> bool" where
  "grant_authentic isoparse E G req g \<longleftrightarrow> (\<exists>body.
     artifact_signed E (g_user_root_public_key G) (rq_grant_envelope req) (lit ''grant'') body \<and>
     parse_grant_body isoparse body = Inr g \<and> gr_issuer_fp g = g_pinned_issuer_fp G)"

definition revocation_signed :: "ed25519 \<Rightarrow> bytes \<Rightarrow> pyval \<Rightarrow> pystr \<Rightarrow> bool" where
  "revocation_signed E key env gid \<longleftrightarrow> (\<exists>body. artifact_signed E key env revocation_artifact_type body \<and>
     parse_revocation_body (PDict body) = Inr gid)"

definition head_authentic :: "(bytes \<Rightarrow> pystr) \<Rightarrow> ed25519 \<Rightarrow> bytes \<Rightarrow> pyval \<Rightarrow> verified_head \<Rightarrow> bool" where
  "head_authentic H E key env h \<longleftrightarrow> (\<exists>head_env revs body.
     parse_sync_envelope env = Inr (head_env, revs) \<and>
     artifact_signed E key (PDict head_env) head_artifact_type body \<and>
     parse_head_body (PDict body) = Inr (vh_state_version h, vh_state_version_int h, vh_active_grants h) \<and>
     digest H (PDict body) = Inr (vh_digest h) \<and>
     (\<forall>r \<in> set revs. \<exists>gid. revocation_signed E key r gid) \<and>
     (\<forall>gid. gid \<in> vh_seen_revocations h \<longleftrightarrow> (\<exists>r \<in> set revs. revocation_signed E key r gid)))"

definition grant_in_force :: "'s gate \<Rightarrow> int \<Rightarrow> verified_head \<Rightarrow> grant \<Rightarrow> bool" where
  "grant_in_force G now h g \<longleftrightarrow>
     gr_grant_id g \<notin> vh_seen_revocations h \<and> (gr_grant_id g, gr_grant_version g) \<in> vh_active_grants h \<and>
     gr_valid_from g - clock_skew_seconds \<le> now \<and> now \<le> gr_valid_until g + clock_skew_seconds \<and>
     gr_valid_until g - gr_valid_from g \<le> validity_cap_seconds \<and>
     dget (gr_scope g) (lit ''from_account'') = PStr (g_gateway_account G)"

definition agent_proved :: "ed25519 \<Rightarrow> 's gate \<Rightarrow> authorization_request \<Rightarrow> int \<Rightarrow> grant \<Rightarrow> bool" where
  "agent_proved E G req now g \<longleftrightarrow> (\<exists>sig key m. rq_agent_sig req = Some sig \<and>
     load_agent_key E (sj_agent_pubkey_hex (gr_subject g)) = Some key \<and>
     request_binding (gr_grant_id g) (rq_request_id req) (rq_action_digest req) (rq_issued_at req)
       (rq_channel_binding req) = Inr m \<and> ed_verify E key sig m \<and>
     \<bar>now - rq_issued_at req\<bar> \<le> request_freshness_seconds \<and> rq_channel_binding req = g_channel_challenge G)"

definition subject_proved ::
  "ed25519 \<Rightarrow> 's gate \<Rightarrow> authorization_request \<Rightarrow> int \<Rightarrow> peer_identity option \<Rightarrow> grant \<Rightarrow> bool" where
  "subject_proved E G req now peer g \<longleftrightarrow> (case sj_kind (gr_subject g) of
     OS_ACCOUNT \<Rightarrow> (\<exists>p. peer = Some p \<and> Some (pi_machine_id p) = sj_machine_id (gr_subject g) \<and>
       Some (pi_account p) = sj_account (gr_subject g))
   | AGENT_KEY \<Rightarrow> agent_proved E G req now g)"

definition decision_accepted ::
  "ed25519 \<Rightarrow> 's gate \<Rightarrow> expected_binding \<Rightarrow> int \<Rightarrow> int \<Rightarrow> int \<Rightarrow> int \<Rightarrow> decision \<Rightarrow> bool" where
  "decision_accepted E G ex now wall sent verified d \<longleftrightarrow>
     (\<exists>m. decision_signing_input d = Inr m \<and> ed_verify E (g_decision_public_key G) (dc_sig d) m) \<and>
     decision_matches d ex \<and> now - decided_at_slack_seconds \<le> dc_decided_at d \<and>
     dc_decided_at d \<le> wall + decided_at_slack_seconds \<and> verified - sent \<le> response_deadline_ns"

subsection \<open>What a step that returned has checked\<close>

lemma deny_not_Inr [simp]: "deny isoparse G req now r d v s = (Inr a, t) \<longleftrightarrow> False"
  by (auto simp: deny_def pm_inv)

lemma rcatch_cert_Inr: "rcatch m cert_denial = Inr a \<longleftrightarrow> m = Inr a"
  by (cases m) (auto simp: cert_denial_def split: option.splits)

lemma verify_artifact_Inr:
  "verify_artifact E key ty body sig = Inr True \<longleftrightarrow>
     (\<exists>m. signing_input ty body = Inr m \<and> ed_verify E key sig m)"
  by (auto simp: verify_artifact_def verify_sig_def pm_inv)

lemma verify_grant_Inr:
  "verify_grant isoparse E G req = Inr g \<Longrightarrow> grant_authentic isoparse E G req g"
  unfolding verify_grant_def grant_authentic_def artifact_signed_def
  by (auto simp: rbind_Inr_iff rcatch_cert_Inr rguard_Inr_iff verify_artifact_Inr split: prod.splits if_splits)

lemma verify_revocation_Inr:
  "verify_revocation E key env = Inr gid \<longleftrightarrow> revocation_signed E key env gid"
  unfolding verify_revocation_def revocation_signed_def artifact_signed_def
  by (auto simp: rbind_Inr_iff rguard_Inr_iff verify_artifact_Inr split: prod.splits if_splits)

lemma revocation_signed_unique: "revocation_signed E key env a \<Longrightarrow> revocation_signed E key env b \<Longrightarrow> a = b"
  unfolding verify_revocation_Inr [symmetric] by simp

lemma verify_revocations_Inr:
  assumes "verify_revocations E key revs = Inr seen"
  shows "(\<forall>r \<in> set revs. \<exists>gid. revocation_signed E key r gid) \<and>
    (\<forall>gid. gid \<in> seen \<longleftrightarrow> (\<exists>r \<in> set revs. revocation_signed E key r gid))"
proof -
  from assms obtain gids where g: "traverse (verify_revocation E key) revs = Inr gids" "seen = set gids"
    by (auto simp: verify_revocations_def pm_inv)
  have a: "\<exists>gid. revocation_signed E key r gid \<and> gid \<in> seen" if "r \<in> set revs" for r
    using traverse_Inr_all [OF g(1) that] g(2) by (auto simp: verify_revocation_Inr)
  moreover have "\<exists>r \<in> set revs. revocation_signed E key r gid" if "gid \<in> seen" for gid
    using traverse_Inr_from [OF g(1), of gid] that g(2) by (auto simp: verify_revocation_Inr)
  moreover have "gid \<in> seen" if "r \<in> set revs" "revocation_signed E key r gid" for r gid
    using a [OF that(1)] revocation_signed_unique [OF that(2)] by metis
  ultimately show ?thesis by metis
qed

lemma verify_sync_Inr:
  assumes "verify_sync E key env = Inr (body, sv, n, pairs, seen)" "digest H (PDict body) = Inr dig"
  shows "head_authentic H E key env \<lparr>vh_state_version = sv, vh_state_version_int = n, vh_active_grants = pairs,
    vh_digest = dig, vh_seen_revocations = seen\<rparr>"
proof -
  from assms(1) obtain head_env revs ty sig ok where
    p: "parse_sync_envelope env = Inr (head_env, revs)" "parse_envelope (PDict head_env) = Inr (ty, body, sig)"
      "ty = head_artifact_type" "verify_artifact E key head_artifact_type body sig = Inr ok" "ok"
      "parse_head_body (PDict body) = Inr (sv, n, pairs)" "verify_revocations E key revs = Inr seen"
    by (auto simp: verify_sync_def rbind_Inr_iff rguard_Inr_iff split: prod.splits)
  have "artifact_signed E key (PDict head_env) head_artifact_type body"
    using p by (auto simp: artifact_signed_def verify_artifact_Inr)
  with p verify_revocations_Inr [OF p(7)] assms(2) show ?thesis
    by (auto simp: head_authentic_def)
qed

lemma accept_head_Inr:
  assumes "accept_head isoparse H G req now (body, sv, n, pairs, seen) s = (Inr h, t)"
  shows "\<exists>hw u dig. g_hw_get G s = (Inr hw, u) \<and> hw \<le> n \<and> g_hw_raise_to G n u = (Inr (), t) \<and>
    digest H (PDict body) = Inr dig \<and> h = \<lparr>vh_state_version = sv, vh_state_version_int = n,
      vh_active_grants = pairs, vh_digest = dig, vh_seen_revocations = seen\<rparr>"
  using assms by (auto simp: accept_head_def ptry_Inr_iff pbind_Inr_iff pm_inv split: if_splits)

lemma sync_and_accept_Inr:
  assumes "sync_and_accept isoparse H E G req now s = (Inr h, t)"
  shows "\<exists>env u hw v. g_sync G s = (Inr env, u) \<and> head_authentic H E (g_user_root_public_key G) env h \<and>
    g_hw_get G u = (Inr hw, v) \<and> hw \<le> vh_state_version_int h \<and>
    g_hw_raise_to G (vh_state_version_int h) v = (Inr (), t)"
proof -
  from assms obtain env u where u: "g_sync G s = (Inr env, u)"
    and w: "(case verify_sync E (g_user_root_public_key G) env of
          Inl e \<Rightarrow> (case cert_detail e of
              Some detail \<Rightarrow> deny isoparse G req now INVALID_ARTIFACT detail None
            | None \<Rightarrow> praise e)
        | Inr v \<Rightarrow> accept_head isoparse H G req now v) u = (Inr h, t)"
    by (auto simp: sync_and_accept_def ptry_Inr_iff pm_inv split: if_splits)
  from w obtain body sv n pairs seen where v: "verify_sync E (g_user_root_public_key G) env = Inr (body, sv, n, pairs, seen)"
    by (auto simp: pm_inv split: sum.splits option.splits)
  with w have "accept_head isoparse H G req now (body, sv, n, pairs, seen) u = (Inr h, t)" by simp
  from accept_head_Inr [OF this] verify_sync_Inr [OF v] u show ?thesis by fastforce
qed

lemma check_agent_None: "check_agent E G req now g = Inr None \<Longrightarrow> agent_proved E G req now g"
  by (auto simp: check_agent_def agent_proved_def verify_sig_def pm_inv split: option.splits if_splits)

lemma check_subject_None:
  assumes "check_subject E G req now g s = (Inr None, t)"
  shows "\<exists>peer. subject_proved E G req now peer g"
  using assms by (cases "sj_kind (gr_subject g)")
    (auto simp: check_subject_def subject_proved_def pm_inv dest: check_agent_None split: option.splits if_splits)

lemma local_decisions_None:
  assumes "local_decisions E G req now h g s = (Inr None, t)"
  shows "grant_in_force G now h g \<and> check_subject E G req now g s = (Inr None, t)"
  using assms by (auto simp: local_decisions_def grant_in_force_def membership_of_def pm_inv
      split: membership.splits if_splits)

lemma consume_request_Inr:
  "consume_request isoparse G req now g dig s = (Inr u, t) \<Longrightarrow>
     g_request_consume G (request_key g req) dig s = (Inr True, t)"
  by (auto simp: consume_request_def ptry_Inr_iff pm_inv split: if_splits)

lemma record_outcome_Inr:
  "record_outcome isoparse G req now g h ex d received s = (Inr a, t) \<Longrightarrow>
     \<exists>u. g_decision_consume G (dc_decision_id d) (ex_action_digest ex) s = (Inr True, u) \<and>
       authz_record (g_audit G) (success_event req now g h ex (dc_decision_id d)) u = (Inr (), t) \<and>
       a = \<lparr>au_decision = d, au_mono_decision_received = received\<rparr>"
  by (auto simp: record_outcome_def ptry_Inr_iff pbind_Inr_iff pm_inv split: if_splits)

lemma verify_decision_Inr:
  assumes "verify_decision isoparse E G req now g h ex sent d s = (Inr a, t)"
  shows "\<exists>received u wall v verified w. g_clock G s = (Inr received, u) \<and> g_now G u = (Inr wall, v) \<and>
    g_clock G v = (Inr verified, w) \<and> decision_accepted E G ex now wall sent verified d \<and>
    record_outcome isoparse G req now g h ex d received w = (Inr a, t)"
proof -
  from assms obtain received u wall v ok where u: "g_clock G s = (Inr received, u)" "g_now G u = (Inr wall, v)"
    and ok: "verify_decision_sig E (g_decision_public_key G) d = Inr ok"
    and rest: "(if \<not> ok then deny isoparse G req now INVALID_ARTIFACT (Some (lit ''decision_sig_invalid'')) (Some g)
      else case check_binding d ex of
        Some mismatch \<Rightarrow> deny isoparse G req now INVALID_ARTIFACT (Some mismatch) (Some g)
      | None \<Rightarrow> if \<not> decided_at_in_hygiene_window (dc_decided_at d) now wall
          then deny isoparse G req now INVALID_ARTIFACT (Some (lit ''decided_at_out_of_window'')) (Some g)
          else pbind (g_clock G) (\<lambda>verified.
            if response_deadline_ns < verified - sent
            then deny isoparse G req now CLOUD_UNREACHABLE None (Some g)
            else record_outcome isoparse G req now g h ex d received)) v = (Inr a, t)"
    unfolding verify_decision_def by (auto simp: pbind_Inr_iff pm_inv)
  from rest obtain verified w where w: "ok" "check_binding d ex = None"
    "decided_at_in_hygiene_window (dc_decided_at d) now wall" "g_clock G v = (Inr verified, w)"
    "\<not> response_deadline_ns < verified - sent" "record_outcome isoparse G req now g h ex d received w = (Inr a, t)"
    by (auto simp: pbind_Inr_iff split: if_splits option.splits)
  have "decision_accepted E G ex now wall sent verified d"
    using w ok check_binding_matches [OF w(2)]
    by (auto simp: decision_accepted_def verify_decision_sig_def verify_sig_def decided_at_in_hygiene_window_def pm_inv)
  with u w show ?thesis by blast
qed

lemma cloud_decision_Inr:
  "cloud_decision isoparse E G req now g h ex s = (Inr a, t) \<Longrightarrow>
     \<exists>sent u d v. g_clock G s = (Inr sent, u) \<and> g_decide G req now u = (Inr d, v) \<and>
       verify_decision isoparse E G req now g h ex sent d v = (Inr a, t)"
  by (auto simp: cloud_decision_def ptry_Inr_iff pbind_Inr_iff)

lemma authorize_Inr:
  assumes "authorize isoparse H E G req dig s = (Inr a, t)"
  shows "\<exists>now s1 h s2 g s3 s4. g_now G s = (Inr now, s1) \<and> sync_and_accept isoparse H E G req now s1 = (Inr h, s2) \<and>
    verify_grant isoparse E G req = Inr g \<and> local_decisions E G req now h g s2 = (Inr None, s3) \<and>
    consume_request isoparse G req now g dig s3 = (Inr (), s4) \<and>
    cloud_decision isoparse E G req now g h (expected_binding_of req g h dig) s4 = (Inr a, t)"
proof -
  from assms obtain now s1 h s2 where s: "g_now G s = (Inr now, s1)"
    "sync_and_accept isoparse H E G req now s1 = (Inr h, s2)"
    and r: "(case verify_grant isoparse E G req of
       Inl e \<Rightarrow> (case e of
           Authz (DenialSignal reason detail) \<Rightarrow> deny isoparse G req now reason detail None
         | _ \<Rightarrow> praise e)
     | Inr g \<Rightarrow>
         pbind (local_decisions E G req now h g) (\<lambda>denial. case denial of
           Some (reason, detail) \<Rightarrow> deny isoparse G req now reason detail (Some g)
         | None \<Rightarrow> pbind (consume_request isoparse G req now g dig) (\<lambda>_.
             cloud_decision isoparse E G req now g h (expected_binding_of req g h dig)))) s2 = (Inr a, t)"
    unfolding authorize_def by (auto simp: pbind_Inr_iff)
  from r obtain g where g: "verify_grant isoparse E G req = Inr g"
    by (auto simp: pm_inv split: sum.splits exn.splits authz_exn.splits)
  from r g obtain denial s3 where d: "local_decisions E G req now h g s2 = (Inr denial, s3)"
    "(case denial of
           Some (reason, detail) \<Rightarrow> deny isoparse G req now reason detail (Some g)
         | None \<Rightarrow> pbind (consume_request isoparse G req now g dig) (\<lambda>_.
             cloud_decision isoparse E G req now g h (expected_binding_of req g h dig))) s3 = (Inr a, t)"
    by (auto simp: pbind_Inr_iff)
  then have "denial = None" by (auto split: option.splits)
  with s g d show ?thesis by (auto simp: pbind_Inr_iff)
qed

text \<open>Everything the injected objects answered in a call that returned, in order.\<close>

lemma authorize_trace:
  assumes "authorize isoparse H E G req dig s = (Inr a, t)"
  shows "\<exists>now s1 env u mark v h s2 g s3 s4 sent x1 x2 received x3 wall x4 verified x5 x6.
    g_now G s = (Inr now, s1) \<and> g_sync G s1 = (Inr env, u) \<and> head_authentic H E (g_user_root_public_key G) env h \<and>
    g_hw_get G u = (Inr mark, v) \<and> mark \<le> vh_state_version_int h \<and> g_hw_raise_to G (vh_state_version_int h) v = (Inr (), s2) \<and>
    verify_grant isoparse E G req = Inr g \<and> grant_in_force G now h g \<and> check_subject E G req now g s2 = (Inr None, s3) \<and>
    g_request_consume G (request_key g req) dig s3 = (Inr True, s4) \<and> g_clock G s4 = (Inr sent, x1) \<and>
    g_decide G req now x1 = (Inr (au_decision a), x2) \<and> g_clock G x2 = (Inr received, x3) \<and> g_now G x3 = (Inr wall, x4) \<and>
    g_clock G x4 = (Inr verified, x5) \<and>
    decision_accepted E G (expected_binding_of req g h dig) now wall sent verified (au_decision a) \<and>
    au_mono_decision_received a = received \<and>
    g_decision_consume G (dc_decision_id (au_decision a)) dig x5 = (Inr True, x6) \<and>
    authz_record (g_audit G) (success_event req now g h (expected_binding_of req g h dig) (dc_decision_id (au_decision a))) x6 = (Inr (), t)"
proof -
  from authorize_Inr [OF assms] obtain now s1 h s2 g s3 s4 where
    n: "g_now G s = (Inr now, s1)" and h: "sync_and_accept isoparse H E G req now s1 = (Inr h, s2)"
    and g: "verify_grant isoparse E G req = Inr g" and l: "local_decisions E G req now h g s2 = (Inr None, s3)"
    and c: "consume_request isoparse G req now g dig s3 = (Inr (), s4)"
    and d: "cloud_decision isoparse E G req now g h (expected_binding_of req g h dig) s4 = (Inr a, t)" by blast
  from sync_and_accept_Inr [OF h] obtain env u mark v where
    e: "g_sync G s1 = (Inr env, u)" "head_authentic H E (g_user_root_public_key G) env h" "g_hw_get G u = (Inr mark, v)"
      "mark \<le> vh_state_version_int h" "g_hw_raise_to G (vh_state_version_int h) v = (Inr (), s2)" by blast
  from cloud_decision_Inr [OF d] obtain sent x1 dc x2 where
    x: "g_clock G s4 = (Inr sent, x1)" "g_decide G req now x1 = (Inr dc, x2)"
      "verify_decision isoparse E G req now g h (expected_binding_of req g h dig) sent dc x2 = (Inr a, t)" by blast
  from verify_decision_Inr [OF x(3)] obtain received x3 wall x4 verified x5 where
    y: "g_clock G x2 = (Inr received, x3)" "g_now G x3 = (Inr wall, x4)" "g_clock G x4 = (Inr verified, x5)"
      "decision_accepted E G (expected_binding_of req g h dig) now wall sent verified dc"
      "record_outcome isoparse G req now g h (expected_binding_of req g h dig) dc received x5 = (Inr a, t)" by blast
  have "ex_action_digest (expected_binding_of req g h dig) = dig" by (simp add: expected_binding_of_def)
  with record_outcome_Inr [OF y(5)] obtain x6 where
    z: "g_decision_consume G (dc_decision_id dc) dig x5 = (Inr True, x6)"
      "authz_record (g_audit G) (success_event req now g h (expected_binding_of req g h dig) (dc_decision_id dc)) x6 = (Inr (), t)"
      "a = \<lparr>au_decision = dc, au_mono_decision_received = received\<rparr>" by auto
  show ?thesis
    using n e g local_decisions_None [OF l] consume_request_Inr [OF c] x y z by (simp, blast)
qed

subsection \<open>What else can leave the gate\<close>

text \<open>The exceptions of the canonicalizer, and of \<open>int\<close> on a version with too many digits.\<close>

definition canonical_error :: "exn \<Rightarrow> bool" where
  "canonical_error e \<longleftrightarrow> e \<in> {Py ValueError, Canon JcsError, Py UnicodeEncodeError}"

definition cert_or_canonical :: "exn \<Rightarrow> bool" where
  "cert_or_canonical e \<longleftrightarrow> cert_detail e \<noteq> None \<or> canonical_error e"

lemma cert_or_canonical_simps [simp]:
  "cert_or_canonical cert_error" "cert_or_canonical (Py ValueError)"
  by (simp_all add: cert_or_canonical_def canonical_error_def)

lemma cert_or_canonical_mono: "raises_only ((=) cert_error) m \<Longrightarrow> raises_only cert_or_canonical m"
  by (erule raises_only_mono) auto

lemma signing_input_raises: "raises_only canonical_error (signing_input ty body)"
  using signing_input_errors by (auto simp: raises_only_def canonical_error_def)

lemma verify_artifact_raises: "raises_only canonical_error (verify_artifact E key ty body sig)"
  unfolding verify_artifact_def by (intro raises_only_rmap signing_input_raises)

lemma canonical_raises: "raises_only canonical_error m \<Longrightarrow> raises_only cert_or_canonical m"
  by (erule raises_only_mono) (simp add: cert_or_canonical_def)

lemma verify_revocation_raises: "raises_only cert_or_canonical (verify_revocation E key env)"
  unfolding verify_revocation_def
  by (auto intro!: raises_only_rbind canonical_raises [OF verify_artifact_raises]
      cert_or_canonical_mono [OF parse_envelope_raises] cert_or_canonical_mono [OF cert_raises(2)]
      raises_only_Inl raises_only_rguard split: prod.splits)

lemma parse_head_body_raises': "raises_only cert_or_canonical (parse_head_body v)"
  by (rule raises_only_mono [OF parse_head_body_raises]) auto

lemma verify_sync_raises: "raises_only cert_or_canonical (verify_sync E key env)"
proof -
  have "raises_only cert_or_canonical (verify_revocations E key revs)" for revs
    unfolding verify_revocations_def
    by (intro raises_only_rmap raises_only_traverse verify_revocation_raises)
  then show ?thesis
    unfolding verify_sync_def
    by (auto intro!: raises_only_rbind raises_only_Inr canonical_raises [OF verify_artifact_raises]
        parse_head_body_raises' intro: cert_or_canonical_mono raises_only_intro split: prod.splits)
qed

definition denial_or_canonical :: "exn \<Rightarrow> bool" where
  "denial_or_canonical e \<longleftrightarrow> (\<exists>d. e = Authz (DenialSignal INVALID_ARTIFACT d)) \<or> canonical_error e"

lemma rcatch_cert_raises:
  "raises_only cert_or_canonical m \<Longrightarrow> raises_only denial_or_canonical (rcatch m cert_denial)"
  by (cases m) (auto simp: raises_only_def cert_denial_def cert_or_canonical_def denial_or_canonical_def split: option.splits)

lemma body_error_canonical: "body_error b e \<Longrightarrow> cert_or_canonical e"
  by (auto simp: body_error_def cert_or_canonical_def canonical_error_def)

lemma verify_grant_raises: "raises_only denial_or_canonical (verify_grant isoparse E G req)"
proof -
  have a: "raises_only denial_or_canonical (rcatch (parse_envelope v) cert_denial)" for v
    by (intro rcatch_cert_raises cert_or_canonical_mono parse_envelope_raises)
  have b: "raises_only denial_or_canonical (rcatch (parse_grant_body isoparse v) cert_denial)" for v
    using parse_grant_body_raises body_error_canonical by (intro rcatch_cert_raises) (rule raises_only_mono)
  have c: "raises_only denial_or_canonical (verify_artifact E k ty v sig)" for k ty v sig
    by (rule raises_only_mono [OF verify_artifact_raises]) (simp add: denial_or_canonical_def)
  show ?thesis
    unfolding verify_grant_def
    by (auto intro!: raises_only_rbind raises_only_Inr raises_only_Inl raises_only_rguard a b c
        simp: denial_or_canonical_def split: prod.splits)
qed

lemma check_agent_raises: "raises_only canonical_error (check_agent E G req now g)"
proof -
  have "raises_only canonical_error (request_binding a b c d e)" for a b c d e
    using canonicalize_errors by (auto simp: raises_only_def canonical_error_def request_binding_def)
  then show ?thesis
    by (auto simp: check_agent_def intro!: raises_only_Inr raises_only_rmap split: option.splits)
qed

lemma canonical_not_authz [simp]: "\<not> canonical_error (Authz x)"
  by (auto simp: canonical_error_def)

subsection \<open>The contract of the injected objects\<close>

text \<open>Nothing the gate reads or spends changes, and the log is left alone.\<close>

definition gate_same ::
  "('s \<Rightarrow> pystr set) \<Rightarrow> ('s \<Rightarrow> pystr set) \<Rightarrow> ('s \<Rightarrow> int) \<Rightarrow> ('s \<Rightarrow> dict list) \<Rightarrow> ('s \<Rightarrow> bool) \<Rightarrow> 's \<Rightarrow> 's \<Rightarrow> bool" where
  "gate_same ru du lv en li s t \<longleftrightarrow> ru t = ru s \<and> du t = du s \<and> lv t = lv s \<and> en t = en s \<and> li t = li s"

locale gate_env = requests: single_use "g_request_consume G" req_used +
    decisions: single_use "g_decision_consume G" dec_used +
    mark: high_water "g_hw_get G" "g_hw_raise_to G" level +
    log: log_atomic "g_audit G" entries linv
  for G :: "'s gate" and req_used dec_used :: "'s \<Rightarrow> pystr set" and level :: "'s \<Rightarrow> int"
    and entries :: "'s \<Rightarrow> dict list" and linv :: "'s \<Rightarrow> bool" +
  assumes now_frame: "g_now G s = (x, t) \<Longrightarrow> gate_same req_used dec_used level entries linv s t \<and>
      x \<noteq> Inl (Authz AuthorizationDenied)"
    and clock_frame: "g_clock G s = (x, t) \<Longrightarrow> gate_same req_used dec_used level entries linv s t \<and>
      x \<noteq> Inl (Authz AuthorizationDenied)"
    and sync_frame: "g_sync G s = (y, t) \<Longrightarrow> gate_same req_used dec_used level entries linv s t \<and>
      y \<noteq> Inl (Authz AuthorizationDenied)"
    and peer_frame: "g_peer_resolver G req s = (p, t) \<Longrightarrow> gate_same req_used dec_used level entries linv s t \<and>
      p \<noteq> Inl (Authz AuthorizationDenied)"
    and decide_frame: "g_decide G req n s = (d, t) \<Longrightarrow> gate_same req_used dec_used level entries linv s t"
    and request_frame: "g_request_consume G k h s = (b, t) \<Longrightarrow>
      dec_used t = dec_used s \<and> level t = level s \<and> entries t = entries s \<and> linv t = linv s"
    and decision_frame: "g_decision_consume G k h s = (b, t) \<Longrightarrow>
      req_used t = req_used s \<and> level t = level s \<and> entries t = entries s \<and> linv t = linv s"
    and get_frame: "g_hw_get G s = (x, t) \<Longrightarrow>
      req_used t = req_used s \<and> dec_used t = dec_used s \<and> entries t = entries s \<and> linv t = linv s"
    and raise_frame: "g_hw_raise_to G n s = (u, t) \<Longrightarrow>
      req_used t = req_used s \<and> dec_used t = dec_used s \<and> entries t = entries s \<and> linv t = linv s"
    and append_frame: "log_append (g_audit G) row s = (u, t) \<Longrightarrow>
      req_used t = req_used s \<and> dec_used t = dec_used s \<and> level t = level s \<and>
      u \<noteq> Inl (Authz AuthorizationDenied)"

definition denial_row :: "authorization_request \<Rightarrow> dict list \<Rightarrow> bool" where
  "denial_row req new \<longleftrightarrow> (\<exists>ev reason. new = [authz_to_dict ev] \<and> av_code ev = denial_value reason \<and>
     av_request_id ev = rq_request_id req \<and> av_decision_id ev = None \<and> av_action_digest ev = None)"

definition success_row :: "authorization_request \<Rightarrow> pystr \<Rightarrow> authorization \<Rightarrow> dict list \<Rightarrow> bool" where
  "success_row req dig a new \<longleftrightarrow> (\<exists>ev. new = [authz_to_dict ev] \<and>
     av_code ev \<in> set dispositions \<and> av_code ev = dc_disposition (au_decision a) \<and>
     av_request_id ev = rq_request_id req \<and> av_decision_id ev = Some (dc_decision_id (au_decision a)) \<and>
     av_action_digest ev = Some dig \<and> av_grant_id_verified ev)"

definition quiet :: "'a \<Rightarrow> dict list \<Rightarrow> bool" where
  "quiet a new \<longleftrightarrow> new = []"

fun outcome_rows :: "authorization_request \<Rightarrow> ('a \<Rightarrow> dict list \<Rightarrow> bool) \<Rightarrow> 'a res \<Rightarrow> dict list \<Rightarrow> bool" where
  "outcome_rows req Q (Inl e) new = (if e = Authz AuthorizationDenied then denial_row req new else new = [])"
| "outcome_rows req Q (Inr a) new = Q a new"

lemma denial_row_event: "denial_row req [authz_to_dict (denial_event isoparse req now reason detail v)]"
  unfolding denial_row_def
  by (rule exI [of _ "denial_event isoparse req now reason detail v"], rule exI [of _ reason])
    (auto simp: denial_event_def authz_event0_def split: option.splits)

text \<open>Sequences of calls; a caller goes on after an exception.  Before each call the world outside may have moved
  on (\<open>arrive\<close>): a call comes with what has become of it.\<close>

fun authorize_run :: "iso_parser \<Rightarrow> (bytes \<Rightarrow> pystr) \<Rightarrow> ed25519 \<Rightarrow> 's gate \<Rightarrow> ('x \<Rightarrow> 's \<Rightarrow> 's) \<Rightarrow>
    ('x \<times> authorization_request \<times> pystr) list \<Rightarrow> 's \<Rightarrow> authorization res list \<times> 's" where
  "authorize_run isoparse H E G arrive [] s = ([], s)"
| "authorize_run isoparse H E G arrive ((x, req, dig) # calls) s =
     (case authorize isoparse H E G req dig (arrive x s) of (r, t) \<Rightarrow>
       (case authorize_run isoparse H E G arrive calls t of (rs, u) \<Rightarrow> (r # rs, u)))"

text \<open>Grant and request of an authorization, as the gate spends them.\<close>

definition authorization_key :: "authorization \<Rightarrow> pystr" where
  "authorization_key a = dc_grant_id (au_decision a) @ 0 # dc_request_id (au_decision a)"

fun count_wins :: "(authorization \<Rightarrow> pystr) \<Rightarrow> pystr \<Rightarrow> authorization res list \<Rightarrow> nat" where
  "count_wins id_of k [] = 0"
| "count_wins id_of k (r # rs) = (case r of Inl e \<Rightarrow> 0 | Inr a \<Rightarrow> if id_of a = k then 1 else 0) + count_wins id_of k rs"

text \<open>The versions of the heads behind the authorizations of a run.\<close>

fun versions :: "authorization res list \<Rightarrow> int list" where
  "versions [] = []"
| "versions (r # rs) = (case r of
     Inr a \<Rightarrow> (case int_of_decimal (dc_state_version (au_decision a)) of Inr n \<Rightarrow> n # versions rs | Inl e \<Rightarrow> versions rs)
   | Inl e \<Rightarrow> versions rs)"

context gate_env
begin

definition grew :: "'s \<Rightarrow> 's \<Rightarrow> bool" where
  "grew s t \<longleftrightarrow> req_used s \<subseteq> req_used t \<and> dec_used s \<subseteq> dec_used t \<and> level s \<le> level t"

lemma grew_trans: "grew s t \<Longrightarrow> grew t u \<Longrightarrow> grew s u"
  by (auto simp: grew_def)

text \<open>A method that never touches the log.\<close>

definition outside :: "('s, 'a) pm \<Rightarrow> bool" where
  "outside m \<longleftrightarrow> (\<forall>s r t. m s = (r, t) \<longrightarrow> grew s t \<and> linv t = linv s \<and> entries t = entries s)"

text \<open>The rows a step of the gate leaves: one denial row when it denies, none when it raises anything
  else, and \<open>Q\<close> when it returns.\<close>

definition effect :: "authorization_request \<Rightarrow> ('a \<Rightarrow> dict list \<Rightarrow> bool) \<Rightarrow> ('s, 'a) pm \<Rightarrow> bool" where
  "effect req Q m \<longleftrightarrow> (\<forall>s r t. linv s \<longrightarrow> m s = (r, t) \<longrightarrow> linv t \<and> grew s t \<and>
     (\<exists>new. entries t = entries s @ new \<and> outcome_rows req Q r new))"

lemma effectI:
  "(\<And>s r t. linv s \<Longrightarrow> m s = (r, t) \<Longrightarrow>
      linv t \<and> grew s t \<and> (\<exists>new. entries t = entries s @ new \<and> outcome_rows req Q r new)) \<Longrightarrow> effect req Q m"
  by (simp add: effect_def)

lemma effectD:
  "effect req Q m \<Longrightarrow> linv s \<Longrightarrow> m s = (r, t) \<Longrightarrow>
     linv t \<and> grew s t \<and> (\<exists>new. entries t = entries s @ new \<and> outcome_rows req Q r new)"
  unfolding effect_def by blast

lemma effect_pbind:
  assumes m: "effect req quiet m" and f: "\<And>a. effect req Q (f a)"
  shows "effect req Q (pbind m f)"
proof (rule effectI)
  fix s r t
  assume l: "linv s" and b: "pbind m f s = (r, t)"
  obtain x u where x: "m s = (x, u)" by fastforce
  from effectD [OF m l x] obtain new where
    ms: "linv u" "grew s u" "entries u = entries s @ new" "outcome_rows req quiet x new" by blast
  show "linv t \<and> grew s t \<and> (\<exists>new. entries t = entries s @ new \<and> outcome_rows req Q r new)"
  proof (cases x)
    case (Inl e)
    with b x have "r = Inl e" "t = u" by (auto simp: pbind_def)
    with ms Inl show ?thesis by auto
  next
    case (Inr a)
    with b x have "f a u = (r, t)" by (simp add: pbind_def)
    from effectD [OF f ms(1) this] ms Inr show ?thesis using grew_trans by (auto simp: quiet_def)
  qed
qed

lemma effect_ptry:
  assumes m: "outside m" and h: "\<And>e. effect req Q (h e)" and f: "\<And>a. effect req Q (f a)"
  shows "effect req Q (ptry m h f)"
proof (rule effectI)
  fix s r t
  assume l: "linv s" and b: "ptry m h f s = (r, t)"
  obtain x u where x: "m s = (x, u)" by fastforce
  with m l have ms: "linv u" "grew s u" "entries u = entries s" by (auto simp: outside_def)
  obtain k where k: "effect req Q k" "k u = (r, t)"
    using b x h f by (cases x) (auto simp: ptry_def)
  from effectD [OF k(1) ms(1) k(2)] ms
  show "linv t \<and> grew s t \<and> (\<exists>new. entries t = entries s @ new \<and> outcome_rows req Q r new)"
    using grew_trans by auto
qed

lemma outside_effect:
  assumes "outside m" "\<And>s t. m s \<noteq> (Inl (Authz AuthorizationDenied), t)"
  shows "effect req quiet m"
proof (rule effectI)
  fix s r t
  assume "linv s" "m s = (r, t)"
  with assms show "linv t \<and> grew s t \<and> (\<exists>new. entries t = entries s @ new \<and> outcome_rows req quiet r new)"
    by (cases r) (auto simp: outside_def quiet_def)
qed

lemma effect_praise: "e \<noteq> Authz AuthorizationDenied \<Longrightarrow> effect req Q (praise e)"
  by (rule effectI) (auto simp: praise_def grew_def)

lemma effect_preturn: "effect req quiet (preturn a)"
  by (rule effectI) (auto simp: preturn_def grew_def quiet_def)

lemma effect_plift: "raises_only canonical_error r \<Longrightarrow> effect req quiet (plift r)"
  by (rule effectI; cases r) (auto simp: plift_def grew_def quiet_def raises_only_def canonical_error_def)

lemma log_record_effect:
  assumes "Q () [authz_to_dict ev]"
  shows "effect req Q (authz_record (g_audit G) ev)"
proof (rule effectI)
  fix s r t
  assume l: "linv s" and b: "authz_record (g_audit G) ev s = (r, t)"
  then have b': "log_append (g_audit G) (authz_to_dict ev) s = (r, t)" by (simp add: authz_record_def)
  from log.append_atomic [OF l b'] append_frame [OF b'] assms
  show "linv t \<and> grew s t \<and> (\<exists>new. entries t = entries s @ new \<and> outcome_rows req Q r new)"
    by (cases r) (auto simp: grew_def)
qed

lemma deny_effect:
  fixes Q :: "'z \<Rightarrow> dict list \<Rightarrow> bool"
  shows "effect req Q (deny isoparse G req now reason detail v)"
proof (rule effectI)
  fix s t and r :: "'z res"
  let ?ev = "denial_event isoparse req now reason detail v"
  assume l: "linv s" and b: "deny isoparse G req now reason detail v s = (r, t)"
  obtain x u where x: "authz_record (g_audit G) ?ev s = (x, u)" by fastforce
  have "effect req (\<lambda>_ new. new = [authz_to_dict ?ev]) (authz_record (g_audit G) ?ev)"
    by (rule log_record_effect) simp
  from effectD [OF this l x] b x denial_row_event [of req isoparse now reason detail v]
  show "linv t \<and> grew s t \<and> (\<exists>new. entries t = entries s @ new \<and> outcome_rows req Q r new)"
    by (cases x) (auto simp: deny_def pbind_def praise_def)
qed

lemma outside_frames:
  "outside (g_now G)" "outside (g_clock G)" "outside (g_sync G)" "outside (g_peer_resolver G req)"
  "outside (g_decide G req n)" "outside (g_request_consume G k h)" "outside (g_decision_consume G k h)"
  "outside (g_hw_get G)" "outside (g_hw_raise_to G v)"
  unfolding outside_def grew_def
  using now_frame clock_frame sync_frame peer_frame decide_frame requests.consume_grows request_frame
    decisions.consume_grows decision_frame mark.get_level get_frame mark.raise_level raise_frame
  by (auto simp: gate_same_def)

lemma sync_and_accept_effect: "effect req quiet (sync_and_accept isoparse H E G req now)"
proof -
  have d: "effect req quiet (plift (digest H v))" for v
    using canonicalize_errors
    by (intro effect_plift) (auto simp: digest_def raises_only_def rmap_Inl_iff canonical_error_def)
  have a: "effect req quiet (accept_head isoparse H G req now v)" for v
    by (auto simp: accept_head_def intro!: effect_ptry effect_pbind effect_preturn deny_effect outside_frames d
        split: prod.splits)
  have n: "verify_sync E k env \<noteq> Inl (Authz AuthorizationDenied)" for k env
    using raises_onlyD [OF verify_sync_raises, of E k env "Authz AuthorizationDenied"]
    by (auto simp: cert_or_canonical_def)
  have k: "effect req quiet (case verify_sync E (g_user_root_public_key G) env of
      Inl e \<Rightarrow> (case cert_detail e of Some detail \<Rightarrow> deny isoparse G req now INVALID_ARTIFACT detail None | None \<Rightarrow> praise e)
    | Inr v \<Rightarrow> accept_head isoparse H G req now v)" for env
    using a n by (auto intro!: deny_effect effect_praise split: sum.splits option.splits)
  show ?thesis
  proof (rule effectI)
    fix s r t
    assume l: "linv s" and b: "sync_and_accept isoparse H E G req now s = (r, t)"
    obtain x u where x: "g_sync G s = (x, u)" by fastforce
    from sync_frame [OF x] have u: "linv u" "grew s u" "entries u = entries s" "x \<noteq> Inl (Authz AuthorizationDenied)"
      using l by (auto simp: gate_same_def grew_def)
    have "\<exists>m. effect req quiet m \<and> m u = (r, t)"
    proof (cases x)
      case (Inr env)
      with b x have "(case verify_sync E (g_user_root_public_key G) env of
          Inl e \<Rightarrow> (case cert_detail e of Some detail \<Rightarrow> deny isoparse G req now INVALID_ARTIFACT detail None | None \<Rightarrow> praise e)
        | Inr v \<Rightarrow> accept_head isoparse H G req now v) u = (r, t)"
        by (simp add: sync_and_accept_def ptry_def)
      with k show ?thesis by blast
    next
      case (Inl e)
      with b x have "(if e = Authz AuthorizationUnavailable then deny isoparse G req now CLOUD_UNREACHABLE None None
          else praise e) u = (r, t)" by (simp add: sync_and_accept_def ptry_def)
      moreover have "effect req quiet (if e = Authz AuthorizationUnavailable
          then deny isoparse G req now CLOUD_UNREACHABLE None None else praise e)"
        using u(4) Inl by (auto intro!: deny_effect effect_praise)
      ultimately show ?thesis by blast
    qed
    then obtain m where "effect req quiet m" "m u = (r, t)" by blast
    from effectD [OF this(1) u(1) this(2)] u
    show "linv t \<and> grew s t \<and> (\<exists>new. entries t = entries s @ new \<and> outcome_rows req quiet r new)"
      using grew_trans by auto
  qed
qed

lemma local_decisions_effect: "effect req quiet (local_decisions E G req now h g)"
proof -
  have "effect req quiet (g_peer_resolver G req)"
    using peer_frame outside_frames by (intro outside_effect) blast+
  then have "effect req quiet (check_subject E G req now g)"
    by (auto simp: check_subject_def intro!: effect_pbind effect_preturn effect_plift check_agent_raises
        split: subject_kind.splits)
  then show ?thesis
    by (auto simp: local_decisions_def intro!: effect_preturn split: membership.splits)
qed

lemma consume_request_effect: "effect req quiet (consume_request isoparse G req now g dig)"
  by (auto simp: consume_request_def intro!: effect_ptry effect_preturn deny_effect outside_frames)

lemma clocks_effect: "effect req quiet (g_clock G)" "effect req quiet (g_now G)"
  using clock_frame now_frame outside_frames by (blast intro: outside_effect)+

lemma success_row_event:
  assumes "decision_matches d (expected_binding_of req g h dig)"
  shows "success_row req dig \<lparr>au_decision = d, au_mono_decision_received = n\<rparr>
    [authz_to_dict (success_event req now g h (expected_binding_of req g h dig) (dc_decision_id d))]"
  unfolding success_row_def
  by (rule exI [of _ "success_event req now g h (expected_binding_of req g h dig) (dc_decision_id d)"])
    (use assms in \<open>auto simp: success_event_def authz_event0_def expected_binding_of_def decision_matches_def
      dispositions_def grant_disposition_def\<close>)

lemma record_outcome_effect:
  assumes "decision_matches d (expected_binding_of req g h dig)"
  shows "effect req (success_row req dig)
    (record_outcome isoparse G req now g h (expected_binding_of req g h dig) d received)"
proof -
  let ?ev = "success_event req now g h (expected_binding_of req g h dig) (dc_decision_id d)"
  have "effect req (success_row req dig) (pbind (authz_record (g_audit G) ?ev) (\<lambda>_.
      preturn \<lparr>au_decision = d, au_mono_decision_received = received\<rparr>))"
  proof (rule effectI)
    fix s r t
    assume l: "linv s" and b: "pbind (authz_record (g_audit G) ?ev) (\<lambda>_.
      preturn \<lparr>au_decision = d, au_mono_decision_received = received\<rparr>) s = (r, t)"
    obtain x u where x: "authz_record (g_audit G) ?ev s = (x, u)" by fastforce
    have "effect req (\<lambda>_ new. new = [authz_to_dict ?ev]) (authz_record (g_audit G) ?ev)"
      by (rule log_record_effect) simp
    from effectD [OF this l x] b x success_row_event [OF assms, of received now]
    show "linv t \<and> grew s t \<and> (\<exists>new. entries t = entries s @ new \<and> outcome_rows req (success_row req dig) r new)"
      by (cases x) (auto simp: pbind_def preturn_def)
  qed
  then show ?thesis
    by (auto simp: record_outcome_def intro!: effect_ptry deny_effect outside_frames)
qed

lemma cloud_decision_effect:
  "effect req (success_row req dig) (cloud_decision isoparse E G req now g h (expected_binding_of req g h dig))"
proof -
  have sig: "effect req quiet (plift (verify_decision_sig E (g_decision_public_key G) d))" for d
    using canonicalize_errors
    by (intro effect_plift)
      (auto simp: verify_decision_sig_def decision_signing_input_def raises_only_def rmap_Inl_iff canonical_error_def)
  have "effect req (success_row req dig)
      (verify_decision isoparse E G req now g h (expected_binding_of req g h dig) sent d)" for sent d
    unfolding verify_decision_def
    by (auto intro!: effect_pbind clocks_effect sig deny_effect record_outcome_effect check_binding_matches
        split: option.splits)
  then show ?thesis
    unfolding cloud_decision_def by (intro effect_pbind effect_ptry clocks_effect outside_frames deny_effect)
qed

text \<open>Every call leaves at most one row: the denial row when the caller is told \<open>denied\<close>, the success row
  when it is let through, and none when any other exception leaves the gate.\<close>

lemma authorize_effect: "effect req (success_row req dig) (authorize isoparse H E G req dig)"
proof -
  have n: "verify_grant isoparse E G req \<noteq> Inl (Authz AuthorizationDenied)"
    using raises_onlyD [OF verify_grant_raises, of isoparse E G req "Authz AuthorizationDenied"]
    by (auto simp: denial_or_canonical_def)
  have "effect req (success_row req dig) (case verify_grant isoparse E G req of
       Inl e \<Rightarrow> (case e of
           Authz (DenialSignal reason detail) \<Rightarrow> deny isoparse G req now reason detail None
         | _ \<Rightarrow> praise e)
     | Inr g \<Rightarrow>
         pbind (local_decisions E G req now h g) (\<lambda>denial. case denial of
           Some (reason, detail) \<Rightarrow> deny isoparse G req now reason detail (Some g)
         | None \<Rightarrow>
             pbind (consume_request isoparse G req now g dig) (\<lambda>_.
             cloud_decision isoparse E G req now g h (expected_binding_of req g h dig))))" for now h
    using n by (auto intro!: effect_pbind effect_praise deny_effect local_decisions_effect consume_request_effect
        cloud_decision_effect split: sum.splits exn.splits authz_exn.splits option.splits)
  then show ?thesis
    unfolding authorize_def by (intro effect_pbind clocks_effect sync_and_accept_effect)
qed

subsection \<open>What an authorization establishes\<close>

lemma parse_head_body_version: "parse_head_body v = Inr (sv, n, pairs) \<Longrightarrow> int_of_decimal sv = Inr n"
  by (auto simp: parse_head_body_def pm_inv split: pyval.split_asm if_split_asm)

lemma subject_quiet:
  "check_subject E G req now g s = (r, t) \<Longrightarrow> gate_same req_used dec_used level entries linv s t"
  using peer_frame [of req s]
  by (cases "sj_kind (gr_subject g)")
    (auto simp: check_subject_def pbind_def preturn_def plift_def gate_same_def split: prod.splits sum.splits)

lemma sync_and_accept_level:
  assumes "sync_and_accept isoparse H E G req now s = (Inr h, t)"
  shows "\<exists>env u. g_sync G s = (Inr env, u) \<and> head_authentic H E (g_user_root_public_key G) env h \<and>
    level s \<le> vh_state_version_int h \<and> level t = vh_state_version_int h \<and>
    req_used t = req_used s \<and> dec_used t = dec_used s"
proof -
  from sync_and_accept_Inr [OF assms] obtain env u hw v where
    u: "g_sync G s = (Inr env, u)" "head_authentic H E (g_user_root_public_key G) env h"
    and v: "g_hw_get G u = (Inr hw, v)" "hw \<le> vh_state_version_int h"
      "g_hw_raise_to G (vh_state_version_int h) v = (Inr (), t)" by blast
  from sync_frame [OF u(1)] mark.get_level [OF v(1)] get_frame [OF v(1)] mark.raise_level [OF v(3)]
    raise_frame [OF v(3)] v(2) u
  show ?thesis by (auto simp: gate_same_def)
qed

lemma authorize_sound:
  assumes "authorize isoparse H E G req dig s = (Inr a, t)"
  shows "\<exists>now env h g wall sent verified.
    head_authentic H E (g_user_root_public_key G) env h \<and> grant_authentic isoparse E G req g \<and>
    decision_accepted E G (expected_binding_of req g h dig) now wall sent verified (au_decision a) \<and>
    level s \<le> vh_state_version_int h \<and> level t = vh_state_version_int h \<and>
    request_key g req \<notin> req_used s \<and> request_key g req \<in> req_used t \<and>
    dc_decision_id (au_decision a) \<notin> dec_used s \<and> dc_decision_id (au_decision a) \<in> dec_used t"
proof -
  from authorize_trace [OF assms] obtain now s1 env u mark v h s2 g s3 s4 sent x1 x2 received x3 wall x4 verified x5 x6 where
    r: "g_now G s = (Inr now, s1)" "g_sync G s1 = (Inr env, u)" "head_authentic H E (g_user_root_public_key G) env h"
      "g_hw_get G u = (Inr mark, v)" "mark \<le> vh_state_version_int h" "g_hw_raise_to G (vh_state_version_int h) v = (Inr (), s2)"
    and g: "verify_grant isoparse E G req = Inr g" "check_subject E G req now g s2 = (Inr None, s3)"
    and c: "g_request_consume G (request_key g req) dig s3 = (Inr True, s4)"
    and d: "g_clock G s4 = (Inr sent, x1)" "g_decide G req now x1 = (Inr (au_decision a), x2)" "g_clock G x2 = (Inr received, x3)"
      "g_now G x3 = (Inr wall, x4)" "g_clock G x4 = (Inr verified, x5)"
      "decision_accepted E G (expected_binding_of req g h dig) now wall sent verified (au_decision a)"
    and w: "g_decision_consume G (dc_decision_id (au_decision a)) dig x5 = (Inr True, x6)"
      "log_append (g_audit G) (authz_to_dict (success_event req now g h (expected_binding_of req g h dig)
         (dc_decision_id (au_decision a)))) x6 = (Inr (), t)"
    unfolding authz_record_def by (elim exE conjE) (rule that)
  from now_frame [OF r(1)] sync_frame [OF r(2)] mark.get_level [OF r(4)] get_frame [OF r(4)] mark.raise_level [OF r(6)]
    raise_frame [OF r(6)] subject_quiet [OF g(2)] r(5)
  have e: "level s \<le> vh_state_version_int h" "level s3 = vh_state_version_int h" "req_used s3 = req_used s" "dec_used s3 = dec_used s"
    by (auto simp: gate_same_def)
  have k: "request_key g req \<notin> req_used s" "request_key g req \<in> req_used s4" "dec_used s4 = dec_used s"
    "level s4 = vh_state_version_int h"
    using requests.consume_wins [OF c] request_frame [OF c] e by auto
  have q: "req_used x5 = req_used s4 \<and> dec_used x5 = dec_used s4 \<and> level x5 = level s4"
    using clock_frame [OF d(1)] decide_frame [OF d(2)] clock_frame [OF d(3)] now_frame [OF d(4)] clock_frame [OF d(5)]
    by (simp add: gate_same_def)
  have f: "req_used t = req_used s4" "level t = vh_state_version_int h" "dc_decision_id (au_decision a) \<notin> dec_used s"
    "dc_decision_id (au_decision a) \<in> dec_used t"
    using decisions.consume_wins [OF w(1)] decision_frame [OF w(1)] append_frame [OF w(2)] q k by auto
  from e(1) k f d(6) r(3) verify_grant_Inr [OF g(1)] show ?thesis by metis
qed

text \<open>Over any sequence of calls, with failures or not.\<close>

lemma authorize_grew: "linv s \<Longrightarrow> authorize isoparse H E G req dig s = (r, t) \<Longrightarrow> linv t \<and> grew s t"
  using effectD [OF authorize_effect] by blast

definition unspent_by :: "('x \<Rightarrow> 's \<Rightarrow> 's) \<Rightarrow> bool" where
  "unspent_by arrive \<longleftrightarrow> (\<forall>x s. gate_same req_used dec_used level entries linv s (arrive x s))"

lemma unspent_byD: "unspent_by arrive \<Longrightarrow> linv s \<Longrightarrow> linv (arrive x s) \<and> grew s (arrive x s) \<and> level (arrive x s) = level s"
  "unspent_by arrive \<Longrightarrow> req_used (arrive x s) = req_used s" "unspent_by arrive \<Longrightarrow> dec_used (arrive x s) = dec_used s"
  by (simp_all add: unspent_by_def gate_same_def grew_def)

text \<open>What identifies an authorization is spent by it.\<close>

lemma authorize_spends:
  assumes "authorize isoparse H E G req dig s = (Inr a, t)"
  shows "authorization_key a \<notin> req_used s \<and> authorization_key a \<in> req_used t \<and>
    dc_decision_id (au_decision a) \<notin> dec_used s \<and> dc_decision_id (au_decision a) \<in> dec_used t \<and>
    (\<exists>n. int_of_decimal (dc_state_version (au_decision a)) = Inr n \<and> level s \<le> n \<and> level t = n)"
proof -
  from authorize_sound [OF assms] obtain now env h g wall sent verified where
    p: "head_authentic H E (g_user_root_public_key G) env h"
      "decision_accepted E G (expected_binding_of req g h dig) now wall sent verified (au_decision a)"
      "level s \<le> vh_state_version_int h" "level t = vh_state_version_int h"
      "request_key g req \<notin> req_used s" "request_key g req \<in> req_used t"
      "dc_decision_id (au_decision a) \<notin> dec_used s" "dc_decision_id (au_decision a) \<in> dec_used t" by blast
  have "authorization_key a = request_key g req" "dc_state_version (au_decision a) = vh_state_version h"
    using p(2) by (simp_all add: authorization_key_def request_key_def decision_accepted_def decision_matches_def
        expected_binding_of_def)
  moreover have "int_of_decimal (vh_state_version h) = Inr (vh_state_version_int h)"
    using p(1) by (auto simp: head_authentic_def dest: parse_head_body_version)
  ultimately show ?thesis using p by auto
qed

lemma count_wins_zero:
  assumes "k \<in> used_of s"
    and step: "\<And>req dig s r t. linv s \<Longrightarrow> authorize isoparse H E G req dig s = (r, t) \<Longrightarrow> linv t \<and> used_of s \<subseteq> used_of t"
    and win: "\<And>req dig s a t. authorize isoparse H E G req dig s = (Inr a, t) \<Longrightarrow> id_of a \<notin> used_of s"
    and move: "\<And>x s. linv s \<Longrightarrow> linv (arrive x s) \<and> used_of (arrive x s) = used_of s"
  shows "linv s \<Longrightarrow> count_wins id_of k (fst (authorize_run isoparse H E G arrive calls s)) = 0"
  using assms(1)
proof (induction calls arbitrary: s)
  case (Cons c calls)
  obtain x req dig where c: "c = (x, req, dig)" by (metis prod.exhaust)
  obtain r u where u: "authorize isoparse H E G req dig (arrive x s) = (r, u)" by fastforce
  obtain rs v where v: "authorize_run isoparse H E G arrive calls u = (rs, v)" by fastforce
  note m = move [OF Cons.prems(1), of x]
  from step [OF conjunct1 [OF m] u] m Cons.prems(2) have t: "linv u" "k \<in> used_of u" by auto
  from Cons.IH [OF t] v have "count_wins id_of k rs = 0" by simp
  moreover have "id_of a \<noteq> k" if "r = Inr a" for a using win [of req dig "arrive x s" a u] u that Cons.prems(2) m by auto
  ultimately show ?case using u v c by (cases r) auto
qed simp

lemma count_wins_le_1:
  assumes step: "\<And>req dig s r t. linv s \<Longrightarrow> authorize isoparse H E G req dig s = (r, t) \<Longrightarrow> linv t \<and> used_of s \<subseteq> used_of t"
    and win: "\<And>req dig s a t. authorize isoparse H E G req dig s = (Inr a, t) \<Longrightarrow> id_of a \<notin> used_of s \<and> id_of a \<in> used_of t"
    and move: "\<And>x s. linv s \<Longrightarrow> linv (arrive x s) \<and> used_of (arrive x s) = used_of s"
  shows "linv s \<Longrightarrow> count_wins id_of k (fst (authorize_run isoparse H E G arrive calls s)) \<le> 1"
proof (induction calls arbitrary: s)
  case (Cons c calls)
  obtain x req dig where c: "c = (x, req, dig)" by (metis prod.exhaust)
  obtain r u where u: "authorize isoparse H E G req dig (arrive x s) = (r, u)" by fastforce
  obtain rs v where v: "authorize_run isoparse H E G arrive calls u = (rs, v)" by fastforce
  from step [OF conjunct1 [OF move [OF Cons.prems]] u] have t: "linv u" by auto
  show ?case
  proof (cases "\<exists>a. r = Inr a \<and> id_of a = k")
    case True
    then obtain a where a: "r = Inr a" "id_of a = k" by blast
    with win [of req dig "arrive x s" a u] u have "k \<in> used_of u" by auto
    from count_wins_zero [where k = k and used_of = used_of and s = u and id_of = id_of and calls = calls and
      isoparse = isoparse and H = H and E = E and arrive = arrive, OF this step _ move t] win v
    have "count_wins id_of k rs = 0" by auto
    with u v a c show ?thesis by simp
  next
    case False
    with Cons.IH [OF t] u v c show ?thesis by (cases r) auto
  qed
qed simp

text \<open>A request and a decision authorize at most once, and the heads behind the authorizations never go back.\<close>

lemma authorize_once:
  assumes "linv s" "unspent_by arrive"
  shows "count_wins authorization_key k (fst (authorize_run isoparse H E G arrive calls s)) \<le> 1 \<and>
    count_wins (\<lambda>a. dc_decision_id (au_decision a)) d (fst (authorize_run isoparse H E G arrive calls s)) \<le> 1"
proof
  show "count_wins authorization_key k (fst (authorize_run isoparse H E G arrive calls s)) \<le> 1"
  proof (rule count_wins_le_1 [of isoparse H E req_used, OF _ _ _ assms(1)])
    fix req dig s r t assume "linv s" "authorize isoparse H E G req dig s = (r, t)"
    then show "linv t \<and> req_used s \<subseteq> req_used t" using authorize_grew by (auto simp: grew_def)
  qed (use authorize_spends unspent_byD [OF assms(2)] in blast)+
  show "count_wins (\<lambda>a. dc_decision_id (au_decision a)) d (fst (authorize_run isoparse H E G arrive calls s)) \<le> 1"
  proof (rule count_wins_le_1 [of isoparse H E dec_used, OF _ _ _ assms(1)])
    fix req dig s r t assume "linv s" "authorize isoparse H E G req dig s = (r, t)"
    then show "linv t \<and> dec_used s \<subseteq> dec_used t" using authorize_grew by (auto simp: grew_def)
  qed (use authorize_spends unspent_byD [OF assms(2)] in blast)+
qed

lemma authorize_versions:
  assumes "unspent_by arrive"
  shows "linv s \<Longrightarrow> authorize_run isoparse H E G arrive calls s = (rs, t) \<Longrightarrow> level s \<le> level t \<and>
     sorted (versions rs) \<and> (\<forall>n \<in> set (versions rs). level s \<le> n \<and> n \<le> level t)"
proof (induction calls arbitrary: s rs t)
  case (Cons c calls)
  obtain x req dig where c: "c = (x, req, dig)" by (metis prod.exhaust)
  obtain r u where u: "authorize isoparse H E G req dig (arrive x s) = (r, u)" by fastforce
  obtain rs' v where v: "authorize_run isoparse H E G arrive calls u = (rs', v)" by fastforce
  from Cons.prems(2) u v c have e: "rs = r # rs'" "t = v" by simp_all
  note m = unspent_byD(1) [OF assms Cons.prems(1), of x]
  from authorize_grew [OF conjunct1 [OF m] u] m have g: "linv u" "level s \<le> level u" by (auto simp: grew_def)
  note ih = Cons.IH [OF g(1) v]
  show ?case
  proof (cases r)
    case (Inl x)
    with ih g e show ?thesis by force
  next
    case (Inr a)
    with authorize_spends [of isoparse H E req dig "arrive x s" a u] u m obtain n where
      "int_of_decimal (dc_state_version (au_decision a)) = Inr n" "level s \<le> n" "level u = n" by auto
    with ih g e Inr show ?thesis by auto
  qed
qed simp

end

end
