(* ===== verification/Relay_Sync.thy ===== *)
theory Relay_Sync
  imports Gate_Contract
begin

text \<open>
  What a verifier reads off the artifacts of the control plane: the head and the revocations that \<open>HeadState\<close> of
  \<open>authz/state.py\<close> signs, shipped by \<open>StubSyncSource\<close>, as the gate's \<open>_sync_and_accept\<close> parses and verifies them, and
  the refinement of an abstract authority by all three.
\<close>

subsection \<open>Signed artifacts verify\<close>

text \<open>What the theorems below need of Ed25519: a signature is bytes, and verifies under the public key of the
  key that made it.\<close>

definition ed_correct :: "ed25519 \<Rightarrow> bool" where
  "ed_correct E \<longleftrightarrow> signs_bytes E \<and> (\<forall>k m. ed_verify E (ed_public E k) (ed_sign E k m) m)"

lemma signed_artifact_verifies:
  assumes "signed_artifact E priv ty body = Inr env" "ed_correct E" "ty \<noteq> []"
  shows "\<exists>sig. parse_envelope (PDict env) = Inr (ty, body, sig) \<and>
    verify_artifact E (ed_public E priv) ty body sig = Inr True"
  using parse_signed_artifact [OF assms(1) _ assms(3)] assms(2)
  by (auto simp: ed_correct_def verify_artifact_Inr)

lemma lower_hex_encodable: "lower_hex c \<Longrightarrow> \<not> surrogate c"
  by (auto simp: lower_hex_def is_digit_def surrogate_def)

lemma match_encodable:
  assumes "match_to_dollar f s" "\<And>s. f s \<Longrightarrow> encodable s"
  shows "encodable s"
proof (cases "f s")
  case False
  with assms(1) have "s = butlast s @ [10]" "f (butlast s)"
    by (auto simp: match_to_dollar_def) (metis append_butlast_last_id)
  moreover have "encodable (butlast s @ [10])"
    using assms(2) [OF calculation(2)] by (simp add: surrogate_def)
  ultimately show ?thesis by simp
qed (use assms in blast)

lemma grant_id_encodable: "grant_id_hex s \<Longrightarrow> encodable s"
  unfolding grant_id_hex_def
  by (erule match_encodable) (auto simp: grant_id_text_def encodable_def list_all_iff dest: lower_hex_encodable)

lemma decimal_encodable: "canonical_decimal s \<Longrightarrow> encodable s"
  unfolding canonical_decimal_def
  by (erule match_encodable) (auto simp: decimal_text_def encodable_def list_all_iff is_digit_def surrogate_def)

lemma head_body_ok: "hs_wf h \<Longrightarrow> jcs_ok (PDict (hs_head_body h))"
  by (auto simp: hs_head_body_def head_body_def head_entry_def hs_wf_def hs_state_version_def encodable_dec_int
      intro: grant_id_encodable decimal_encodable)

lemma signed_artifact_ok: "encodable ty \<Longrightarrow> jcs_ok (PDict body) \<Longrightarrow> \<exists>env. signed_artifact E priv ty body = Inr env"
  using canonicalize_ok_iff [of "PDict body"]
  by (auto simp: signed_artifact_def signing_input_def domain_tag_def encode_utf8_def encodable_def)

lemma signed_revocations_verify:
  assumes "hs_wf h" "ed_correct E"
  shows "\<exists>rs. hs_signed_revocations E h = Inr rs \<and>
    verify_revocations E (ed_public E (hs_user_priv h)) rs = Inr (dkeys (hs_revocations h))"
proof -
  let ?f = "\<lambda>gv. rmap PDict (hs_signed_revocation E h (fst gv) (snd gv))"
  have one: "\<exists>r. ?f gv = Inr r \<and> verify_revocation E (ed_public E (hs_user_priv h)) r = Inr (fst gv)"
    if "gv \<in> set (sort (hs_revocations h))" for gv
  proof -
    let ?b = "revocation_body (fst gv) (dec_int (snd gv))"
    from that assms(1) have g: "grant_id_hex (fst gv)" "canonical_decimal (dec_int (snd gv))"
      by (auto simp: hs_wf_def canonical_dec_int)
    then have "jcs_ok (PDict ?b)"
      by (auto simp: revocation_body_def intro: grant_id_encodable decimal_encodable)
    then obtain env where env: "signed_artifact E (hs_user_priv h) revocation_artifact_type ?b = Inr env"
      using signed_artifact_ok [of revocation_artifact_type ?b] by (auto simp only: revocation_artifact_type_def lit_encodable)
    have "revocation_artifact_type \<noteq> []" by (simp add: revocation_artifact_type_def)
    from signed_artifact_verifies [OF env assms(2) this] g show ?thesis
      by (auto simp: hs_signed_revocation_def env verify_revocation_def rguard_def parse_revocation_body_body)
  qed
  then obtain f where f: "\<And>gv. gv \<in> set (sort (hs_revocations h)) \<Longrightarrow>
      ?f gv = Inr (f gv) \<and> verify_revocation E (ed_public E (hs_user_priv h)) (f gv) = Inr (fst gv)"
    by metis
  have "hs_signed_revocations E h = Inr (map f (sort (hs_revocations h)))"
    unfolding hs_signed_revocations_def by (rule traverse_InrI) (use f in blast)
  moreover have "traverse (verify_revocation E (ed_public E (hs_user_priv h))) (map f (sort (hs_revocations h))) =
      Inr (map fst (sort (hs_revocations h)))"
    unfolding traverse_map by (rule traverse_InrI) (use f in blast)
  ultimately show ?thesis by (auto simp: verify_revocations_def dkeys_def)
qed

text \<open>A reachable relay that withholds no head: the gate reads the current head, and the revocations when they are shipped.\<close>

lemma sync_verifies:
  assumes w: "hs_wf h" and "ed_correct E" and "sy_reachable y" "sy_withheld y = None"
    and "length (hs_state_version h) \<le> int_max_str_digits"
  shows "\<exists>env. sy_sync E h y = Inr env \<and>
    verify_sync E (ed_public E (hs_user_priv h)) (PDict env) =
      Inr (hs_head_body h, hs_state_version h, hs_version_int h, set (hs_active h),
        (if sy_include_revocations y then dkeys (hs_revocations h) else {}))"
proof -
  obtain he where he: "hs_signed_head E h = Inr he"
    using signed_artifact_ok [of head_artifact_type, OF _ head_body_ok [OF w]]
    by (auto simp: hs_signed_head_def head_artifact_type_def)
  obtain sig where sig: "parse_envelope (PDict he) = Inr (head_artifact_type, hs_head_body h, sig)"
    "verify_artifact E (ed_public E (hs_user_priv h)) head_artifact_type (hs_head_body h) sig = Inr True"
    using signed_artifact_verifies [OF he [unfolded hs_signed_head_def] assms(2)] by (auto simp: head_artifact_type_def)
  obtain rs where rs: "hs_signed_revocations E h = Inr rs"
    "verify_revocations E (ed_public E (hs_user_priv h)) rs = Inr (dkeys (hs_revocations h))"
    using signed_revocations_verify [OF w assms(2)] by blast
  let ?rs = "if sy_include_revocations y then rs else []"
  have "sy_sync E h y = Inr (sync_envelope (PDict he) ?rs)"
    using assms(3,4) he rs by (simp add: sy_sync_def)
  moreover have "verify_revocations E (ed_public E (hs_user_priv h)) ?rs =
      Inr (if sy_include_revocations y then dkeys (hs_revocations h) else {})"
    using rs by (simp add: verify_revocations_def)
  moreover have "parse_head_body (PDict (hs_head_body h)) = Inr (hs_state_version h, hs_version_int h, set (hs_active h))"
    using w assms(5) by (intro parse_hs_head) simp_all
  ultimately show ?thesis using sig by (simp add: verify_sync_def parse_sync_sync rguard_def)
qed

subsection \<open>A concrete scheme\<close>

text \<open>A signature scheme in the place of Ed25519.\<close>

definition toy_ed :: ed25519 where
  "toy_ed = \<lparr>ed_verify = \<lambda>k sig m. sig = map (\<lambda>x. x mod 256) (k @ m), ed_load = Some, ed_public = \<lambda>k. k,
     ed_sign = \<lambda>k m. map (\<lambda>x. x mod 256) (k @ m)\<rparr>"

lemma toy_correct: "ed_correct toy_ed"
  by (auto simp: ed_correct_def toy_ed_def signs_bytes_def)


subsection \<open>Properties\<close>

text \<open>The head the gate derives from what \<open>verify_sync\<close> returns.\<close>

fun derived_head :: "pystr \<Rightarrow> dict \<times> pystr \<times> int \<times> (pystr \<times> pystr) set \<times> pystr set \<Rightarrow> verified_head" where
  "derived_head dig (body, sv, n, pairs, seen) = \<lparr>vh_state_version = sv, vh_state_version_int = n,
     vh_active_grants = pairs, vh_digest = dig, vh_seen_revocations = seen\<rparr>"



end
