(* ===== verification/World.thy ===== *)
theory World
  imports Ledger
begin

text \<open>
  The state of the running gateway: the three SQLite stores that \<open>build_server\<close> of
  \<open>gateway/entrypoint.py\<close> opens under the data root, whatever else the injected objects read or
  write (\<open>w_env\<close>), and a history variable, the proposal ids for which the sender was called.
  A backend acts on its own component; the lifting below places it in the whole state, and the
  contracts come along.
\<close>

record 'e world =
  w_proposals :: "kv_rows sqlite"
  w_payloads :: "kv_rows sqlite"
  w_audit :: "dict list sqlite"
  w_sent :: "pystr list"
  w_env :: 'e

definition lift_pm :: "('w \<Rightarrow> 's) \<Rightarrow> ('s \<Rightarrow> 'w \<Rightarrow> 'w) \<Rightarrow> ('s, 'a) pm \<Rightarrow> ('w, 'a) pm" where
  "lift_pm get put m w = (case m (get w) of (r, t) \<Rightarrow> (r, put t w))"

definition lift_kv :: "('w \<Rightarrow> 's) \<Rightarrow> ('s \<Rightarrow> 'w \<Rightarrow> 'w) \<Rightarrow> 's kv \<Rightarrow> 'w kv" where
  "lift_kv get put B = \<lparr>kv_get = \<lambda>k. lift_pm get put (kv_get B k),
     kv_put = \<lambda>k v. lift_pm get put (kv_put B k v),
     kv_claim = \<lambda>k v. lift_pm get put (kv_claim B k v),
     kv_delete = \<lambda>k. lift_pm get put (kv_delete B k), kv_values = lift_pm get put (kv_values B)\<rparr>"

definition lift_log :: "('w \<Rightarrow> 's) \<Rightarrow> ('s \<Rightarrow> 'w \<Rightarrow> 'w) \<Rightarrow> 's append_log \<Rightarrow> 'w append_log" where
  "lift_log get put L = \<lparr>log_append = \<lambda>e. lift_pm get put (log_append L e),
     log_entries = lift_pm get put (log_entries L)\<rparr>"

lemma lift_kv_simps [simp]:
  "kv_get (lift_kv get put B) k = lift_pm get put (kv_get B k)"
  "kv_put (lift_kv get put B) k v = lift_pm get put (kv_put B k v)"
  "kv_claim (lift_kv get put B) k v = lift_pm get put (kv_claim B k v)"
  "kv_delete (lift_kv get put B) k = lift_pm get put (kv_delete B k)"
  by (simp_all add: lift_kv_def)

lemma lift_log_simps [simp]:
  "log_append (lift_log get put L) e = lift_pm get put (log_append L e)"
  "log_entries (lift_log get put L) = lift_pm get put (log_entries L)"
  by (simp_all add: lift_log_def)

lemma lift_pm_iff:
  "lift_pm get put m w = (r, u) \<longleftrightarrow> (\<exists>t. m (get w) = (r, t) \<and> u = put t w)"
  by (auto simp: lift_pm_def split: prod.splits)

lemma kv_atomic_lift:
  assumes B: "kv_atomic B rows good" and gp: "\<And>t w. get (put t w) = t"
  shows "kv_atomic (lift_kv get put B) (\<lambda>w. rows (get w)) (\<lambda>w. good (get w))"
proof (rule kv_atomic.intro, goal_cases)
  case (1 s k r t)
  then obtain u where u: "kv_get B k (get s) = (r, u)" "t = put u s" by (auto simp: lift_pm_iff)
  from kv_atomic.get_atomic [OF B 1(1) u(1)] show ?case by (simp add: u(2) gp)
next
  case (2 s k v r t)
  then obtain u where u: "kv_put B k v (get s) = (r, u)" "t = put u s" by (auto simp: lift_pm_iff)
  from kv_atomic.put_atomic [OF B 2(1) u(1)] show ?case by (simp add: u(2) gp)
next
  case (3 s k v c t)
  then obtain u where u: "kv_claim B k v (get s) = (c, u)" "t = put u s" by (auto simp: lift_pm_iff)
  from kv_atomic.claim_atomic [OF B 3(1) u(1)] show ?case by (simp add: u(2) gp)
next
  case (4 s k r t)
  then obtain u where u: "kv_delete B k (get s) = (r, u)" "t = put u s" by (auto simp: lift_pm_iff)
  from kv_atomic.delete_atomic [OF B 4(1) u(1)] show ?case by (simp add: u(2) gp)
qed

lemma kv_live_lift:
  assumes B: "kv_live B rows good live" and gp: "\<And>t w. get (put t w) = t" and pg: "\<And>w. put (get w) w = w"
  shows "kv_live (lift_kv get put B) (\<lambda>w. rows (get w)) (\<lambda>w. good (get w)) (\<lambda>w. live (get w))"
proof (rule kv_live.intro)
  show "kv_atomic (lift_kv get put B) (\<lambda>w. rows (get w)) (\<lambda>w. good (get w))"
    using kv_live.axioms(1) [OF B] gp by (rule kv_atomic_lift)
  show "kv_live_axioms (lift_kv get put B) (\<lambda>w. rows (get w)) (\<lambda>w. good (get w)) (\<lambda>w. live (get w))"
  proof (rule kv_live_axioms.intro, goal_cases)
    case (1 s)
    then show ?case by (rule kv_live.live_inv [OF B])
  next
    case (2 s k)
    from kv_live.get_live [OF B 2] show ?case by (simp add: lift_pm_def pg)
  next
    case (3 s k v)
    from kv_live.put_live [OF B 3, of k v] obtain u where "kv_put B k v (get s) = (Inr (), u)" "live u" by blast
    then show ?case by (simp add: lift_pm_def gp)
  next
    case (4 s k v)
    from kv_live.claim_live [OF B 4, of k v] obtain x u where "kv_claim B k v (get s) = (Inr x, u)" "live u" by blast
    then show ?case by (simp add: lift_pm_def gp)
  next
    case (5 s k)
    from kv_live.delete_live [OF B 5, of k] obtain u where "kv_delete B k (get s) = (Inr (), u)" "live u" by blast
    then show ?case by (simp add: lift_pm_def gp)
  qed
qed

lemma log_atomic_lift:
  assumes L: "log_atomic L entries good" and gp: "\<And>t w. get (put t w) = t"
  shows "log_atomic (lift_log get put L) (\<lambda>w. entries (get w)) (\<lambda>w. good (get w))"
proof (rule log_atomic.intro, goal_cases)
  case (1 s e r t)
  then obtain u where u: "log_append L e (get s) = (r, u)" "t = put u s" by (auto simp: lift_pm_iff)
  from log_atomic.append_atomic [OF L 1(1) u(1)] show ?case by (simp add: u(2) gp)
next
  case (2 s q t)
  then obtain u where u: "log_entries L (get s) = (q, u)" "t = put u s" by (auto simp: lift_pm_iff)
  from log_atomic.entries_atomic [OF L 2(1) u(1)] show ?case by (simp add: u(2) gp)
qed

text \<open>Lifting commutes with the operators, so a method written over one store lifts as a whole.\<close>

lemma lift_pbind:
  assumes "\<And>t w. get (put t w) = t" "\<And>t u w. put t (put u w) = put t w"
  shows "pbind (lift_pm get put m) (\<lambda>a. lift_pm get put (f a)) = lift_pm get put (pbind m f)"
  by (rule ext) (simp add: lift_pm_def pbind_def assms split: prod.splits sum.splits)

lemma lift_pure:
  assumes "\<And>w. put (get w) w = w"
  shows "lift_pm get put (preturn a) = preturn a" "lift_pm get put (praise e) = praise e"
    "lift_pm get put (plift r) = plift r"
  by (rule ext, simp add: lift_pm_def preturn_def praise_def plift_def assms)+

text \<open>The stores of the gateway.\<close>

definition put_proposals :: "kv_rows sqlite \<Rightarrow> 'e world \<Rightarrow> 'e world" where
  "put_proposals s w = w\<lparr>w_proposals := s\<rparr>"

definition put_payloads :: "kv_rows sqlite \<Rightarrow> 'e world \<Rightarrow> 'e world" where
  "put_payloads s w = w\<lparr>w_payloads := s\<rparr>"

definition put_audit :: "dict list sqlite \<Rightarrow> 'e world \<Rightarrow> 'e world" where
  "put_audit s w = w\<lparr>w_audit := s\<rparr>"

definition proposals_db :: "'e world kv" where
  "proposals_db = lift_kv w_proposals put_proposals sqlite_kv"

definition payloads_db :: "'e world kv" where
  "payloads_db = lift_kv w_payloads put_payloads sqlite_kv"

definition audit_db :: "'e world append_log" where
  "audit_db = lift_log w_audit put_audit sqlite_log"

text \<open>The rows of the stores, and no open transaction.\<close>

definition proposal_rows :: "'e world \<Rightarrow> pystr \<Rightarrow> dict option" where
  "proposal_rows w = map_of (sq_committed (w_proposals w))"

definition payload_rows :: "'e world \<Rightarrow> pystr \<Rightarrow> dict option" where
  "payload_rows w = map_of (sq_committed (w_payloads w))"

definition audit_rows :: "'e world \<Rightarrow> dict list" where
  "audit_rows w = sq_committed (w_audit w)"

definition world_ok :: "'e world \<Rightarrow> bool" where
  "world_ok w \<longleftrightarrow> clean (w_proposals w) \<and> clean (w_payloads w) \<and> clean (w_audit w)"

text \<open>No storage failure ahead.\<close>

definition world_healthy :: "'e world \<Rightarrow> bool" where
  "world_healthy w \<longleftrightarrow> healthy (w_proposals w) \<and> healthy (w_payloads w) \<and> healthy (w_audit w)"

definition lift_proposals :: "(kv_rows sqlite, 'a) pm \<Rightarrow> ('e world, 'a) pm" where
  "lift_proposals = lift_pm w_proposals put_proposals"

lemmas lift_proposals_pbind = lift_pbind [of w_proposals put_proposals, folded lift_proposals_def]
lemmas lift_proposals_pure = lift_pure [of put_proposals w_proposals, folded lift_proposals_def]

lemma put_proposals_laws:
  "w_proposals (put_proposals t w) = t" "put_proposals t (put_proposals u w) = put_proposals t w"
  "put_proposals (w_proposals w) w = w"
  by (simp_all add: put_proposals_def)

lemma proposals_db_simps:
  "kv_get proposals_db k = lift_proposals (sqlite_get k)"
  "kv_put proposals_db k v = lift_proposals (sqlite_put k v)"
  "kv_claim proposals_db k v = lift_proposals (sqlite_claim k v)"
  "kv_delete proposals_db k = lift_proposals (sqlite_delete k)"
  by (simp_all add: proposals_db_def lift_proposals_def sqlite_kv_simps)

text \<open>Every operation of the proposal store on the world is the one on its database.\<close>

lemma lift_case_option: "(case x of None \<Rightarrow> lift_proposals m | Some a \<Rightarrow> lift_proposals (f a)) =
    lift_proposals (case x of None \<Rightarrow> m | Some a \<Rightarrow> f a)"
  by (cases x) simp_all

lemma lift_case_option_fun: "case_option (lift_proposals m) (\<lambda>a. lift_proposals (f a)) =
    (\<lambda>x. lift_proposals (case_option m f x))"
  by (rule ext) (simp add: lift_case_option)

lemma lift_if: "(if b then lift_proposals m else lift_proposals n) = lift_proposals (if b then m else n)"
  by simp

lemmas lift_store = proposals_db_simps sqlite_kv_simps lift_proposals_pbind lift_proposals_pure [symmetric]
  put_proposals_laws lift_case_option lift_case_option_fun lift_if

lemma ps_get_world: "ps_get proposals_db pid = lift_proposals (ps_get sqlite_kv pid)"
  unfolding ps_get_def by (simp only: lift_store)

lemma ps_create_world: "ps_create proposals_db p = lift_proposals (ps_create sqlite_kv p)"
  unfolding ps_create_def ps_claim_def by (simp only: lift_store)

lemma ps_set_status_world: "ps_set_status proposals_db pid st = lift_proposals (ps_set_status sqlite_kv pid st)"
  unfolding ps_set_status_def ps_get_world by (simp only: lift_store)

lemma ps_find_world: "ps_find_by_idempotency proposals_db k = lift_proposals (ps_find_by_idempotency sqlite_kv k)"
  unfolding ps_find_by_idempotency_def ps_get_world by (simp only: lift_store)

lemma lift_proposals_iff:
  "lift_proposals m w = (r, u) \<longleftrightarrow> (\<exists>t. m (w_proposals w) = (r, t) \<and> u = w\<lparr>w_proposals := t\<rparr>)"
  by (simp add: lift_proposals_def lift_pm_iff put_proposals_def)

end
