(* ===== verification/Gate_Stub.thy ===== *)
theory Gate_Stub
  imports Relay_Sync World
begin

text \<open>
  The vertical slice of \<open>authz/\<close>: the gate wired to the relay \<open>StubSyncSource\<close> and the service
  \<open>StubDecisionService\<close> over one control plane, with \<open>LockedConsumer\<close>, \<open>HighWaterMark\<close>, the default peer
  resolver and a SQLite-backed audit log whose storage may fail.  Clock readings and fresh identifiers are the
  sequences the environment will return.  The contract of the gate is interpreted on it, and its properties
  are stated of it.
\<close>

record authz_env =
  en_head :: head_state
  en_sync :: stub_sync
  en_decisions :: stub_decisions
  en_ids :: "pystr list"
  en_wall :: "int list"
  en_mono :: "int list"
  en_requests :: "(pystr \<times> pystr) list"
  en_decided :: "(pystr \<times> pystr) list"
  en_mark :: int
  en_audit :: "dict list sqlite"
  en_records :: "dict list sqlite"

text \<open>A clock goes on returning its last reading.\<close>

fun next_reading :: "int list \<Rightarrow> int \<times> int list" where
  "next_reading [] = (0, [])"
| "next_reading [x] = (x, [x])"
| "next_reading (x # y # r) = (x, y # r)"

text \<open>The k-th reading of a clock, from 0.\<close>

primrec reading :: "nat \<Rightarrow> int list \<Rightarrow> int" where
  "reading 0 xs = fst (next_reading xs)"
| "reading (Suc k) xs = reading k (snd (next_reading xs))"

fun next_id :: "pystr list \<Rightarrow> pystr \<times> pystr list" where
  "next_id [] = ([], [])"
| "next_id (x # r) = (x, r)"

record gate_config =
  cf_decision_key :: bytes
  cf_root_key :: bytes
  cf_issuer_fp :: pystr
  cf_account :: pystr
  cf_challenge :: pystr

definition env_now :: "(authz_env, int) pm" where
  "env_now s = (Inr (fst (next_reading (en_wall s))), s\<lparr>en_wall := snd (next_reading (en_wall s))\<rparr>)"

definition env_clock :: "(authz_env, int) pm" where
  "env_clock s = (Inr (fst (next_reading (en_mono s))), s\<lparr>en_mono := snd (next_reading (en_mono s))\<rparr>)"

definition put_requests :: "(pystr \<times> pystr) list \<Rightarrow> authz_env \<Rightarrow> authz_env" where
  "put_requests r s = s\<lparr>en_requests := r\<rparr>"

definition put_decided :: "(pystr \<times> pystr) list \<Rightarrow> authz_env \<Rightarrow> authz_env" where
  "put_decided r s = s\<lparr>en_decided := r\<rparr>"

definition put_mark :: "int \<Rightarrow> authz_env \<Rightarrow> authz_env" where
  "put_mark v s = s\<lparr>en_mark := v\<rparr>"

definition put_authz_audit :: "dict list sqlite \<Rightarrow> authz_env \<Rightarrow> authz_env" where
  "put_authz_audit a s = s\<lparr>en_audit := a\<rparr>"

definition put_records :: "dict list sqlite \<Rightarrow> authz_env \<Rightarrow> authz_env" where
  "put_records a s = s\<lparr>en_records := a\<rparr>"

definition stub_gate ::
  "iso_parser \<Rightarrow> (bytes \<Rightarrow> pystr) \<Rightarrow> ed25519 \<Rightarrow> gate_config \<Rightarrow> authz_env gate" where
  "stub_gate isoparse H E C = \<lparr>
     g_decide = \<lambda>req now s. (sd_decide isoparse H E (en_decisions s) (en_head s) (fst (next_id (en_ids s))) req now,
       s\<lparr>en_ids := snd (next_id (en_ids s))\<rparr>),
     g_decision_public_key = cf_decision_key C,
     g_sync = \<lambda>s. (rmap PDict (sy_sync E (en_head s) (en_sync s)), s),
     g_audit = lift_log en_audit put_authz_audit sqlite_log,
     g_user_root_public_key = cf_root_key C, g_pinned_issuer_fp = cf_issuer_fp C,
     g_gateway_account = cf_account C, g_now = env_now, g_clock = env_clock,
     g_channel_challenge = cf_challenge C, g_peer_resolver = \<lambda>req. preturn (default_peer_resolver req),
     g_request_consume = \<lambda>k d. lift_pm en_requests put_requests (locked_consume_once k d),
     g_decision_consume = \<lambda>k d. lift_pm en_decided put_decided (locked_consume_once k d),
     g_hw_get = lift_pm en_mark put_mark hw_get,
     g_hw_raise_to = \<lambda>v. lift_pm en_mark put_mark (hw_raise_to v)\<rparr>"

lemmas env_puts = put_requests_def put_decided_def put_mark_def put_authz_audit_def put_records_def

lemma stub_gate_sel [simp]:
  "g_decision_public_key (stub_gate isoparse H E C) = cf_decision_key C"
  "g_user_root_public_key (stub_gate isoparse H E C) = cf_root_key C"
  "g_pinned_issuer_fp (stub_gate isoparse H E C) = cf_issuer_fp C"
  "g_gateway_account (stub_gate isoparse H E C) = cf_account C"
  "g_channel_challenge (stub_gate isoparse H E C) = cf_challenge C"
  "g_now (stub_gate isoparse H E C) = env_now" "g_clock (stub_gate isoparse H E C) = env_clock"
  "g_peer_resolver (stub_gate isoparse H E C) req = preturn (default_peer_resolver req)"
  "g_audit (stub_gate isoparse H E C) = lift_log en_audit put_authz_audit sqlite_log"
  "g_sync (stub_gate isoparse H E C) s = (rmap PDict (sy_sync E (en_head s) (en_sync s)), s)"
  "g_request_consume (stub_gate isoparse H E C) = (\<lambda>k d. lift_pm en_requests put_requests (locked_consume_once k d))"
  "g_decision_consume (stub_gate isoparse H E C) = (\<lambda>k d. lift_pm en_decided put_decided (locked_consume_once k d))"
  "g_hw_get (stub_gate isoparse H E C) = lift_pm en_mark put_mark hw_get"
  "g_hw_raise_to (stub_gate isoparse H E C) = (\<lambda>v. lift_pm en_mark put_mark (hw_raise_to v))"
  "g_decide (stub_gate isoparse H E C) req now s =
     (sd_decide isoparse H E (en_decisions s) (en_head s) (fst (next_id (en_ids s))) req now,
      s\<lparr>en_ids := snd (next_id (en_ids s))\<rparr>)"
  by (simp_all add: stub_gate_def)

lemma single_use_lift:
  assumes "single_use c used" "\<And>t w. get (put t w) = t"
  shows "single_use (\<lambda>k d. lift_pm get put (c k d)) (\<lambda>w. used (get w))"
proof (rule single_use.intro)
  fix k d s t
  assume "lift_pm get put (c k d) s = (Inr True, t)"
  then show "k \<notin> used (get s) \<and> k \<in> used (get t)"
    using single_use.consume_wins [OF assms(1)] assms(2) by (auto simp: lift_pm_iff)
next
  fix k d s r t
  assume "lift_pm get put (c k d) s = (r, t)"
  then show "used (get s) \<subseteq> used (get t)"
    using single_use.consume_grows [OF assms(1), of k d "get s"] assms(2) by (auto simp: lift_pm_iff)
qed

lemma high_water_lift:
  assumes "high_water g r lv" "\<And>t w. get (put t w) = t"
  shows "high_water (lift_pm get put g) (\<lambda>v. lift_pm get put (r v)) (\<lambda>w. lv (get w))"
proof (rule high_water.intro)
  fix s x t
  assume "lift_pm get put g s = (x, t)"
  then show "lv (get t) = lv (get s) \<and> (\<forall>v. x = Inr v \<longrightarrow> v = lv (get s))"
    using high_water.get_level [OF assms(1)] assms(2) by (auto simp: lift_pm_iff)
next
  fix v s u t
  assume "lift_pm get put (r v) s = (u, t)"
  then show "lv (get s) \<le> lv (get t) \<and> lv (get t) \<le> max v (lv (get s)) \<and> (u = Inr () \<longrightarrow> lv (get t) = max v (lv (get s)))"
    using high_water.raise_level [OF assms(1)] assms(2) by (auto simp: lift_pm_iff)
qed

lemma sqlite_append_error: "fst (sqlite_append e s) \<noteq> Inl (Authz x)"
  by (auto simp: sqlite_append_def write_commit_def sq_defs pm_simps split: list.splits)

lemma signed_artifact_raises: "raises_only canonical_error (signed_artifact E priv ty body)"
  unfolding signed_artifact_def by (intro raises_only_rmap signing_input_raises)

lemma sy_sync_raises: "raises_only (\<lambda>e. e = Authz AuthorizationUnavailable \<or> canonical_error e) (sy_sync E h y)"
proof -
  have c: "raises_only (\<lambda>e. e = Authz AuthorizationUnavailable \<or> canonical_error e) m" if "raises_only canonical_error m"
    for m :: "'z res"
    using that by (rule raises_only_mono) simp
  show ?thesis
    unfolding sy_sync_def hs_signed_head_def hs_signed_revocations_def hs_signed_revocation_def
    by (auto intro!: raises_only_rbind raises_only_rmap raises_only_traverse raises_only_Inr raises_only_Inl
        c [OF signed_artifact_raises] split: option.splits)
qed

abbreviation spent_requests :: "authz_env \<Rightarrow> pystr set" where
  "spent_requests s \<equiv> dkeys (en_requests s)"

abbreviation spent_decisions :: "authz_env \<Rightarrow> pystr set" where
  "spent_decisions s \<equiv> dkeys (en_decided s)"

abbreviation authz_rows :: "authz_env \<Rightarrow> dict list" where
  "authz_rows s \<equiv> sq_committed (en_audit s)"

interpretation sg: gate_env "stub_gate isoparse H E C" spent_requests spent_decisions en_mark authz_rows
  "\<lambda>s. clean (en_audit s)" for isoparse H E C
proof (rule gate_env.intro, goal_cases)
  case 1
  show ?case using single_use_lift [OF locked_single_use, of en_requests put_requests]
    by (simp add: put_requests_def)
next
  case 2
  show ?case using single_use_lift [OF locked_single_use, of en_decided put_decided]
    by (simp add: put_decided_def)
next
  case 3
  show ?case using high_water_lift [OF hwm_high_water, of en_mark put_mark]
    by (simp add: put_mark_def)
next
  case 4
  show ?case using log_atomic_lift [OF sqlite_audit.log_atomic_axioms, of en_audit put_authz_audit]
    by (simp add: put_authz_audit_def)
next
  case 5
  have s: "rmap PDict (sy_sync E h y) \<noteq> Inl (Authz AuthorizationDenied)" for h y
    using raises_onlyD [OF sy_sync_raises, of E h y "Authz AuthorizationDenied"] by (auto simp: rmap_Inl_iff)
  have a: "log_append sqlite_log row q \<noteq> (Inl (Authz AuthorizationDenied), t)" for row q t
    using sqlite_append_error [of row q AuthorizationDenied] by (auto simp: sqlite_log_def)
  show ?case
    by (rule gate_env_axioms.intro)
      (use s a in \<open>auto simp: gate_same_def env_now_def env_clock_def preturn_def lift_pm_iff env_puts\<close>)
qed

subsection \<open>The honest run\<close>

text \<open>The relay is reachable and ships the current head.\<close>

definition relay_honest :: "authz_env \<Rightarrow> bool" where
  "relay_honest s \<longleftrightarrow> hs_wf (en_head s) \<and> sy_reachable (en_sync s) \<and> sy_withheld (en_sync s) = None \<and>
     length (hs_state_version (en_head s)) \<le> int_max_str_digits"

lemma honest_sync:
  assumes "relay_honest s" "ed_correct E"
  shows "\<exists>env. sy_sync E (en_head s) (en_sync s) = Inr env \<and>
    verify_sync E (ed_public E (hs_user_priv (en_head s))) (PDict env) =
      Inr (hs_head_body (en_head s), hs_state_version (en_head s), hs_version_int (en_head s), set (hs_active (en_head s)),
        (if sy_include_revocations (en_sync s) then dkeys (hs_revocations (en_head s)) else {}))"
  using assms sync_verifies [of "en_head s" E "en_sync s"] by (simp add: relay_honest_def)

lemma verify_grant_signed:
  assumes "signed_artifact E priv (lit ''grant'') (grant_body g from until) = Inr env" "ed_correct E"
    and "rq_grant_envelope req = PDict env" "grant_wf isoparse g" "from \<noteq> []" "until \<noteq> []"
    and "isoparse (zulu_offset from) = Some (True, gr_valid_from g)"
    and "isoparse (zulu_offset until) = Some (True, gr_valid_until g)"
    and "g_user_root_public_key G = ed_public E priv" "g_pinned_issuer_fp G = gr_issuer_fp g"
  shows "verify_grant isoparse E G req = Inr g"
  using signed_artifact_verifies [OF assms(1,2)] parse_grant_body_body [OF assms(4,5,7,6,8)] assms(3,9,10)
  by (auto simp: verify_grant_def rguard_def)

lemma agent_check_passes: "agent_proved E G req now g \<Longrightarrow> check_agent E G req now g = Inr None"
  by (auto simp: agent_proved_def check_agent_def verify_sig_def)

lemma subject_check_passes:
  assumes "subject_proved E (stub_gate isoparse H E C) req now (default_peer_resolver req) g"
  shows "check_subject E (stub_gate isoparse H E C) req now g s = (Inr None, s)"
  using assms by (cases "sj_kind (gr_subject g)")
    (auto simp: subject_proved_def check_subject_def agent_check_passes plift_def)

lemma local_checks_pass:
  assumes "grant_in_force G now h g" "check_subject E G req now g s = (Inr None, s)"
  shows "local_decisions E G req now h g s = (Inr None, s)"
proof -
  have "membership_of h (gr_grant_id g) (gr_grant_version g) = M_ACTIVE"
    using assms(1) by (simp add: grant_in_force_def membership_of_def)
  with assms show ?thesis by (auto simp: local_decisions_def grant_in_force_def)
qed

lemma locked_fresh:
  "k \<notin> dkeys r \<Longrightarrow> locked_consume_once k d r = (Inr True, dset r k d)"
  by (simp add: locked_consume_once_def map_of_None_dkeys [symmetric])

lemma healthy_append: "healthy a \<Longrightarrow> \<exists>b. sqlite_append row a = (Inr (), b) \<and> healthy b"
  unfolding sqlite_append_def using guarded_healthy_write [of a "\<lambda>r. ((), r @ [row])"] by simp

text \<open>The hypotheses of the honest run: the request carries a grant that the user signed, that is in force in the
  current head and not revoked, with a proof of its subject; request and decision identifier are fresh; the
  service is up; clocks, storage and mark are in order.\<close>

definition honest_request ::
  "iso_parser \<Rightarrow> (bytes \<Rightarrow> pystr) \<Rightarrow> ed25519 \<Rightarrow> gate_config \<Rightarrow> grant \<Rightarrow> pystr \<Rightarrow> pystr \<Rightarrow> authorization_request \<Rightarrow> authz_env \<Rightarrow> bool" where
  "honest_request isoparse H E C g from until req s \<longleftrightarrow>
     (\<exists>env. signed_artifact E (hs_user_priv (en_head s)) (lit ''grant'') (grant_body g from until) = Inr env \<and>
        rq_grant_envelope req = PDict env) \<and>
     grant_wf isoparse g \<and> from \<noteq> [] \<and> until \<noteq> [] \<and>
     isoparse (zulu_offset from) = Some (True, gr_valid_from g) \<and>
     isoparse (zulu_offset until) = Some (True, gr_valid_until g) \<and>
     cf_root_key C = ed_public E (hs_user_priv (en_head s)) \<and> cf_issuer_fp C = gr_issuer_fp g \<and>
     grant_in_force (stub_gate isoparse H E C) (fst (next_reading (en_wall s))) (relay_view True [] (en_head s)) g \<and>
     subject_proved E (stub_gate isoparse H E C) req (fst (next_reading (en_wall s))) (default_peer_resolver req) g \<and>
     request_key g req \<notin> spent_requests s"

definition service_honest :: "ed25519 \<Rightarrow> gate_config \<Rightarrow> authorization_request \<Rightarrow> authz_env \<Rightarrow> bool" where
  "service_honest E C req s \<longleftrightarrow> sd_reachable (en_decisions s) \<and>
     cf_decision_key C = sd_decision_public_key E (en_decisions s) \<and>
     fst (next_id (en_ids s)) \<notin> spent_decisions s \<and> encodable (fst (next_id (en_ids s))) \<and>
     encodable (rq_request_id req) \<and> encodable (rq_action_digest req) \<and>
     \<bar>fst (next_reading (en_wall s))\<bar> \<le> max_safe_integer"

text \<open>Three readings of the continuous clock within the deadline, two of the wall clock that do not go back by
  more than the slack.\<close>

definition clocks_in_order :: "authz_env \<Rightarrow> bool" where
  "clocks_in_order s \<longleftrightarrow> (\<exists>m0 m1 m2 ms w0 w1 ws. en_mono s = m0 # m1 # m2 # ms \<and> en_wall s = w0 # w1 # ws \<and>
     m2 - m0 \<le> response_deadline_ns \<and> w0 - decided_at_slack_seconds \<le> w1)"

lemma honest_accept:
  assumes "relay_honest s" "ed_correct E" "cf_root_key C = ed_public E (hs_user_priv (en_head s))"
    and "en_mark s \<le> hs_version_int (en_head s)"
  shows "\<exists>hdig. digest H (PDict (hs_head_body (en_head s))) = Inr hdig \<and>
    sync_and_accept isoparse H E (stub_gate isoparse H E C) req now s =
      (Inr (relay_view (sy_include_revocations (en_sync s)) hdig (en_head s)), s\<lparr>en_mark := hs_version_int (en_head s)\<rparr>)"
proof -
  obtain env where env: "sy_sync E (en_head s) (en_sync s) = Inr env"
    "verify_sync E (cf_root_key C) (PDict env) =
      Inr (hs_head_body (en_head s), hs_state_version (en_head s), hs_version_int (en_head s), set (hs_active (en_head s)),
        (if sy_include_revocations (en_sync s) then dkeys (hs_revocations (en_head s)) else {}))"
    using honest_sync [OF assms(1,2)] assms(3) by auto
  obtain hdig where hdig: "digest H (PDict (hs_head_body (en_head s))) = Inr hdig"
    using canonicalize_ok_iff [of "PDict (hs_head_body (en_head s))"] head_body_ok assms(1)
    by (auto simp: digest_def relay_honest_def)
  have "s\<lparr>en_mark := if en_mark s < v then v else en_mark s\<rparr> = s\<lparr>en_mark := v\<rparr>" if "v = hs_version_int (en_head s)" for v
    using assms(4) that by auto
  then show ?thesis
    using assms(4) hdig env
    by (auto simp: sync_and_accept_def accept_head_def ptry_def pbind_def plift_def preturn_def lift_pm_def hw_get_def
        hw_raise_to_def put_mark_def relay_view_def)
qed

lemma honest_decide:
  assumes "ed_correct E" "service_honest E C req s" "digest H (PDict (hs_head_body (en_head s))) = Inr hdig" "encodable hdig"
    and "parse_envelope (rq_grant_envelope req) = Inr (ty, body, sig)" "parse_grant_body isoparse body = Inr g"
    and "now = fst (next_reading (en_wall s))" "hs_wf (en_head s)" "grant_wf isoparse g"
  shows "\<exists>d. sd_decide isoparse H E (en_decisions s) (en_head s) (fst (next_id (en_ids s))) req now = Inr d \<and>
    verify_decision_sig E (cf_decision_key C) d = Inr True \<and> dc_decided_at d = now \<and>
    dc_decision_id d = fst (next_id (en_ids s)) \<and>
    check_binding d (expected_binding_of req g (relay_view inc hdig (en_head s)) (rq_action_digest req)) = None \<and>
    dc_disposition d = disposition_value (grant_disposition g)"
proof -
  let ?d = "\<lparr>dc_decision_id = fst (next_id (en_ids s)), dc_grant_id = gr_grant_id g, dc_grant_version = gr_grant_version g,
      dc_state_version = hs_state_version (en_head s), dc_authz_state_digest = hdig,
      dc_request_id = rq_request_id req, dc_action_digest = rq_action_digest req, dc_decided_at = now,
      dc_disposition = disposition_value (grant_disposition g),
      dc_approval_mode = approval_mode_value (gr_approval_mode g),
      dc_subject_kind = subject_kind_value (sj_kind (gr_subject g)), dc_sig = []\<rparr>"
  have "encodable (gr_grant_id g)" "encodable (gr_grant_version g)"
    using assms(9) by (auto simp: grant_wf_def decimal_version_def intro: grant_id_encodable decimal_encodable)
  moreover have "encodable (hs_state_version (en_head s))" by (simp add: hs_state_version_def encodable_dec_int)
  moreover have "encodable (disposition_value x)" for x by (cases x) simp_all
  moreover have "encodable (approval_mode_value x)" for x by (cases x) simp_all
  moreover have "encodable (subject_kind_value x)" for x by (cases x) simp_all
  ultimately have "jcs_ok (PDict (decision_body ?d))"
    using assms(2,4,7) by (simp add: decision_body_def service_honest_def max_safe_integer_def)
  from canonicalize_ok_iff [THEN iffD2, OF this] obtain m where m: "decision_signing_input ?d = Inr m"
    unfolding decision_signing_input_def by (metis rmap.simps(2))
  let ?e = "?d\<lparr>dc_sig := ed_sign E (sd_signing_key (en_decisions s)) m\<rparr>"
  have "sd_decide isoparse H E (en_decisions s) (en_head s) (fst (next_id (en_ids s))) req now = Inr ?e"
    using assms(2,3,5,6) m by (simp add: sd_decide_def service_honest_def hs_head_digest_def)
  moreover have "decision_signing_input ?e = Inr m"
    using m by (simp add: decision_signing_input_def decision_body_def)
  then have "verify_decision_sig E (cf_decision_key C) ?e = Inr True"
    using assms(1,2) by (simp add: verify_decision_sig_def verify_sig_def ed_correct_def service_honest_def
        sd_decision_public_key_def)
  moreover have "check_binding ?e (expected_binding_of req g (relay_view inc hdig (en_head s)) (rq_action_digest req)) = None"
  proof (rule check_binding_accepts)
    show "expects_known_values (expected_binding_of req g (relay_view inc hdig (en_head s)) (rq_action_digest req))"
      by (cases "gr_approval_mode g"; cases "sj_kind (gr_subject g)")
        (simp_all add: expects_known_values_def expected_binding_of_def approval_modes_def subject_kinds_def
          dispositions_def grant_disposition_def permits_auto_def)
  qed (simp add: decision_matches_def expected_binding_of_def relay_view_def)
  ultimately show ?thesis by (intro exI [of _ ?e]) simp
qed

text \<open>From the consumed request to the end.\<close>

lemma honest_finish:
  assumes "healthy (en_audit s)" "dc_decision_id d \<notin> spent_decisions s"
  shows "\<exists>t. record_outcome isoparse (stub_gate isoparse H E C) req now g h ex d received s =
    (Inr \<lparr>au_decision = d, au_mono_decision_received = received\<rparr>, t) \<and> en_wall t = en_wall s"
proof -
  obtain b where b: "sqlite_append (authz_to_dict (success_event req now g h ex (dc_decision_id d))) (en_audit s) = (Inr (), b)"
    using healthy_append [OF assms(1)] by blast
  then show ?thesis
    using assms(2) by (auto simp: record_outcome_def ptry_def pbind_def preturn_def lift_pm_def locked_fresh
        put_decided_def put_authz_audit_def authz_record_def sqlite_log_def)
qed

lemma honest_cloud:
  assumes d: "sd_decide isoparse H E (en_decisions s) (en_head s) (fst (next_id (en_ids s))) req now = Inr d"
    "verify_decision_sig E (cf_decision_key C) d = Inr True" "dc_decided_at d = now"
    "dc_decision_id d = fst (next_id (en_ids s))" "check_binding d ex = None"
    and e: "healthy (en_audit s)" "fst (next_id (en_ids s)) \<notin> spent_decisions s"
    and c: "en_mono s = m0 # m1 # m2 # ms" "m2 - m0 \<le> response_deadline_ns" "en_wall s = w1 # ws"
      "now - decided_at_slack_seconds \<le> w1"
  shows "\<exists>t. cloud_decision isoparse E (stub_gate isoparse H E C) req now g h ex s =
    (Inr \<lparr>au_decision = d, au_mono_decision_received = m1\<rparr>, t) \<and> en_wall t = snd (next_reading (en_wall s))"
proof -
  let ?s = "s\<lparr>en_ids := snd (next_id (en_ids s)), en_wall := snd (next_reading (en_wall s)), en_mono := snd (next_reading (m2 # ms))\<rparr>"
  obtain t where t: "record_outcome isoparse (stub_gate isoparse H E C) req now g h ex d m1 ?s =
      (Inr \<lparr>au_decision = d, au_mono_decision_received = m1\<rparr>, t)" "en_wall t = snd (next_reading (en_wall s))"
    using honest_finish [of ?s d isoparse H E C req now g h ex m1] e d(4) by auto
  have "decided_at_in_hygiene_window (dc_decided_at d) now w1"
    using c(4) d(3) by (simp add: decided_at_in_hygiene_window_def decided_at_slack_seconds_def)
  moreover have "fst (next_reading (w1 # ws)) = w1" "fst (next_reading (m2 # ms)) = m2" by (cases ws; simp) (cases ms; simp)
  ultimately show ?thesis
    using d c t by (simp add: cloud_decision_def verify_decision_def ptry_def pbind_def plift_def env_clock_def env_now_def)
qed

text \<open>With an honest relay and service the gate lets the user through.\<close>

lemma honest_authorize:
  assumes "ed_correct E" and "\<forall>b. encodable (H b)" and "relay_honest s"
    and "honest_request isoparse H E C g from until req s" and "service_honest E C req s"
    and "clocks_in_order s" and "healthy (en_audit s)" and "en_mark s \<le> hs_version_int (en_head s)"
  shows "\<exists>a t. authorize isoparse H E (stub_gate isoparse H E C) req (rq_action_digest req) s = (Inr a, t) \<and>
    dc_disposition (au_decision a) = disposition_value (grant_disposition g) \<and>
    en_wall t = snd (next_reading (tl (en_wall s)))"
proof -
  let ?G = "stub_gate isoparse H E C" and ?now = "fst (next_reading (en_wall s))" and ?v = "hs_version_int (en_head s)"
  from assms(6) obtain m0 m1 m2 ms w0 w1 ws where
    c: "en_mono s = m0 # m1 # m2 # ms" "en_wall s = w0 # w1 # ws" "m2 - m0 \<le> response_deadline_ns"
      "w0 - decided_at_slack_seconds \<le> w1" by (auto simp: clocks_in_order_def)
  let ?s1 = "s\<lparr>en_wall := w1 # ws\<rparr>"
  note hr = assms(4) [unfolded honest_request_def]
  from hr obtain env where env: "signed_artifact E (hs_user_priv (en_head s)) (lit ''grant'') (grant_body g from until) = Inr env"
    "rq_grant_envelope req = PDict env" by blast
  have k: "cf_root_key C = ed_public E (hs_user_priv (en_head s))" using hr by blast
  have "relay_honest ?s1" using assms(3) by (simp add: relay_honest_def)
  from honest_accept [OF this assms(1), of C H isoparse req ?now] assms(8) k obtain hdig where
    h: "digest H (PDict (hs_head_body (en_head s))) = Inr hdig"
      "sync_and_accept isoparse H E ?G req ?now ?s1 =
        (Inr (relay_view (sy_include_revocations (en_sync s)) hdig (en_head s)), ?s1\<lparr>en_mark := ?v\<rparr>)"
    by auto
  let ?h = "relay_view (sy_include_revocations (en_sync s)) hdig (en_head s)"
  have g: "verify_grant isoparse E ?G req = Inr g"
    using hr by (intro verify_grant_signed [OF env(1) assms(1) env(2)]) auto
  have "grant_in_force ?G ?now ?h g" using hr by (auto simp: grant_in_force_def relay_view_def)
  then have l: "local_decisions E ?G req ?now ?h g u = (Inr None, u)" for u
    using hr subject_check_passes by (intro local_checks_pass) blast+
  let ?s3 = "?s1\<lparr>en_mark := ?v, en_requests := dset (en_requests s) (request_key g req) (rq_action_digest req)\<rparr>"
  have r: "consume_request isoparse ?G req ?now g (rq_action_digest req) (?s1\<lparr>en_mark := ?v\<rparr>) = (Inr (), ?s3)"
    using hr by (auto simp: consume_request_def ptry_def lift_pm_def locked_fresh put_requests_def preturn_def)
  obtain sig where sig: "parse_envelope (rq_grant_envelope req) = Inr (lit ''grant'', grant_body g from until, sig)"
    using signed_artifact_verifies [OF env(1) assms(1)] env(2) by auto
  have p: "parse_grant_body isoparse (grant_body g from until) = Inr g"
    using hr by (intro parse_grant_body_body) auto
  have "encodable hdig" using h(1) assms(2) by (auto simp: digest_def pm_inv)
  from honest_decide [OF assms(1,5) h(1) this sig p refl] assms(3) hr obtain d where
    d: "sd_decide isoparse H E (en_decisions s) (en_head s) (fst (next_id (en_ids s))) req ?now = Inr d"
      "verify_decision_sig E (cf_decision_key C) d = Inr True" "dc_decided_at d = ?now"
      "dc_decision_id d = fst (next_id (en_ids s))"
      "check_binding d (expected_binding_of req g ?h (rq_action_digest req)) = None"
      "dc_disposition d = disposition_value (grant_disposition g)"
    unfolding relay_honest_def by meson
  have "\<exists>t. cloud_decision isoparse E ?G req ?now g ?h (expected_binding_of req g ?h (rq_action_digest req)) ?s3 =
      (Inr \<lparr>au_decision = d, au_mono_decision_received = m1\<rparr>, t) \<and> en_wall t = snd (next_reading (w1 # ws))"
    using honest_cloud [of isoparse H E ?s3] d(1-5) c assms(5,7) by (simp add: service_honest_def)
  then obtain t where t: "cloud_decision isoparse E ?G req ?now g ?h (expected_binding_of req g ?h (rq_action_digest req)) ?s3 =
      (Inr \<lparr>au_decision = d, au_mono_decision_received = m1\<rparr>, t)" "en_wall t = snd (next_reading (w1 # ws))" by blast
  have n: "env_now s = (Inr ?now, ?s1)" using c(2) by (simp add: env_now_def)
  have "authorize isoparse H E ?G req (rq_action_digest req) s = (Inr \<lparr>au_decision = d, au_mono_decision_received = m1\<rparr>, t)"
    using t(1) by (simp add: authorize_def pbind_returns n h(2) g l r)
  with d(6) t(2) c(2) show ?thesis by auto
qed

subsection \<open>A concrete run\<close>

text \<open>A parser of two times, and one user, one grant.\<close>

definition toy_hash :: "bytes \<Rightarrow> pystr" where
  "toy_hash b = lit ''h''"

definition sample_from :: pystr where
  "sample_from = lit ''2026-01-01T00:00:00Z''"

definition sample_until :: pystr where
  "sample_until = lit ''2026-01-02T00:00:00Z''"

definition sample_iso :: iso_parser where
  "sample_iso t = (if t = lit ''2026-01-01T00:00:00+00:00'' then Some (True, 1767225600)
     else if t = lit ''2026-01-02T00:00:00+00:00'' then Some (True, 1767312000) else None)"

definition sample_grant :: grant where
  "sample_grant = \<lparr>gr_grant_id = sample_gid 97, gr_grant_version = lit ''1'', gr_grant_version_int = 1,
     gr_issuer_fp = lit ''fp'',
     gr_subject = \<lparr>sj_kind = OS_ACCOUNT, sj_machine_id = Some (lit ''m''), sj_account = Some (lit ''u''),
       sj_agent_pubkey_hex = None, sj_agent_slug = None\<rparr>,
     gr_tool = lit ''gmail'', gr_action = lit ''send'', gr_scope = [(lit ''from_account'', PStr (lit ''me''))],
     gr_approval_mode = AUTO, gr_valid_from = 1767225600, gr_valid_until = 1767312000, gr_state_version = lit ''1''\<rparr>"

definition sample_grant_env :: dict where
  "sample_grant_env = (case signed_artifact toy_ed [1] (lit ''grant'') (grant_body sample_grant sample_from sample_until) of
     Inr e \<Rightarrow> e | Inl _ \<Rightarrow> [])"

definition sample_authz_request :: authorization_request where
  "sample_authz_request = \<lparr>rq_grant_envelope = PDict sample_grant_env, rq_request_id = lit ''r1'',
     rq_action_digest = lit ''a'', rq_authz_state_digest = lit ''h'', rq_issued_at = 0, rq_channel_binding = [],
     rq_peer_verified = True, rq_peer_machine_id = lit ''m'', rq_peer_account = lit ''u'', rq_agent_sig = None\<rparr>"

definition sample_authz_env :: authz_env where
  "sample_authz_env = \<lparr>en_head = sample_head,
     en_sync = \<lparr>sy_reachable = True, sy_withheld = None, sy_include_revocations = True\<rparr>,
     en_decisions = \<lparr>sd_reachable = True, sd_signing_key = [2]\<rparr>, en_ids = [lit ''d1'', lit ''d2''],
     en_wall = [1767225700, 1767225701], en_mono = [10, 20, 30, 40, 50], en_requests = [], en_decided = [], en_mark = 0,
     en_audit = \<lparr>sq_committed = [], sq_pending = None, sq_broken = False, sq_faults = []\<rparr>,
     en_records = \<lparr>sq_committed = [], sq_pending = None, sq_broken = False, sq_faults = []\<rparr>\<rparr>"

definition sample_config :: gate_config where
  "sample_config = \<lparr>cf_decision_key = [2], cf_root_key = [1], cf_issuer_fp = lit ''fp'', cf_account = lit ''me'',
     cf_challenge = []\<rparr>"

abbreviation sample_gate :: "authz_env gate" where
  "sample_gate \<equiv> stub_gate sample_iso toy_hash toy_ed sample_config"

lemma toy_hash_encodable: "\<forall>b. encodable (toy_hash b)"
  by (simp add: toy_hash_def)

lemma sample_signed:
  "signed_artifact toy_ed [1] (lit ''grant'') (grant_body sample_grant sample_from sample_until) = Inr sample_grant_env"
proof -
  have "jcs_ok (PDict (grant_body sample_grant sample_from sample_until))" by code_simp
  from signed_artifact_ok [OF _ this, of "lit ''grant''"] obtain e where
    "signed_artifact toy_ed [1] (lit ''grant'') (grant_body sample_grant sample_from sample_until) = Inr e" by auto
  then show ?thesis by (simp add: sample_grant_env_def)
qed

lemma sample_times:
  "sample_iso (zulu_offset sample_from) = Some (True, 1767225600)"
  "sample_iso (zulu_offset sample_until) = Some (True, 1767312000)"
  by code_simp+

lemma sample_grant_wf: "grant_wf sample_iso sample_grant"
proof -
  have "expressible sample_iso 1767225600" "expressible sample_iso 1767312000"
    using sample_times unfolding expressible_def
    by (metis lit_Nil_iff(1) list.distinct(1) sample_from_def, metis lit_Nil_iff(1) list.distinct(1) sample_until_def)
  moreover have "grant_id_hex (gr_grant_id sample_grant)" "canonical_decimal (lit ''1'')" "int_of_decimal (lit ''1'') = Inr 1"
    by code_simp+
  ultimately show ?thesis
    by (simp add: grant_wf_def decimal_version_def scope_wf_def subject_wf_def nonempty_text_def sample_grant_def
        sample_gid_def dget_def)
qed

lemma sample_honest:
  "relay_honest sample_authz_env" "service_honest toy_ed sample_config sample_authz_request sample_authz_env"
  "clocks_in_order sample_authz_env" "healthy (en_audit sample_authz_env)"
  "honest_request sample_iso toy_hash toy_ed sample_config sample_grant sample_from sample_until sample_authz_request sample_authz_env"
proof -
  show "relay_honest sample_authz_env" by code_simp
  show "service_honest toy_ed sample_config sample_authz_request sample_authz_env"
    by (simp add: service_honest_def sample_authz_env_def sample_config_def sample_authz_request_def
        sd_decision_public_key_def toy_ed_def max_safe_integer_def)
  show "clocks_in_order sample_authz_env"
    by (simp add: clocks_in_order_def sample_authz_env_def response_deadline_ns_def decided_at_slack_seconds_def)
  show "healthy (en_audit sample_authz_env)" by (simp add: healthy_def sample_authz_env_def)
  show "honest_request sample_iso toy_hash toy_ed sample_config sample_grant sample_from sample_until sample_authz_request sample_authz_env"
    using sample_signed sample_grant_wf sample_times
    by (auto simp: honest_request_def sample_authz_request_def sample_authz_env_def sample_head_def sample_config_def
        sample_grant_def sample_from_def sample_until_def grant_in_force_def relay_view_def subject_proved_def
        default_peer_resolver_def toy_ed_def clock_skew_seconds_def validity_cap_seconds_def lit_def dget_def)
qed

lemma sample_authorized:
  "\<exists>a t. authorize sample_iso toy_hash toy_ed sample_gate sample_authz_request (lit ''a'') sample_authz_env = (Inr a, t) \<and>
     dc_disposition (au_decision a) = lit ''authorized'' \<and> en_wall t = [1767225701]"
proof -
  have "en_mark sample_authz_env \<le> hs_version_int (en_head sample_authz_env)"
    by (simp add: sample_authz_env_def sample_head_def)
  from honest_authorize [OF toy_correct toy_hash_encodable sample_honest(1,5,2,3,4) this]
  have "\<exists>a t. authorize sample_iso toy_hash toy_ed sample_gate sample_authz_request (rq_action_digest sample_authz_request)
      sample_authz_env = (Inr a, t) \<and> dc_disposition (au_decision a) = disposition_value (grant_disposition sample_grant) \<and>
      en_wall t = snd (next_reading (tl (en_wall sample_authz_env)))" .
  moreover have "snd (next_reading (tl (en_wall sample_authz_env))) = [1767225701]" by (simp add: sample_authz_env_def)
  ultimately show ?thesis
    by (simp add: grant_disposition_def permits_auto_def sample_grant_def sample_authz_request_def)
qed

lemma stub_subject:
  assumes "check_subject E (stub_gate isoparse H E C) req now g s = (Inr None, t)"
  shows "subject_proved E (stub_gate isoparse H E C) req now (default_peer_resolver req) g \<and> t = s"
  using assms by (cases "sj_kind (gr_subject g)")
    (auto simp: check_subject_def subject_proved_def pm_inv dest: check_agent_None split: option.splits if_splits)

subsection \<open>Properties\<close>

text \<open>
  C3. Soundness of the gate.  When it returns an authorization, every check was made, on the very inputs of this call.  The
  envelope is the one the relay answered: its head is the user's, every revocation artifact in it is the user's and none of them
  revokes the grant, the grant's version is in the active set, and the head is not older than any head accepted before.  The grant is the
  one of the request, the user's, its issuer the pinned one; at the first reading of the wall clock it is within its validity, its
  span within the cap, its account this gateway's, and its subject is proved, by the peer this request resolves to or by the agent's signature.
  The decision is the one the service answered to this request, signed by its key, agrees in every field with what the gate derived for
  exactly this request and this payload, was dated no later than the second reading allows, and the third reading
  of the continuous clock is within the deadline of the first.  Request and decision were fresh and are now spent.
\<close>

theorem gate_soundness:
  assumes "authorize isoparse H E (stub_gate isoparse H E C) req dig s = (Inr a, t)"
  shows "\<exists>env h g. sy_sync E (en_head s) (en_sync s) = Inr env \<and> head_authentic H E (cf_root_key C) (PDict env) h \<and>
    grant_authentic isoparse E (stub_gate isoparse H E C) req g \<and>
    grant_in_force (stub_gate isoparse H E C) (reading 0 (en_wall s)) h g \<and>
    subject_proved E (stub_gate isoparse H E C) req (reading 0 (en_wall s)) (default_peer_resolver req) g \<and>
    sd_decide isoparse H E (en_decisions s) (en_head s) (fst (next_id (en_ids s))) req (reading 0 (en_wall s)) = Inr (au_decision a) \<and>
    decision_accepted E (stub_gate isoparse H E C) (expected_binding_of req g h dig) (reading 0 (en_wall s)) (reading 1 (en_wall s))
      (reading 0 (en_mono s)) (reading 2 (en_mono s)) (au_decision a) \<and>
    au_mono_decision_received a = reading 1 (en_mono s) \<and>
    en_mark s \<le> vh_state_version_int h \<and> en_mark t = vh_state_version_int h \<and>
    request_key g req \<notin> spent_requests s \<and> request_key g req \<in> spent_requests t \<and>
    dc_decision_id (au_decision a) \<notin> spent_decisions s \<and> dc_decision_id (au_decision a) \<in> spent_decisions t"
proof -
  let ?G = "stub_gate isoparse H E C"
  from authorize_trace [OF assms] obtain now s1 env u mark v h s2 g s3 s4 sent x1 x2 received x3 wall x4 verified x5 x6 where
    r: "env_now s = (Inr now, s1)" "g_sync ?G s1 = (Inr env, u)" "head_authentic H E (cf_root_key C) env h"
      "g_hw_get ?G u = (Inr mark, v)" "mark \<le> vh_state_version_int h" "g_hw_raise_to ?G (vh_state_version_int h) v = (Inr (), s2)"
    and g: "verify_grant isoparse E ?G req = Inr g" "grant_in_force ?G now h g" "check_subject E ?G req now g s2 = (Inr None, s3)"
    and c: "g_request_consume ?G (request_key g req) dig s3 = (Inr True, s4)" "env_clock s4 = (Inr sent, x1)"
      "g_decide ?G req now x1 = (Inr (au_decision a), x2)" "env_clock x2 = (Inr received, x3)" "env_now x3 = (Inr wall, x4)"
      "env_clock x4 = (Inr verified, x5)"
      "decision_accepted E ?G (expected_binding_of req g h dig) now wall sent verified (au_decision a)"
      "au_mono_decision_received a = received"
    and w: "g_decision_consume ?G (dc_decision_id (au_decision a)) dig x5 = (Inr True, x6)"
      "authz_record (g_audit ?G) (success_event req now g h (expected_binding_of req g h dig) (dc_decision_id (au_decision a))) x6 = (Inr (), t)"
    unfolding stub_gate_sel(6,7) by (elim exE conjE) (rule that, assumption+, simp, assumption+)
  note g3 = stub_subject [OF g(3)]
  from r(1) have 1: "now = reading 0 (en_wall s)" "s1 = s\<lparr>en_wall := snd (next_reading (en_wall s))\<rparr>" by (simp_all add: env_now_def)
  from r(2) obtain d where 2: "sy_sync E (en_head s) (en_sync s) = Inr d" "env = PDict d" "u = s1"
    by (auto simp: 1 rmap_Inr_iff)
  have 3: "s2 = s1\<lparr>en_mark := vh_state_version_int h\<rparr>" "en_mark s \<le> vh_state_version_int h"
    using r(4-6) by (auto simp: 1 2 lift_pm_iff hw_get_def hw_raise_to_def put_mark_def)
  from sg.requests.consume_wins [OF c(1)] c(1) obtain q where 4: "s4 = s2\<lparr>en_requests := q\<rparr>"
    "request_key g req \<notin> spent_requests s" "request_key g req \<in> dkeys q"
    using g3 by (auto simp: 1 3 lift_pm_iff put_requests_def)
  note inputs = c(2-6) [unfolded env_clock_def env_now_def stub_gate_sel]
  have 5: "sent = reading 0 (en_mono s)" "received = reading 1 (en_mono s)" "verified = reading 2 (en_mono s)" "wall = reading 1 (en_wall s)"
    "sd_decide isoparse H E (en_decisions s) (en_head s) (fst (next_id (en_ids s))) req now = Inr (au_decision a)"
    using inputs 1 3 4(1) by (auto simp: numeral_2_eq_2)
  have 6: "x5 = s4\<lparr>en_ids := en_ids x5, en_wall := en_wall x5, en_mono := en_mono x5\<rparr>" using inputs by auto
  from w(2) have 7: "en_requests t = en_requests x6" "en_mark t = en_mark x6" "en_decided t = en_decided x6"
    by (auto simp: authz_record_def lift_pm_iff put_authz_audit_def)
  from w(1) have 8: "en_requests x6 = en_requests x5" "en_mark x6 = en_mark x5" by (auto simp: lift_pm_iff put_decided_def)
  have 9: "en_requests x5 = q" "en_mark x5 = vh_state_version_int h" "en_decided x5 = en_decided s"
    using 1 3 4(1) by (subst 6, simp)+
  from sg.decisions.consume_wins [OF w(1)] have "dc_decision_id (au_decision a) \<notin> spent_decisions s"
    "dc_decision_id (au_decision a) \<in> spent_decisions t" by (simp_all add: 7 9)
  then show ?thesis
    using 2(1) r(3) verify_grant_Inr [OF g(1)] g(2) conjunct1 [OF g3] 5(5) c(7,8) 3(2) 4(2,3)
    unfolding 5(1-4) 1(1) 2(2) by (intro exI conjI) (assumption | simp add: 7 8 9)+
qed

theorem gate_soundness_witness:
  "\<exists>a t env h g. authorize sample_iso toy_hash toy_ed sample_gate sample_authz_request (lit ''a'') sample_authz_env = (Inr a, t) \<and>
     sy_sync toy_ed sample_head (en_sync sample_authz_env) = Inr env \<and> head_authentic toy_hash toy_ed [1] (PDict env) h \<and>
     decision_accepted toy_ed sample_gate (expected_binding_of sample_authz_request g h (lit ''a'')) 1767225700 1767225701 10 30 (au_decision a)"
proof -
  obtain a t where a: "authorize sample_iso toy_hash toy_ed sample_gate sample_authz_request (lit ''a'') sample_authz_env = (Inr a, t)"
    using sample_authorized by blast
  have "reading 0 (en_wall sample_authz_env) = 1767225700" "reading 1 (en_wall sample_authz_env) = 1767225701"
    "reading 0 (en_mono sample_authz_env) = 10" "reading 2 (en_mono sample_authz_env) = 30"
    "en_head sample_authz_env = sample_head" "cf_root_key sample_config = [1]"
    by (simp_all add: sample_authz_env_def sample_config_def numeral_2_eq_2)
  with gate_soundness [OF a] a show ?thesis by metis
qed

text \<open>
  C20. Completeness of the gate.  With an honest relay and service it lets the user through: a request that carries
  a grant signed by the user, active and in force, with its subject's proof, fresh and on time, is authorized with the
  grant's disposition, whether or not the relay ships the revocation artifacts.
\<close>

theorem honest_run_authorizes:
  assumes "ed_correct E" and "\<forall>b. encodable (H b)" and "relay_honest s"
    and "honest_request isoparse H E C g from until req s" and "service_honest E C req s"
    and "clocks_in_order s" and "healthy (en_audit s)" and "en_mark s \<le> hs_version_int (en_head s)"
  shows "\<exists>a t. authorize isoparse H E (stub_gate isoparse H E C) req (rq_action_digest req) s = (Inr a, t) \<and>
    dc_disposition (au_decision a) = disposition_value (grant_disposition g)"
  using honest_authorize [OF assms] by blast

theorem honest_run_authorizes_witness:
  "\<exists>a t. authorize sample_iso toy_hash toy_ed sample_gate sample_authz_request (rq_action_digest sample_authz_request)
      sample_authz_env = (Inr a, t) \<and> dc_disposition (au_decision a) = disposition_value (grant_disposition sample_grant)"
proof -
  have "en_mark sample_authz_env \<le> hs_version_int (en_head sample_authz_env)"
    by (simp add: sample_authz_env_def sample_head_def)
  from honest_run_authorizes [OF toy_correct toy_hash_encodable sample_honest(1,5,2,3,4) this] show ?thesis .
qed

text \<open>
  C23. Every call is accounted for, under any failure of the audit storage: the log is the old one with exactly one row
  when the caller is told \<open>denied\<close> (a \<open>denied_\<close> code, no decision, no payload digest) or is let through (the
  outcome, the decision and the digest of this payload), and without a new row when any other exception leaves the gate.
\<close>

theorem gate_accounts:
  assumes "clean (en_audit s)" and "authorize isoparse H E (stub_gate isoparse H E C) req dig s = (r, t)"
  shows "clean (en_audit t) \<and>
    (\<exists>new. authz_rows t = authz_rows s @ new \<and> outcome_rows req (success_row req dig) r new)"
  using sg.effectD [OF sg.authorize_effect assms] by blast

theorem gate_accounts_witness:
  "\<exists>a t new. authorize sample_iso toy_hash toy_ed sample_gate sample_authz_request (lit ''a'') sample_authz_env = (Inr a, t) \<and>
     authz_rows t = authz_rows sample_authz_env @ new \<and> success_row sample_authz_request (lit ''a'') a new"
proof -
  obtain a t where a: "authorize sample_iso toy_hash toy_ed sample_gate sample_authz_request (lit ''a'') sample_authz_env = (Inr a, t)"
    using sample_authorized by blast
  have "clean (en_audit sample_authz_env)" by (simp add: clean_def sample_authz_env_def)
  from gate_accounts [OF this a] a show ?thesis by auto
qed

text \<open>What becomes of the world outside between two calls: the control plane moves on, the relay withholds or ships, the service
  goes down, comes back or changes its key.\<close>

record outside_move =
  om_head :: head_state
  om_sync :: stub_sync
  om_decisions :: stub_decisions

definition move_outside :: "outside_move \<Rightarrow> authz_env \<Rightarrow> authz_env" where
  "move_outside m s = s\<lparr>en_head := om_head m, en_sync := om_sync m, en_decisions := om_decisions m\<rparr>"

lemma move_unspent: "sg.unspent_by move_outside"
  by (simp add: sg.unspent_by_def gate_same_def move_outside_def)

definition sample_move :: outside_move where
  "sample_move = \<lparr>om_head = en_head sample_authz_env, om_sync = en_sync sample_authz_env, om_decisions = en_decisions sample_authz_env\<rparr>"

text \<open>
  C9. Single use.  In any sequence of calls, whatever becomes of the control plane, the relay and the service before each of them and
  whatever fails, a pair of grant and request is authorized at most once and a decision authorizes at most once.
\<close>

theorem request_single_use:
  assumes "clean (en_audit s)"
  shows "count_wins authorization_key k (fst (authorize_run isoparse H E (stub_gate isoparse H E C) move_outside calls s)) \<le> 1 \<and>
    count_wins (\<lambda>a. dc_decision_id (au_decision a)) d
      (fst (authorize_run isoparse H E (stub_gate isoparse H E C) move_outside calls s)) \<le> 1"
  using assms move_unspent by (rule sg.authorize_once)

theorem request_single_use_witness:
  "\<forall>k. count_wins authorization_key k (fst (authorize_run sample_iso toy_hash toy_ed sample_gate move_outside
     [(sample_move, sample_authz_request, lit ''a''), (sample_move\<lparr>om_head := hs_add (sample_gid 98) (lit ''1'') sample_head\<rparr>,
       sample_authz_request, lit ''a'')] sample_authz_env)) \<le> 1"
proof
  fix k
  have "clean (en_audit sample_authz_env)" by (simp add: clean_def sample_authz_env_def)
  from request_single_use [OF this]
  show "count_wins authorization_key k (fst (authorize_run sample_iso toy_hash toy_ed sample_gate move_outside
     [(sample_move, sample_authz_request, lit ''a''), (sample_move\<lparr>om_head := hs_add (sample_gid 98) (lit ''1'') sample_head\<rparr>,
       sample_authz_request, lit ''a'')] sample_authz_env)) \<le> 1" by blast
qed

text \<open>
  C10. No rollback.  Over any sequence of calls, with any head, old or new, in front of each of them, the high-water mark never
  falls, and the versions of the heads behind the authorizations are in ascending order, between the mark before and the mark after.
\<close>

theorem head_versions_bounded:
  assumes "clean (en_audit s)" and "authorize_run isoparse H E (stub_gate isoparse H E C) move_outside calls s = (rs, t)"
  shows "en_mark s \<le> en_mark t \<and> sorted (versions rs) \<and> (\<forall>n \<in> set (versions rs). en_mark s \<le> n \<and> n \<le> en_mark t)"
  using move_unspent assms by (rule sg.authorize_versions)

theorem head_versions_bounded_witness:
  "\<exists>rs t. authorize_run sample_iso toy_hash toy_ed sample_gate move_outside [(sample_move, sample_authz_request, lit ''a'')]
      sample_authz_env = (rs, t) \<and> length rs = 1 \<and> 0 \<le> en_mark t \<and> (\<forall>n \<in> set (versions rs). n \<le> en_mark t)"
proof -
  obtain rs t where r: "authorize_run sample_iso toy_hash toy_ed sample_gate move_outside [(sample_move, sample_authz_request, lit ''a'')]
      sample_authz_env = (rs, t)" by fastforce
  have "clean (en_audit sample_authz_env)" by (simp add: clean_def sample_authz_env_def)
  from head_versions_bounded [OF this r] have "0 \<le> en_mark t" "\<forall>n \<in> set (versions rs). n \<le> en_mark t"
    by (auto simp: sample_authz_env_def)
  moreover have "length rs = 1" using r by (auto split: prod.splits)
  ultimately show ?thesis using r by blast
qed

text \<open>
  A hole in the two-tier refusal.  A caller who sends a grant envelope whose body the canonicalizer rejects (a
  float, a lone surrogate) is not told \<open>denied\<close>: the canonicalizer's exception leaves the gate, and no audit row
  records the refusal.  The signature is not even looked at.
\<close>

theorem unserializable_grant_escapes:
  assumes "relay_honest s" and "ed_correct E" and "cf_root_key C = ed_public E (hs_user_priv (en_head s))"
    and "en_mark s \<le> hs_version_int (en_head s)" and "clean (en_audit s)"
    and "parse_envelope (rq_grant_envelope req) = Inr (lit ''grant'', body, sig)" and "\<not> jcs_ok (PDict body)"
  shows "\<exists>e t. authorize isoparse H E (stub_gate isoparse H E C) req dig s = (Inl e, t) \<and>
    e \<in> {Canon JcsError, Py UnicodeEncodeError} \<and> authz_rows t = authz_rows s"
proof -
  let ?G = "stub_gate isoparse H E C"
  obtain w u where w: "env_now s = (Inr w, u)" "en_head u = en_head s" "en_mark u = en_mark s" "en_sync u = en_sync s"
    "authz_rows u = authz_rows s"
    by (simp add: env_now_def)
  have "relay_honest u" using assms(1) w by (simp add: relay_honest_def)
  from honest_accept [OF this assms(2), of C H isoparse req w] assms(3,4) w obtain h where
    h: "sync_and_accept isoparse H E ?G req w u = (Inr h, u\<lparr>en_mark := hs_version_int (en_head u)\<rparr>)" by auto
  obtain e where "canonicalize (PDict body) = Inl e"
    using canonicalize_ok_iff [of "PDict body"] assms(7) by (cases "canonicalize (PDict body)") auto
  then have e: "signing_input (lit ''grant'') body = Inl e" "e \<in> {Canon JcsError, Py UnicodeEncodeError}"
    using canonicalize_errors lit_encodable [of "''grant''"]
    by (auto simp: signing_input_def domain_tag_def encode_utf8_def encodable_def)
  then have "verify_grant isoparse E ?G req = Inl e"
    using assms(6) by (simp add: verify_grant_def rguard_def verify_artifact_def)
  then have "authorize isoparse H E ?G req dig s = (Inl e, u\<lparr>en_mark := hs_version_int (en_head u)\<rparr>)"
    using e(2) by (auto simp: authorize_def pbind_def w(1) h)
  then show ?thesis using e(2) w(5) by auto
qed

definition float_request :: authorization_request where
  "float_request = sample_authz_request\<lparr>rq_grant_envelope := PDict [(lit ''v'', PInt 1), (lit ''type'', PStr (lit ''grant'')),
     (lit ''body'', PDict [(lit ''x'', PFloat NonFinite)]), (lit ''sig'', PStr [])]\<rparr>"

theorem unserializable_grant_escapes_witness:
  "\<exists>e t. authorize sample_iso toy_hash toy_ed sample_gate float_request (lit ''a'') sample_authz_env = (Inl e, t) \<and>
     e \<noteq> Authz AuthorizationDenied \<and> authz_rows t = []"
proof -
  have "parse_envelope (rq_grant_envelope float_request) = Inr (lit ''grant'', [(lit ''x'', PFloat NonFinite)], [])"
    "\<not> jcs_ok (PDict [(lit ''x'', PFloat NonFinite)])"
    by code_simp+
  moreover have "cf_root_key sample_config = ed_public toy_ed (hs_user_priv (en_head sample_authz_env))"
    "en_mark sample_authz_env \<le> hs_version_int (en_head sample_authz_env)" "clean (en_audit sample_authz_env)"
    by (simp_all add: sample_config_def toy_ed_def sample_authz_env_def sample_head_def clean_def)
  ultimately obtain e t where "authorize sample_iso toy_hash toy_ed sample_gate float_request (lit ''a'') sample_authz_env = (Inl e, t)"
    "e \<in> {Canon JcsError, Py UnicodeEncodeError}" "authz_rows t = authz_rows sample_authz_env"
    using unserializable_grant_escapes [OF sample_honest(1) toy_correct, of sample_config float_request] by blast
  then show ?thesis by (auto simp: sample_authz_env_def)
qed

end
