(* ===== verification/Payload.thy ===== *)
theory Payload
  imports Jcs
begin

text \<open>
  \<open>canonicalizer/payload.py\<close>: the closed PrepareEmail schema, its normal form and the v1 send
  gate.  The input is whatever \<open>json.loads\<close> returned; the canonical payload is the dict
  literal of the source, in its order.  The lemmas show that a payload that passes has the
  schema's shape and nothing else, that the idempotency key and member order leave no trace, and that the
  normal form is a fixed point.
\<close>

definition top_level_allowed :: "pystr list" where
  "top_level_allowed = [lit ''account_handle'', lit ''to'', lit ''cc'', lit ''bcc'',
     lit ''subject'', lit ''body'', lit ''attachments'', lit ''idempotency_key'']"

definition body_keys :: "pystr list" where
  "body_keys = [lit ''format'', lit ''content'']"

definition attachment_keys :: "pystr list" where
  "attachment_keys = [lit ''name'', lit ''media_type'', lit ''content_ref'', lit ''sha256'', lit ''size'']"

definition reject_unknown :: "dict \<Rightarrow> pystr list \<Rightarrow> unit res" where
  "reject_unknown d allowed =
     rguard (\<forall>kv \<in> set d. fst kv \<in> set allowed) (Canon PayloadSchemaError)"

definition require :: "dict \<Rightarrow> pystr \<Rightarrow> pyval res" where
  "require d k = (case map_of d k of None \<Rightarrow> Inl (Canon PayloadSchemaError) | Some v \<Rightarrow> Inr v)"

definition require_str :: "pyval \<Rightarrow> pystr res" where
  "require_str v = (case v of PStr s \<Rightarrow> Inr s | _ \<Rightarrow> Inl (Canon PayloadSchemaError))"

definition str_list :: "pyval \<Rightarrow> pyval res" where
  "str_list v = (case v of
     PList xs \<Rightarrow> rmap (\<lambda>_. PList xs) (rguard (\<forall>x \<in> set xs. as_str x \<noteq> None) (Canon PayloadSchemaError))
   | _ \<Rightarrow> Inl (Canon PayloadSchemaError))"

text \<open>\<open>isinstance(v, dict)\<close>, or the schema error; and the test of a size: an integer that is
  no bool and not negative.\<close>

definition require_dict :: "pyval \<Rightarrow> dict res" where
  "require_dict v = (case v of PDict d \<Rightarrow> Inr d | _ \<Rightarrow> Inl (Canon PayloadSchemaError))"

definition require_size :: "pyval \<Rightarrow> int res" where
  "require_size v = (case v of
     PInt n \<Rightarrow> (if n < 0 then Inl (Canon PayloadSchemaError) else Inr n)
   | _ \<Rightarrow> Inl (Canon PayloadSchemaError))"

definition normalize_attachment :: "pyval \<Rightarrow> pyval res" where
  "normalize_attachment a =
     rbind (require_dict a) (\<lambda>d.
     rbind (reject_unknown d attachment_keys) (\<lambda>_.
     rbind (rbind (require d (lit ''name'')) require_str) (\<lambda>name.
     rbind (rbind (require d (lit ''media_type'')) require_str) (\<lambda>media_type.
     rbind (rbind (require d (lit ''content_ref'')) require_str) (\<lambda>content_ref.
     rbind (rbind (require d (lit ''sha256'')) require_str) (\<lambda>sha256.
     rbind (rbind (require d (lit ''size'')) require_size) (\<lambda>n.
     Inr (PDict [(lit ''content_ref'', PStr content_ref), (lit ''media_type'', PStr media_type),
       (lit ''name'', PStr name), (lit ''sha256'', PStr sha256), (lit ''size'', PInt n)]))))))))"

text \<open>The dict literal that ends \<open>build_canonical_payload\<close>.\<close>

definition canonical_dict ::
  "pystr \<Rightarrow> pyval \<Rightarrow> pyval \<Rightarrow> pyval \<Rightarrow> pystr \<Rightarrow> pystr \<Rightarrow> pystr \<Rightarrow> pyval list \<Rightarrow> pyval \<Rightarrow> dict" where
  "canonical_dict account_handle to cc bcc subject format content attachments message_id =
     [(lit ''account_handle'', PStr account_handle), (lit ''to'', to), (lit ''cc'', cc), (lit ''bcc'', bcc),
      (lit ''subject'', PStr subject),
      (lit ''body'', PDict [(lit ''format'', PStr format), (lit ''content'', PStr content)]),
      (lit ''attachments'', PList attachments)]
     @ (if message_id = PNone then [] else [(lit ''message_id'', message_id)])"

definition check_message_id :: "pyval \<Rightarrow> unit res" where
  "check_message_id m = (case m of PNone \<Rightarrow> Inr ()
     | PStr s \<Rightarrow> rguard (s \<noteq> []) (Canon PayloadSchemaError)
     | _ \<Rightarrow> Inl (Canon PayloadSchemaError))"

text \<open>\<open>_str_list(k, prepare[k]) if prepare.get(k) else []\<close>.\<close>

definition optional_str_list :: "dict \<Rightarrow> pystr \<Rightarrow> pyval res" where
  "optional_str_list d k = (if truthy (dget d k) then str_list (dget d k) else Inr (PList []))"

definition attachment_list :: "dict \<Rightarrow> pyval list res" where
  "attachment_list d = (if \<not> truthy (dget d (lit ''attachments'')) then Inr []
     else case dget d (lit ''attachments'') of
       PList xs \<Rightarrow> traverse normalize_attachment xs
     | _ \<Rightarrow> Inl (Canon PayloadSchemaError))"

definition build_canonical_payload :: "pyval \<Rightarrow> pyval \<Rightarrow> dict res" where
  "build_canonical_payload prepare message_id =
     rbind (require_dict prepare) (\<lambda>d.
     rbind (reject_unknown d top_level_allowed) (\<lambda>_.
     rbind (check_message_id message_id) (\<lambda>_.
     rbind (rbind (require d (lit ''account_handle'')) require_str) (\<lambda>account_handle.
     rbind (rbind (require d (lit ''subject'')) require_str) (\<lambda>subject.
     rbind (rbind (require d (lit ''body'')) require_dict) (\<lambda>body.
     rbind (reject_unknown body body_keys) (\<lambda>_.
     rbind (require body (lit ''format'')) (\<lambda>format.
     rbind (require body (lit ''content'')) (\<lambda>content.
     rbind (require_str format) (\<lambda>body_format.
     rbind (require_str content) (\<lambda>body_content.
     rbind (rbind (require d (lit ''to'')) str_list) (\<lambda>to.
     rbind (optional_str_list d (lit ''cc'')) (\<lambda>cc.
     rbind (optional_str_list d (lit ''bcc'')) (\<lambda>bcc.
     rbind (attachment_list d) (\<lambda>attachments.
     Inr (canonical_dict account_handle to cc bcc subject body_format body_content
       attachments message_id))))))))))))))))"

definition payload_digest :: "(bytes \<Rightarrow> pystr) \<Rightarrow> pyval \<Rightarrow> pyval \<Rightarrow> pystr res" where
  "payload_digest H prepare message_id =
     rbind (build_canonical_payload prepare message_id) (\<lambda>c. digest H (PDict c))"

definition subscript :: "pyval \<Rightarrow> pystr \<Rightarrow> pyval res" where
  "subscript v k = (case v of PDict d \<Rightarrow> dindex d k | _ \<Rightarrow> Inl (Py TypeError))"

definition enforce_v1_send_policy :: "dict \<Rightarrow> unit res" where
  "enforce_v1_send_policy canonical =
     rbind (dindex canonical (lit ''attachments'')) (\<lambda>a.
     if truthy a then Inl (Canon AttachmentsNotSupportedError)
     else rbind (dindex canonical (lit ''body'')) (\<lambda>b.
          rbind (subscript b (lit ''format'')) (\<lambda>f.
          rguard (f = PStr (lit ''text'')) (Canon PayloadSchemaError))))"

subsection \<open>The shape of what passes\<close>

definition str_values :: "pyval \<Rightarrow> bool" where
  "str_values v = (case v of PList xs \<Rightarrow> (\<forall>x \<in> set xs. as_str x \<noteq> None) | _ \<Rightarrow> False)"

definition attachment_shape :: "pyval \<Rightarrow> bool" where
  "attachment_shape v \<longleftrightarrow> (\<exists>cr mt nm sh n. 0 \<le> n \<and>
     v = PDict [(lit ''content_ref'', PStr cr), (lit ''media_type'', PStr mt),
       (lit ''name'', PStr nm), (lit ''sha256'', PStr sh), (lit ''size'', PInt n)])"

text \<open>The canonical payload of the schema for the given Message-ID.\<close>

definition canonical_shape :: "dict \<Rightarrow> pyval \<Rightarrow> bool" where
  "canonical_shape c m \<longleftrightarrow> (\<exists>ah to cc bcc subj fmt cont atts.
     c = canonical_dict ah to cc bcc subj fmt cont atts m \<and>
     str_values to \<and> str_values cc \<and> str_values bcc \<and> (\<forall>a \<in> set atts. attachment_shape a) \<and>
     (m = PNone \<or> (\<exists>s. m = PStr s \<and> s \<noteq> [])))"

lemma reject_unknown_ok [pm_inv]:
  "reject_unknown d ks = Inr u \<longleftrightarrow> (\<forall>kv \<in> set d. fst kv \<in> set ks)"
  by (simp add: reject_unknown_def pm_inv)

lemma require_ok [pm_inv]: "require d k = Inr v \<longleftrightarrow> map_of d k = Some v"
  by (simp add: require_def split: option.splits)

lemma require_str_ok [pm_inv]: "require_str v = Inr s \<longleftrightarrow> v = PStr s"
  by (cases v) (auto simp: require_str_def)

lemma str_list_ok [pm_inv]: "str_list v = Inr w \<longleftrightarrow> w = v \<and> str_values v"
  by (cases v) (auto simp: str_list_def str_values_def pm_inv)

lemma check_message_id_ok [pm_inv]:
  "check_message_id m = Inr u \<longleftrightarrow> m = PNone \<or> (\<exists>s. m = PStr s \<and> s \<noteq> [])"
  by (cases m) (auto simp: check_message_id_def pm_inv)

lemma optional_str_list_ok:
  "optional_str_list d k = Inr w \<Longrightarrow> str_values w"
  by (auto simp: optional_str_list_def str_list_ok str_values_def split: if_splits)

lemma require_dict_ok [pm_inv]: "require_dict v = Inr d \<longleftrightarrow> v = PDict d"
  by (cases v) (auto simp: require_dict_def)

lemma require_size_ok [pm_inv]: "require_size v = Inr n \<longleftrightarrow> v = PInt n \<and> 0 \<le> n"
  by (cases v) (auto simp: require_size_def)

lemma normalize_attachment_shape:
  "normalize_attachment a = Inr b \<Longrightarrow> attachment_shape b"
  by (auto simp: normalize_attachment_def attachment_shape_def pm_inv)

lemma normalize_attachment_id:
  "attachment_shape a \<Longrightarrow> normalize_attachment a = Inr a"
  by (auto simp: attachment_shape_def normalize_attachment_def reject_unknown_def attachment_keys_def
      rguard_def require_def require_str_def require_dict_def require_size_def)

lemma attachment_list_shape:
  "attachment_list d = Inr as \<Longrightarrow> a \<in> set as \<Longrightarrow> attachment_shape a"
  by (auto simp: attachment_list_def split: if_splits pyval.splits
      dest!: traverse_Inr_from intro: normalize_attachment_shape)

text \<open>Every condition of \<open>build_canonical_payload\<close> on one page.\<close>

lemma build_ok_iff:
  "build_canonical_payload (PDict d) m = Inr c \<longleftrightarrow>
     (\<forall>kv \<in> set d. fst kv \<in> set top_level_allowed) \<and> (m = PNone \<or> (\<exists>s. m = PStr s \<and> s \<noteq> [])) \<and>
     (\<exists>ah to cc bcc subj body fmt cont atts.
        map_of d (lit ''account_handle'') = Some (PStr ah) \<and>
        map_of d (lit ''subject'') = Some (PStr subj) \<and>
        map_of d (lit ''body'') = Some (PDict body) \<and>
        (\<forall>kv \<in> set body. fst kv \<in> set body_keys) \<and>
        map_of body (lit ''format'') = Some (PStr fmt) \<and>
        map_of body (lit ''content'') = Some (PStr cont) \<and>
        map_of d (lit ''to'') = Some to \<and> str_values to \<and>
        optional_str_list d (lit ''cc'') = Inr cc \<and> optional_str_list d (lit ''bcc'') = Inr bcc \<and>
        attachment_list d = Inr atts \<and> c = canonical_dict ah to cc bcc subj fmt cont atts m)"
  unfolding build_canonical_payload_def by (simp add: pm_inv) blast

lemma build_dict: "build_canonical_payload p m = Inr c \<Longrightarrow> \<exists>d. p = PDict d"
  by (auto simp: build_canonical_payload_def pm_inv)

lemma build_shape: "build_canonical_payload p m = Inr c \<Longrightarrow> canonical_shape c m"
proof -
  assume c: "build_canonical_payload p m = Inr c"
  then obtain d where "p = PDict d" using build_dict by blast
  with c have "build_canonical_payload (PDict d) m = Inr c" by simp
  then show ?thesis
    unfolding build_ok_iff canonical_shape_def
    using optional_str_list_ok attachment_list_shape by blast
qed

subsection \<open>Reading a dict by its keys\<close>

lemma map_of_keys: "(\<forall>kv \<in> set d. fst kv \<in> A) \<longleftrightarrow> (\<forall>k. map_of d k \<noteq> None \<longrightarrow> k \<in> A)"
  by (auto simp: map_of_None_dkeys dkeys_def)

lemma optional_str_list_cong:
  "map_of d k = map_of e k \<Longrightarrow> optional_str_list d k = optional_str_list e k"
  by (simp add: optional_str_list_def dget_def)

lemma attachment_list_cong:
  "map_of d (lit ''attachments'') = map_of e (lit ''attachments'') \<Longrightarrow>
     attachment_list d = attachment_list e"
  by (simp add: attachment_list_def dget_def)

lemma build_cong:
  assumes same: "\<And>k. k \<noteq> lit ''idempotency_key'' \<Longrightarrow> map_of d k = map_of e k"
  shows "build_canonical_payload (PDict d) m = build_canonical_payload (PDict e) m"
proof -
  have "reject_unknown d top_level_allowed = reject_unknown e top_level_allowed"
  proof -
    have "lit ''idempotency_key'' \<in> set top_level_allowed"
      by (simp add: top_level_allowed_def)
    then have "(\<forall>kv \<in> set d. fst kv \<in> set top_level_allowed) \<longleftrightarrow>
        (\<forall>kv \<in> set e. fst kv \<in> set top_level_allowed)"
      unfolding map_of_keys using same by metis
    then show ?thesis by (simp add: reject_unknown_def)
  qed
  moreover have "require d k = require e k" if "k \<noteq> lit ''idempotency_key''" for k
    using same [OF that] by (simp add: require_def)
  moreover have "optional_str_list d k = optional_str_list e k" if "k \<noteq> lit ''idempotency_key''" for k
    using same [OF that] by (rule optional_str_list_cong)
  moreover have "attachment_list d = attachment_list e"
    using same by (intro attachment_list_cong) simp
  ultimately show ?thesis
    by (simp add: build_canonical_payload_def require_dict_def)
qed

subsection \<open>The digest determines the payload\<close>

lemma map_of_sort_members: "distinct (map fst d) \<Longrightarrow> map_of (sort_members d) = map_of d"
proof -
  assume d: "distinct (map fst d)"
  have "mset (map fst (sort_members d)) = mset (map fst d)"
    by (simp add: sort_members_def)
  with d have "distinct (map fst (sort_members d))"
    by (metis mset_eq_imp_distinct_iff)
  with d show ?thesis
    by (subst map_of_inject_set) simp_all
qed

lemma map_of_map_values: "map_of (map (\<lambda>kv. (fst kv, f (snd kv))) d) k = map_option f (map_of d k)"
  by (induction d) auto

lemma jnorm_dict_get:
  assumes "jnorm (PDict d) = jnorm (PDict e)" "distinct (map fst d)" "distinct (map fst e)"
  shows "map_option jnorm (map_of d k) = map_option jnorm (map_of e k)"
proof -
  have "map_of (sort_members (map (\<lambda>kv. (fst kv, jnorm (snd kv))) d)) k = map_option jnorm (map_of d k)"
    if "distinct (map fst d)" for d :: dict
    using that by (subst map_of_sort_members) (simp_all add: comp_def map_of_map_values)
  from this [OF assms(2)] this [OF assms(3)] assms(1) show ?thesis by simp
qed

lemma jnorm_strings:
  assumes "str_values v" "str_values w" "jnorm v = jnorm w"
  shows "v = w"
proof -
  have "map jnorm xs = xs" if "\<forall>x \<in> set xs. as_str x \<noteq> None" for xs
    using that by (induction xs) auto
  with assms show ?thesis
    by (cases v; cases w) (auto simp: str_values_def)
qed

lemma jnorm_attachments:
  assumes "attachment_shape a" "attachment_shape b" "jnorm a = jnorm b"
  shows "a = b"
proof -
  from assms(1) obtain cr mt nm sh n where a: "a = PDict [(lit ''content_ref'', PStr cr),
    (lit ''media_type'', PStr mt), (lit ''name'', PStr nm), (lit ''sha256'', PStr sh), (lit ''size'', PInt n)]"
    by (auto simp: attachment_shape_def)
  from assms(2) obtain cr' mt' nm' sh' n' where b: "b = PDict [(lit ''content_ref'', PStr cr'),
    (lit ''media_type'', PStr mt'), (lit ''name'', PStr nm'), (lit ''sha256'', PStr sh'), (lit ''size'', PInt n')]"
    by (auto simp: attachment_shape_def)
  note g = jnorm_dict_get [OF assms(3) [unfolded a b]]
  show ?thesis
    using g [of "lit ''content_ref''"] g [of "lit ''media_type''"] g [of "lit ''name''"]
      g [of "lit ''sha256''"] g [of "lit ''size''"] by (simp add: a b)
qed

lemma jnorm_attachment_lists:
  "map jnorm xs = map jnorm ys \<Longrightarrow> \<forall>a \<in> set xs. attachment_shape a \<Longrightarrow>
     \<forall>a \<in> set ys. attachment_shape a \<Longrightarrow> xs = ys"
proof (induction xs arbitrary: ys)
  case (Cons x xs)
  then obtain y ys' where ys: "ys = y # ys'" by (cases ys) auto
  have "x = y"
    by (rule jnorm_attachments) (use Cons.prems ys in simp_all)
  moreover have "xs = ys'"
    by (rule Cons.IH) (use Cons.prems ys in simp_all)
  ultimately show ?case using ys by simp
qed simp

lemma jnorm_canonical:
  assumes c: "canonical_shape c m" and d: "canonical_shape d n"
    and eq: "jnorm (PDict c) = jnorm (PDict d)"
  shows "c = d \<and> m = n"
proof -
  from c obtain ah to cc bcc subj fmt cont atts where
    c': "c = canonical_dict ah to cc bcc subj fmt cont atts m" and
    cs: "str_values to" "str_values cc" "str_values bcc" "\<forall>a \<in> set atts. attachment_shape a"
      "m = PNone \<or> (\<exists>s. m = PStr s)"
    by (auto simp: canonical_shape_def)
  from d obtain ah' to' cc' bcc' subj' fmt' cont' atts' where
    d': "d = canonical_dict ah' to' cc' bcc' subj' fmt' cont' atts' n" and
    ds: "str_values to'" "str_values cc'" "str_values bcc'" "\<forall>a \<in> set atts'. attachment_shape a"
      "n = PNone \<or> (\<exists>s. n = PStr s)"
    by (auto simp: canonical_shape_def)
  have dist: "distinct (map fst c)" "distinct (map fst d)"
    by (simp_all add: c' d' canonical_dict_def)
  note get = jnorm_dict_get [OF eq dist]
  note defs = c' d' canonical_dict_def
  have "ah = ah'" using get [of "lit ''account_handle''"] by (simp add: defs)
  moreover have "subj = subj'" using get [of "lit ''subject''"] by (simp add: defs)
  moreover have "to = to'" "cc = cc'" "bcc = bcc'"
    using get [of "lit ''to''"] get [of "lit ''cc''"] get [of "lit ''bcc''"] cs ds
    by (auto simp: defs intro: jnorm_strings)
  moreover have "fmt = fmt'" "cont = cont'"
  proof -
    have body: "jnorm (PDict [(lit ''format'', PStr fmt), (lit ''content'', PStr cont)]) =
        jnorm (PDict [(lit ''format'', PStr fmt'), (lit ''content'', PStr cont')])"
      using get [of "lit ''body''"] by (simp add: defs)
    show "fmt = fmt'" "cont = cont'"
      using jnorm_dict_get [OF body, of "lit ''format''"] jnorm_dict_get [OF body, of "lit ''content''"]
      by simp_all
  qed
  moreover have "atts = atts'"
    by (rule jnorm_attachment_lists) (use get [of "lit ''attachments''"] cs(4) ds(4) in \<open>simp_all add: defs\<close>)
  moreover have "m = n"
    using get [of "lit ''message_id''"] cs ds by (auto simp: defs split: if_splits)
  ultimately show ?thesis by (simp add: c' d')
qed

subsection \<open>The fixed point\<close>

lemma optional_str_list_id:
  "map_of d k = Some v \<Longrightarrow> str_values v \<Longrightarrow> optional_str_list d k = Inr v"
  by (cases v) (auto simp: optional_str_list_def dget_def str_list_def str_values_def rguard_def)

lemma attachment_list_id:
  assumes "map_of d (lit ''attachments'') = Some (PList atts)" and "\<forall>a \<in> set atts. attachment_shape a"
  shows "attachment_list d = Inr atts"
proof -
  have "traverse normalize_attachment atts = Inr (map (\<lambda>a. a) atts)"
    using assms(2) normalize_attachment_id by (intro traverse_InrI) blast
  with assms(1) show ?thesis by (simp add: attachment_list_def dget_def)
qed

lemma rebuild:
  assumes "canonical_shape c m" and "m' = PNone \<or> (\<exists>s. m' = PStr s \<and> s \<noteq> [])"
  shows "build_canonical_payload (PDict (take 7 c)) m' =
    Inr (take 7 c @ (if m' = PNone then [] else [(lit ''message_id'', m')]))"
proof -
  from assms(1) obtain ah to cc bcc subj fmt cont atts where
    c: "c = canonical_dict ah to cc bcc subj fmt cont atts m" and
    cs: "str_values to" "str_values cc" "str_values bcc" "\<forall>a \<in> set atts. attachment_shape a"
    by (auto simp: canonical_shape_def)
  let ?d = "canonical_dict ah to cc bcc subj fmt cont atts PNone"
  have t: "take 7 c = ?d"
    by (simp add: c canonical_dict_def)
  have "build_canonical_payload (PDict ?d) m' = Inr (canonical_dict ah to cc bcc subj fmt cont atts m')"
    unfolding build_ok_iff
  proof (intro conjI exI)
    show "optional_str_list ?d (lit ''cc'') = Inr cc" "optional_str_list ?d (lit ''bcc'') = Inr bcc"
      by (rule optional_str_list_id; simp add: canonical_dict_def cs)+
    show "attachment_list ?d = Inr atts"
      by (rule attachment_list_id) (simp_all add: canonical_dict_def cs)
  qed (use assms(2) cs in \<open>auto simp: canonical_dict_def top_level_allowed_def body_keys_def\<close>)
  then show ?thesis by (simp add: t canonical_dict_def)
qed

subsection \<open>Properties\<close>

text \<open>
  The schema is closed: a payload is accepted only if it is an object whose members all
  belong to the schema, and what is then approved has exactly the schema's members with the
  schema's types, every attachment with a non-negative integer size, and the
  Message-ID the gateway injected, never one from the input.
\<close>

theorem build_canonical_payload_closed:
  assumes "build_canonical_payload p m = Inr c"
  shows "canonical_shape c m \<and> dget c (lit ''message_id'') = m \<and>
    (\<exists>d. p = PDict d \<and> (\<forall>kv \<in> set d. fst kv \<in> set top_level_allowed))"
proof -
  from assms obtain d where d: "p = PDict d" using build_dict by blast
  with assms have "\<forall>kv \<in> set d. fst kv \<in> set top_level_allowed"
    using build_ok_iff by blast
  moreover from build_shape [OF assms] have "dget c (lit ''message_id'') = m"
    by (auto simp: canonical_shape_def canonical_dict_def dget_def)
  ultimately show ?thesis using build_shape [OF assms] d by blast
qed

definition sample_prepare :: dict where
  "sample_prepare =
     [(lit ''subject'', PStr (lit ''hi'')), (lit ''account_handle'', PStr (lit ''me'')),
      (lit ''to'', PList [PStr (lit ''a@b'')]), (lit ''idempotency_key'', PStr (lit ''k'')),
      (lit ''body'', PDict [(lit ''format'', PStr (lit ''text'')), (lit ''content'', PStr (lit ''x''))])]"

definition sample_canonical :: dict where
  "sample_canonical = canonical_dict (lit ''me'') (PList [PStr (lit ''a@b'')]) (PList []) (PList [])
     (lit ''hi'') (lit ''text'') (lit ''x'') [] (PStr (lit ''id''))"

lemma sample_build: "build_canonical_payload (PDict sample_prepare) (PStr (lit ''id'')) = Inr sample_canonical"
  by code_simp

theorem build_canonical_payload_closed_witness:
  "build_canonical_payload (PDict sample_prepare) (PStr (lit ''id'')) = Inr sample_canonical \<and>
   canonical_shape sample_canonical (PStr (lit ''id''))"
  using build_canonical_payload_closed [OF sample_build] sample_build by blast

text \<open>
  Neither the idempotency key nor the order of the members leaves a trace: two inputs
  that agree on every other member have the same canonical payload, or fail alike.
\<close>

theorem build_canonical_payload_frame:
  assumes "\<And>k. k \<noteq> lit ''idempotency_key'' \<Longrightarrow> map_of d k = map_of e k"
  shows "build_canonical_payload (PDict d) m = build_canonical_payload (PDict e) m \<and>
    payload_digest H (PDict d) m = payload_digest H (PDict e) m"
  using build_cong [of d e m, OF assms] by (simp add: payload_digest_def)

theorem build_canonical_payload_frame_witness:
  "build_canonical_payload (PDict (rev (dset sample_prepare (lit ''idempotency_key'') (PStr (lit ''z''))))) PNone =
   build_canonical_payload (PDict sample_prepare) PNone"
proof -
  have "map_of (rev (dset sample_prepare (lit ''idempotency_key'') (PStr (lit ''z'')))) k = map_of sample_prepare k"
    if "k \<noteq> lit ''idempotency_key''" for k
    using that by (simp add: sample_prepare_def)
  from build_canonical_payload_frame [OF this, where H = "\<lambda>b. b"] show ?thesis by blast
qed

text \<open>
  The normal form is a fixed point: an approved payload without its Message-ID, fed back
  through the builder with any valid Message-ID, is accepted and comes back unchanged.
\<close>

theorem build_canonical_payload_idempotent:
  assumes "build_canonical_payload p m = Inr c" and "m' = PNone \<or> (\<exists>s. m' = PStr s \<and> s \<noteq> [])"
  shows "build_canonical_payload (PDict (take 7 c)) m' =
    Inr (take 7 c @ (if m' = PNone then [] else [(lit ''message_id'', m')]))"
  by (rule rebuild [OF build_shape [OF assms(1)] assms(2)])

theorem build_canonical_payload_idempotent_witness:
  "build_canonical_payload (PDict (take 7 sample_canonical)) PNone = Inr (take 7 sample_canonical)"
  using build_canonical_payload_idempotent [OF sample_build, of PNone] by simp

text \<open>
  C16. The digest an operator approves fixes every byte that can be sent: two inputs with the
  same digest have the same canonical payload, Message-ID included, unless their
  canonical byte strings are a collision of the hash function.
\<close>

theorem payload_digest_binds:
  assumes "payload_digest H p m = Inr h" and "payload_digest H q n = Inr h"
  shows "build_canonical_payload p m = build_canonical_payload q n \<and> m = n \<or>
    (\<exists>c d a b. build_canonical_payload p m = Inr c \<and> build_canonical_payload q n = Inr d \<and>
       canonicalize (PDict c) = Inr a \<and> canonicalize (PDict d) = Inr b \<and> a \<noteq> b \<and> H a = H b)"
proof -
  from assms(1) obtain c a where c: "build_canonical_payload p m = Inr c"
    "canonicalize (PDict c) = Inr a" "h = H a"
    by (auto simp: payload_digest_def digest_def pm_inv)
  from assms(2) obtain d b where d: "build_canonical_payload q n = Inr d"
    "canonicalize (PDict d) = Inr b" "h = H b"
    by (auto simp: payload_digest_def digest_def pm_inv)
  show ?thesis
  proof (cases "a = b")
    case True
    have "jnorm (PDict c) = jnorm (PDict d)"
      using canonicalize_inj c(2) d(2) True by blast
    from jnorm_canonical [OF build_shape [OF c(1)] build_shape [OF d(1)] this] c d
    show ?thesis by simp
  next
    case False
    with c d show ?thesis by auto
  qed
qed

theorem payload_digest_binds_witness:
  "payload_digest (\<lambda>b. b) (PDict sample_prepare) (PStr (lit ''id'')) =
   payload_digest (\<lambda>b. b) (PDict (take 7 sample_canonical)) (PStr (lit ''id'')) \<and>
   build_canonical_payload (PDict sample_prepare) (PStr (lit ''id'')) =
   build_canonical_payload (PDict (take 7 sample_canonical)) (PStr (lit ''id''))"
proof -
  let ?p = "payload_digest (\<lambda>b. b) (PDict sample_prepare) (PStr (lit ''id''))"
  have "jcs_ok (PDict sample_canonical)"
    by code_simp
  then have "\<exists>h. ?p = Inr h"
    unfolding canonicalize_ok_iff [symmetric]
    by (auto simp: payload_digest_def sample_build digest_def)
  then obtain h where h: "?p = Inr h" by blast
  moreover have "payload_digest (\<lambda>b. b) (PDict (take 7 sample_canonical)) (PStr (lit ''id'')) = ?p"
    by code_simp
  ultimately show ?thesis
    using payload_digest_binds [OF h, of "PDict (take 7 sample_canonical)" "PStr (lit ''id'')"] by auto
qed

text \<open>
  An optional member with a falsy value of any type (\<open>False\<close>, \<open>0\<close>, \<open>""\<close>, \<open>{}\<close>, \<open>None\<close>) is
  read as the empty list: the type test of \<open>cc\<close>, \<open>bcc\<close> and \<open>attachments\<close> only
  applies to truthy values.
\<close>

theorem falsy_optional_member:
  assumes "\<not> truthy v" and "k \<in> {lit ''cc'', lit ''bcc'', lit ''attachments''}"
  shows "build_canonical_payload (PDict (dset d k v)) m = build_canonical_payload (PDict (dset d k (PList []))) m"
proof -
  have keys: "reject_unknown (dset d k v) ks = reject_unknown (dset d k (PList [])) ks" for ks
    unfolding reject_unknown_def map_of_keys by simp
  have "require (dset d k v) j = require (dset d k (PList [])) j" if "j \<noteq> k" for j
    using that by (simp add: require_def)
  moreover have "optional_str_list (dset d k v) j = optional_str_list (dset d k (PList [])) j" for j
    using assms(1) by (simp add: optional_str_list_def dget_def)
  moreover have "attachment_list (dset d k v) = attachment_list (dset d k (PList []))"
    using assms(1) by (simp add: attachment_list_def dget_def)
  ultimately show ?thesis
    using assms(2) by (auto simp: build_canonical_payload_def require_dict_def keys)
qed

theorem falsy_optional_member_witness:
  "build_canonical_payload (PDict (dset sample_prepare (lit ''cc'') (PBool False))) (PStr (lit ''id'')) =
   Inr sample_canonical"
proof -
  have "build_canonical_payload (PDict (dset sample_prepare (lit ''cc'') (PList []))) (PStr (lit ''id'')) =
      Inr sample_canonical"
    by code_simp
  with falsy_optional_member [of "PBool False" "lit ''cc''" sample_prepare "PStr (lit ''id'')"]
  show ?thesis by simp
qed

end
