(* ===== verification/Actionset.thy ===== *)
theory Actionset
  imports Payload
begin

text \<open>
  \<open>actionset/\<close>: the closed catalog of Agent actions, the PrepareEmail projection and the
  established action set with its read-only switch.  The id source is a callable of the
  caller, so the projection is a method over the caller's state: the lemmas show that it is
  called exactly when the payload has passed both gates.
\<close>

definition prepare_email_name :: pystr where
  "prepare_email_name = lit ''PrepareEmail''"

definition agent_actions :: "pystr list" where
  "agent_actions = [prepare_email_name]"

definition is_agent_action :: "pystr \<Rightarrow> bool" where
  "is_agent_action name \<longleftrightarrow> name \<in> set agent_actions"

definition require_agent_action :: "pystr \<Rightarrow> pystr res" where
  "require_agent_action name =
     (if name \<notin> set agent_actions then Inl (Canon UnknownActionError) else Inr name)"

record prepare_email_result =
  per_proposal_id :: pystr
  per_payload_digest :: pystr
  per_expires_at :: int

definition prepare_email ::
  "(bytes \<Rightarrow> pystr) \<Rightarrow> pyval \<Rightarrow> int \<Rightarrow> int \<Rightarrow> ('s, pystr) pm \<Rightarrow> pyval \<Rightarrow> ('s, prepare_email_result) pm" where
  "prepare_email H params now ttl_seconds proposal_id_factory message_id =
     pbind (plift (rguard (0 \<le> now) (Py ValueError))) (\<lambda>_.
     pbind (plift (rguard (0 < ttl_seconds) (Py ValueError))) (\<lambda>_.
     pbind (plift (build_canonical_payload params message_id)) (\<lambda>canonical.
     pbind (plift (enforce_v1_send_policy canonical)) (\<lambda>_.
     pbind proposal_id_factory (\<lambda>pid.
     pbind (plift (digest H (PDict canonical))) (\<lambda>h.
     preturn \<lparr>per_proposal_id = pid, per_payload_digest = h, per_expires_at = now + ttl_seconds\<rparr>))))))"

datatype switch_mode = CONFIRM_THEN_SEND | AUTO_SEND_WHEN_AGENT_UNREACHABLE

fun switch_value :: "switch_mode \<Rightarrow> pystr" where
  "switch_value CONFIRM_THEN_SEND = lit ''confirm_then_send''"
| "switch_value AUTO_SEND_WHEN_AGENT_UNREACHABLE = lit ''auto_send_when_agent_unreachable''"

record action_set =
  as_switch_mode :: switch_mode

definition as_actions :: "action_set \<Rightarrow> pystr list" where
  "as_actions A = agent_actions"

definition as_project ::
  "(bytes \<Rightarrow> pystr) \<Rightarrow> action_set \<Rightarrow> pystr \<Rightarrow> pyval \<Rightarrow> int \<Rightarrow> int \<Rightarrow> ('s, pystr) pm \<Rightarrow> pyval \<Rightarrow>
     ('s, prepare_email_result) pm" where
  "as_project H A name params now ttl_seconds proposal_id_factory message_id =
     pbind (plift (require_agent_action name)) (\<lambda>_.
     if name = prepare_email_name
     then prepare_email H params now ttl_seconds proposal_id_factory message_id
     else praise (Py AssertionError))"

lemma enforce_canonical:
  "enforce_v1_send_policy (canonical_dict ah to cc bcc subj fmt cont atts m) =
     (if atts \<noteq> [] then Inl (Canon AttachmentsNotSupportedError)
      else rguard (fmt = lit ''text'') (Canon PayloadSchemaError))"
  by (simp add: canonical_dict_def enforce_v1_send_policy_def dindex_def subscript_def)

lemma enforce_ok_iff:
  assumes "canonical_shape c m"
  shows "enforce_v1_send_policy c = Inr u \<longleftrightarrow>
    dget c (lit ''attachments'') = PList [] \<and>
    (\<exists>cont. dget c (lit ''body'') = PDict [(lit ''format'', PStr (lit ''text'')), (lit ''content'', PStr cont)])"
  using assms
  by (auto simp: canonical_shape_def enforce_canonical pm_inv split: if_splits) (simp_all add: canonical_dict_def dget_def)

text \<open>Every way \<open>prepare_email\<close> returns, and the state it leaves.\<close>

lemma prepare_email_ok_iff:
  "prepare_email H params now ttl f m s = (Inr r, t) \<longleftrightarrow>
     0 \<le> now \<and> 0 < ttl \<and> (\<exists>c h pid. build_canonical_payload params m = Inr c \<and>
       enforce_v1_send_policy c = Inr () \<and> f s = (Inr pid, t) \<and> digest H (PDict c) = Inr h \<and>
       r = \<lparr>per_proposal_id = pid, per_payload_digest = h, per_expires_at = now + ttl\<rparr>)"
  unfolding prepare_email_def by (simp add: pm_inv) blast

lemma as_project_ok_iff:
  "as_project H A name params now ttl f m s = (Inr r, t) \<longleftrightarrow>
     name = prepare_email_name \<and> prepare_email H params now ttl f m s = (Inr r, t)"
  by (auto simp: as_project_def require_agent_action_def agent_actions_def pm_inv)

subsection \<open>Properties\<close>

text \<open>
  A projection that returns was asked for PrepareEmail with a payload inside the closed
  schema, text only and without attachments; the digest returned is that of the
  canonical payload, the expiry lies after now, and the only effect is one call of
  the id source.
\<close>

theorem project_sound:
  assumes "as_project H A name params now ttl f m s = (Inr r, t)"
  shows "name = prepare_email_name \<and> payload_digest H params m = Inr (per_payload_digest r) \<and>
    f s = (Inr (per_proposal_id r), t) \<and> now < per_expires_at r \<and>
    (\<exists>c cont. build_canonical_payload params m = Inr c \<and> canonical_shape c m \<and>
       dget c (lit ''attachments'') = PList [] \<and>
       dget c (lit ''body'') = PDict [(lit ''format'', PStr (lit ''text'')), (lit ''content'', PStr cont)])"
proof -
  from assms obtain c h pid where
    n: "name = prepare_email_name" and time: "0 < ttl" and
    c: "build_canonical_payload params m = Inr c" and e: "enforce_v1_send_policy c = Inr ()" and
    r: "f s = (Inr pid, t)" "digest H (PDict c) = Inr h"
      "r = \<lparr>per_proposal_id = pid, per_payload_digest = h, per_expires_at = now + ttl\<rparr>"
    by (auto simp: as_project_ok_iff prepare_email_ok_iff)
  from e enforce_ok_iff [OF build_shape [OF c]] build_shape [OF c] n time c r show ?thesis
    by (auto simp: payload_digest_def)
qed

theorem project_sound_witness:
  "\<exists>r. as_project (\<lambda>b. b) \<lparr>as_switch_mode = CONFIRM_THEN_SEND\<rparr> (lit ''PrepareEmail'') (PDict sample_prepare)
     5 10 (preturn (lit ''p'')) (PStr (lit ''id'')) () = (Inr r, ()) \<and>
     payload_digest (\<lambda>b. b) (PDict sample_prepare) (PStr (lit ''id'')) = Inr (per_payload_digest r)"
proof -
  have "jcs_ok (PDict sample_canonical)" by code_simp
  then obtain b where b: "canonicalize (PDict sample_canonical) = Inr b"
    using canonicalize_ok_iff by blast
  have e: "enforce_v1_send_policy sample_canonical = Inr ()" by code_simp
  let ?r = "\<lparr>per_proposal_id = lit ''p'', per_payload_digest = b, per_expires_at = 5 + 10\<rparr>"
  have "as_project (\<lambda>b. b) \<lparr>as_switch_mode = CONFIRM_THEN_SEND\<rparr> (lit ''PrepareEmail'') (PDict sample_prepare)
     5 10 (preturn (lit ''p'')) (PStr (lit ''id'')) () = (Inr ?r, ())"
    unfolding as_project_ok_iff prepare_email_ok_iff
    using sample_build e b by (simp add: prepare_email_name_def digest_def preturn_def)
  from project_sound [OF this] this show ?thesis by blast
qed

text \<open>
  Everything else fails closed and changes nothing: an action outside the catalog raises
  \<open>UnknownActionError\<close> before the payload is even looked at, and a payload that fails the
  schema or the v1 gate raises before the id source is called.
\<close>

theorem project_fails_closed:
  "(name \<notin> set (as_actions A) \<longrightarrow>
      as_project H A name params now ttl f m s = (Inl (Canon UnknownActionError), s)) \<and>
   (build_canonical_payload params m = Inl e \<and> 0 \<le> now \<and> 0 < ttl \<longrightarrow>
      as_project H A prepare_email_name params now ttl f m s = (Inl e, s)) \<and>
   (build_canonical_payload params m = Inr c \<and> enforce_v1_send_policy c = Inl e \<and> 0 \<le> now \<and> 0 < ttl \<longrightarrow>
      as_project H A prepare_email_name params now ttl f m s = (Inl e, s))"
  by (auto simp: as_project_def prepare_email_def require_agent_action_def agent_actions_def
      as_actions_def rguard_def pm_simps)

theorem project_fails_closed_witness:
  "as_project (\<lambda>b. b) \<lparr>as_switch_mode = CONFIRM_THEN_SEND\<rparr> (lit ''SendEmail'') (PDict sample_prepare) 5 10
     (preturn (lit ''p'')) PNone () = (Inl (Canon UnknownActionError), ())"
  using project_fails_closed [of "lit ''SendEmail''" "\<lparr>as_switch_mode = CONFIRM_THEN_SEND\<rparr>" "\<lambda>b. b"
      "PDict sample_prepare" 5 10 "preturn (lit ''p'')" PNone "()"]
  by (simp add: as_actions_def agent_actions_def prepare_email_name_def)

end
