(* ===== verification/Send_Fsm.thy ===== *)
theory Send_Fsm
  imports World Actionset
begin

text \<open>
  \<open>sendfsm/fsm.py\<close> and \<open>ConfirmDispatcher\<close> of \<open>gateway/send_path.py\<close>: the send state machine over the
  proposal store, the audit ledger and an injected sender.  Store, ledger and sender act on one
  state, as the injected objects do; the sender is an arbitrary method of it.
\<close>

datatype actor = HUMAN | AUTO_UNREACHABLE

fun actor_value :: "actor \<Rightarrow> pystr" where
  "actor_value HUMAN = lit ''human''"
| "actor_value AUTO_UNREACHABLE = lit ''auto_unreachable''"

datatype send_result_kind = ACCEPTED | REJECTED | INDETERMINATE

record send_result =
  sr_kind :: send_result_kind
  sr_message_id_sha256 :: "pystr option"
  sr_thread_id_sha256 :: "pystr option"
  sr_error_code :: "pystr option"
  sr_egress_hosts :: "pystr list"

record 's send_fsm =
  fsm_store :: "'s kv"
  fsm_ledger :: "'s append_log"
  fsm_sender :: "pystr \<Rightarrow> ('s, send_result) pm"
  fsm_switch_mode :: switch_mode

definition fsm_confirm ::
  "'s send_fsm \<Rightarrow> pystr \<Rightarrow> actor \<Rightarrow> int \<Rightarrow> bool option \<Rightarrow> ('s, unit) pm" where
  "fsm_confirm F pid actor now agent_reachable =
     pbind (ps_get_live (fsm_store F) pid now) (\<lambda>p.
     if p_status p \<noteq> PENDING then praise (Fsm IllegalTransitionError)
     else if actor = AUTO_UNREACHABLE \<and> fsm_switch_mode F \<noteq> AUTO_SEND_WHEN_AGENT_UNREACHABLE
     then praise (Fsm AutoSendNotEnabledError)
     else if actor = AUTO_UNREACHABLE \<and> agent_reachable \<noteq> Some False
     then praise (Fsm AgentUnreachableRequiredError)
     else pbind (ps_set_status (fsm_store F) pid CONFIRMED) (\<lambda>_.
       ledger_record (fsm_ledger F) ((audit_event0 PROPOSAL_CONFIRMED now pid)
         \<lparr>ae_payload_digest := Some (p_payload_digest p), ae_outcome := Some (actor_value actor)\<rparr>)))"

definition fsm_settle_unknown ::
  "'s send_fsm \<Rightarrow> pystr \<Rightarrow> int \<Rightarrow> pystr option \<Rightarrow> pystr list \<Rightarrow> ('s, proposal_status) pm" where
  "fsm_settle_unknown F pid now error_code egress_hosts =
     pbind (ps_set_status (fsm_store F) pid OUTCOME_UNKNOWN) (\<lambda>_.
     pbind (ledger_record (fsm_ledger F) ((audit_event0 SEND_OUTCOME_UNKNOWN now pid)
       \<lparr>ae_outcome := Some (lit ''indeterminate''), ae_error_code := error_code,
        ae_egress_hosts := egress_hosts\<rparr>)) (\<lambda>_.
     preturn OUTCOME_UNKNOWN))"

text \<open>What \<open>dispatch\<close> does with the sender's result.\<close>

definition fsm_settle :: "'s send_fsm \<Rightarrow> pystr \<Rightarrow> int \<Rightarrow> send_result \<Rightarrow> ('s, proposal_status) pm" where
  "fsm_settle F pid now result = (case sr_kind result of
     ACCEPTED \<Rightarrow>
       pbind (ps_set_status (fsm_store F) pid SENT) (\<lambda>_.
       pbind (ledger_record (fsm_ledger F) ((audit_event0 SEND_SUCCEEDED now pid)
         \<lparr>ae_outcome := Some (lit ''accepted''), ae_message_id_sha256 := sr_message_id_sha256 result,
          ae_thread_id_sha256 := sr_thread_id_sha256 result, ae_egress_hosts := sr_egress_hosts result\<rparr>)) (\<lambda>_.
       preturn SENT))
   | REJECTED \<Rightarrow>
       pbind (ps_set_status (fsm_store F) pid FAILED) (\<lambda>_.
       pbind (ledger_record (fsm_ledger F) ((audit_event0 SEND_FAILED now pid)
         \<lparr>ae_outcome := Some (lit ''rejected''), ae_error_code := sr_error_code result,
          ae_egress_hosts := sr_egress_hosts result\<rparr>)) (\<lambda>_.
       preturn FAILED))
   | INDETERMINATE \<Rightarrow> fsm_settle_unknown F pid now (sr_error_code result) (sr_egress_hosts result))"

text \<open>
  \<open>except Exception\<close> around the sender catches every exception of the model.  \<open>SystemExit\<close>, which it lets through in
  Python, is the exception of the command-line entry points alone: no sender of the repository raises it.
\<close>

definition fsm_dispatch :: "'s send_fsm \<Rightarrow> pystr \<Rightarrow> int \<Rightarrow> ('s, proposal_status) pm" where
  "fsm_dispatch F pid now =
     pbind (ps_get (fsm_store F) pid) (\<lambda>p.
     if p_status p = OUTCOME_UNKNOWN then praise (Fsm NoAutoRetryError)
     else if p_status p \<in> {SENT, FAILED} then praise (Fsm AlreadySettledError)
     else if p_status p \<noteq> CONFIRMED then praise (Fsm IllegalTransitionError)
     else pbind (ledger_record (fsm_ledger F) ((audit_event0 SEND_ATTEMPTED now pid)
         \<lparr>ae_payload_digest := Some (p_payload_digest p)\<rparr>)) (\<lambda>_.
       ptry (fsm_sender F pid)
         (\<lambda>_. fsm_settle_unknown F pid now (Some (lit ''sender_raised'')) [])
         (fsm_settle F pid now)))"

definition fsm_expire :: "'s send_fsm \<Rightarrow> pystr \<Rightarrow> int \<Rightarrow> ('s, proposal_status) pm" where
  "fsm_expire F pid now =
     pbind (ps_get (fsm_store F) pid) (\<lambda>p.
     if p_status p \<noteq> PENDING then praise (Fsm IllegalTransitionError)
     else if now < p_expires_at p then praise (Fsm IllegalTransitionError)
     else pbind (ps_set_status (fsm_store F) pid FAILED) (\<lambda>_.
       pbind (ledger_record (fsm_ledger F) ((audit_event0 PROPOSAL_EXPIRED now pid)
         \<lparr>ae_outcome := Some (lit ''expired'')\<rparr>)) (\<lambda>_.
       preturn FAILED)))"

text \<open>\<open>ConfirmDispatcher.confirm_and_dispatch\<close>, with the clock \<open>now\<close> of the caller.\<close>

definition confirm_and_dispatch :: "'s send_fsm \<Rightarrow> ('s, int) pm \<Rightarrow> pystr \<Rightarrow> ('s, pystr) pm" where
  "confirm_and_dispatch F clock pid =
     pbind clock (\<lambda>now.
     pbind (fsm_confirm F pid HUMAN now None) (\<lambda>_.
     pbind (fsm_dispatch F pid now) (\<lambda>st.
     preturn (status_value st))))"

text \<open>Sequences of calls from all the callers of the machine and of the store; a caller goes on after
  an exception.  \<open>FDispatch\<close> is a bare \<open>dispatch\<close>, which the gateway itself never issues.\<close>

datatype fsm_op =
    FCreate proposal
  | FConfirm pystr actor int "bool option"
  | FConfirmDispatch pystr int
  | FExpire pystr int
  | FDispatch pystr int

definition ignore :: "('s, 'a) pm \<Rightarrow> 's \<Rightarrow> 's" where
  "ignore m s = snd (m s)"

fun fsm_do :: "'s send_fsm \<Rightarrow> fsm_op \<Rightarrow> 's \<Rightarrow> 's" where
  "fsm_do F (FCreate p) = ignore (ps_create (fsm_store F) p)"
| "fsm_do F (FConfirm pid actor now reachable) = ignore (fsm_confirm F pid actor now reachable)"
| "fsm_do F (FConfirmDispatch pid now) = ignore (confirm_and_dispatch F (preturn now) pid)"
| "fsm_do F (FExpire pid now) = ignore (fsm_expire F pid now)"
| "fsm_do F (FDispatch pid now) = ignore (fsm_dispatch F pid now)"

definition fsm_run :: "'s send_fsm \<Rightarrow> fsm_op list \<Rightarrow> 's \<Rightarrow> 's" where
  "fsm_run F ops s = fold (fsm_do F) ops s"

fun is_dispatch :: "fsm_op \<Rightarrow> bool" where
  "is_dispatch (FDispatch pid now) = True"
| "is_dispatch _ = False"

subsection \<open>What the machine relies on\<close>

definition status_at :: "(pystr \<Rightarrow> dict option) \<Rightarrow> pystr \<Rightarrow> proposal_status option" where
  "status_at m pid = (case m pid of None \<Rightarrow> None | Some d \<Rightarrow>
     (case proposal_from_dict d of Inl _ \<Rightarrow> None | Inr p \<Rightarrow> Some (p_status p)))"

lemma status_at_read:
  "m pid = Some d \<Longrightarrow> proposal_from_dict d = Inr p \<Longrightarrow> status_at m pid = Some (p_status p)"
  by (simp add: status_at_def)

lemma status_at_write [simp]:
  "status_at (m(pid \<mapsto> proposal_to_dict p)) = (status_at m)(pid \<mapsto> p_status p)"
  by (auto simp: status_at_def)

text \<open>The transitions of the module's docstring.\<close>

inductive fsm_edge :: "proposal_status \<Rightarrow> proposal_status \<Rightarrow> bool" where
  confirm: "fsm_edge PENDING CONFIRMED"
| expire: "fsm_edge PENDING FAILED"
| settle: "terminal st \<Longrightarrow> fsm_edge CONFIRMED st"

inductive_simps fsm_edge_terminal: "fsm_edge SENT st" "fsm_edge FAILED st" "fsm_edge OUTCOME_UNKNOWN st"

lemma terminal_stays: "rtranclp fsm_edge a b \<Longrightarrow> terminal a \<Longrightarrow> b = a"
  by (induction rule: rtranclp_induct) (auto simp: terminal_def fsm_edge_terminal)

text \<open>Nothing the machine does removes a status, and every change follows the edges.\<close>

definition progress :: "(pystr \<Rightarrow> dict option) \<Rightarrow> (pystr \<Rightarrow> dict option) \<Rightarrow> bool" where
  "progress m m' \<longleftrightarrow> (\<forall>q a. status_at m q = Some a \<longrightarrow>
     (\<exists>b. status_at m' q = Some b \<and> rtranclp fsm_edge a b))"

lemma progress_same: "status_at m' = status_at m \<Longrightarrow> progress m m'"
  by (auto simp: progress_def)

lemma progress_trans: "progress k l \<Longrightarrow> progress l m \<Longrightarrow> progress k m"
  unfolding progress_def by (meson rtranclp_trans)

lemma progress_edge:
  "status_at m pid = Some a \<Longrightarrow> fsm_edge a st \<Longrightarrow> status_at m' = (status_at m)(pid \<mapsto> st) \<Longrightarrow> progress m m'"
  by (auto simp: progress_def)

lemma progress_keep:
  "(\<And>q d. m q = Some d \<Longrightarrow> m' q = Some d) \<Longrightarrow> progress m m'"
  by (auto simp: progress_def status_at_def split: option.splits sum.splits)

text \<open>The machine's collaborators: an atomic store, an atomic ledger and a sender that leaves both
  alone.  \<open>sent\<close> is the history of the sender's calls.\<close>

locale fsm_env = store: kv_atomic "fsm_store F" rows inv + ledger: log_atomic "fsm_ledger F" entries linv
  for F :: "'s send_fsm" and rows :: "'s \<Rightarrow> pystr \<Rightarrow> dict option" and inv :: "'s \<Rightarrow> bool"
    and entries :: "'s \<Rightarrow> dict list" and linv :: "'s \<Rightarrow> bool" +
  fixes sent :: "'s \<Rightarrow> pystr list"
  assumes get_frame: "kv_get (fsm_store F) k s = (g, t) \<Longrightarrow>
      entries t = entries s \<and> linv t = linv s \<and> sent t = sent s"
    and put_frame: "kv_put (fsm_store F) k v s = (u, t) \<Longrightarrow>
      entries t = entries s \<and> linv t = linv s \<and> sent t = sent s"
    and claim_frame: "kv_claim (fsm_store F) k v s = (c, t) \<Longrightarrow>
      entries t = entries s \<and> linv t = linv s \<and> sent t = sent s"
    and delete_frame: "kv_delete (fsm_store F) k s = (u, t) \<Longrightarrow>
      entries t = entries s \<and> linv t = linv s \<and> sent t = sent s"
    and append_frame: "log_append (fsm_ledger F) e s = (u, t) \<Longrightarrow>
      rows t = rows s \<and> inv t = inv s \<and> sent t = sent s"
    and sender_frame: "fsm_sender F pid s = (x, t) \<Longrightarrow>
      rows t = rows s \<and> inv t = inv s \<and> entries t = entries s \<and> linv t = linv s \<and>
      sent t = pid # sent s"
begin

definition good :: "'s \<Rightarrow> bool" where
  "good s \<longleftrightarrow> inv s \<and> linv s"

text \<open>A read of the store.\<close>

lemma read_step:
  assumes "good s" "ps_get (fsm_store F) pid s = (r, t)"
  shows "good t \<and> rows t = rows s \<and> entries t = entries s \<and> sent t = sent s \<and>
    (\<forall>p. r = Inr p \<longrightarrow> (\<exists>d. rows s pid = Some d \<and> proposal_from_dict d = Inr p))"
proof -
  obtain g u where g: "kv_get (fsm_store F) pid s = (g, u)" by fastforce
  have "t = u"
    using assms(2) g by (auto simp: ps_get_def pm_simps split: sum.splits option.splits)
  with get_frame [OF g] store.get_step [of s pid r t] assms show ?thesis
    by (simp add: good_def)
qed

lemma read_live_step:
  assumes "good s" "ps_get_live (fsm_store F) pid now s = (r, t)"
  shows "good t \<and> rows t = rows s \<and> entries t = entries s \<and> sent t = sent s \<and>
    (\<forall>p. r = Inr p \<longrightarrow> (\<exists>d. rows s pid = Some d \<and> proposal_from_dict d = Inr p) \<and>
       0 \<le> now \<and> (terminal (p_status p) \<or> now < p_expires_at p))"
proof -
  obtain g u where g: "ps_get (fsm_store F) pid s = (g, u)" by fastforce
  have "t = u"
    using assms(2) g by (auto simp: ps_get_live_def pm_simps split: sum.splits if_splits)
  with read_step [OF assms(1) g] store.get_live_step [of s pid now r t] assms show ?thesis
    by (simp add: good_def)
qed

text \<open>A change of status: it happens in full, or not at all.\<close>

lemma write_step:
  assumes "good s" "ps_set_status (fsm_store F) pid st s = (r, t)"
  shows "good t \<and> entries t = entries s \<and> sent t = sent s \<and>
    (status_at (rows t) = status_at (rows s) \<and> (\<exists>e. r = Inl e) \<or>
     status_at (rows t) = (status_at (rows s))(pid \<mapsto> st) \<and> status_at (rows s) pid \<noteq> None \<and> (\<exists>p. r = Inr p))"
proof -
  obtain g u where g: "ps_get (fsm_store F) pid s = (g, u)" by fastforce
  note gs = read_step [OF assms(1) g]
  have fr: "linv t = linv u \<and> entries t = entries u \<and> sent t = sent u"
  proof (cases g)
    case (Inl e)
    with assms(2) g show ?thesis by (simp add: ps_set_status_def pm_simps)
  next
    case (Inr p)
    obtain x v where x: "kv_put (fsm_store F) pid (proposal_to_dict (p\<lparr>p_status := st\<rparr>)) u = (x, v)"
      by fastforce
    with assms(2) g Inr have "t = v"
      by (auto simp: ps_set_status_def pm_simps split: sum.splits)
    with put_frame [OF x] show ?thesis by simp
  qed
  have "inv s" using assms(1) by (simp add: good_def)
  from store.set_status_step [OF this assms(2)] fr gs show ?thesis
    by (auto simp: good_def status_at_read)
qed

lemma record_step:
  assumes "good s" "ledger_record (fsm_ledger F) e s = (r, t)"
  shows "good t \<and> rows t = rows s \<and> sent t = sent s \<and>
    entries t = (case r of Inl _ \<Rightarrow> entries s | Inr _ \<Rightarrow> entries s @ [event_to_dict e])"
proof -
  have "rows t = rows s \<and> inv t = inv s \<and> sent t = sent s"
  proof (cases "0 \<le> ae_at e")
    case True
    with assms(2) have "log_append (fsm_ledger F) (event_to_dict e) s = (r, t)"
      by (simp add: ledger_record_def pm_simps rguard_def)
    then show ?thesis by (rule append_frame)
  next
    case False
    with assms(2) show ?thesis by (simp add: ledger_record_def pm_simps rguard_def)
  qed
  with ledger.record_atomic [of s e r t] assms show ?thesis by (simp add: good_def)
qed

text \<open>A status change followed by its audit entry, the tail of every transition.\<close>

lemma settle_step:
  assumes "good s"
    and "pbind (ps_set_status (fsm_store F) pid st) (\<lambda>_. pbind (ledger_record (fsm_ledger F) e) (\<lambda>_. preturn a)) s = (r, t)"
  shows "good t \<and> sent t = sent s \<and> (\<exists>new. entries t = entries s @ new) \<and>
    (status_at (rows t) = status_at (rows s) \<and> (\<exists>e. r = Inl e) \<or>
     status_at (rows t) = (status_at (rows s))(pid \<mapsto> st)) \<and> (\<forall>b. r = Inr b \<longrightarrow> b = a)"
proof -
  obtain g u where g: "ps_set_status (fsm_store F) pid st s = (g, u)" by fastforce
  note gs = write_step [OF assms(1) g]
  obtain h v where h: "ledger_record (fsm_ledger F) e u = (h, v)" by fastforce
  from gs have "good u" by blast
  note hs = record_step [OF this h]
  show ?thesis
  proof (cases g)
    case (Inl x)
    with assms(2) g gs show ?thesis by (auto simp: pm_simps)
  next
    case (Inr x)
    with assms(2) g h have "t = v \<and> (\<forall>b. r = Inr b \<longrightarrow> b = a)"
      by (auto simp: pm_simps split: sum.splits)
    with gs hs Inr show ?thesis by (cases h) auto
  qed
qed

lemma settle_result_step:
  assumes "good s" "fsm_settle F pid now x s = (r, t)"
  shows "good t \<and> sent t = sent s \<and> (\<exists>new. entries t = entries s @ new) \<and>
    (status_at (rows t) = status_at (rows s) \<and> (\<exists>e. r = Inl e) \<or>
     (\<exists>st. terminal st \<and> status_at (rows t) = (status_at (rows s))(pid \<mapsto> st))) \<and>
    (\<forall>b. r = Inr b \<longrightarrow> terminal b)"
proof -
  obtain st e where "terminal st" and
    "pbind (ps_set_status (fsm_store F) pid st) (\<lambda>_. pbind (ledger_record (fsm_ledger F) e) (\<lambda>_. preturn st)) s = (r, t)"
    using assms(2) that by (cases "sr_kind x") (auto simp: fsm_settle_def fsm_settle_unknown_def terminal_def)
  from settle_step [OF assms(1) this(2)] this(1) show ?thesis by blast
qed

lemma settle_unknown_step:
  assumes "good s" "fsm_settle_unknown F pid now c h s = (r, t)"
  shows "good t \<and> sent t = sent s \<and> (\<exists>new. entries t = entries s @ new) \<and>
    (status_at (rows t) = status_at (rows s) \<and> (\<exists>e. r = Inl e) \<or>
     status_at (rows t) = (status_at (rows s))(pid \<mapsto> OUTCOME_UNKNOWN)) \<and>
    (\<forall>b. r = Inr b \<longrightarrow> b = OUTCOME_UNKNOWN)"
  by (rule settle_step [OF assms(1) assms(2) [unfolded fsm_settle_unknown_def]])

subsection \<open>The transitions\<close>

text \<open>Gate 7: who may confirm.\<close>

definition may_confirm :: "actor \<Rightarrow> bool option \<Rightarrow> bool" where
  "may_confirm actor reachable \<longleftrightarrow> actor = AUTO_UNREACHABLE \<longrightarrow>
     fsm_switch_mode F = AUTO_SEND_WHEN_AGENT_UNREACHABLE \<and> reachable = Some False"

lemma confirm_step:
  assumes s: "good s" and c: "fsm_confirm F pid actor now reachable s = (r, t)"
  shows "good t \<and> sent t = sent s \<and> (\<exists>new. entries t = entries s @ new) \<and>
    (status_at (rows t) = status_at (rows s) \<and> (\<exists>e. r = Inl e) \<or>
     status_at (rows s) pid = Some PENDING \<and> may_confirm actor reachable \<and>
     status_at (rows t) = (status_at (rows s))(pid \<mapsto> CONFIRMED))"
proof -
  obtain g u where g: "ps_get_live (fsm_store F) pid now s = (g, u)" by fastforce
  note gs = read_live_step [OF s g]
  show ?thesis
  proof (cases g)
    case (Inl e)
    with c g gs show ?thesis by (auto simp: fsm_confirm_def pm_simps)
  next
    case (Inr p)
    let ?ok = "p_status p = PENDING \<and> may_confirm actor reachable"
    show ?thesis
    proof (cases ?ok)
      case False
      with c g Inr have "u = t \<and> (\<exists>e. r = Inl e)"
        by (auto simp: fsm_confirm_def may_confirm_def pm_simps split: if_splits)
      with gs show ?thesis by auto
    next
      case True
      define e where "e = (audit_event0 PROPOSAL_CONFIRMED now pid)
         \<lparr>ae_payload_digest := Some (p_payload_digest p), ae_outcome := Some (actor_value actor)\<rparr>"
      have "pbind (ps_set_status (fsm_store F) pid CONFIRMED)
          (\<lambda>_. pbind (ledger_record (fsm_ledger F) e) (\<lambda>_. preturn ())) u = (r, t)"
        using c g Inr True
        by (auto simp: fsm_confirm_def may_confirm_def pm_simps e_def split: prod.splits sum.splits)
      from settle_step [OF _ this] gs have
        "good t \<and> sent t = sent s \<and> (\<exists>new. entries t = entries s @ new)" and
        "status_at (rows t) = status_at (rows s) \<and> (\<exists>e. r = Inl e) \<or>
         status_at (rows t) = (status_at (rows s))(pid \<mapsto> CONFIRMED)"
        by auto
      moreover have "status_at (rows s) pid = Some PENDING"
        using gs Inr True status_at_read by auto
      ultimately show ?thesis using True by blast
    qed
  qed
qed

lemma dispatch_step:
  assumes s: "good s" and c: "fsm_dispatch F pid now s = (r, t)"
  shows "good t \<and> (\<exists>new. entries t = entries s @ new) \<and>
    (sent t = sent s \<and> status_at (rows t) = status_at (rows s) \<and> (\<exists>e. r = Inl e) \<or>
     status_at (rows s) pid = Some CONFIRMED \<and> sent t = pid # sent s \<and>
     (\<exists>d \<in> set (entries t). entry_is SEND_ATTEMPTED pid d) \<and>
     (status_at (rows t) = status_at (rows s) \<and> (\<exists>e. r = Inl e) \<or>
      (\<exists>st. terminal st \<and> status_at (rows t) = (status_at (rows s))(pid \<mapsto> st))))"
proof -
  obtain g u where g: "ps_get (fsm_store F) pid s = (g, u)" by fastforce
  note gs = read_step [OF s g]
  show ?thesis
  proof (cases "\<exists>p. g = Inr p \<and> p_status p = CONFIRMED")
    case False
    with c g have "u = t \<and> (\<exists>e. r = Inl e)"
      by (cases g; cases "p_status (projr g)") (auto simp: fsm_dispatch_def pm_simps)
    with gs show ?thesis by auto
  next
    case True
    then obtain p where p: "g = Inr p" "p_status p = CONFIRMED" by blast
    with gs have st: "status_at (rows s) pid = Some CONFIRMED"
      using status_at_read by auto
    define e where "e = (audit_event0 SEND_ATTEMPTED now pid) \<lparr>ae_payload_digest := Some (p_payload_digest p)\<rparr>"
    obtain h v where h: "ledger_record (fsm_ledger F) e u = (h, v)" by fastforce
    from gs have u: "good u" by blast
    note hs = record_step [OF u h]
    have go: "fsm_dispatch F pid now s = (case h of Inl x \<Rightarrow> (Inl x, v) | Inr _ \<Rightarrow>
        ptry (fsm_sender F pid) (\<lambda>_. fsm_settle_unknown F pid now (Some (lit ''sender_raised'')) [])
          (fsm_settle F pid now) v)"
      using g p h by (simp add: fsm_dispatch_def pm_simps e_def)
    show ?thesis
    proof (cases h)
      case (Inl x)
      with go c gs hs show ?thesis by auto
    next
      case (Inr x)
      obtain y w where y: "fsm_sender F pid v = (y, w)" by fastforce
      note ys = sender_frame [OF y]
      have w: "good w" "status_at (rows w) = status_at (rows s)" "sent w = pid # sent s"
        "entries w = entries s @ [event_to_dict e]"
        using gs hs ys Inr by (auto simp: good_def)
      have "good t \<and> sent t = sent w \<and> (\<exists>new. entries t = entries w @ new) \<and>
          (status_at (rows t) = status_at (rows w) \<and> (\<exists>e. r = Inl e) \<or>
           (\<exists>st. terminal st \<and> status_at (rows t) = (status_at (rows w))(pid \<mapsto> st)))"
      proof (cases y)
        case (Inl z)
        with go c Inr y have "fsm_settle_unknown F pid now (Some (lit ''sender_raised'')) [] w = (r, t)"
          by (simp add: ptry_def)
        from settle_unknown_step [OF w(1) this] show ?thesis by (auto simp: terminal_def)
      next
        case (Inr z)
        with go c \<open>h = Inr x\<close> y have "fsm_settle F pid now z w = (r, t)"
          by (simp add: ptry_def)
        from settle_result_step [OF w(1) this] show ?thesis by blast
      qed
      moreover have "entry_is SEND_ATTEMPTED pid (event_to_dict e)"
        by (simp add: e_def audit_event0_def)
      ultimately show ?thesis using w st by auto
    qed
  qed
qed

lemma expire_step:
  assumes s: "good s" and c: "fsm_expire F pid now s = (r, t)"
  shows "good t \<and> sent t = sent s \<and> (\<exists>new. entries t = entries s @ new) \<and>
    (status_at (rows t) = status_at (rows s) \<and> (\<exists>e. r = Inl e) \<or>
     status_at (rows s) pid = Some PENDING \<and> status_at (rows t) = (status_at (rows s))(pid \<mapsto> FAILED))"
proof -
  obtain g u where g: "ps_get (fsm_store F) pid s = (g, u)" by fastforce
  note gs = read_step [OF s g]
  show ?thesis
  proof (cases "\<exists>p. g = Inr p \<and> p_status p = PENDING \<and> p_expires_at p \<le> now")
    case False
    with c g have "u = t \<and> (\<exists>e. r = Inl e)"
      by (cases g) (auto simp: fsm_expire_def pm_simps split: if_splits)
    with gs show ?thesis by auto
  next
    case True
    then obtain p where p: "g = Inr p" "p_status p = PENDING" "p_expires_at p \<le> now" by blast
    define e where "e = (audit_event0 PROPOSAL_EXPIRED now pid) \<lparr>ae_outcome := Some (lit ''expired'')\<rparr>"
    have "pbind (ps_set_status (fsm_store F) pid FAILED)
        (\<lambda>_. pbind (ledger_record (fsm_ledger F) e) (\<lambda>_. preturn FAILED)) u = (r, t)"
      using c g p by (auto simp: fsm_expire_def pm_simps e_def)
    from settle_step [OF _ this] gs have
      "good t \<and> sent t = sent s \<and> (\<exists>new. entries t = entries s @ new)" and
      "status_at (rows t) = status_at (rows s) \<and> (\<exists>e. r = Inl e) \<or>
       status_at (rows t) = (status_at (rows s))(pid \<mapsto> FAILED)"
      by auto
    moreover have "status_at (rows s) pid = Some PENDING"
      using gs p status_at_read by auto
    ultimately show ?thesis by blast
  qed
qed

text \<open>A new proposal touches no existing row.\<close>

lemma new_step:
  assumes s: "good s" and c: "ps_create (fsm_store F) p s = (r, t)"
  shows "good t \<and> sent t = sent s \<and> entries t = entries s \<and> (\<forall>q d. rows s q = Some d \<longrightarrow> rows t q = Some d)"
proof -
  have "entries t = entries s \<and> linv t = linv s \<and> sent t = sent s"
    using c
    by (auto simp: ps_create_def ps_claim_def pm_simps split: prod.splits sum.splits if_splits option.splits
        dest!: get_frame put_frame claim_frame delete_frame)
  moreover have "inv s" using s by (simp add: good_def)
  ultimately show ?thesis
    using store.create_step [OF _ c] s by (auto simp: good_def Let_def)
qed

subsection \<open>Sequences of calls\<close>

text \<open>Every send so far was attempted on record and left its proposal past PENDING.\<close>

definition evidence :: "'s \<Rightarrow> bool" where
  "evidence s \<longleftrightarrow> good s \<and> (\<forall>pid \<in> set (sent s).
     (\<exists>d \<in> set (entries s). entry_is SEND_ATTEMPTED pid d) \<and>
     (\<exists>st. status_at (rows s) pid = Some st \<and> st \<noteq> PENDING))"

definition sent_once :: "'s \<Rightarrow> bool" where
  "sent_once s \<longleftrightarrow> evidence s \<and> (\<forall>pid. count_list (sent s) pid \<le> 1)"

lemma evidence_same:
  assumes "evidence s" "good t" "sent t = sent s" "\<exists>new. entries t = entries s @ new"
    "progress (rows s) (rows t)"
  shows "evidence t"
  unfolding evidence_def
proof (intro conjI ballI)
  show "good t" by fact
  fix pid assume "pid \<in> set (sent t)"
  with assms(1,3) obtain d st where d: "d \<in> set (entries s)" "entry_is SEND_ATTEMPTED pid d"
    and st: "status_at (rows s) pid = Some st" "st \<noteq> PENDING"
    by (auto simp: evidence_def)
  from assms(5) st(1) obtain b where b: "status_at (rows t) pid = Some b" "rtranclp fsm_edge st b"
    by (auto simp: progress_def)
  have "b \<noteq> PENDING"
    using b(2) st(2) by (induction rule: rtranclp_induct) (auto elim: fsm_edge.cases simp: terminal_def)
  with b show "\<exists>st. status_at (rows t) pid = Some st \<and> st \<noteq> PENDING" by blast
  from d assms(4) show "\<exists>d \<in> set (entries t). entry_is SEND_ATTEMPTED pid d" by auto
qed

lemma sent_once_same:
  assumes "sent_once s" "good t" "sent t = sent s" "\<exists>new. entries t = entries s @ new"
    "progress (rows s) (rows t)"
  shows "sent_once t"
  using evidence_same [OF _ assms(2-5)] assms(1,3) by (simp add: sent_once_def)

lemma confirm_progress:
  assumes "good s" "fsm_confirm F pid actor now reachable s = (r, t)"
  shows "progress (rows s) (rows t)"
  using confirm_step [OF assms] progress_same progress_edge fsm_edge.confirm by metis

lemma dispatch_progress:
  assumes "good s" "fsm_dispatch F pid now s = (r, t)"
  shows "progress (rows s) (rows t)"
  using dispatch_step [OF assms] progress_same progress_edge fsm_edge.settle by metis

lemma expire_progress:
  assumes "good s" "fsm_expire F pid now s = (r, t)"
  shows "progress (rows s) (rows t)"
  using expire_step [OF assms] progress_same progress_edge fsm_edge.expire by metis

lemma dispatch_evidence:
  assumes s: "evidence s" and c: "fsm_dispatch F pid now s = (r, t)"
  shows "evidence t"
proof -
  from s have g: "good s" by (simp add: evidence_def)
  note d = dispatch_step [OF g c]
  show ?thesis
  proof (cases "sent t = sent s")
    case True
    with evidence_same [OF s _ True] d dispatch_progress [OF g c] show ?thesis by blast
  next
    case False
    with d have sent: "sent t = pid # sent s"
      and e: "\<exists>d \<in> set (entries t). entry_is SEND_ATTEMPTED pid d"
      and st: "status_at (rows s) pid = Some CONFIRMED"
        "status_at (rows t) = status_at (rows s) \<or>
         (\<exists>st. terminal st \<and> status_at (rows t) = (status_at (rows s))(pid \<mapsto> st))"
      by blast+
    from st have at: "\<exists>st. status_at (rows t) pid = Some st \<and> st \<noteq> PENDING"
      by (auto simp: terminal_def)
    have other: "(\<exists>d \<in> set (entries t). entry_is SEND_ATTEMPTED q d) \<and>
        (\<exists>st. status_at (rows t) q = Some st \<and> st \<noteq> PENDING)"
      if q: "q \<in> set (sent s)" "q \<noteq> pid" for q
    proof -
      from d obtain new where "entries t = entries s @ new" by blast
      moreover from st(2) q(2) have "status_at (rows t) q = status_at (rows s) q" by auto
      ultimately show ?thesis using s q(1) by (auto simp: evidence_def)
    qed
    show ?thesis
      unfolding evidence_def sent using d e at other by (metis set_ConsD)
  qed
qed

lemma confirm_evidence:
  assumes "evidence s" "fsm_confirm F pid actor now reachable s = (r, t)"
  shows "evidence t"
proof -
  from assms(1) have g: "good s" by (simp add: evidence_def)
  from evidence_same [OF assms(1)] confirm_step [OF g assms(2)] confirm_progress [OF g assms(2)]
  show ?thesis by blast
qed

text \<open>Confirming and dispatching in one call: the send happens only behind a fresh confirmation.\<close>

lemma confirm_dispatch_steps:
  assumes "confirm_and_dispatch F (preturn now) pid s = (r, t)"
  obtains (refused) e where "fsm_confirm F pid HUMAN now None s = (Inl e, t)" "r = Inl e"
  | (confirmed) u q where "fsm_confirm F pid HUMAN now None s = (Inr (), u)"
      "fsm_dispatch F pid now u = (q, t)" "r = rmap status_value q"
proof -
  obtain g u where g: "fsm_confirm F pid HUMAN now None s = (g, u)" by fastforce
  show thesis
  proof (cases g)
    case (Inl e)
    with assms g refused show thesis by (simp add: confirm_and_dispatch_def pm_simps)
  next
    case (Inr x)
    obtain q v where q: "fsm_dispatch F pid now u = (q, v)" by fastforce
    with assms g Inr have "v = t" "r = rmap status_value q"
      by (cases q; simp add: confirm_and_dispatch_def pm_simps)+
    with confirmed g q Inr show thesis by simp
  qed
qed

lemma confirm_dispatch_sends:
  assumes s: "evidence s" and c: "confirm_and_dispatch F (preturn now) pid s = (r, t)"
  shows "evidence t \<and> progress (rows s) (rows t) \<and>
    (sent t = sent s \<or> sent t = pid # sent s \<and> pid \<notin> set (sent s))"
  using c
proof (cases rule: confirm_dispatch_steps)
  case (refused e)
  have g: "good s" using s by (simp add: evidence_def)
  from confirm_evidence [OF s refused(1)] confirm_step [OF g refused(1)] confirm_progress [OF g refused(1)]
  show ?thesis by blast
next
  case (confirmed u q)
  have g: "good s" using s by (simp add: evidence_def)
  note c1 = confirm_step [OF g confirmed(1)]
  from c1 have gu: "good u" and su: "sent u = sent s" by auto
  have eu: "evidence u" by (rule confirm_evidence [OF s confirmed(1)])
  from c1 have "status_at (rows s) pid = Some PENDING" by auto
  with s have "pid \<notin> set (sent s)" by (auto simp: evidence_def)
  moreover have "progress (rows s) (rows t)"
    using confirm_progress [OF g confirmed(1)] dispatch_progress [OF gu confirmed(2)] progress_trans by blast
  ultimately show ?thesis
    using dispatch_step [OF gu confirmed(2)] dispatch_evidence [OF eu confirmed(2)] su by metis
qed

lemma new_progress:
  assumes "good s" "ps_create (fsm_store F) p s = (r, t)"
  shows "progress (rows s) (rows t)"
  using new_step [OF assms] by (intro progress_keep) blast

text \<open>One call of any kind.\<close>

lemma do_evidence:
  assumes s: "evidence s"
  shows "evidence (fsm_do F x s) \<and> progress (rows s) (rows (fsm_do F x s)) \<and>
    (is_dispatch x \<or> sent (fsm_do F x s) = sent s \<or>
     (\<exists>pid. sent (fsm_do F x s) = pid # sent s \<and> pid \<notin> set (sent s)))"
proof -
  have g: "good s" using s by (simp add: evidence_def)
  show ?thesis
  proof (cases x)
    case (FCreate p)
    obtain r t where c: "ps_create (fsm_store F) p s = (r, t)" by fastforce
    from evidence_same [OF s] new_step [OF g c] new_progress [OF g c]
    have "evidence t \<and> progress (rows s) (rows t) \<and> sent t = sent s" by (metis append_Nil2)
    with FCreate c show ?thesis by (simp add: ignore_def)
  next
    case (FConfirm pid actor now reachable)
    obtain r t where c: "fsm_confirm F pid actor now reachable s = (r, t)" by fastforce
    from confirm_evidence [OF s c] confirm_step [OF g c] confirm_progress [OF g c] FConfirm c
    show ?thesis by (simp add: ignore_def)
  next
    case (FConfirmDispatch pid now)
    obtain r t where c: "confirm_and_dispatch F (preturn now) pid s = (r, t)" by fastforce
    from confirm_dispatch_sends [OF s c] FConfirmDispatch c show ?thesis by (auto simp: ignore_def)
  next
    case (FExpire pid now)
    obtain r t where c: "fsm_expire F pid now s = (r, t)" by fastforce
    note e = expire_step [OF g c] expire_progress [OF g c]
    then have "evidence t" using evidence_same [OF s] by blast
    with e FExpire c show ?thesis by (simp add: ignore_def)
  next
    case (FDispatch pid now)
    obtain r t where c: "fsm_dispatch F pid now s = (r, t)" by fastforce
    from dispatch_evidence [OF s c] dispatch_progress [OF g c] FDispatch c
    show ?thesis by (simp add: ignore_def)
  qed
qed

lemma run_evidence:
  "evidence s \<Longrightarrow> evidence (fsm_run F ops s) \<and> progress (rows s) (rows (fsm_run F ops s))"
proof (induction ops arbitrary: s)
  case (Cons x ops)
  from do_evidence [OF Cons.prems, of x] Cons.IH [of "fsm_do F x s"] progress_trans
  show ?case by (auto simp: fsm_run_def)
qed (simp add: fsm_run_def progress_same)

lemma run_sent_once:
  "sent_once s \<Longrightarrow> \<not> (\<exists>x \<in> set ops. is_dispatch x) \<Longrightarrow> sent_once (fsm_run F ops s)"
proof (induction ops arbitrary: s)
  case (Cons x ops)
  have "sent_once (fsm_do F x s)"
    using do_evidence [of s x] Cons.prems by (auto simp: sent_once_def count_list_0_iff)
  with Cons show ?case by (simp add: fsm_run_def)
qed (simp add: fsm_run_def)

end

subsection \<open>The gateway's machine\<close>

text \<open>The injected sender: any method of the payload store and the environment; the call is noted in
  the history variable.\<close>

type_synonym 'e sender = "pystr \<Rightarrow> (kv_rows sqlite \<times> 'e, send_result) pm"

definition world_sender :: "'e sender \<Rightarrow> pystr \<Rightarrow> ('e world, send_result) pm" where
  "world_sender send pid w = (case send pid (w_payloads w, w_env w) of (r, pl, e) \<Rightarrow>
     (r, w\<lparr>w_payloads := pl, w_env := e, w_sent := pid # w_sent w\<rparr>))"

definition gateway_fsm :: "'e sender \<Rightarrow> switch_mode \<Rightarrow> 'e world send_fsm" where
  "gateway_fsm send mode = \<lparr>fsm_store = proposals_db, fsm_ledger = audit_db,
     fsm_sender = world_sender send, fsm_switch_mode = mode\<rparr>"

lemma gateway_fsm_simps [simp]:
  "fsm_store (gateway_fsm send mode) = proposals_db"
  "fsm_ledger (gateway_fsm send mode) = audit_db"
  "fsm_sender (gateway_fsm send mode) = world_sender send"
  "fsm_switch_mode (gateway_fsm send mode) = mode"
  by (simp_all add: gateway_fsm_def)

interpretation pdb: kv_live proposals_db proposal_rows "\<lambda>w. clean (w_proposals w)" "\<lambda>w. healthy (w_proposals w)"
  unfolding proposals_db_def proposal_rows_def
  by (rule kv_live_lift [OF sqlite.kv_live_axioms]) (simp_all add: put_proposals_def)

interpretation adb: log_atomic audit_db audit_rows "\<lambda>w. clean (w_audit w)"
  unfolding audit_db_def audit_rows_def
  by (rule log_atomic_lift [OF sqlite_audit.log_atomic_axioms]) (simp add: put_audit_def)

interpretation gw: fsm_env "gateway_fsm send mode" proposal_rows "\<lambda>w. clean (w_proposals w)"
  audit_rows "\<lambda>w. clean (w_audit w)" w_sent for send mode
proof (rule fsm_env.intro, goal_cases)
  case 1
  show ?case using pdb.kv_atomic_axioms by simp
next
  case 2
  show ?case using adb.log_atomic_axioms by simp
next
  case 3
  show ?case
    by unfold_locales
      (auto simp: proposals_db_def audit_db_def lift_pm_iff put_proposals_def put_audit_def audit_rows_def
        proposal_rows_def world_sender_def split: prod.splits)
qed

lemma world_good: "gw.good w \<longleftrightarrow> clean (w_proposals w) \<and> clean (w_audit w)"
  by (simp add: gw.good_def)

subsection \<open>Two callers at once\<close>

text \<open>One call of \<open>confirm_and_dispatch\<close> cut at the accesses to the stores, which are atomic under the
  backend's lock; between them another thread of the server may run.\<close>

datatype thread = Start | Confirming proposal | Confirmed proposal | Dispatching | Attempting proposal
  | Sending | Done "pystr res"

definition next_thread :: "('s, 'a) pm \<Rightarrow> ('a \<Rightarrow> thread) \<Rightarrow> 's \<Rightarrow> thread \<times> 's" where
  "next_thread m k s = (case m s of (Inl e, t) \<Rightarrow> (Done (Inl e), t) | (Inr a, t) \<Rightarrow> (k a, t))"

fun thread_step :: "'s send_fsm \<Rightarrow> pystr \<Rightarrow> int \<Rightarrow> thread \<Rightarrow> 's \<Rightarrow> thread \<times> 's" where
  "thread_step F pid now Start s = next_thread (ps_get_live (fsm_store F) pid now)
     (\<lambda>p. if p_status p \<noteq> PENDING then Done (Inl (Fsm IllegalTransitionError)) else Confirming p) s"
| "thread_step F pid now (Confirming p) s =
     next_thread (ps_set_status (fsm_store F) pid CONFIRMED) (\<lambda>_. Confirmed p) s"
| "thread_step F pid now (Confirmed p) s =
     next_thread (ledger_record (fsm_ledger F) ((audit_event0 PROPOSAL_CONFIRMED now pid)
         \<lparr>ae_payload_digest := Some (p_payload_digest p), ae_outcome := Some (actor_value HUMAN)\<rparr>))
       (\<lambda>_. Dispatching) s"
| "thread_step F pid now Dispatching s = next_thread (ps_get (fsm_store F) pid)
     (\<lambda>p. if p_status p = OUTCOME_UNKNOWN then Done (Inl (Fsm NoAutoRetryError))
        else if p_status p \<in> {SENT, FAILED} then Done (Inl (Fsm AlreadySettledError))
        else if p_status p \<noteq> CONFIRMED then Done (Inl (Fsm IllegalTransitionError))
        else Attempting p) s"
| "thread_step F pid now (Attempting p) s =
     next_thread (ledger_record (fsm_ledger F) ((audit_event0 SEND_ATTEMPTED now pid)
         \<lparr>ae_payload_digest := Some (p_payload_digest p)\<rparr>)) (\<lambda>_. Sending) s"
| "thread_step F pid now Sending s =
     next_thread (ptry (fsm_sender F pid)
         (\<lambda>_. fsm_settle_unknown F pid now (Some (lit ''sender_raised'')) [])
         (fsm_settle F pid now)) (\<lambda>st. Done (Inr (status_value st))) s"
| "thread_step F pid now (Done r) s = (Done r, s)"

fun thread_steps :: "nat \<Rightarrow> 's send_fsm \<Rightarrow> pystr \<Rightarrow> int \<Rightarrow> thread \<Rightarrow> 's \<Rightarrow> thread \<times> 's" where
  "thread_steps 0 F pid now th s = (th, s)"
| "thread_steps (Suc n) F pid now th s =
     (case thread_step F pid now th s of (th', t) \<Rightarrow> thread_steps n F pid now th' t)"

text \<open>Two threads under a schedule: \<open>True\<close> lets the first one step.\<close>

fun two_threads :: "'s send_fsm \<Rightarrow> pystr \<Rightarrow> int \<Rightarrow> bool list \<Rightarrow> thread \<Rightarrow> thread \<Rightarrow> 's \<Rightarrow> thread \<times> thread \<times> 's" where
  "two_threads F pid now [] a b s = (a, b, s)"
| "two_threads F pid now (x # xs) a b s =
     (if x then (case thread_step F pid now a s of (a', t) \<Rightarrow> two_threads F pid now xs a' b t)
      else (case thread_step F pid now b s of (b', t) \<Rightarrow> two_threads F pid now xs a b' t))"

text \<open>Left alone, a thread computes exactly \<open>confirm_and_dispatch\<close>.\<close>

lemma steps_done: "thread_steps n F pid now (Done r) s = (Done r, s)"
  by (induction n) simp_all

lemma thread_alone:
  "thread_steps 6 F pid now Start s =
     (case confirm_and_dispatch F (preturn now) pid s of (r, t) \<Rightarrow> (Done r, t))"
  by (simp add: numeral_eq_Suc next_thread_def confirm_and_dispatch_def fsm_confirm_def fsm_dispatch_def
      pm_simps steps_done split: prod.splits sum.splits)

subsection \<open>The outcome of a dispatch without storage failures\<close>

lemma guarded_append_healthy:
  assumes "healthy s"
  shows "\<exists>t. sqlite_append e s = (Inr (), t) \<and> healthy t \<and> sq_committed t = sq_committed s @ [e]"
  using assms by (simp add: sqlite_append_def pbind_def healthy_live write_commit_healthy healthy_commit)

lemma record_returns:
  assumes "healthy (w_audit w)" "0 \<le> ae_at e"
  obtains t where "ledger_record audit_db e w = (Inr (), t)" "healthy (w_audit t)"
    "audit_rows t = audit_rows w @ [event_to_dict e]" "w_proposals t = w_proposals w"
    "w_payloads t = w_payloads w" "w_env t = w_env w" "w_sent t = w_sent w"
proof -
  obtain t where t: "sqlite_append (event_to_dict e) (w_audit w) = (Inr (), t)" "healthy t"
    "sq_committed t = sq_committed (w_audit w) @ [event_to_dict e]"
    using guarded_append_healthy [OF assms(1)] by blast
  show thesis
  proof (rule that [of "w\<lparr>w_audit := t\<rparr>"])
    show "ledger_record audit_db e w = (Inr (), w\<lparr>w_audit := t\<rparr>)"
      using t(1) assms(2)
      by (simp add: ledger_record_def pm_simps rguard_def audit_db_def lift_pm_def sqlite_log_def put_audit_def)
  qed (use t in \<open>simp_all add: audit_rows_def\<close>)
qed

lemma set_status_returns:
  assumes "healthy (w_proposals w)" "proposal_rows w pid = Some (proposal_to_dict p)"
  obtains t where "ps_set_status proposals_db pid st w = (Inr (p\<lparr>p_status := st\<rparr>), t)"
    "healthy (w_proposals t)" "proposal_rows t = (proposal_rows w)(pid \<mapsto> proposal_to_dict (p\<lparr>p_status := st\<rparr>))"
    "w_audit t = w_audit w" "w_payloads t = w_payloads w" "w_env t = w_env w" "w_sent t = w_sent w"
proof -
  let ?d = "proposal_to_dict (p\<lparr>p_status := st\<rparr>)"
  obtain t where t: "kv_put proposals_db pid ?d w = (Inr (), t)" "healthy (w_proposals t)"
    "proposal_rows t = (proposal_rows w)(pid \<mapsto> ?d)"
    by (rule pdb.put_returns [OF assms(1)])
  obtain s where s: "t = w\<lparr>w_proposals := s\<rparr>"
    using t(1) by (auto simp: proposals_db_def lift_pm_iff put_proposals_def)
  show thesis
  proof (rule that [of t])
    show "ps_set_status proposals_db pid st w = (Inr (p\<lparr>p_status := st\<rparr>), t)"
      using pdb.get_returns [OF assms] t(1) by (simp add: ps_set_status_def pm_simps)
  qed (use t s in simp_all)
qed

text \<open>The terminal status of each outcome of the sender, and the audit entry that settles it.\<close>

fun outcome_status :: "send_result res \<Rightarrow> proposal_status" where
  "outcome_status (Inl e) = OUTCOME_UNKNOWN"
| "outcome_status (Inr x) = (case sr_kind x of ACCEPTED \<Rightarrow> SENT | REJECTED \<Rightarrow> FAILED | INDETERMINATE \<Rightarrow> OUTCOME_UNKNOWN)"

fun outcome_event :: "send_result res \<Rightarrow> audit_event_type" where
  "outcome_event (Inl e) = SEND_OUTCOME_UNKNOWN"
| "outcome_event (Inr x) = (case sr_kind x of ACCEPTED \<Rightarrow> SEND_SUCCEEDED | REJECTED \<Rightarrow> SEND_FAILED
     | INDETERMINATE \<Rightarrow> SEND_OUTCOME_UNKNOWN)"

lemma settle_returns:
  assumes "healthy (w_proposals w)" "healthy (w_audit w)" "proposal_rows w pid = Some (proposal_to_dict p)"
    "0 \<le> ae_at e"
  shows "\<exists>t. pbind (ps_set_status proposals_db pid st) (\<lambda>_. pbind (ledger_record audit_db e) (\<lambda>_. preturn st)) w = (Inr st, t) \<and>
    proposal_rows t = (proposal_rows w)(pid \<mapsto> proposal_to_dict (p\<lparr>p_status := st\<rparr>)) \<and>
    audit_rows t = audit_rows w @ [event_to_dict e] \<and> w_sent t = w_sent w"
proof -
  obtain u where u: "ps_set_status proposals_db pid st w = (Inr (p\<lparr>p_status := st\<rparr>), u)"
    "healthy (w_proposals u)" "proposal_rows u = (proposal_rows w)(pid \<mapsto> proposal_to_dict (p\<lparr>p_status := st\<rparr>))"
    "w_audit u = w_audit w" "w_payloads u = w_payloads w" "w_env u = w_env w" "w_sent u = w_sent w"
    by (rule set_status_returns [OF assms(1,3)])
  then have "healthy (w_audit u)" using assms(2) by simp
  then obtain t where t: "ledger_record audit_db e u = (Inr (), t)"
    "audit_rows t = audit_rows u @ [event_to_dict e]" "w_proposals t = w_proposals u" "w_sent t = w_sent u"
    using record_returns [OF _ assms(4)] by blast
  have "proposal_rows t = proposal_rows u" "audit_rows u = audit_rows w"
    using t(3) u(4) by (simp_all add: proposal_rows_def audit_rows_def)
  with u t show ?thesis by (simp add: pm_simps)
qed

lemma settle_any_returns:
  assumes "healthy (w_proposals w)" "healthy (w_audit w)" "proposal_rows w pid = Some (proposal_to_dict p)" "0 \<le> now"
  shows "\<exists>t d. (case r of Inl _ \<Rightarrow> fsm_settle_unknown (gateway_fsm send mode) pid now (Some (lit ''sender_raised'')) []
        | Inr x \<Rightarrow> fsm_settle (gateway_fsm send mode) pid now x) w = (Inr (outcome_status r), t) \<and>
    proposal_rows t = (proposal_rows w)(pid \<mapsto> proposal_to_dict (p\<lparr>p_status := outcome_status r\<rparr>)) \<and>
    audit_rows t = audit_rows w @ [d] \<and> entry_is (outcome_event r) pid d \<and> w_sent t = w_sent w"
proof -
  obtain e where
    "(case r of Inl _ \<Rightarrow> fsm_settle_unknown (gateway_fsm send mode) pid now (Some (lit ''sender_raised'')) []
        | Inr x \<Rightarrow> fsm_settle (gateway_fsm send mode) pid now x) =
      pbind (ps_set_status proposals_db pid (outcome_status r))
        (\<lambda>_. pbind (ledger_record audit_db e) (\<lambda>_. preturn (outcome_status r)))"
    and e: "ae_at e = now" "ae_event_type e = outcome_event r" "ae_proposal_id e = pid"
  proof (cases r)
    case (Inl x)
    with that show thesis by (simp add: fsm_settle_unknown_def audit_event0_def)
  next
    case (Inr x)
    with that show thesis
      by (cases "sr_kind x") (simp_all add: fsm_settle_def fsm_settle_unknown_def audit_event0_def)
  qed
  with settle_returns [OF assms(1-3), of e "outcome_status r"] assms(4) show ?thesis
    by (metis entry_is_event)
qed

lemma healthy_dispatch:
  assumes "world_healthy w" and "0 \<le> now" and "proposal_rows w pid = Some (proposal_to_dict p)"
    and "send pid (w_payloads w, w_env w) = (r, pl, e)"
  shows "(p_status p = CONFIRMED \<longrightarrow>
      (\<exists>t a d. fsm_dispatch (gateway_fsm send mode) pid now w = (Inr (outcome_status r), t) \<and>
        proposal_rows t = (proposal_rows w)(pid \<mapsto> proposal_to_dict (p\<lparr>p_status := outcome_status r\<rparr>)) \<and>
        audit_rows t = audit_rows w @ [a, d] \<and> entry_is SEND_ATTEMPTED pid a \<and> entry_is (outcome_event r) pid d \<and>
        w_sent t = pid # w_sent w)) \<and>
    (p_status p \<noteq> CONFIRMED \<longrightarrow> fsm_dispatch (gateway_fsm send mode) pid now w =
      (Inl (Fsm (case p_status p of OUTCOME_UNKNOWN \<Rightarrow> NoAutoRetryError | PENDING \<Rightarrow> IllegalTransitionError
         | _ \<Rightarrow> AlreadySettledError)), w))"
proof (intro conjI impI)
  from assms(1) have h: "healthy (w_proposals w)" "healthy (w_audit w)"
    by (simp_all add: world_healthy_def)
  note get = pdb.get_returns [OF h(1) assms(3)]
  show "fsm_dispatch (gateway_fsm send mode) pid now w =
      (Inl (Fsm (case p_status p of OUTCOME_UNKNOWN \<Rightarrow> NoAutoRetryError | PENDING \<Rightarrow> IllegalTransitionError
         | _ \<Rightarrow> AlreadySettledError)), w)" if "p_status p \<noteq> CONFIRMED"
    using get that by (cases "p_status p") (simp_all add: fsm_dispatch_def pm_simps)
  assume c: "p_status p = CONFIRMED"
  define ev where "ev = (audit_event0 SEND_ATTEMPTED now pid)\<lparr>ae_payload_digest := Some (p_payload_digest p)\<rparr>"
  have at: "0 \<le> ae_at ev" using assms(2) by (simp add: ev_def audit_event0_def)
  obtain u where u: "ledger_record audit_db ev w = (Inr (), u)" "healthy (w_audit u)"
    "audit_rows u = audit_rows w @ [event_to_dict ev]" "w_proposals u = w_proposals w"
    "w_payloads u = w_payloads w" "w_env u = w_env w" "w_sent u = w_sent w"
    by (rule record_returns [OF h(2) at])
  define v where "v = u\<lparr>w_payloads := pl, w_env := e, w_sent := pid # w_sent u\<rparr>"
  have v: "world_sender send pid u = (r, v)" "healthy (w_proposals v)" "healthy (w_audit v)"
    "proposal_rows v = proposal_rows w" "audit_rows v = audit_rows u" "w_sent v = pid # w_sent w"
    using u h(1) assms(4) by (simp_all add: world_sender_def v_def proposal_rows_def audit_rows_def)
  obtain t d where t: "(case r of Inl _ \<Rightarrow> fsm_settle_unknown (gateway_fsm send mode) pid now (Some (lit ''sender_raised'')) []
        | Inr x \<Rightarrow> fsm_settle (gateway_fsm send mode) pid now x) v = (Inr (outcome_status r), t)"
    "proposal_rows t = (proposal_rows v)(pid \<mapsto> proposal_to_dict (p\<lparr>p_status := outcome_status r\<rparr>))"
    "audit_rows t = audit_rows v @ [d]" "entry_is (outcome_event r) pid d" "w_sent t = w_sent v"
    using settle_any_returns [OF v(2,3) _ assms(2), where pid = pid and p = p and r = r and send = send and mode = mode]
      v(4) assms(3) by auto
  have "fsm_dispatch (gateway_fsm send mode) pid now w = (Inr (outcome_status r), t)"
    using get u(1) v(1) t(1) c
    by (cases r) (simp_all add: fsm_dispatch_def pm_simps ev_def)
  moreover have "entry_is SEND_ATTEMPTED pid (event_to_dict ev)"
    by (simp add: ev_def audit_event0_def)
  ultimately show "\<exists>t a d. fsm_dispatch (gateway_fsm send mode) pid now w = (Inr (outcome_status r), t) \<and>
        proposal_rows t = (proposal_rows w)(pid \<mapsto> proposal_to_dict (p\<lparr>p_status := outcome_status r\<rparr>)) \<and>
        audit_rows t = audit_rows w @ [a, d] \<and> entry_is SEND_ATTEMPTED pid a \<and> entry_is (outcome_event r) pid d \<and>
        w_sent t = pid # w_sent w"
    using t v u by auto
qed

lemma healthy_confirm:
  fixes w :: "'e world"
  assumes "world_healthy w" "0 \<le> now" "proposal_rows w pid = Some (proposal_to_dict p)" "p_status p = PENDING"
    "now < p_expires_at p"
  shows "\<exists>t. fsm_confirm (gateway_fsm send mode) pid HUMAN now None w = (Inr (), t) \<and> world_healthy t \<and>
    proposal_rows t = (proposal_rows w)(pid \<mapsto> proposal_to_dict (p\<lparr>p_status := CONFIRMED\<rparr>)) \<and>
    w_sent t = w_sent w \<and> w_env t = w_env w"
proof -
  have h: "healthy (w_proposals w)" "healthy (w_payloads w)" "healthy (w_audit w)"
    using assms(1) by (simp_all add: world_healthy_def)
  obtain u where u: "ps_set_status proposals_db pid CONFIRMED w = (Inr (p\<lparr>p_status := CONFIRMED\<rparr>), u)"
    "healthy (w_proposals u)" "proposal_rows u = (proposal_rows w)(pid \<mapsto> proposal_to_dict (p\<lparr>p_status := CONFIRMED\<rparr>))"
    "w_audit u = w_audit w" "w_payloads u = w_payloads w" "w_env u = w_env w" "w_sent u = w_sent w"
    by (rule set_status_returns [OF h(1) assms(3)])
  have hu: "healthy (w_audit u)" using u(4) h(3) by simp
  let ?e = "(audit_event0 PROPOSAL_CONFIRMED now pid)
     \<lparr>ae_payload_digest := Some (p_payload_digest p), ae_outcome := Some (actor_value HUMAN)\<rparr>"
  have "0 \<le> ae_at ?e" using assms(2) by (simp add: audit_event0_def)
  then obtain t where t: "ledger_record audit_db ?e u = (Inr (), t)" "healthy (w_audit t)"
    "w_proposals t = w_proposals u" "w_payloads t = w_payloads u" "w_env t = w_env u" "w_sent t = w_sent u"
    by (rule record_returns [OF hu])
  have "ps_get_live proposals_db pid now w = (Inr p, w)"
    using pdb.get_returns [OF h(1) assms(3)] assms(2,5)
    by (simp add: ps_get_live_def ps_is_live_def validate_ts_def rguard_def pm_simps)
  with u t assms(4) h show ?thesis
    by (auto simp: fsm_confirm_def pbind_def world_healthy_def proposal_rows_def)
qed

subsection \<open>Properties\<close>

text \<open>
  C1. At most one send per proposal.  From a gateway that has sent nothing, whatever sequence of
  proposals, confirmations, confirm-and-dispatch calls and expiries follows, whatever the sender does,
  and whichever reads, commits and rollbacks of the stores fail, the sender is called at most
  once for each proposal id.  (The calls run one after the other; \<open>confirm_race\<close> is about two at
  once.)
\<close>

theorem at_most_one_send:
  assumes "clean (w_proposals w)" "clean (w_audit w)" "w_sent w = []"
    and "\<forall>x \<in> set ops. \<not> is_dispatch x"
  shows "count_list (w_sent (fsm_run (gateway_fsm send mode) ops w)) pid \<le> 1"
proof -
  have "gw.sent_once w"
    using assms(1-3) by (simp add: gw.sent_once_def gw.evidence_def world_good)
  from gw.run_sent_once [OF this] assms(4) show ?thesis
    by (simp add: gw.sent_once_def)
qed

definition sample_world :: "bool list \<Rightarrow> unit world" where
  "sample_world faults =
    \<lparr>w_proposals = \<lparr>sq_committed = [(lit ''p1'', proposal_to_dict sample_proposal)], sq_pending = None,
       sq_broken = False, sq_faults = faults\<rparr>,
     w_payloads = empty_sqlite [],
     w_audit = \<lparr>sq_committed = [], sq_pending = None, sq_broken = False, sq_faults = []\<rparr>,
     w_sent = [], w_env = ()\<rparr>"

definition accepting :: "unit sender" where
  "accepting pid s = (Inr \<lparr>sr_kind = ACCEPTED, sr_message_id_sha256 = None, sr_thread_id_sha256 = None,
     sr_error_code = None, sr_egress_hosts = []\<rparr>, s)"

lemma sample_world_clean: "clean (w_proposals (sample_world fs))" "clean (w_audit (sample_world fs))"
  by (simp_all add: sample_world_def clean_def)

text \<open>The store fails when the accepted send is settled; the second call does not send again.\<close>

theorem at_most_one_send_witness:
  "let ops = [FConfirmDispatch (lit ''p1'') 12, FConfirmDispatch (lit ''p1'') 13];
     w = sample_world [False, False, False, False, False, False, True]
   in count_list (w_sent (fsm_run (gateway_fsm accepting CONFIRM_THEN_SEND) ops w)) (lit ''p1'') \<le> 1"
  using at_most_one_send [OF sample_world_clean, of _ "[FConfirmDispatch (lit ''p1'') 12, FConfirmDispatch (lit ''p1'') 13]"
      accepting CONFIRM_THEN_SEND "lit ''p1''"]
  by (simp add: Let_def sample_world_def)

text \<open>
  C11. Every send is on record first: in any sequence of calls, bare dispatches included, and under any
  storage failures, each proposal the sender was called for has a durable SEND_ATTEMPTED row in the
  audit log and has left PENDING.
\<close>

theorem send_evidence:
  assumes "clean (w_proposals w)" "clean (w_audit w)" "w_sent w = []"
    and "pid \<in> set (w_sent (fsm_run (gateway_fsm send mode) ops w))"
  shows "(\<exists>d \<in> set (audit_rows (fsm_run (gateway_fsm send mode) ops w)). entry_is SEND_ATTEMPTED pid d) \<and>
    (\<exists>st. status_at (proposal_rows (fsm_run (gateway_fsm send mode) ops w)) pid = Some st \<and> st \<noteq> PENDING)"
proof -
  have "gw.evidence w"
    using assms(1-3) by (simp add: gw.evidence_def world_good)
  from gw.run_evidence [OF this] assms(4) show ?thesis
    by (auto simp: gw.evidence_def)
qed

lemma sample_run:
  "w_sent (fsm_run (gateway_fsm accepting CONFIRM_THEN_SEND) [FConfirmDispatch (lit ''p1'') 12] (sample_world [])) =
     [lit ''p1'']"
  by code_simp

theorem send_evidence_witness:
  "\<exists>d \<in> set (audit_rows (fsm_run (gateway_fsm accepting CONFIRM_THEN_SEND) [FConfirmDispatch (lit ''p1'') 12]
      (sample_world []))). entry_is SEND_ATTEMPTED (lit ''p1'') d"
  using send_evidence [OF sample_world_clean, of "[]" "lit ''p1''" accepting CONFIRM_THEN_SEND
      "[FConfirmDispatch (lit ''p1'') 12]"] sample_run
  by (simp add: sample_world_def)

text \<open>
  C36. The life of a proposal under calls that run one after the other: across any sequence of whole proposals,
  confirmations, confirm-and-dispatch calls, expiries and bare dispatches, whatever the sender does and whichever accesses to the
  stores fail, a proposal never disappears, its status only moves along PENDING to CONFIRMED or FAILED and CONFIRMED to a
  terminal status, and a terminal status stays.  The log of the sender's calls, an observation, starts empty.  It does not hold of
  calls that overlap: there is no compare-and-set between the check and the write of \<open>confirm\<close>, and in the schedule of
  \<open>confirm_race\<close> the second confirmation is written after the first call has passed the same check.
\<close>

theorem status_progress:
  assumes "clean (w_proposals w)" "clean (w_audit w)" "w_sent w = []"
    and "status_at (proposal_rows w) pid = Some a"
  shows "\<exists>b. status_at (proposal_rows (fsm_run (gateway_fsm send mode) ops w)) pid = Some b \<and>
    rtranclp fsm_edge a b \<and> (terminal a \<longrightarrow> b = a)"
proof -
  have "gw.evidence w"
    using assms(1-3) by (simp add: gw.evidence_def world_good)
  from gw.run_evidence [OF this, of send mode ops] assms(4) terminal_stays show ?thesis
    unfolding progress_def by blast
qed

lemma sample_status: "status_at (proposal_rows (sample_world fs)) (lit ''p1'') = Some PENDING"
  by (simp add: sample_world_def proposal_rows_def status_at_def, simp add: sample_proposal_def)

theorem status_progress_witness:
  "\<exists>b. status_at (proposal_rows (fsm_run (gateway_fsm accepting CONFIRM_THEN_SEND)
      [FExpire (lit ''p1'') 30, FConfirmDispatch (lit ''p1'') 12] (sample_world [True]))) (lit ''p1'') = Some b \<and>
    rtranclp fsm_edge PENDING b"
  using status_progress [OF sample_world_clean _ sample_status, of "[True]" accepting CONFIRM_THEN_SEND]
  by (auto simp: sample_world_def)

text \<open>
  Gate 7: a proposal becomes CONFIRMED only from PENDING, only before its expiry, and
  on the automatic path only when the switch is in auto mode and the Agent is definitively
  unreachable; then, without storage failures, one audit row names the actor.  Otherwise
  the call raises and no status changes.
\<close>

theorem confirm_gate:
  assumes "clean (w_proposals w)" "clean (w_audit w)"
    and "fsm_confirm (gateway_fsm send mode) pid actor now reachable w = (r, t)"
  shows "status_at (proposal_rows t) = status_at (proposal_rows w) \<and> (\<exists>e. r = Inl e) \<or>
    status_at (proposal_rows w) pid = Some PENDING \<and>
    status_at (proposal_rows t) = (status_at (proposal_rows w))(pid \<mapsto> CONFIRMED) \<and>
    (actor = AUTO_UNREACHABLE \<longrightarrow> mode = AUTO_SEND_WHEN_AGENT_UNREACHABLE \<and> reachable = Some False) \<and>
    (\<exists>d p. proposal_rows w pid = Some d \<and> proposal_from_dict d = Inr p \<and> 0 \<le> now \<and> now < p_expires_at p)"
proof -
  have g: "gw.good w" using assms(1,2) by (simp add: world_good)
  obtain x u where x: "ps_get_live proposals_db pid now w = (x, u)" by fastforce
  have live: "\<exists>d p. proposal_rows w pid = Some d \<and> proposal_from_dict d = Inr p \<and> 0 \<le> now \<and> now < p_expires_at p"
    if st: "status_at (proposal_rows w) pid = Some PENDING" and changed: "\<not> (\<exists>e. x = Inl e)"
  proof -
    from changed obtain p where p: "x = Inr p" by (cases x) auto
    with pdb.get_live_step [OF assms(1) x] obtain d where
      d: "proposal_rows w pid = Some d" "proposal_from_dict d = Inr p" "0 \<le> now"
        "terminal (p_status p) \<or> now < p_expires_at p" by auto
    with st status_at_read [of "proposal_rows w" pid d p, OF d(1,2)] have "p_status p = PENDING" by simp
    with d show ?thesis by (auto simp: terminal_def)
  qed
  show ?thesis
  proof (cases "\<exists>e. x = Inl e")
    case True
    with assms(3) x have "(\<exists>e. r = Inl e) \<and> t = u" by (auto simp: fsm_confirm_def pm_simps)
    with pdb.get_live_step [OF assms(1) x] show ?thesis by auto
  next
    case False
    with live gw.confirm_step [OF g assms(3)] show ?thesis
      by (simp add: gw.may_confirm_def) blast
  qed
qed

theorem confirm_gate_witness:
  "\<exists>r t. fsm_confirm (gateway_fsm accepting CONFIRM_THEN_SEND) (lit ''p1'') AUTO_UNREACHABLE 12 (Some False)
      (sample_world []) = (Inl r, t) \<and>
    status_at (proposal_rows t) (lit ''p1'') = Some PENDING"
proof -
  obtain r t where c: "fsm_confirm (gateway_fsm accepting CONFIRM_THEN_SEND) (lit ''p1'') AUTO_UNREACHABLE 12
      (Some False) (sample_world []) = (r, t)" by fastforce
  from confirm_gate [OF sample_world_clean c] sample_status c show ?thesis by auto
qed

text \<open>
  The outcome of a dispatch, on every branch: a confirmed proposal on stores that answer is
  sent once, its status and its last audit row are those of the sender's outcome (an
  exception of the sender counts as unknown), and the SEND_ATTEMPTED row comes first.  A
  proposal in any other status is refused with the error of that status and nothing happens.
\<close>

theorem dispatch_outcome:
  assumes "world_healthy w" and "0 \<le> now" and "proposal_rows w pid = Some (proposal_to_dict p)"
    and "send pid (w_payloads w, w_env w) = (r, pl, e)"
  shows "(p_status p = CONFIRMED \<longrightarrow>
      (\<exists>t a d. fsm_dispatch (gateway_fsm send mode) pid now w = (Inr (outcome_status r), t) \<and>
        proposal_rows t = (proposal_rows w)(pid \<mapsto> proposal_to_dict (p\<lparr>p_status := outcome_status r\<rparr>)) \<and>
        audit_rows t = audit_rows w @ [a, d] \<and> entry_is SEND_ATTEMPTED pid a \<and> entry_is (outcome_event r) pid d \<and>
        w_sent t = pid # w_sent w)) \<and>
    (p_status p \<noteq> CONFIRMED \<longrightarrow> fsm_dispatch (gateway_fsm send mode) pid now w =
      (Inl (Fsm (case p_status p of OUTCOME_UNKNOWN \<Rightarrow> NoAutoRetryError | PENDING \<Rightarrow> IllegalTransitionError
         | _ \<Rightarrow> AlreadySettledError)), w))"
  using assms by (rule healthy_dispatch)

theorem dispatch_outcome_witness:
  "fsm_dispatch (gateway_fsm accepting CONFIRM_THEN_SEND) (lit ''p1'') 12 (sample_world []) =
     (Inl (Fsm IllegalTransitionError), sample_world [])"
  using dispatch_outcome [of "sample_world []" 12 "lit ''p1''" sample_proposal accepting _ _ _ CONFIRM_THEN_SEND]
  by (simp add: world_healthy_def healthy_def sample_world_def empty_sqlite_def proposal_rows_def accepting_def)
    (simp add: sample_proposal_def)

text \<open>
  A bare dispatch is not covered by \<open>at_most_one_send\<close>: when the store fails while an accepted send is settled, the
  proposal stays CONFIRMED, and a \<open>dispatch\<close> that is called for it by itself, without a confirmation, sends again.  No
  caller in the repository does so.
\<close>

lemma dispatch_resends:
  "count_list (w_sent (fsm_run (gateway_fsm accepting CONFIRM_THEN_SEND) [FConfirmDispatch (lit ''p1'') 12, FDispatch (lit ''p1'') 13]
     (sample_world [False, False, False, False, False, False, True]))) (lit ''p1'') = 2"
  by code_simp

text \<open>
  Two calls at once can send twice.  The status check and the status write of \<open>confirm\<close> are two
  accesses to the store with no compare-and-set between them: under the schedule below two threads,
  each of which alone is \<open>confirm_and_dispatch\<close>, both see PENDING and both
  call the sender for the same proposal.
\<close>

theorem confirm_race:
  "\<exists>(schedule :: bool list) w. w_sent w = [] \<and> world_healthy w \<and>
    (case two_threads (gateway_fsm accepting CONFIRM_THEN_SEND) (lit ''p1'') 12 schedule Start Start w of
       (a, b, t) \<Rightarrow> count_list (w_sent t) (lit ''p1'') = 2) \<and>
    thread_steps 6 (gateway_fsm accepting CONFIRM_THEN_SEND) (lit ''p1'') 12 Start w =
      (case confirm_and_dispatch (gateway_fsm accepting CONFIRM_THEN_SEND) (preturn 12) (lit ''p1'') w of
         (r, t) \<Rightarrow> (Done r, t))"
proof (intro exI conjI)
  let ?s = "[True, False, True, False, True, False, True, False, True, False, True, False]"
  show "w_sent (sample_world []) = []" by (simp add: sample_world_def)
  show "world_healthy (sample_world [])"
    by (simp add: world_healthy_def healthy_def sample_world_def empty_sqlite_def)
  show "case two_threads (gateway_fsm accepting CONFIRM_THEN_SEND) (lit ''p1'') 12 ?s Start Start (sample_world []) of
       (a, b, t) \<Rightarrow> count_list (w_sent t) (lit ''p1'') = 2"
    by code_simp
  show "thread_steps 6 (gateway_fsm accepting CONFIRM_THEN_SEND) (lit ''p1'') 12 Start (sample_world []) =
      (case confirm_and_dispatch (gateway_fsm accepting CONFIRM_THEN_SEND) (preturn 12) (lit ''p1'') (sample_world []) of
         (r, t) \<Rightarrow> (Done r, t))"
    by (rule thread_alone)
qed

end
