(* ===== verification/Proposal_Api.thy ===== *)
theory Proposal_Api
  imports Send_Fsm
begin

text \<open>
  \<open>gateway/proposal_api.py\<close>: the proposal service and the Agent-facing HTTP handler.  The service
  holds two backends, the digest-only proposals and the frozen payloads, and the injected clock and
  factories.  The handler is a function from a request to a response: \<open>Inl\<close> means that an exception
  left the handler, in which case the client gets no response at all.  \<open>json.loads\<close> and
  \<open>urlsplit\<close> are parameters (\<open>loads\<close>, \<open>split\<close>); both may raise.
\<close>

record 's proposal_service =
  svc_proposals :: "'s kv"
  svc_payloads :: "'s kv"
  svc_now :: "('s, int) pm"
  svc_ttl :: int
  svc_id_factory :: "('s, pystr) pm"
  svc_message_id_factory :: "('s, pyval) pm option"
  svc_require_message_id :: bool

definition identifiers :: "pystr \<Rightarrow> pystr \<Rightarrow> int \<Rightarrow> dict" where
  "identifiers pid dig ex =
     [(lit ''proposal_id'', PStr pid), (lit ''payload_digest'', PStr dig), (lit ''expires_at'', PInt ex)]"

definition proposal_identifiers :: "proposal \<Rightarrow> dict" where
  "proposal_identifiers p = identifiers (p_proposal_id p) (p_payload_digest p) (p_expires_at p)"

definition idempotency_key_of :: "dict \<Rightarrow> pystr option res" where
  "idempotency_key_of params = (case dget params (lit ''idempotency_key'') of
     PNone \<Rightarrow> Inr None | PStr k \<Rightarrow> Inr (Some k) | _ \<Rightarrow> Inl (Canon PayloadSchemaError))"

text \<open>The part of \<open>propose\<close> after the replay check: mint, project, freeze, create.\<close>

definition svc_freeze ::
  "(bytes \<Rightarrow> pystr) \<Rightarrow> 's proposal_service \<Rightarrow> pystr option \<Rightarrow> int \<Rightarrow> prepare_email_result \<Rightarrow> dict \<Rightarrow> ('s, dict) pm" where
  "svc_freeze H S key now result canonical =
     pbind (plift (digest H (PDict canonical))) (\<lambda>h.
     if h \<noteq> per_payload_digest result then praise (Canon PayloadSchemaError)
     else pbind (kv_put (svc_payloads S) (per_proposal_id result) canonical) (\<lambda>_.
     ptry (ps_create (svc_proposals S)
         \<lparr>p_proposal_id = per_proposal_id result, p_payload_digest = per_payload_digest result,
          p_expires_at = per_expires_at result, p_created_at = now, p_status = PENDING,
          p_idempotency_key = key\<rparr>)
       (\<lambda>e. if e \<noteq> Store DuplicateIdempotencyError then praise e
         else pbind (kv_delete (svc_payloads S) (per_proposal_id result)) (\<lambda>_.
           pbind (case key of None \<Rightarrow> praise (Py TypeError)
              | Some k \<Rightarrow> ps_find_by_idempotency (svc_proposals S) k) (\<lambda>existing.
           case existing of Some p \<Rightarrow> preturn (proposal_identifiers p) | None \<Rightarrow> praise e)))
       (\<lambda>_. preturn (identifiers (per_proposal_id result) (per_payload_digest result) (per_expires_at result)))))"

definition svc_new ::
  "(bytes \<Rightarrow> pystr) \<Rightarrow> 's proposal_service \<Rightarrow> dict \<Rightarrow> pystr option \<Rightarrow> ('s, dict) pm" where
  "svc_new H S params key =
     pbind (svc_now S) (\<lambda>now.
     pbind (case svc_message_id_factory S of None \<Rightarrow> preturn PNone | Some f \<Rightarrow> f) (\<lambda>message_id.
     if svc_require_message_id S \<and> \<not> truthy message_id then praise (Canon MessageIdNotConfiguredError)
     else pbind (prepare_email H (PDict params) now (svc_ttl S) (svc_id_factory S) message_id) (\<lambda>result.
       pbind (plift (build_canonical_payload (PDict params) message_id)) (\<lambda>canonical.
       svc_freeze H S key now result canonical))))"

definition propose :: "(bytes \<Rightarrow> pystr) \<Rightarrow> 's proposal_service \<Rightarrow> dict \<Rightarrow> ('s, dict) pm" where
  "propose H S params =
     (if svc_require_message_id S \<and> svc_message_id_factory S = None
      then praise (Canon MessageIdNotConfiguredError)
      else pbind (plift (idempotency_key_of params)) (\<lambda>key.
        case key of
          None \<Rightarrow> svc_new H S params None
        | Some k \<Rightarrow> pbind (ps_find_by_idempotency (svc_proposals S) k) (\<lambda>existing.
            case existing of
              Some p \<Rightarrow> preturn (proposal_identifiers p)
            | None \<Rightarrow> svc_new H S params (Some k))))"

definition get_status :: "'s proposal_service \<Rightarrow> pystr \<Rightarrow> ('s, dict) pm" where
  "get_status S pid = pbind (ps_get (svc_proposals S) pid) (\<lambda>p. preturn
     [(lit ''proposal_id'', PStr (p_proposal_id p)), (lit ''status'', PStr (status_value (p_status p))),
      (lit ''payload_digest'', PStr (p_payload_digest p)), (lit ''expires_at'', PInt (p_expires_at p)),
      (lit ''created_at'', PInt (p_created_at p))])"

definition load_payload :: "'s proposal_service \<Rightarrow> pystr \<Rightarrow> ('s, dict) pm" where
  "load_payload S pid = pbind (kv_get (svc_payloads S) pid) (\<lambda>raw. case raw of
     None \<Rightarrow> praise (Store (ProposalNotFoundError pid)) | Some d \<Rightarrow> preturn d)"

subsection \<open>The HTTP handler\<close>

text \<open>A request as the handler sees it: the method name, the raw target, the two headers it reads and
  the bytes available on the connection.\<close>

record request =
  rq_method :: pystr
  rq_target :: pystr
  rq_authorization :: "pystr option"
  rq_content_length :: "pystr option"
  rq_stream :: bytes

record response =
  rs_status :: int
  rs_body :: dict

definition json_response :: "int \<Rightarrow> dict \<Rightarrow> response" where
  "json_response st d = \<lparr>rs_status = st, rs_body = d\<rparr>"

definition error_response :: "int \<Rightarrow> string \<Rightarrow> response" where
  "error_response st code = json_response st [(lit ''error'', PStr (lit code))]"

definition uniform_404 :: response where
  "uniform_404 = error_response 404 ''not_found''"

text \<open>\<open>int(s)\<close>: surrounding white space, one sign, digits with single underscores between them.\<close>

definition py_space :: "nat \<Rightarrow> bool" where
  "py_space c \<longleftrightarrow> 9 \<le> c \<and> c \<le> 13 \<or> 28 \<le> c \<and> c \<le> 32 \<or> c = 133 \<or> c = 160 \<or> c = 5760 \<or>
     8192 \<le> c \<and> c \<le> 8202 \<or> c \<in> {8232, 8233, 8239, 8287, 12288}"

definition py_strip :: "pystr \<Rightarrow> pystr" where
  "py_strip s = rev (dropWhile py_space (rev (dropWhile py_space s)))"

fun py_digits :: "pystr \<Rightarrow> pystr option" where
  "py_digits [] = None"
| "py_digits [c] = (if is_digit c then Some [c] else None)"
| "py_digits (c # d # s) =
     (if \<not> is_digit c then None
      else if d = 95 then map_option ((#) c) (py_digits s)
      else map_option ((#) c) (py_digits (d # s)))"

definition py_int :: "pystr \<Rightarrow> int option" where
  "py_int s = (case py_strip s of
     [] \<Rightarrow> None
   | c # t \<Rightarrow> (if c = 45 then map_option (\<lambda>d. - int (digits_value d)) (py_digits t)
       else if c = 43 then map_option (\<lambda>d. int (digits_value d)) (py_digits t)
       else map_option (\<lambda>d. int (digits_value d)) (py_digits (c # t))))"

definition max_body_bytes :: int where
  "max_body_bytes = 1048576"

definition read_request_body :: "request \<Rightarrow> bytes option" where
  "read_request_body rq =
     (case py_int (case rq_content_length rq of None \<Rightarrow> lit ''0'' | Some s \<Rightarrow> s) of
        None \<Rightarrow> None
      | Some n \<Rightarrow> (if n \<le> 0 \<or> max_body_bytes < n then None else Some (take (nat n) (rq_stream rq))))"

text \<open>\<open>hmac.compare_digest\<close> of two texts: it raises unless both are ASCII.\<close>

definition ascii :: "pystr \<Rightarrow> bool" where
  "ascii s \<longleftrightarrow> (\<forall>c \<in> set s. c < 128)"

definition compare_digest :: "pystr \<Rightarrow> pystr \<Rightarrow> bool res" where
  "compare_digest a b = (if ascii a \<and> ascii b then Inr (a = b) else Inl (Py TypeError))"

definition starts_with :: "pystr \<Rightarrow> pystr \<Rightarrow> bool" where
  "starts_with s p \<longleftrightarrow> take (length p) s = p"

definition ends_with :: "pystr \<Rightarrow> pystr \<Rightarrow> bool" where
  "ends_with s p \<longleftrightarrow> length p \<le> length s \<and> drop (length s - length p) s = p"

definition authed :: "pystr \<Rightarrow> request \<Rightarrow> bool res" where
  "authed session_bearer rq =
     (let header = (case rq_authorization rq of None \<Rightarrow> [] | Some h \<Rightarrow> h);
          prefix = lit ''Bearer '';
          presented = (if starts_with header prefix then drop (length prefix) header else [])
      in compare_digest presented session_bearer)"

definition proposal_id_from_path :: "pystr \<Rightarrow> pystr option" where
  "proposal_id_from_path path =
     (let prefix = lit ''/proposal/''; pid = drop (length prefix) path in
      if \<not> starts_with path prefix then None
      else if pid = [] \<or> 47 \<in> set pid then None else Some pid)"

definition confirm_id_from_path :: "pystr \<Rightarrow> pystr option" where
  "confirm_id_from_path path =
     (let prefix = lit ''/proposal/''; suffix = lit ''/confirm'';
          pid = drop (length prefix) (take (length path - length suffix) path) in
      if \<not> (starts_with path prefix \<and> ends_with path suffix) then None
      else if pid = [] \<or> 47 \<in> set pid then None else Some pid)"

text \<open>The server: the service, the session bearer, the confirm dispatcher when one is mounted, and the two
  library functions.\<close>

record 's server =
  srv_service :: "'s proposal_service"
  srv_bearer :: pystr
  srv_confirm :: "(pystr \<Rightarrow> ('s, pystr) pm) option"
  srv_split :: "pystr \<Rightarrow> pystr res"
  srv_loads :: "bytes \<Rightarrow> pyval res"

definition handle_propose ::
  "(bytes \<Rightarrow> pystr) \<Rightarrow> 's server \<Rightarrow> bytes option \<Rightarrow> ('s, response) pm" where
  "handle_propose H V body = (case body of
     None \<Rightarrow> preturn (error_response 400 ''invalid_request'')
   | Some [] \<Rightarrow> preturn (error_response 400 ''invalid_request'')
   | Some b \<Rightarrow> (case srv_loads V b of
       Inl e \<Rightarrow> (if is_value_error e then preturn (error_response 400 ''invalid_request'') else praise e)
     | Inr (PDict params) \<Rightarrow>
         ptry (propose H (srv_service V) params)
           (\<lambda>e. if e = Canon AttachmentsNotSupportedError
             then preturn (error_response 400 ''attachments_not_supported_in_v1'')
             else if is_payload_schema_error e \<or> is_value_error e
             then preturn (error_response 400 ''invalid_payload'') else praise e)
           (\<lambda>result. preturn (json_response 200 result))
     | Inr _ \<Rightarrow> preturn (error_response 400 ''invalid_request'')))"

definition handle_status :: "'s server \<Rightarrow> pystr \<Rightarrow> ('s, response) pm" where
  "handle_status V pid =
     ptry (get_status (srv_service V) pid)
       (\<lambda>e. case e of Store (ProposalNotFoundError _) \<Rightarrow> preturn uniform_404 | _ \<Rightarrow> praise e)
       (\<lambda>result. preturn (json_response 200 result))"

definition handle_confirm :: "(pystr \<Rightarrow> ('s, pystr) pm) \<Rightarrow> pystr \<Rightarrow> ('s, response) pm" where
  "handle_confirm confirm pid =
     ptry (confirm pid)
       (\<lambda>e. case e of
          Store (ProposalNotFoundError _) \<Rightarrow> preturn uniform_404
        | Store (ProposalExpiredError _) \<Rightarrow> preturn (error_response 409 ''expired'')
        | Fsm IllegalTransitionError \<Rightarrow> preturn (error_response 409 ''conflict'')
        | Fsm AlreadySettledError \<Rightarrow> preturn (error_response 409 ''conflict'')
        | Fsm NoAutoRetryError \<Rightarrow> preturn (error_response 409 ''conflict'')
        | _ \<Rightarrow> praise e)
       (\<lambda>status. preturn (json_response 200
          [(lit ''proposal_id'', PStr pid), (lit ''status'', PStr status)]))"

definition do_POST :: "(bytes \<Rightarrow> pystr) \<Rightarrow> 's server \<Rightarrow> request \<Rightarrow> ('s, response) pm" where
  "do_POST H V rq =
     (let body = read_request_body rq in
      pbind (plift (srv_split V (rq_target rq))) (\<lambda>path.
      pbind (plift (authed (srv_bearer V) rq)) (\<lambda>ok.
      if \<not> ok then preturn uniform_404
      else if path = lit ''/proposal'' then handle_propose H V body
      else (case (confirm_id_from_path path, srv_confirm V) of
        (Some cid, Some confirm) \<Rightarrow> handle_confirm confirm cid
      | _ \<Rightarrow> preturn uniform_404))))"

definition do_GET :: "'s server \<Rightarrow> request \<Rightarrow> ('s, response) pm" where
  "do_GET V rq =
     pbind (plift (srv_split V (rq_target rq))) (\<lambda>path.
     pbind (plift (authed (srv_bearer V) rq)) (\<lambda>ok.
     case proposal_id_from_path path of
       Some pid \<Rightarrow> (if ok then handle_status V pid else preturn uniform_404)
     | None \<Rightarrow> preturn uniform_404))"

text \<open>The dispatch on the method: \<open>do_POST\<close>, \<open>do_GET\<close>, and \<open>__getattr__\<close> for every other one.\<close>

definition handle :: "(bytes \<Rightarrow> pystr) \<Rightarrow> 's server \<Rightarrow> request \<Rightarrow> ('s, response) pm" where
  "handle H V rq =
     (if rq_method rq = lit ''POST'' then do_POST H V rq
      else if rq_method rq = lit ''GET'' then do_GET V rq
      else preturn uniform_404)"

subsection \<open>The gateway's service\<close>

text \<open>The injected clock and factories are methods of the environment.\<close>

definition env_pm :: "('e, 'a) pm \<Rightarrow> ('e world, 'a) pm" where
  "env_pm m w = (case m (w_env w) of (r, e) \<Rightarrow> (r, w\<lparr>w_env := e\<rparr>))"

definition gateway_service ::
  "('e, int) pm \<Rightarrow> int \<Rightarrow> ('e, pystr) pm \<Rightarrow> ('e, pyval) pm option \<Rightarrow> bool \<Rightarrow> 'e world proposal_service" where
  "gateway_service clock ttl idf midf require_mid =
     \<lparr>svc_proposals = proposals_db, svc_payloads = payloads_db, svc_now = env_pm clock, svc_ttl = ttl,
      svc_id_factory = env_pm idf, svc_message_id_factory = map_option env_pm midf,
      svc_require_message_id = require_mid\<rparr>"

lemma gateway_service_simps [simp]:
  "svc_proposals (gateway_service clock ttl idf midf q) = proposals_db"
  "svc_payloads (gateway_service clock ttl idf midf q) = payloads_db"
  "svc_now (gateway_service clock ttl idf midf q) = env_pm clock"
  "svc_ttl (gateway_service clock ttl idf midf q) = ttl"
  "svc_id_factory (gateway_service clock ttl idf midf q) = env_pm idf"
  "svc_message_id_factory (gateway_service clock ttl idf midf q) = map_option env_pm midf"
  "svc_require_message_id (gateway_service clock ttl idf midf q) = q"
  by (simp_all add: gateway_service_def)

interpretation pldb: kv_live payloads_db payload_rows "\<lambda>w. clean (w_payloads w)" "\<lambda>w. healthy (w_payloads w)"
  unfolding payloads_db_def payload_rows_def
  by (rule kv_live_lift [OF sqlite.kv_live_axioms]) (simp_all add: put_payloads_def)

definition same_stores :: "'e world \<Rightarrow> 'e world \<Rightarrow> bool" where
  "same_stores w t \<longleftrightarrow> w_proposals t = w_proposals w \<and> w_payloads t = w_payloads w"

lemma same_stores_refl [simp]: "same_stores w w"
  by (simp add: same_stores_def)

lemma same_stores_trans: "same_stores u v \<Longrightarrow> same_stores v w \<Longrightarrow> same_stores u w"
  by (simp add: same_stores_def)

lemma env_step: "env_pm m w = (r, t) \<Longrightarrow> same_stores w t \<and> (\<exists>e'. m (w_env w) = (r, e'))"
  by (auto simp: env_pm_def same_stores_def split: prod.splits)

lemma prepare_step:
  assumes "prepare_email H params now ttl (env_pm idf) m w = (r, t)"
  shows "same_stores w t \<and> (\<forall>x. r = Inr x \<longrightarrow> (\<exists>e e'. idf e = (Inr (per_proposal_id x), e')))"
proof (cases r)
  case (Inr x)
  with assms obtain c h pid where "env_pm idf w = (Inr pid, t)" "per_proposal_id x = pid"
    by (auto simp: prepare_email_ok_iff)
  with env_step [OF this(1)] Inr show ?thesis by blast
next
  case (Inl e)
  obtain g u where g: "env_pm idf w = (g, u)" by fastforce
  have "t = w \<or> t = u"
    using assms g
    by (auto simp: prepare_email_def pm_simps rguard_def split: sum.splits if_splits)
  with env_step [OF g] Inl show ?thesis by auto
qed

text \<open>What is bound: a stored proposal's frozen payload has the proposal's digest.\<close>

definition faithful :: "(bytes \<Rightarrow> pystr) \<Rightarrow> 'e world \<Rightarrow> bool" where
  "faithful H w \<longleftrightarrow> (\<forall>pid p. proposal_rows w pid = Some (proposal_to_dict p) \<longrightarrow>
     (\<exists>c. payload_rows w pid = Some c \<and> digest H (PDict c) = Inr (p_payload_digest p)))"

definition stores_ok :: "(bytes \<Rightarrow> pystr) \<Rightarrow> 'e world \<Rightarrow> bool" where
  "stores_ok H w \<longleftrightarrow> clean (w_proposals w) \<and> clean (w_payloads w) \<and> index_inv (proposal_rows w) \<and> faithful H w"

lemma stores_ok_same: "same_stores w t \<Longrightarrow> stores_ok H t = stores_ok H w"
  by (simp add: stores_ok_def same_stores_def faithful_def proposal_rows_def payload_rows_def)

lemma payload_put_step:
  assumes "clean (w_payloads w)" "kv_put payloads_db k v w = (r, t)"
  shows "clean (w_payloads t) \<and> w_proposals t = w_proposals w \<and>
    payload_rows t = (case r of Inl _ \<Rightarrow> payload_rows w | Inr _ \<Rightarrow> (payload_rows w)(k \<mapsto> v))"
  using pldb.put_atomic [OF assms] assms(2)
  by (auto simp: payloads_db_def lift_pm_iff put_payloads_def)

lemma payload_delete_step:
  assumes "clean (w_payloads w)" "kv_delete payloads_db k w = (r, t)"
  shows "clean (w_payloads t) \<and> w_proposals t = w_proposals w \<and>
    payload_rows t = (case r of Inl _ \<Rightarrow> payload_rows w | Inr _ \<Rightarrow> (payload_rows w)(k := None))"
  using pldb.delete_atomic [OF assms] assms(2)
  by (auto simp: payloads_db_def lift_pm_iff put_payloads_def)

lemma create_world_frame:
  "ps_create proposals_db p w = (r, t) \<Longrightarrow> w_payloads t = w_payloads w"
  by (auto simp: ps_create_world lift_proposals_iff)

lemma find_world_step:
  assumes "stores_ok H w" "ps_find_by_idempotency proposals_db k w = (r, t)"
  shows "stores_ok H t"
proof -
  have "clean (w_proposals w)" "index_inv (proposal_rows w)" using assms(1) by (simp_all add: stores_ok_def)
  from pdb.find_step [OF this(1) assms(2) this(2)] assms show ?thesis
    by (auto simp: ps_find_world lift_proposals_iff stores_ok_def faithful_def payload_rows_def)
qed

text \<open>Only the new id's rows change.\<close>

lemma faithful_other:
  assumes "faithful H w" and "\<And>q. q \<noteq> pid \<Longrightarrow> payload_rows t q = payload_rows w q"
    and "\<And>q p. proposal_rows t q = Some (proposal_to_dict p) \<Longrightarrow> q \<noteq> pid \<Longrightarrow>
      proposal_rows w q = Some (proposal_to_dict p)"
    and "\<And>p. proposal_rows t pid = Some (proposal_to_dict p) \<Longrightarrow>
      \<exists>c. payload_rows t pid = Some c \<and> digest H (PDict c) = Inr (p_payload_digest p)"
  shows "faithful H t"
  unfolding faithful_def
proof (intro allI impI)
  fix q p assume "proposal_rows t q = Some (proposal_to_dict p)"
  with assms show "\<exists>c. payload_rows t q = Some c \<and> digest H (PDict c) = Inr (p_payload_digest p)"
    by (cases "q = pid") (auto simp: faithful_def)
qed

lemma to_dict_eq [simp]: "proposal_to_dict a = proposal_to_dict b \<longleftrightarrow> a = b"
  by (metis from_dict_to_dict sum.inject(2))

lemma create_faithful:
  assumes ok: "clean (w_proposals w)" "index_inv (proposal_rows w)" "faithful H w"
    and c: "ps_create proposals_db p w = (r, t)"
    and pid: "\<not> index_key (p_proposal_id p)"
    and frozen: "payload_rows w (p_proposal_id p) = Some c" "digest H (PDict c) = Inr (p_payload_digest p)"
  shows "clean (w_proposals t) \<and> index_inv (proposal_rows t) \<and> faithful H t \<and> w_payloads t = w_payloads w \<and>
    (r = Inl (Store DuplicateIdempotencyError) \<longrightarrow> proposal_rows t (p_proposal_id p) = None)"
proof -
  note step = pdb.create_step [OF ok(1) c]
  have w: "w_payloads t = w_payloads w" by (rule create_world_frame [OF c])
  then have pay: "payload_rows t = payload_rows w" by (simp add: payload_rows_def)
  have "faithful H t"
  proof (rule faithful_other [OF ok(3), of "p_proposal_id p"])
    show "payload_rows t q = payload_rows w q" for q by (simp add: pay)
    show "proposal_rows w q = Some (proposal_to_dict x)"
      if "proposal_rows t q = Some (proposal_to_dict x)" "q \<noteq> p_proposal_id p" for q x
      using step that to_dict_not_index [symmetric] by (auto simp: Let_def split: if_splits)
    show "\<exists>c. payload_rows t (p_proposal_id p) = Some c \<and> digest H (PDict c) = Inr (p_payload_digest x)"
      if x: "proposal_rows t (p_proposal_id p) = Some (proposal_to_dict x)" for x
    proof -
      from step x not_index_key [OF pid] consider
        "proposal_rows w (p_proposal_id p) = Some (proposal_to_dict x)" | "x = p"
        by (auto simp: Let_def)
      then show ?thesis
      proof cases
        case 1
        with ok(3) show ?thesis by (simp add: faithful_def pay)
      next
        case 2
        with frozen show ?thesis by (simp add: pay)
      qed
    qed
  qed
  moreover have "r = Inl (Store DuplicateIdempotencyError) \<longrightarrow> proposal_rows t (p_proposal_id p) = None"
    using step by (auto simp: Let_def)
  ultimately show ?thesis using pdb.create_inv [OF ok(1) c ok(2) pid] w by simp
qed

text \<open>Freezing: whatever happens in it, the stores stay faithful.\<close>

lemma duplicate_ok:
  assumes ok: "stores_ok H w" and new: "proposal_rows w pid = None"
    and run: "pbind (kv_delete payloads_db pid) (\<lambda>_. pbind (case key of None \<Rightarrow> praise (Py TypeError)
              | Some k \<Rightarrow> ps_find_by_idempotency proposals_db k) (\<lambda>existing.
           case existing of Some p \<Rightarrow> preturn (proposal_identifiers p) | None \<Rightarrow> praise e)) w = (r, t)"
  shows "stores_ok H t"
proof -
  obtain z u where z: "kv_delete payloads_db pid w = (z, u)" by fastforce
  have cl: "clean (w_payloads w)" using ok by (simp add: stores_ok_def)
  note zs = payload_delete_step [OF cl z]
  have u: "stores_ok H u"
  proof -
    have "faithful H u"
      by (rule faithful_other [where pid = pid and w = w])
        (use ok new zs in \<open>auto simp: stores_ok_def proposal_rows_def split: sum.splits\<close>)
    with ok zs show ?thesis by (simp add: stores_ok_def proposal_rows_def)
  qed
  show ?thesis
  proof (cases z)
    case (Inl x)
    with run z u show ?thesis by (simp add: pbind_raises)
  next
    case (Inr x)
    show ?thesis
    proof (cases key)
      case None
      with run z u Inr show ?thesis by (simp add: pbind_returns)
    next
      case (Some k)
      obtain f v where f: "ps_find_by_idempotency proposals_db k u = (f, v)" by fastforce
      with run z Inr Some have "t = v"
        by (auto simp: pm_simps split: sum.splits option.splits)
      with find_world_step [OF u f] show ?thesis by simp
    qed
  qed
qed

lemma freeze_ok:
  assumes ok: "stores_ok H w" and new: "proposal_rows w (per_proposal_id x) = None"
    and pid: "\<not> index_key (per_proposal_id x)"
    and run: "svc_freeze H (gateway_service clock ttl idf midf q) key now x c w = (r, t)"
  shows "stores_ok H t"
proof (cases "digest H (PDict c) = Inr (per_payload_digest x)")
  case False
  with run have "t = w"
    by (auto simp: svc_freeze_def pm_simps split: sum.splits if_splits)
  with ok show ?thesis by simp
next
  case h: True
  let ?pid = "per_proposal_id x"
  let ?p = "\<lparr>p_proposal_id = ?pid, p_payload_digest = per_payload_digest x,
          p_expires_at = per_expires_at x, p_created_at = now, p_status = PENDING, p_idempotency_key = key\<rparr>"
  obtain y u where y: "kv_put payloads_db ?pid c w = (y, u)" by fastforce
  have cl: "clean (w_payloads w)" using ok by (simp add: stores_ok_def)
  note ys = payload_put_step [OF cl y]
  have u: "stores_ok H u"
  proof -
    have "faithful H u"
      by (rule faithful_other [where pid = ?pid and w = w])
        (use ok new ys in \<open>auto simp: stores_ok_def proposal_rows_def split: sum.splits\<close>)
    with ok ys show ?thesis by (simp add: stores_ok_def proposal_rows_def)
  qed
  show ?thesis
  proof (cases y)
    case (Inl e)
    with run h y u show ?thesis by (simp add: svc_freeze_def pbind_raises)
  next
    case (Inr z)
    obtain g v where g: "ps_create proposals_db ?p u = (g, v)" by fastforce
    have frozen: "payload_rows u ?pid = Some c" using ys Inr by simp
    have "clean (w_proposals v) \<and> index_inv (proposal_rows v) \<and> faithful H v \<and> w_payloads v = w_payloads u \<and>
        (g = Inl (Store DuplicateIdempotencyError) \<longrightarrow> proposal_rows v ?pid = None)"
      using create_faithful [OF _ _ _ g, of H c] u pid frozen h by (simp add: stores_ok_def)
    with u have v: "stores_ok H v" "g = Inl (Store DuplicateIdempotencyError) \<longrightarrow> proposal_rows v ?pid = None"
      by (simp_all add: stores_ok_def)
    show ?thesis
    proof (cases "g = Inl (Store DuplicateIdempotencyError)")
      case True
      with run h y Inr g have "pbind (kv_delete payloads_db ?pid) (\<lambda>_. pbind (case key of None \<Rightarrow> praise (Py TypeError)
              | Some k \<Rightarrow> ps_find_by_idempotency proposals_db k) (\<lambda>existing.
           case existing of Some p \<Rightarrow> preturn (proposal_identifiers p)
             | None \<Rightarrow> praise (Store DuplicateIdempotencyError))) v = (r, t)"
        by (cases key) (simp_all add: svc_freeze_def pbind_returns ptry_def)
      from duplicate_ok [OF v(1) _ this] v(2) True show ?thesis by simp
    next
      case False
      with run h y Inr g have "t = v"
        by (auto simp: svc_freeze_def pbind_returns ptry_def split: sum.splits if_splits)
      with v show ?thesis by simp
    qed
  qed
qed

lemma new_ok:
  assumes ok: "stores_ok H w"
    and fresh: "\<And>e pid e'. idf e = (Inr pid, e') \<Longrightarrow> proposal_rows w pid = None \<and> \<not> index_key pid"
    and run: "svc_new H (gateway_service clock ttl idf midf q) params key w = (r, t)"
  shows "stores_ok H t"
proof -
  obtain a u where a: "env_pm clock w = (a, u)" by fastforce
  have u: "same_stores w u" using env_step [OF a] by simp
  show ?thesis
  proof (cases a)
    case (Inl e)
    with run a have "t = u" by (simp add: svc_new_def pbind_raises)
    with ok u stores_ok_same show ?thesis by blast
  next
    case (Inr now)
    let ?mid = "case map_option env_pm midf of None \<Rightarrow> preturn PNone | Some f \<Rightarrow> f"
    obtain b v where b: "?mid u = (b, v)" by fastforce
    have "same_stores u v"
      using b env_step by (cases midf) auto
    with u have v: "same_stores w v" by (rule same_stores_trans)
    show ?thesis
    proof (cases "\<exists>m. b = Inr m \<and> (q \<longrightarrow> truthy m)")
      case False
      with run a Inr b have "t = v"
        by (cases b) (simp_all add: svc_new_def pbind_returns pbind_raises)
      with ok v stores_ok_same show ?thesis by blast
    next
      case True
      then obtain m where m: "b = Inr m" "q \<longrightarrow> truthy m" by blast
      obtain c x where c: "prepare_email H (PDict params) now ttl (env_pm idf) m v = (c, x)" by fastforce
      note cs = prepare_step [OF c]
      from cs v have x: "same_stores w x" using same_stores_trans by blast
      show ?thesis
      proof (cases c)
        case (Inl e)
        with run a Inr b m c have "t = x"
          by (auto simp: svc_new_def pbind_returns pbind_raises split: if_splits)
        with ok x stores_ok_same show ?thesis by blast
      next
        case res: (Inr result)
        with cs obtain e e' where "idf e = (Inr (per_proposal_id result), e')" by blast
        with fresh have "proposal_rows w (per_proposal_id result) = None" "\<not> index_key (per_proposal_id result)"
          by blast+
        with x have n: "proposal_rows x (per_proposal_id result) = None" "\<not> index_key (per_proposal_id result)"
          by (simp_all add: same_stores_def proposal_rows_def)
        have okx: "stores_ok H x" using ok x stores_ok_same by blast
        from res c obtain can where "build_canonical_payload (PDict params) m = Inr can"
          by (auto simp: prepare_email_ok_iff)
        with run a Inr b m c res have
          "svc_freeze H (gateway_service clock ttl idf midf q) key now result can x = (r, t)"
          by (auto simp: svc_new_def pbind_returns split: if_splits)
        from freeze_ok [OF okx n this] show ?thesis .
      qed
    qed
  qed
qed

lemma propose_ok:
  assumes ok: "stores_ok H w"
    and fresh: "\<And>e pid e'. idf e = (Inr pid, e') \<Longrightarrow> proposal_rows w pid = None \<and> \<not> index_key pid"
    and run: "propose H (gateway_service clock ttl idf midf q) params w = (r, t)"
  shows "stores_ok H t"
proof (cases "q \<and> midf = None \<or> (\<exists>e. idempotency_key_of params = Inl e)")
  case True
  with run have "t = w"
    by (cases "idempotency_key_of params") (auto simp: propose_def split: if_splits)
  with ok show ?thesis by simp
next
  case False
  then obtain key where key: "idempotency_key_of params = Inr key" "\<not> (q \<and> midf = None)"
    by (cases "idempotency_key_of params") auto
  show ?thesis
  proof (cases key)
    case None
    with run key have "svc_new H (gateway_service clock ttl idf midf q) params None w = (r, t)"
      by (auto simp: propose_def)
    from new_ok [OF ok fresh this] show ?thesis .
  next
    case (Some k)
    obtain f u where f: "ps_find_by_idempotency proposals_db k w = (f, u)" by fastforce
    have u: "stores_ok H u" by (rule find_world_step [OF ok f])
    have rows: "proposal_rows u = proposal_rows w"
      using pdb.find_step [OF _ f] ok by (simp add: stores_ok_def)
    show ?thesis
    proof (cases "f = Inr None")
      case True
      with run key Some f have "svc_new H (gateway_service clock ttl idf midf q) params (Some k) u = (r, t)"
        by (auto simp: propose_def pbind_returns split: if_splits)
      from new_ok [OF u _ this] fresh rows show ?thesis by simp
    next
      case False
      with run key Some f have "t = u"
        by (cases f) (auto simp: propose_def pbind_returns pbind_raises split: if_splits option.splits)
      with u show ?thesis by simp
    qed
  qed
qed

subsection \<open>Properties\<close>

text \<open>
  C12. The bytes frozen for sending are the bytes the digest commits to.  If the id source yields new
  ids, \<open>propose\<close> keeps, on every path and under any storage failure inside it, that every
  readable proposal has a frozen payload whose canonical digest is the proposal's digest, and that the
  idempotency index leads to existing proposals.
\<close>

theorem propose_faithful:
  assumes "stores_ok H w"
    and "\<And>e pid e'. idf e = (Inr pid, e') \<Longrightarrow> proposal_rows w pid = None \<and> \<not> index_key pid"
    and "propose H (gateway_service clock ttl idf midf q) params w = (r, t)"
  shows "stores_ok H t \<and>
    (\<forall>pid p v. ps_get proposals_db pid t = (Inr p, v) \<longrightarrow>
       (\<exists>c. payload_rows t pid = Some c \<and> digest H (PDict c) = Inr (p_payload_digest p)))"
proof -
  have ok: "stores_ok H t" by (rule propose_ok [OF assms])
  have "\<exists>c. payload_rows t pid = Some c \<and> digest H (PDict c) = Inr (p_payload_digest p)"
    if g: "ps_get proposals_db pid t = (Inr p, v)" for pid p v
  proof -
    from ok have cl: "clean (w_proposals t)" and iv: "index_inv (proposal_rows t)" by (simp_all add: stores_ok_def)
    from pdb.get_step [OF cl g] obtain d where "proposal_rows t pid = Some d" "proposal_from_dict d = Inr p"
      by blast
    with index_inv_read [OF iv this] ok show ?thesis by (simp add: stores_ok_def faithful_def)
  qed
  with ok show ?thesis by blast
qed

definition empty_world :: "bool list \<Rightarrow> bool list \<Rightarrow> unit world" where
  "empty_world f g = \<lparr>w_proposals = empty_sqlite f, w_payloads = empty_sqlite g,
     w_audit = \<lparr>sq_committed = [], sq_pending = None, sq_broken = False, sq_faults = []\<rparr>,
     w_sent = [], w_env = ()\<rparr>"

definition sample_service :: "unit world proposal_service" where
  "sample_service = gateway_service (preturn 5) 10 (preturn (lit ''p7'')) (Some (preturn (PStr (lit ''id'')))) True"

lemma empty_world_ok: "stores_ok H (empty_world f g)"
  by (simp add: stores_ok_def empty_world_def empty_sqlite_def clean_def faithful_def index_inv_def proposal_rows_def)

lemma sample_propose:
  "fst (propose (\<lambda>b. lit ''h'') sample_service sample_prepare (empty_world [] [])) =
     Inr (identifiers (lit ''p7'') (lit ''h'') 15)"
  by code_simp

theorem propose_faithful_witness:
  "\<exists>t. propose (\<lambda>b. lit ''h'') sample_service sample_prepare (empty_world [] []) =
     (Inr (identifiers (lit ''p7'') (lit ''h'') 15), t) \<and> stores_ok (\<lambda>b. lit ''h'') t"
proof -
  obtain t where t: "propose (\<lambda>b. lit ''h'') sample_service sample_prepare (empty_world [] []) =
     (Inr (identifiers (lit ''p7'') (lit ''h'') 15), t)"
    using sample_propose by (metis prod.collapse)
  have "stores_ok (\<lambda>b. lit ''h'') t \<and> (\<forall>pid p v. ps_get proposals_db pid t = (Inr p, v) \<longrightarrow>
       (\<exists>c. payload_rows t pid = Some c \<and> digest (\<lambda>b. lit ''h'') (PDict c) = Inr (p_payload_digest p)))"
    by (rule propose_faithful [OF empty_world_ok _ t [unfolded sample_service_def]])
      (auto simp: empty_world_def empty_sqlite_def proposal_rows_def index_key_def idem_index_key_def lit_def)
  with t show ?thesis by blast
qed

text \<open>
  A replay is decided by the key alone: when the key already has a proposal, \<open>propose\<close>
  returns that proposal's identifiers and changes nothing, whatever else the request contains; the
  schema of the rest is not looked at.
\<close>

theorem propose_replay:
  assumes "healthy (w_proposals w)" and "proposal_rows w (idem_index_key k) = Some (index_row (p_proposal_id p))"
    and "proposal_rows w (p_proposal_id p) = Some (proposal_to_dict p)"
    and "dget params (lit ''idempotency_key'') = PStr k" and "q \<longrightarrow> midf \<noteq> None"
  shows "propose H (gateway_service clock ttl idf midf q) params w = (Inr (proposal_identifiers p), w)"
proof -
  have "ps_find_by_idempotency proposals_db k w = (Inr (Some p), w)"
    using pdb.get_live [OF assms(1)] pdb.get_returns [OF assms(1,3)] assms(2)
    by (simp add: ps_find_by_idempotency_def pbind_returns index_row_def dindex_def typed_str_def)
  with assms(4,5) show ?thesis
    by (auto simp: propose_def idempotency_key_of_def pbind_returns)
qed

theorem propose_replay_witness:
  "\<exists>w p. build_canonical_payload (PDict [(lit ''idempotency_key'', PStr (lit ''k'')), (lit ''cc'', PInt 3)]) PNone
       = Inl (Canon PayloadSchemaError) \<and>
     propose (\<lambda>b. b) sample_service [(lit ''idempotency_key'', PStr (lit ''k'')), (lit ''cc'', PInt 3)] (w :: unit world) =
       (Inr (proposal_identifiers p), w)"
proof -
  let ?w = "(empty_world [] [])\<lparr>w_proposals := (empty_sqlite [])\<lparr>sq_committed :=
      [(idem_index_key (lit ''k''), index_row (lit ''p1'')), (lit ''p1'', proposal_to_dict sample_proposal)]\<rparr>\<rparr>"
  let ?params = "[(lit ''idempotency_key'', PStr (lit ''k'')), (lit ''cc'', PInt 3)]"
  have "build_canonical_payload (PDict ?params) PNone = Inl (Canon PayloadSchemaError)" by code_simp
  moreover have "propose (\<lambda>b. b) sample_service ?params ?w = (Inr (proposal_identifiers sample_proposal), ?w)"
    unfolding sample_service_def
    by (rule propose_replay [where k = "lit ''k''"])
      (simp_all add: healthy_def empty_sqlite_def proposal_rows_def sample_proposal_def idem_index_key_def dget_def lit_def)
  ultimately show ?thesis by blast
qed

text \<open>The served set: the two routes of the module's docstring, and the confirm route when mounted.\<close>

definition served :: "'s server \<Rightarrow> pystr \<Rightarrow> pystr \<Rightarrow> bool" where
  "served V verb path \<longleftrightarrow>
     verb = lit ''POST'' \<and> (path = lit ''/proposal'' \<or> confirm_id_from_path path \<noteq> None \<and> srv_confirm V \<noteq> None) \<or>
     verb = lit ''GET'' \<and> proposal_id_from_path path \<noteq> None"

text \<open>
  Uniform rejection: every request without the session bearer, and every method and path outside
  the served set, gets the one identical 404 and changes nothing.
\<close>

theorem uniform_rejection:
  assumes "srv_split V (rq_target rq) = Inr path" and "authed (srv_bearer V) rq = Inr ok"
    and "\<not> ok \<or> \<not> served V (rq_method rq) path"
  shows "handle H V rq s = (Inr uniform_404, s)"
  using assms
  by (auto simp: handle_def do_POST_def do_GET_def served_def Let_def split: option.splits if_splits)

definition sample_server :: "unit world server" where
  "sample_server = \<lparr>srv_service = sample_service, srv_bearer = lit ''secret'', srv_confirm = None,
     srv_split = Inr, srv_loads = \<lambda>_. Inr (PDict sample_prepare)\<rparr>"

definition sample_request :: "string \<Rightarrow> string \<Rightarrow> pystr option \<Rightarrow> request" where
  "sample_request verb path auth = \<lparr>rq_method = lit verb, rq_target = lit path, rq_authorization = auth,
     rq_content_length = None, rq_stream = []\<rparr>"

theorem uniform_rejection_witness:
  "handle (\<lambda>b. b) sample_server (sample_request ''POST'' ''/proposal/p1/confirm'' (Some (lit ''Bearer secret''))) (empty_world [] []) =
     (Inr uniform_404, empty_world [] [])"
proof (rule uniform_rejection)
  let ?rq = "sample_request ''POST'' ''/proposal/p1/confirm'' (Some (lit ''Bearer secret''))"
  show "srv_split sample_server (rq_target ?rq) = Inr (lit ''/proposal/p1/confirm'')"
    by (simp add: sample_server_def sample_request_def)
  show "authed (srv_bearer sample_server) ?rq = Inr True" by code_simp
  show "\<not> True \<or> \<not> served sample_server (rq_method ?rq) (lit ''/proposal/p1/confirm'')"
    by (simp add: served_def sample_server_def sample_request_def)
qed

text \<open>
  The 404 of an unknown proposal is not uniform over ids: for the id \<open>idem:\<close> followed by a claimed
  idempotency key the status route finds the index row, \<open>from_dict\<close> raises \<open>ProposalStateError\<close>, which
  the handler does not catch, and the caller gets no response; for an unclaimed key it gets the
  404.  So the route tells which idempotency keys are in use.
\<close>

theorem status_route_leaks_keys:
  assumes "healthy (w_proposals w)" and "index_inv (proposal_rows w)"
    and "srv_split V (rq_target rq) = Inr (lit ''/proposal/'' @ idem_index_key k)" and "47 \<notin> set k"
    and "authed (srv_bearer V) rq = Inr True" and "rq_method rq = lit ''GET''"
    and "svc_proposals (srv_service V) = proposals_db"
  shows "handle H V rq w = (if proposal_rows w (idem_index_key k) = None then (Inr uniform_404, w)
     else (Inl (Store ProposalStateError), w))"
proof -
  have "proposal_id_from_path (lit ''/proposal/'' @ idem_index_key k) = Some (idem_index_key k)"
    using assms(4) by (simp add: proposal_id_from_path_def starts_with_def idem_index_key_def lit_def Let_def)
  then have h: "handle H V rq w = handle_status V (idem_index_key k) w"
    using assms(3,5,6) by (simp add: handle_def do_GET_def)
  note get = pdb.get_live [OF assms(1), of "idem_index_key k"]
  show ?thesis
  proof (cases "proposal_rows w (idem_index_key k)")
    case None
    with h get assms(7) show ?thesis
      by (simp add: handle_status_def get_status_def ps_get_def pm_simps)
  next
    case (Some d)
    from index_inv_index [OF assms(2) this] obtain p :: proposal where "d = index_row (p_proposal_id p)" by blast
    with h get assms(7) Some show ?thesis
      by (simp add: handle_status_def get_status_def ps_get_def pm_simps)
  qed
qed

theorem status_route_leaks_keys_witness:
  "handle (\<lambda>b. b) sample_server (sample_request ''GET'' ''/proposal/idem:k'' (Some (lit ''Bearer secret''))) (empty_world [] []) =
     (Inr uniform_404, empty_world [] [])"
proof -
  let ?rq = "sample_request ''GET'' ''/proposal/idem:k'' (Some (lit ''Bearer secret''))"
  have "authed (srv_bearer sample_server) ?rq = Inr True" by code_simp
  moreover have "healthy (w_proposals (empty_world [] []))" "index_inv (proposal_rows (empty_world [] []))"
    "proposal_rows (empty_world [] []) (idem_index_key (lit ''k'')) = None"
    by (simp_all add: empty_world_def empty_sqlite_def healthy_def index_inv_def proposal_rows_def)
  moreover have "srv_split sample_server (rq_target ?rq) = Inr (lit ''/proposal/'' @ idem_index_key (lit ''k''))"
    by (simp add: sample_server_def sample_request_def idem_index_key_def lit_def)
  ultimately show ?thesis
    using status_route_leaks_keys [of "empty_world [] []" sample_server ?rq "lit ''k''" "\<lambda>b. b"]
    by (simp add: sample_server_def sample_service_def sample_request_def lit_def)
qed

text \<open>
  Nor is the rejection uniform over bearers: a presented token with a character outside ASCII makes
  \<open>hmac.compare_digest\<close> raise \<open>TypeError\<close>, which nothing catches, so a caller without any credential
  gets no response instead of the 404, on every POST and GET target.
\<close>

theorem non_ascii_bearer_escapes:
  assumes "rq_authorization rq = Some (lit ''Bearer '' @ tok)" and "\<not> ascii tok"
    and "rq_method rq \<in> {lit ''POST'', lit ''GET''}" and "srv_split V (rq_target rq) = Inr path"
  shows "handle H V rq s = (Inl (Py TypeError), s)"
proof -
  have "authed (srv_bearer V) rq = Inl (Py TypeError)"
    using assms(1,2) by (simp add: authed_def compare_digest_def starts_with_def lit_def Let_def)
  with assms(3,4) show ?thesis
    by (auto simp: handle_def do_POST_def do_GET_def Let_def)
qed

theorem non_ascii_bearer_escapes_witness:
  "handle (\<lambda>b. b) sample_server (sample_request ''GET'' ''/nothing'' (Some (lit ''Bearer '' @ [233]))) (empty_world [] []) =
     (Inl (Py TypeError), empty_world [] [])"
  by (rule non_ascii_bearer_escapes [where tok = "[233]" and path = "lit ''/nothing''"])
    (simp_all add: sample_request_def sample_server_def ascii_def)

end
