(* ===== verification/Orchestrator.thy ===== *)
theory Orchestrator
  imports Gate_Stub Proposal_Api
begin

text \<open>
  \<open>authz/dispatch_record.py\<close>: the two-phase dispatch record, and \<open>authz/orchestrator.py\<close>: an authorized
  send.  The gate is injected, so the orchestrator holds its \<open>authorize\<close> method; the other objects are those of
  the send path.
\<close>

subsection \<open>The dispatch record\<close>

definition phase_started :: pystr where
  "phase_started = lit ''started''"

definition phase_completed :: pystr where
  "phase_completed = lit ''completed''"

definition started_fields :: "pystr list" where
  "started_fields = [lit ''phase'', lit ''decision_id'', lit ''request_id'', lit ''proposal_id'', lit ''action_digest'',
     lit ''mono_decision_received_ns'', lit ''mono_gmail_commit_start_ns'']"

definition completed_fields :: "pystr list" where
  "completed_fields = started_fields @ [lit ''mono_response_complete_ns'', lit ''terminal_status'']"

record dispatch_started =
  ds_decision_id :: pystr
  ds_request_id :: pystr
  ds_proposal_id :: pystr
  ds_action_digest :: pystr
  ds_mono_decision_received_ns :: int
  ds_mono_gmail_commit_start_ns :: int

record dispatch_completed = dispatch_started +
  dp_mono_response_complete_ns :: int
  dp_terminal_status :: pystr

text \<open>The fields both phases share, with the discriminator first.\<close>

definition dispatch_fields :: "pystr \<Rightarrow> 'a dispatch_started_scheme \<Rightarrow> dict" where
  "dispatch_fields phase d =
    [(lit ''phase'', PStr phase), (lit ''decision_id'', PStr (ds_decision_id d)),
     (lit ''request_id'', PStr (ds_request_id d)), (lit ''proposal_id'', PStr (ds_proposal_id d)),
     (lit ''action_digest'', PStr (ds_action_digest d)),
     (lit ''mono_decision_received_ns'', PInt (ds_mono_decision_received_ns d)),
     (lit ''mono_gmail_commit_start_ns'', PInt (ds_mono_gmail_commit_start_ns d))]"

definition started_to_dict :: "dispatch_started \<Rightarrow> dict" where
  "started_to_dict d = dispatch_fields phase_started d"

definition completed_to_dict :: "dispatch_completed \<Rightarrow> dict" where
  "completed_to_dict d = dispatch_fields phase_completed d @
    [(lit ''mono_response_complete_ns'', PInt (dp_mono_response_complete_ns d)),
     (lit ''terminal_status'', PStr (dp_terminal_status d))]"

definition dispatch_closed_schemas :: "unit res" where
  "dispatch_closed_schemas =
     rbind (rguard (set (map fst (started_to_dict
        \<lparr>ds_decision_id = [], ds_request_id = [], ds_proposal_id = [], ds_action_digest = [],
         ds_mono_decision_received_ns = 0, ds_mono_gmail_commit_start_ns = 0\<rparr>)) = set started_fields)
       (Py AssertionError)) (\<lambda>_.
     rguard (set (map fst (completed_to_dict
        \<lparr>ds_decision_id = [], ds_request_id = [], ds_proposal_id = [], ds_action_digest = [],
         ds_mono_decision_received_ns = 0, ds_mono_gmail_commit_start_ns = 0,
         dp_mono_response_complete_ns = 0, dp_terminal_status = []\<rparr>)) = set completed_fields)
       (Py AssertionError))"

definition record_started :: "'s append_log \<Rightarrow> dispatch_started \<Rightarrow> ('s, unit) pm" where
  "record_started L d = log_append L (started_to_dict d)"

definition record_completed :: "'s append_log \<Rightarrow> dispatch_completed \<Rightarrow> ('s, unit) pm" where
  "record_completed L d = log_append L (completed_to_dict d)"

definition find_records :: "'s append_log \<Rightarrow> pystr \<Rightarrow> pystr \<Rightarrow> pystr \<Rightarrow> ('s, dict list) pm" where
  "find_records L pid rid dig =
     (if pid = [] \<or> rid = [] \<or> dig = [] then preturn []
      else pbind (log_entries L) (\<lambda>rows. preturn (filter (\<lambda>r. dget r (lit ''proposal_id'') = PStr pid \<and>
        dget r (lit ''request_id'') = PStr rid \<and> dget r (lit ''action_digest'') = PStr dig) rows)))"

subsection \<open>The authorized send\<close>

record send_outcome =
  so_authorized :: bool
  so_sent :: bool
  so_public_code :: pystr
  so_proposal_status :: "proposal_status option"

record 's authorized_send =
  os_authorize :: "authorization_request \<Rightarrow> pystr \<Rightarrow> ('s, authorization) pm"
  os_fsm :: "'s send_fsm"
  os_store :: "'s kv"
  os_now :: "('s, int) pm"
  os_records :: "'s append_log"
  os_clock :: "('s, int) pm"

definition outcome :: "bool \<Rightarrow> bool \<Rightarrow> pystr \<Rightarrow> proposal_status option \<Rightarrow> send_outcome" where
  "outcome authd snt code st =
     \<lparr>so_authorized = authd, so_sent = snt, so_public_code = code, so_proposal_status = st\<rparr>"

definition started_of :: "decision \<Rightarrow> authorization_request \<Rightarrow> pystr \<Rightarrow> proposal \<Rightarrow> int \<Rightarrow> int \<Rightarrow> dispatch_started" where
  "started_of d req pid p received start =
     \<lparr>ds_decision_id = dc_decision_id d, ds_request_id = rq_request_id req, ds_proposal_id = pid,
      ds_action_digest = p_payload_digest p, ds_mono_decision_received_ns = received,
      ds_mono_gmail_commit_start_ns = start\<rparr>"

definition completed_of ::
  "decision \<Rightarrow> authorization_request \<Rightarrow> pystr \<Rightarrow> proposal \<Rightarrow> int \<Rightarrow> int \<Rightarrow> int \<Rightarrow> proposal_status \<Rightarrow> dispatch_completed" where
  "completed_of d req pid p received start finish st =
     dispatch_started.extend (started_of d req pid p received start)
       (dispatch_completed.fields finish (status_value st))"

text \<open>After the started record: dispatch, then the completed record.\<close>

definition dispatch_and_complete ::
  "'s authorized_send \<Rightarrow> pystr \<Rightarrow> authorization_request \<Rightarrow> proposal \<Rightarrow> authorization \<Rightarrow> int \<Rightarrow> int \<Rightarrow> ('s, send_outcome) pm" where
  "dispatch_and_complete A pid req p a now start =
     pbind (fsm_dispatch (os_fsm A) pid now) (\<lambda>st.
     pbind (os_clock A) (\<lambda>finish.
     ptry (record_completed (os_records A)
         (completed_of (au_decision a) req pid p (au_mono_decision_received a) start finish st))
       (\<lambda>_. preturn (outcome True False (lit ''outcome_unknown'') (Some st)))
       (\<lambda>_. preturn (outcome True (st = SENT) (status_value st) (Some st)))))"

definition confirm_and_record ::
  "'s authorized_send \<Rightarrow> pystr \<Rightarrow> authorization_request \<Rightarrow> proposal \<Rightarrow> authorization \<Rightarrow> ('s, send_outcome) pm" where
  "confirm_and_record A pid req p a =
     pbind (os_now A) (\<lambda>now.
     pbind (fsm_confirm (os_fsm A) pid HUMAN now None) (\<lambda>_.
     pbind (os_clock A) (\<lambda>start.
     ptry (record_started (os_records A)
         (started_of (au_decision a) req pid p (au_mono_decision_received a) start))
       (\<lambda>_. preturn (outcome True False (lit ''record_unavailable'') (Some (p_status p))))
       (\<lambda>_. dispatch_and_complete A pid req p a now start))))"

definition authorize_and_send ::
  "'s authorized_send \<Rightarrow> pystr \<Rightarrow> authorization_request \<Rightarrow> ('s, send_outcome) pm" where
  "authorize_and_send A pid req =
     pbind (ps_get (os_store A) pid) (\<lambda>p.
     ptry (os_authorize A req (p_payload_digest p))
       (\<lambda>e. if e = Authz AuthorizationDenied then preturn (outcome False False (lit ''denied'') None) else praise e)
       (\<lambda>a. if dc_disposition (au_decision a) = disposition_value NEEDS_APPROVAL
            then preturn (outcome True False (lit ''pending_approval'') (Some (p_status p)))
            else confirm_and_record A pid req p a))"

subsection \<open>On the gateway's state\<close>

definition records_log :: "authz_env world append_log" where
  "records_log = lift_log w_env (\<lambda>e w. w\<lparr>w_env := e\<rparr>) (lift_log en_records put_records sqlite_log)"

definition gateway_send ::
  "iso_parser \<Rightarrow> (bytes \<Rightarrow> pystr) \<Rightarrow> ed25519 \<Rightarrow> gate_config \<Rightarrow> authz_env sender \<Rightarrow> switch_mode \<Rightarrow>
     authz_env world authorized_send" where
  "gateway_send isoparse H E C send mode =
     \<lparr>os_authorize = \<lambda>req dig. env_pm (authorize isoparse H E (stub_gate isoparse H E C) req dig),
      os_fsm = gateway_fsm send mode, os_store = proposals_db, os_now = env_pm env_now,
      os_records = records_log, os_clock = env_pm env_clock\<rparr>"

text \<open>The sender may change the payload store and the environment, but not the dispatch records.\<close>

definition sender_keeps_records :: "authz_env sender \<Rightarrow> bool" where
  "sender_keeps_records send \<longleftrightarrow> (\<forall>pid pl e. en_records (snd (snd (send pid (pl, e)))) = en_records e)"

definition dispatch_rows :: "authz_env world \<Rightarrow> dict list" where
  "dispatch_rows w = sq_committed (en_records (w_env w))"

interpretation rdb: log_atomic records_log dispatch_rows "\<lambda>w. clean (en_records (w_env w))"
proof -
  have "log_atomic (lift_log en_records put_records sqlite_log) (\<lambda>e. sq_committed (en_records e)) (\<lambda>e. clean (en_records e))"
    by (rule log_atomic_lift [OF sqlite_audit.log_atomic_axioms]) (simp add: put_records_def)
  from log_atomic_lift [OF this, of w_env "\<lambda>e w. w\<lparr>w_env := e\<rparr>"]
  show "log_atomic records_log dispatch_rows (\<lambda>w. clean (en_records (w_env w)))"
    by (simp add: records_log_def dispatch_rows_def [abs_def])
qed

lemma gateway_send_sel [simp]:
  "os_authorize (gateway_send isoparse H E C send mode) req dig =
     env_pm (authorize isoparse H E (stub_gate isoparse H E C) req dig)"
  "os_fsm (gateway_send isoparse H E C send mode) = gateway_fsm send mode"
  "os_store (gateway_send isoparse H E C send mode) = proposals_db"
  "os_now (gateway_send isoparse H E C send mode) = env_pm env_now"
  "os_records (gateway_send isoparse H E C send mode) = records_log"
  "os_clock (gateway_send isoparse H E C send mode) = env_pm env_clock"
  by (simp_all add: gateway_send_def)

subsection \<open>Who touches what\<close>

lemma keeps_env_pm: "keeps f m \<Longrightarrow> keeps (\<lambda>w. f (w_env w)) (env_pm m)"
  by (fastforce simp: keeps_def env_pm_def split: prod.splits)

lemma env_pm_keeps [keeps_intro]: "keeps w_sent (env_pm m)" "keeps w_proposals (env_pm m)" "keeps w_audit (env_pm m)"
  by (auto simp: keeps_def env_pm_def split: prod.splits)

lemma stores_keep [keeps_intro]:
  "keeps w_env (kv_get proposals_db k)" "keeps w_env (kv_put proposals_db k v)" "keeps w_env (log_append audit_db e)"
  "keeps w_sent (kv_get proposals_db k)" "keeps w_sent (kv_put proposals_db k v)" "keeps w_sent (log_append audit_db e)"
  by (auto simp: keeps_def proposals_db_def audit_db_def lift_pm_iff put_proposals_def put_audit_def)

lemma ps_get_keeps [keeps_intro]:
  "(\<And>k. keeps f (kv_get B k)) \<Longrightarrow> keeps f (ps_get B pid)"
  by (auto simp: ps_get_def intro!: keeps_intro split: option.splits)

lemma ps_get_live_keeps [keeps_intro]:
  "(\<And>k. keeps f (kv_get B k)) \<Longrightarrow> keeps f (ps_get_live B pid now)"
  by (auto simp: ps_get_live_def intro!: keeps_intro)

lemma ps_set_status_keeps [keeps_intro]:
  "(\<And>k. keeps f (kv_get B k)) \<Longrightarrow> (\<And>k v. keeps f (kv_put B k v)) \<Longrightarrow> keeps f (ps_set_status B pid st)"
  by (auto simp: ps_set_status_def intro!: keeps_intro)

lemma ledger_record_keeps [keeps_intro]:
  "(\<And>e. keeps f (log_append L e)) \<Longrightarrow> keeps f (ledger_record L ev)"
  by (auto simp: ledger_record_def intro!: keeps_intro)

lemma keeps_comp: "keeps w_env m \<Longrightarrow> keeps (\<lambda>w. f (w_env w)) m"
  by (auto simp: keeps_def)

lemma confirm_keeps_env: "keeps w_env (fsm_confirm (gateway_fsm send mode) pid actor now reach)"
  by (auto simp: fsm_confirm_def intro!: keeps_intro)

lemma dispatch_keeps_records:
  assumes "sender_keeps_records send"
  shows "keeps (\<lambda>w. en_records (w_env w)) (fsm_dispatch (gateway_fsm send mode) pid now)"
proof -
  have "keeps (\<lambda>w. en_records (w_env w)) (world_sender send pid)"
  proof -
    have "en_records (snd (snd (send pid (w_payloads w, w_env w)))) = en_records (w_env w)" for w
      using assms by (simp add: sender_keeps_records_def)
    then show ?thesis by (auto simp: keeps_def world_sender_def case_prod_beta)
  qed
  moreover have "keeps (\<lambda>w. en_records (w_env w)) (kv_get proposals_db k)"
    "keeps (\<lambda>w. en_records (w_env w)) (kv_put proposals_db k v)"
    "keeps (\<lambda>w. en_records (w_env w)) (log_append audit_db e)" for k v e
    by (rule keeps_comp [of _ en_records], rule stores_keep)+
  ultimately show ?thesis
    by (auto simp: fsm_dispatch_def fsm_settle_def fsm_settle_unknown_def
        intro!: keeps_intro split: send_result_kind.splits)
qed

lemma env_steps_keep [keeps_intro]:
  "keeps en_records env_now" "keeps en_records env_clock"
  "keeps en_records (lift_pm en_requests put_requests m1)" "keeps en_records (lift_pm en_decided put_decided m1)"
  "keeps en_records (lift_pm en_mark put_mark m2)" "keeps en_records (lift_pm en_audit put_authz_audit m3)"
  by (auto simp: keeps_def env_now_def env_clock_def lift_pm_iff env_puts)

lemma keeps_Pair [keeps_intro]: "keeps f (Pair x)"
  by (simp add: keeps_def)

lemma stub_methods_keep [keeps_intro]:
  "keeps en_records (g_sync (stub_gate isoparse H E C))" "keeps en_records (g_decide (stub_gate isoparse H E C) req now)"
  by (auto simp: keeps_def)

lemma deny_keeps [keeps_intro]: "keeps en_records (deny isoparse (stub_gate isoparse H E C) req now reason detail v)"
  by (auto simp: deny_def authz_record_def intro!: keeps_intro)

lemma sync_keeps [keeps_intro]: "keeps en_records (sync_and_accept isoparse H E (stub_gate isoparse H E C) req now)"
  by (auto simp: sync_and_accept_def accept_head_def intro!: keeps_intro split: sum.splits option.splits)

lemma local_keeps [keeps_intro]: "keeps en_records (local_decisions E (stub_gate isoparse H E C) req now h g)"
  by (auto simp: local_decisions_def check_subject_def intro!: keeps_intro split: membership.splits subject_kind.splits)

lemma cloud_keeps [keeps_intro]:
  "keeps en_records (cloud_decision isoparse E (stub_gate isoparse H E C) req now g h ex)"
  by (auto simp: cloud_decision_def verify_decision_def record_outcome_def authz_record_def
      intro!: keeps_intro split: option.splits)

lemma authorize_keeps_records: "keeps en_records (authorize isoparse H E (stub_gate isoparse H E C) req dig)"
  by (auto simp: authorize_def consume_request_def intro!: keeps_intro
      split: sum.splits exn.splits authz_exn.splits option.splits)

subsection \<open>What a call does\<close>

context fsm_env
begin

lemma settle_stores:
  assumes "good s" "fsm_settle F pid now x s = (Inr b, t)"
  shows "status_at (rows t) pid = Some b \<and> terminal b"
proof -
  obtain st e where "terminal st" and
    "pbind (ps_set_status (fsm_store F) pid st) (\<lambda>_. pbind (ledger_record (fsm_ledger F) e) (\<lambda>_. preturn st)) s = (Inr b, t)"
    using assms(2) that by (cases "sr_kind x") (auto simp: fsm_settle_def fsm_settle_unknown_def terminal_def)
  from settle_step [OF assms(1) this(2)] this(1) show ?thesis by auto
qed

text \<open>The status a dispatch returns is the one it stored.\<close>

lemma dispatch_returns:
  assumes s: "good s" and c: "fsm_dispatch F pid now s = (Inr b, t)"
  shows "status_at (rows t) pid = Some b \<and> terminal b"
proof -
  from c obtain p u x v where p: "ps_get (fsm_store F) pid s = (Inr p, u)"
    and v: "ledger_record (fsm_ledger F) ((audit_event0 SEND_ATTEMPTED now pid)
         \<lparr>ae_payload_digest := Some (p_payload_digest p)\<rparr>) u = (Inr x, v)"
    and r: "ptry (fsm_sender F pid) (\<lambda>_. fsm_settle_unknown F pid now (Some (lit ''sender_raised'')) [])
         (fsm_settle F pid now) v = (Inr b, t)"
    unfolding fsm_dispatch_def by (auto simp: pbind_Inr_iff split: if_splits)
  from read_step [OF s p] record_step [OF _ v] have v': "good v" by blast
  obtain y w where y: "fsm_sender F pid v = (y, w)" by fastforce
  from sender_frame [OF y] v' have w: "good w" by (simp add: good_def)
  show ?thesis
  proof (cases y)
    case (Inl z)
    with r y have "pbind (ps_set_status (fsm_store F) pid OUTCOME_UNKNOWN) (\<lambda>_.
       pbind (ledger_record (fsm_ledger F) ((audit_event0 SEND_OUTCOME_UNKNOWN now pid)
         \<lparr>ae_outcome := Some (lit ''indeterminate''), ae_error_code := Some (lit ''sender_raised''),
          ae_egress_hosts := []\<rparr>)) (\<lambda>_. preturn OUTCOME_UNKNOWN)) w = (Inr b, t)"
      by (simp add: ptry_def fsm_settle_unknown_def)
    from settle_step [OF w this] show ?thesis by (auto simp: terminal_def)
  next
    case (Inr z)
    with r y have "fsm_settle F pid now z w = (Inr b, t)" by (simp add: ptry_def)
    from settle_stores [OF w this] show ?thesis .
  qed
qed

end

lemma env_clock_total: "\<exists>n. env_pm env_clock w = (Inr n, w\<lparr>w_env := snd (env_clock (w_env w))\<rparr>)"
  by (auto simp: env_pm_def env_clock_def)

lemma env_pm_good: "env_pm m w = (r, t) \<Longrightarrow> gw.good t = gw.good w \<and> w_sent t = w_sent w \<and>
    proposal_rows t = proposal_rows w \<and> audit_rows t = audit_rows w"
  by (auto simp: env_pm_def world_good proposal_rows_def audit_rows_def split: prod.splits)

text \<open>The dispatch records are well.\<close>

abbreviation records_clean :: "authz_env world \<Rightarrow> bool" where
  "records_clean w \<equiv> clean (en_records (w_env w))"

lemma env_clock_records: "env_pm env_clock w = (r, t) \<Longrightarrow> en_records (w_env t) = en_records (w_env w)"
  and env_now_records: "env_pm env_now w = (r, t) \<Longrightarrow> en_records (w_env t) = en_records (w_env w)"
  by (auto simp: env_pm_def env_clock_def env_now_def)

lemma record_log_frame:
  "log_append records_log e w = (r, t) \<Longrightarrow> w_sent t = w_sent w \<and> gw.good t = gw.good w \<and>
     proposal_rows t = proposal_rows w"
  by (auto simp: records_log_def lift_pm_iff world_good proposal_rows_def)

text \<open>What can have happened when a call that wrote its started record ends.\<close>

definition after_start ::
  "pystr \<Rightarrow> authorization_request \<Rightarrow> proposal \<Rightarrow> authorization \<Rightarrow> int \<Rightarrow> authz_env world \<Rightarrow> send_outcome res \<Rightarrow>
     authz_env world \<Rightarrow> bool" where
  "after_start pid req p a start w r t \<longleftrightarrow>
     w_sent t = w_sent w \<and> dispatch_rows t = dispatch_rows w \<and> (\<exists>e. r = Inl e) \<or>
     w_sent t = pid # w_sent w \<and>
       (dispatch_rows t = dispatch_rows w \<and>
          ((\<exists>e. r = Inl e) \<or> (\<exists>fs. r = Inr (outcome True False (lit ''outcome_unknown'') (Some fs)))) \<or>
        (\<exists>finish fs. terminal fs \<and> status_at (proposal_rows t) pid = Some fs \<and>
          dispatch_rows t = dispatch_rows w @
            [completed_to_dict (completed_of (au_decision a) req pid p (au_mono_decision_received a) start finish fs)] \<and>
          r = Inr (outcome True (fs = SENT) (status_value fs) (Some fs))))"

lemma dispatch_phase:
  fixes w :: "authz_env world"
  assumes g: "gw.good w" "records_clean w" and k: "sender_keeps_records send"
    and c: "dispatch_and_complete (gateway_send isoparse H E C send mode) pid req p a now start w = (r, t)"
  shows "gw.good t \<and> records_clean t \<and> after_start pid req p a start w r t"
proof -
  obtain x u where x: "fsm_dispatch (gateway_fsm send mode) pid now w = (x, u)" by fastforce
  note ds = gw.dispatch_step [OF g(1) x]
  have ru: "en_records (w_env u) = en_records (w_env w)"
    using keepsD [OF dispatch_keeps_records [OF k] x] .
  show ?thesis
  proof (cases x)
    case (Inl e)
    with c x have "r = Inl e" "t = u" by (auto simp: dispatch_and_complete_def pbind_def)
    with ds ru g(2) show ?thesis by (auto simp: dispatch_rows_def after_start_def)
  next
    case (Inr fs)
    from gw.dispatch_returns [OF g(1) x [unfolded Inr]] have fs: "status_at (proposal_rows u) pid = Some fs" "terminal fs"
      by auto
    from ds Inr have s: "gw.good u" "w_sent u = pid # w_sent w" by auto
    obtain n v where v: "env_pm env_clock u = (Inr n, v)" using env_clock_total [of u] by blast
    note ev = env_pm_good [OF v] env_clock_records [OF v]
    let ?d = "completed_of (au_decision a) req pid p (au_mono_decision_received a) start n fs"
    obtain y z where y: "record_completed records_log ?d v = (y, z)" by fastforce
    then have y': "log_append records_log (completed_to_dict ?d) v = (y, z)" by (simp add: record_completed_def)
    have rv: "records_clean v" using ru ev g(2) by simp
    have rows: "dispatch_rows v = dispatch_rows w" using ru ev by (simp add: dispatch_rows_def)
    from rdb.append_atomic [OF rv y'] record_log_frame [OF y'] ev s fs rows
    have z: "gw.good z" "records_clean z" "w_sent z = pid # w_sent w" "status_at (proposal_rows z) pid = Some fs"
      "dispatch_rows z = (case y of Inl _ \<Rightarrow> dispatch_rows w | Inr _ \<Rightarrow> dispatch_rows w @ [completed_to_dict ?d])"
      by (auto split: sum.splits)
    have "(r, t) = (case y of Inl _ \<Rightarrow> (Inr (outcome True False (lit ''outcome_unknown'') (Some fs)), z)
        | Inr _ \<Rightarrow> (Inr (outcome True (fs = SENT) (status_value fs) (Some fs)), z))"
      using c x Inr v y by (auto simp: dispatch_and_complete_def pbind_def ptry_def preturn_def split: sum.splits)
    with z fs show ?thesis by (cases y) (auto simp: after_start_def)
  qed
qed

text \<open>Between the authorization and the started record.\<close>

lemma confirm_phase:
  fixes w :: "authz_env world"
  assumes g: "gw.good w" "records_clean w" and k: "sender_keeps_records send"
    and c: "confirm_and_record (gateway_send isoparse H E C send mode) pid req p a w = (r, t)"
  shows "gw.good t \<and> records_clean t \<and>
    (w_sent t = w_sent w \<and> dispatch_rows t = dispatch_rows w \<and>
       ((\<exists>e. r = Inl e) \<or> r = Inr (outcome True False (lit ''record_unavailable'') (Some (p_status p))) \<and>
          status_at (proposal_rows w) pid = Some PENDING \<and> status_at (proposal_rows t) pid = Some CONFIRMED) \<or>
     status_at (proposal_rows w) pid = Some PENDING \<and>
     (\<exists>start u. w_sent u = w_sent w \<and> dispatch_rows u =
        dispatch_rows w @ [started_to_dict (started_of (au_decision a) req pid p (au_mono_decision_received a) start)] \<and>
        after_start pid req p a start u r t))"
proof -
  obtain now u where u: "env_pm env_now w = (Inr now, u)" by (auto simp: env_pm_def env_now_def)
  note eu = env_pm_good [OF u] env_now_records [OF u]
  obtain x v where x: "fsm_confirm (gateway_fsm send mode) pid HUMAN now None u = (x, v)" by fastforce
  have gu: "gw.good u" using eu g by simp
  note cs = gw.confirm_step [OF gu x]
  have ev: "w_env v = w_env u" using keepsD [OF confirm_keeps_env x] .
  have rv: "records_clean v" "dispatch_rows v = dispatch_rows w" using ev eu g(2) by (simp_all add: dispatch_rows_def)
  show ?thesis
  proof (cases x)
    case (Inl e)
    with c u x have "r = Inl e" "t = v" by (auto simp: confirm_and_record_def pbind_def)
    with cs eu rv show ?thesis by auto
  next
    case (Inr _)
    with cs have s: "gw.good v" "w_sent v = w_sent u" "status_at (proposal_rows v) pid = Some CONFIRMED"
      "status_at (proposal_rows w) pid = Some PENDING" using eu by auto
    obtain start v' where v': "env_pm env_clock v = (Inr start, v')" using env_clock_total [of v] by blast
    note ev' = env_pm_good [OF v'] env_clock_records [OF v']
    let ?d = "started_of (au_decision a) req pid p (au_mono_decision_received a) start"
    obtain y z where y: "record_started records_log ?d v' = (y, z)" by fastforce
    then have y': "log_append records_log (started_to_dict ?d) v' = (y, z)" by (simp add: record_started_def)
    have rv': "records_clean v'" "dispatch_rows v' = dispatch_rows w"
      using rv ev' by (simp_all add: dispatch_rows_def)
    note z = rdb.append_atomic [OF rv'(1) y'] record_log_frame [OF y']
    show ?thesis
    proof (cases y)
      case (Inl e)
      with c u x Inr v' y have "r = Inr (outcome True False (lit ''record_unavailable'') (Some (p_status p)))" "t = z"
        by (auto simp: confirm_and_record_def pbind_def ptry_def preturn_def)
      with z s ev' eu rv' Inl show ?thesis by auto
    next
      case (Inr _)
      with c u x \<open>x = Inr _\<close> v' y
      have "dispatch_and_complete (gateway_send isoparse H E C send mode) pid req p a now start z = (r, t)"
        by (auto simp: confirm_and_record_def pbind_def ptry_def)
      from dispatch_phase [OF _ _ k this] z s ev' eu rv' Inr show ?thesis by auto
    qed
  qed
qed

text \<open>A whole call: either nothing was dispatched, or the gate authorized exactly this payload.\<close>

lemma send_steps:
  fixes w :: "authz_env world"
  assumes g: "gw.good w" "records_clean w" and k: "sender_keeps_records send"
    and c: "authorize_and_send (gateway_send isoparse H E C send mode) pid req w = (r, t)"
  shows "gw.good t \<and> records_clean t \<and>
    (w_sent t = w_sent w \<and> dispatch_rows t = dispatch_rows w \<and> 
       (\<forall>o1. r = Inr o1 \<longrightarrow> \<not> so_sent o1 \<and> (so_public_code o1 = lit ''record_unavailable'' \<longrightarrow>
          so_proposal_status o1 = Some PENDING \<and> status_at (proposal_rows t) pid = Some CONFIRMED)) \<or>
     (\<exists>p d a e start u. proposal_rows w pid = Some d \<and> proposal_from_dict d = Inr p \<and>
        status_at (proposal_rows w) pid = Some PENDING \<and>
        authorize isoparse H E (stub_gate isoparse H E C) req (p_payload_digest p) (w_env w) = (Inr a, e) \<and>
        dc_disposition (au_decision a) \<noteq> disposition_value NEEDS_APPROVAL \<and> w_sent u = w_sent w \<and>
        dispatch_rows u = dispatch_rows w @
          [started_to_dict (started_of (au_decision a) req pid p (au_mono_decision_received a) start)] \<and>
        after_start pid req p a start u r t))"
proof -
  let ?A = "gateway_send isoparse H E C send mode"
  obtain x u where x: "ps_get proposals_db pid w = (x, u)" by fastforce
  from gw.read_step [OF g(1), of _ _ pid x u] x
  have u: "gw.good u" "proposal_rows u = proposal_rows w" "w_sent u = w_sent w"
    "\<And>p. x = Inr p \<Longrightarrow> \<exists>d. proposal_rows w pid = Some d \<and> proposal_from_dict d = Inr p" by auto
  have eu: "w_env u = w_env w" using x keepsD [OF ps_get_keeps [OF stores_keep(1)]] by blast
  show ?thesis
  proof (cases x)
    case (Inl e)
    with c x have "r = Inl e" "t = u" by (auto simp: authorize_and_send_def pbind_def)
    with u eu g show ?thesis by (simp add: dispatch_rows_def)
  next
    case (Inr p)
    obtain y v where y: "env_pm (authorize isoparse H E (stub_gate isoparse H E C) req (p_payload_digest p)) u = (y, v)"
      by fastforce
    have rv: "en_records (w_env v) = en_records (w_env w)"
      using keepsD [OF keeps_env_pm [OF authorize_keeps_records] y] eu by simp
    then have v: "gw.good v" "proposal_rows v = proposal_rows w" "w_sent v = w_sent w" "records_clean v"
      "dispatch_rows v = dispatch_rows w"
      using env_pm_good [OF y] u g(2) by (simp_all add: dispatch_rows_def)
    show ?thesis
    proof (cases "\<exists>a. y = Inr a \<and> dc_disposition (au_decision a) \<noteq> disposition_value NEEDS_APPROVAL")
      case False
      with c x Inr y have "t = v \<and> (\<forall>o1. r = Inr o1 \<longrightarrow> \<not> so_sent o1 \<and> so_public_code o1 \<noteq> lit ''record_unavailable'')"
        by (cases y) (auto simp: authorize_and_send_def pbind_def ptry_def preturn_def praise_def outcome_def split: if_splits)
      with v show ?thesis by auto
    next
      case True
      then obtain a where a: "y = Inr a" "dc_disposition (au_decision a) \<noteq> disposition_value NEEDS_APPROVAL" by blast
      with c x Inr y have cr: "confirm_and_record ?A pid req p a v = (r, t)"
        by (auto simp: authorize_and_send_def pbind_def ptry_def split: if_splits)
      from y a(1) eu obtain e where
        "authorize isoparse H E (stub_gate isoparse H E C) req (p_payload_digest p) (w_env w) = (Inr a, e)"
        by (auto simp: env_pm_def split: prod.splits)
      obtain d where d: "proposal_rows w pid = Some d" "proposal_from_dict d = Inr p" using u(4) [OF Inr] by blast
      then have "status_at (proposal_rows w) pid = Some (p_status p)" by (rule status_at_read)
      with confirm_phase [OF v(1,4) k cr] v d a(2) \<open>authorize _ _ _ _ _ _ _ = _\<close> show ?thesis
        by (fastforce simp: outcome_def)
    qed
  qed
qed

text \<open>What the gate's soundness says of the decision behind a send.\<close>

lemma authorized_decision:
  assumes "authorize isoparse H E (stub_gate isoparse H E C) req dig s = (Inr a, t)"
    and "dc_disposition (au_decision a) \<noteq> disposition_value NEEDS_APPROVAL"
  shows "dc_action_digest (au_decision a) = dig \<and> dc_request_id (au_decision a) = rq_request_id req \<and>
    dc_disposition (au_decision a) = disposition_value AUTHORIZED \<and>
    (\<exists>g. grant_authentic isoparse E (stub_gate isoparse H E C) req g \<and> permits_auto g \<and>
       dc_grant_id (au_decision a) = gr_grant_id g \<and> request_key g req \<notin> spent_requests s)"
  using sg.authorize_sound [OF assms(1)] assms(2)
  by (fastforce simp: decision_accepted_def decision_matches_def expected_binding_of_def grant_disposition_def split: if_splits)

subsection \<open>A run without failures\<close>

lemma record_log_returns:
  assumes "healthy (en_records (w_env w))"
  shows "\<exists>t. log_append records_log e w = (Inr (), t) \<and> healthy (en_records (w_env t)) \<and>
    dispatch_rows t = dispatch_rows w @ [e] \<and> w_sent t = w_sent w \<and> proposal_rows t = proposal_rows w \<and>
    (world_healthy t \<longleftrightarrow> world_healthy w)"
  using guarded_append_healthy [OF assms, of e]
  by (auto simp: records_log_def lift_pm_iff lift_pm_def sqlite_log_def put_records_def dispatch_rows_def
      proposal_rows_def world_healthy_def)

lemma healthy_send:
  fixes w :: "authz_env world"
  assumes h: "world_healthy w" "healthy (en_records (w_env w))" and k: "sender_keeps_records send"
    and p: "proposal_rows w pid = Some (proposal_to_dict p)" "p_status p = PENDING"
    and a: "authorize isoparse H E (stub_gate isoparse H E C) req (p_payload_digest p) (w_env w) = (Inr a, e)"
      "dc_disposition (au_decision a) \<noteq> disposition_value NEEDS_APPROVAL"
    and now: "env_now e = (Inr now, e')" "0 \<le> now" "now < p_expires_at p"
  shows "\<exists>t x start finish. let fs = outcome_status (fst (send pid x)) in
    authorize_and_send (gateway_send isoparse H E C send mode) pid req w =
      (Inr (outcome True (fs = SENT) (status_value fs) (Some fs)), t) \<and>
    w_sent t = pid # w_sent w \<and> status_at (proposal_rows t) pid = Some fs \<and>
    dispatch_rows t = dispatch_rows w @
      [started_to_dict (started_of (au_decision a) req pid p (au_mono_decision_received a) start),
       completed_to_dict (completed_of (au_decision a) req pid p (au_mono_decision_received a) start finish fs)]"
proof -
  let ?w = "w\<lparr>w_env := e'\<rparr>" and ?q = "p\<lparr>p_status := CONFIRMED\<rparr>"
  let ?st = "\<lambda>start. started_of (au_decision a) req pid p (au_mono_decision_received a) start"
  let ?co = "\<lambda>start finish fs. completed_of (au_decision a) req pid p (au_mono_decision_received a) start finish fs"
  have g: "ps_get proposals_db pid w = (Inr p, w)"
    using pdb.get_returns [OF _ p(1)] h(1) by (simp add: world_healthy_def)
  have "en_records e = en_records (w_env w)" using keepsD [OF authorize_keeps_records a(1)] .
  moreover have "en_records e' = en_records e" using now(1) by (auto simp: env_now_def)
  ultimately have w: "world_healthy ?w" "healthy (en_records (w_env ?w))" "dispatch_rows ?w = dispatch_rows w"
    "proposal_rows ?w pid = Some (proposal_to_dict p)"
    using h p(1) by (simp_all add: world_healthy_def dispatch_rows_def proposal_rows_def)
  from healthy_confirm [OF w(1) now(2) w(4) p(2) now(3)] obtain u where
    u: "fsm_confirm (gateway_fsm send mode) pid HUMAN now None ?w = (Inr (), u)" "world_healthy u"
      "proposal_rows u pid = Some (proposal_to_dict ?q)" "w_sent u = w_sent w" "w_env u = e'" by fastforce
  obtain start v where v: "env_pm env_clock u = (Inr start, v)" using env_clock_total [of u] by blast
  note ev = env_pm_good [OF v] env_clock_records [OF v]
  have hv: "world_healthy v" using u(2) v by (auto simp: env_pm_def env_clock_def world_healthy_def)
  have rv: "healthy (en_records (w_env v))" "dispatch_rows v = dispatch_rows w"
    using ev u(5) w(2,3) by (simp_all add: dispatch_rows_def)
  from record_log_returns [OF rv(1), of "started_to_dict (?st start)"] obtain x where
    x: "record_started records_log (?st start) v = (Inr (), x)" "healthy (en_records (w_env x))"
      "dispatch_rows x = dispatch_rows w @ [started_to_dict (?st start)]" "w_sent x = w_sent w"
      "proposal_rows x = proposal_rows v" "world_healthy x"
    using rv ev u(4) hv by (auto simp: record_started_def)
  obtain sr pl e2 where sr: "send pid (w_payloads x, w_env x) = (sr, pl, e2)" by (metis prod_cases3)
  let ?fs = "outcome_status sr"
  have "proposal_rows x pid = Some (proposal_to_dict ?q)" using x(5) ev u(3) by simp
  from healthy_dispatch [of x now pid ?q send sr pl e2, OF x(6) now(2) this sr] obtain y where
    y: "fsm_dispatch (gateway_fsm send mode) pid now x = (Inr ?fs, y)" "w_sent y = pid # w_sent w"
      "proposal_rows y pid = Some (proposal_to_dict (?q\<lparr>p_status := ?fs\<rparr>))"
    using x(4) by fastforce
  have ry: "en_records (w_env y) = en_records (w_env x)" using keepsD [OF dispatch_keeps_records [OF k] y(1)] .
  obtain finish z where z: "env_pm env_clock y = (Inr finish, z)" using env_clock_total [of y] by blast
  note ez = env_pm_good [OF z] env_clock_records [OF z]
  have "healthy (en_records (w_env z))" "dispatch_rows z = dispatch_rows x"
    using ry ez x(2) by (simp_all add: dispatch_rows_def)
  with record_log_returns [of z "completed_to_dict (?co start finish ?fs)"] obtain t where
    t: "record_completed records_log (?co start finish ?fs) z = (Inr (), t)" "w_sent t = pid # w_sent w"
      "dispatch_rows t = dispatch_rows w @ [started_to_dict (?st start), completed_to_dict (?co start finish ?fs)]"
      "proposal_rows t = proposal_rows y"
    using x(3) y(2) ez by (auto simp: record_completed_def)
  have "authorize_and_send (gateway_send isoparse H E C send mode) pid req w =
      (Inr (outcome True (?fs = SENT) (status_value ?fs) (Some ?fs)), t)"
    using g a now(1) u(1) v x(1) y(1) z t(1)
    by (simp add: authorize_and_send_def confirm_and_record_def dispatch_and_complete_def env_pm_def pm_simps)
  moreover have "status_at (proposal_rows t) pid = Some ?fs" using t(4) y(3) by (simp add: status_at_def)
  moreover have "fst (send pid (w_payloads x, w_env x)) = sr" using sr by simp
  ultimately show ?thesis using t(2,3) unfolding Let_def by metis
qed

text \<open>A gateway with one pending proposal, whose payload the sample request is about.\<close>

definition send_proposal :: proposal where
  "send_proposal = sample_proposal\<lparr>p_payload_digest := lit ''a'', p_expires_at := 1767225800\<rparr>"

definition send_world :: "bool list \<Rightarrow> authz_env world" where
  "send_world faults =
    \<lparr>w_proposals = \<lparr>sq_committed = [(lit ''p1'', proposal_to_dict send_proposal)], sq_pending = None,
       sq_broken = False, sq_faults = []\<rparr>,
     w_payloads = empty_sqlite [], w_audit = \<lparr>sq_committed = [], sq_pending = None, sq_broken = False, sq_faults = []\<rparr>,
     w_sent = [],
     w_env = sample_authz_env\<lparr>en_records := \<lparr>sq_committed = [], sq_pending = None, sq_broken = False, sq_faults = faults\<rparr>\<rparr>\<rparr>"

definition accepting_sender :: "authz_env sender" where
  "accepting_sender pid s = (Inr \<lparr>sr_kind = ACCEPTED, sr_message_id_sha256 = None, sr_thread_id_sha256 = None,
     sr_error_code = None, sr_egress_hosts = []\<rparr>, s)"

abbreviation sample_send :: "authz_env world authorized_send" where
  "sample_send \<equiv> gateway_send sample_iso toy_hash toy_ed sample_config accepting_sender CONFIRM_THEN_SEND"

lemma send_world_good: "gw.good (send_world fs)" "records_clean (send_world fs)" "w_sent (send_world fs) = []"
  "dispatch_rows (send_world fs) = []" "sender_keeps_records accepting_sender"
  unfolding world_good
  by (simp_all add: send_world_def clean_def dispatch_rows_def sender_keeps_records_def accepting_sender_def)

lemma send_world_facts:
  "world_healthy (send_world fs)" "proposal_rows (send_world fs) (lit ''p1'') = Some (proposal_to_dict send_proposal)"
  "p_status send_proposal = PENDING" "p_payload_digest send_proposal = lit ''a''" "p_expires_at send_proposal = 1767225800"
  "w_env (send_world []) = sample_authz_env" "healthy (en_records (w_env (send_world [])))"
  by (simp_all add: world_healthy_def healthy_def send_world_def empty_sqlite_def proposal_rows_def send_proposal_def
      sample_proposal_def sample_authz_env_def)

lemma send_world_records:
  "en_records (w_env (send_world fs)) = \<lparr>sq_committed = [], sq_pending = None, sq_broken = False, sq_faults = fs\<rparr>"
  by (simp add: send_world_def)

lemma accepting_outcome: "outcome_status (fst (accepting_sender pid x)) = SENT"
  by (simp add: accepting_sender_def)

lemma sample_sends:
  "\<exists>t. authorize_and_send sample_send (lit ''p1'') sample_authz_request (send_world []) =
     (Inr (outcome True True (lit ''sent'') (Some SENT)), t) \<and> w_sent t = [lit ''p1'']"
proof -
  obtain a e where a: "authorize sample_iso toy_hash toy_ed sample_gate sample_authz_request (lit ''a'') sample_authz_env = (Inr a, e)"
    "dc_disposition (au_decision a) = lit ''authorized''" "en_wall e = [1767225701]"
    using sample_authorized by blast
  then show ?thesis
    using healthy_send [of "send_world []" accepting_sender "lit ''p1''" send_proposal sample_iso toy_hash toy_ed
        sample_config sample_authz_request a e 1767225701 e CONFIRM_THEN_SEND] send_world_good send_world_facts
    by (auto simp: env_now_def Let_def accepting_outcome)
qed

lemma honest_other_records:
  "relay_honest (s\<lparr>en_records := x\<rparr>) = relay_honest s"
  "service_honest E C req (s\<lparr>en_records := x\<rparr>) = service_honest E C req s"
  "clocks_in_order (s\<lparr>en_records := x\<rparr>) = clocks_in_order s"
  "honest_request isoparse H E C g from until req (s\<lparr>en_records := x\<rparr>) = honest_request isoparse H E C g from until req s"
  by (simp_all add: relay_honest_def service_honest_def clocks_in_order_def honest_request_def)

text \<open>The records of earlier dispatches do not matter to the gate.\<close>

lemma strands_authorized:
  "\<exists>a t. authorize sample_iso toy_hash toy_ed sample_gate sample_authz_request (lit ''a'') (w_env (send_world fs)) = (Inr a, t) \<and>
     dc_disposition (au_decision a) = lit ''authorized'' \<and> en_wall t = [1767225701]"
proof -
  let ?s = "w_env (send_world fs)"
  obtain x where s: "?s = sample_authz_env\<lparr>en_records := x\<rparr>" by (simp add: send_world_def)
  have h: "relay_honest ?s" "service_honest toy_ed sample_config sample_authz_request ?s" "clocks_in_order ?s"
    "honest_request sample_iso toy_hash toy_ed sample_config sample_grant sample_from sample_until sample_authz_request ?s"
    using sample_honest(1,2,3,5) by (simp_all add: s honest_other_records)
  have "healthy (en_audit ?s)" "en_mark ?s \<le> hs_version_int (en_head ?s)"
    using sample_honest(4) by (simp_all add: s sample_authz_env_def sample_head_def)
  from honest_authorize [OF toy_correct toy_hash_encodable h(1,4,2,3) this]
  have "\<exists>a t. authorize sample_iso toy_hash toy_ed sample_gate sample_authz_request (rq_action_digest sample_authz_request)
      ?s = (Inr a, t) \<and> dc_disposition (au_decision a) = disposition_value (grant_disposition sample_grant) \<and>
      en_wall t = snd (next_reading (tl (en_wall ?s)))" .
  moreover have "snd (next_reading (tl (en_wall ?s))) = [1767225701]" by (simp add: s sample_authz_env_def)
  ultimately show ?thesis
    by (simp add: grant_disposition_def permits_auto_def sample_grant_def sample_authz_request_def)
qed

lemma sample_strands:
  "\<exists>o1 t. authorize_and_send sample_send (lit ''p1'') sample_authz_request (send_world [True, False]) = (Inr o1, t) \<and>
     so_public_code o1 = lit ''record_unavailable''"
proof -
  let ?w = "send_world [True, False]"
  have "w_env ?w = put_records \<lparr>sq_committed = [], sq_pending = None, sq_broken = False, sq_faults = [True, False]\<rparr> sample_authz_env"
    by (simp add: send_world_def put_records_def)
  obtain a e where a: "authorize sample_iso toy_hash toy_ed sample_gate sample_authz_request (lit ''a'') (w_env ?w) = (Inr a, e)"
    "dc_disposition (au_decision a) = lit ''authorized''" "en_wall e = [1767225701]" "en_records e = en_records (w_env ?w)"
    using strands_authorized keepsD [OF authorize_keeps_records] by blast
  have e: "env_now e = (Inr 1767225701, e)" using a(3) by (simp add: env_now_def)
  have "world_healthy (?w\<lparr>w_env := e\<rparr>)" "proposal_rows (?w\<lparr>w_env := e\<rparr>) (lit ''p1'') = Some (proposal_to_dict send_proposal)"
    using send_world_facts(1,2) by (simp_all add: world_healthy_def proposal_rows_def)
  from healthy_confirm [OF this(1) _ this(2), of 1767225701] obtain u where
    u: "fsm_confirm (gateway_fsm accepting_sender CONFIRM_THEN_SEND) (lit ''p1'') HUMAN 1767225701 None (?w\<lparr>w_env := e\<rparr>) = (Inr (), u)"
      "w_env u = e" using send_world_facts(3,5) by auto
  obtain start v where v: "env_pm env_clock u = (Inr start, v)" using env_clock_total [of u] by blast
  have "en_records (w_env v) = \<lparr>sq_committed = [], sq_pending = None, sq_broken = False, sq_faults = [True, False]\<rparr>"
    using env_clock_records [OF v] u(2) a(4) by (simp add: send_world_records)
  then have "\<exists>x z. log_append records_log d v = (Inl x, z)" for d
    by (simp add: records_log_def lift_pm_def sqlite_log_def sqlite_append_def write_commit_def sq_defs pm_simps split: prod.splits)
  then obtain x z where y: "record_started records_log (started_of (au_decision a) sample_authz_request (lit ''p1'') send_proposal
      (au_mono_decision_received a) start) v = (Inl x, z)" unfolding record_started_def by blast
  have "ps_get proposals_db (lit ''p1'') ?w = (Inr send_proposal, ?w)"
    using pdb.get_returns [OF _ send_world_facts(2)] send_world_facts(1) by (simp add: world_healthy_def)
  then have "authorize_and_send sample_send (lit ''p1'') sample_authz_request ?w =
      (Inr (outcome True False (lit ''record_unavailable'') (Some PENDING)), z)"
    using a e u(1) v y send_world_facts(3,4)
    by (simp add: authorize_and_send_def confirm_and_record_def env_pm_def pm_simps)
  then show ?thesis by (simp add: outcome_def)
qed

subsection \<open>Properties\<close>

text \<open>
  C4. No send without authorization.  If an authorized send reaches the sender, under any failure of the storage, then
  it reaches it once, for its own proposal; that proposal was PENDING; the gate, called on the state before, returned
  an authorization with the disposition \<open>authorized\<close> for the digest of the stored payload, on an authentic
  grant that permits automatic approval, not used before; and the started record that attributes the send to the decision
  is in the dispatch log.
\<close>

theorem no_send_without_authorization:
  fixes w :: "authz_env world"
  assumes "gw.good w" "records_clean w" "sender_keeps_records send"
    and "authorize_and_send (gateway_send isoparse H E C send mode) pid req w = (r, t)" "w_sent t \<noteq> w_sent w"
  shows "w_sent t = pid # w_sent w \<and> status_at (proposal_rows w) pid = Some PENDING \<and>
    (\<exists>p d a e g start. proposal_rows w pid = Some d \<and> proposal_from_dict d = Inr p \<and>
       authorize isoparse H E (stub_gate isoparse H E C) req (p_payload_digest p) (w_env w) = (Inr a, e) \<and>
       dc_disposition (au_decision a) = disposition_value AUTHORIZED \<and>
       dc_action_digest (au_decision a) = p_payload_digest p \<and> dc_request_id (au_decision a) = rq_request_id req \<and>
       grant_authentic isoparse E (stub_gate isoparse H E C) req g \<and> permits_auto g \<and>
       request_key g req \<notin> spent_requests (w_env w) \<and>
       started_to_dict (started_of (au_decision a) req pid p (au_mono_decision_received a) start) \<in> set (dispatch_rows t))"
proof -
  from send_steps [OF assms(1-4)] assms(5) obtain p d a e start u where
    p: "proposal_rows w pid = Some d" "proposal_from_dict d = Inr p" "status_at (proposal_rows w) pid = Some PENDING"
      "authorize isoparse H E (stub_gate isoparse H E C) req (p_payload_digest p) (w_env w) = (Inr a, e)"
      "dc_disposition (au_decision a) \<noteq> disposition_value NEEDS_APPROVAL" "w_sent u = w_sent w"
      "dispatch_rows u = dispatch_rows w @
        [started_to_dict (started_of (au_decision a) req pid p (au_mono_decision_received a) start)]"
    and s: "after_start pid req p a start u r t" by blast
  from s p(6) assms(5) have "w_sent t = pid # w_sent w" by (auto simp: after_start_def)
  moreover from s p(7) have
    "started_to_dict (started_of (au_decision a) req pid p (au_mono_decision_received a) start) \<in> set (dispatch_rows t)"
    by (auto simp: after_start_def)
  ultimately show ?thesis using authorized_decision [OF p(4,5)] p by metis
qed

theorem no_send_without_authorization_witness:
  "\<exists>t g. w_sent t = [lit ''p1''] \<and> snd (authorize_and_send sample_send (lit ''p1'') sample_authz_request (send_world [])) = t \<and>
     grant_authentic sample_iso toy_ed sample_gate sample_authz_request g \<and> permits_auto g"
proof -
  obtain t where t: "authorize_and_send sample_send (lit ''p1'') sample_authz_request (send_world []) =
     (Inr (outcome True True (lit ''sent'') (Some SENT)), t)" "w_sent t = [lit ''p1'']"
    using sample_sends by blast
  then have "w_sent t \<noteq> w_sent (send_world [])" by (simp add: send_world_good)
  from no_send_without_authorization [OF send_world_good(1,2,5) t(1) this] t show ?thesis by auto
qed

text \<open>
  C21. The two-phase record.  Under any failure an authorized send adds to the dispatch log nothing and sends nothing;
  or adds the started record; or adds the started and then the completed record, after one call of the sender.  It
  reports \<open>sent\<close> only in the last case, with the status SENT in the record and in the store.
\<close>

theorem dispatch_records_two_phase:
  fixes w :: "authz_env world"
  assumes "gw.good w" "records_clean w" "sender_keeps_records send"
    and "authorize_and_send (gateway_send isoparse H E C send mode) pid req w = (r, t)"
  shows "(\<exists>rows. dispatch_rows t = dispatch_rows w @ rows \<and>
     (rows = [] \<and> w_sent t = w_sent w \<or>
      (\<exists>d p received start. rows = [started_to_dict (started_of d req pid p received start)] \<and>
         w_sent t \<in> {w_sent w, pid # w_sent w}) \<or>
      (\<exists>d p received start finish fs. rows = [started_to_dict (started_of d req pid p received start),
           completed_to_dict (completed_of d req pid p received start finish fs)] \<and>
         w_sent t = pid # w_sent w \<and> status_at (proposal_rows t) pid = Some fs \<and> terminal fs \<and>
         r = Inr (outcome True (fs = SENT) (status_value fs) (Some fs))))) \<and>
    (\<forall>o1. r = Inr o1 \<and> so_sent o1 \<longrightarrow> so_public_code o1 = status_value SENT \<and>
       status_at (proposal_rows t) pid = Some SENT \<and> w_sent t = pid # w_sent w \<and>
       length (dispatch_rows t) = length (dispatch_rows w) + 2)"
  using send_steps [OF assms]
  by (fastforce simp: after_start_def outcome_def)

theorem dispatch_records_two_phase_witness:
  "length (dispatch_rows (snd (authorize_and_send sample_send (lit ''p1'') sample_authz_request (send_world [])))) = 2"
proof -
  obtain t where t: "authorize_and_send sample_send (lit ''p1'') sample_authz_request (send_world []) =
     (Inr (outcome True True (lit ''sent'') (Some SENT)), t)"
    using sample_sends by blast
  from dispatch_records_two_phase [OF send_world_good(1,2,5) t] t show ?thesis
    by (simp add: outcome_def send_world_good)
qed

text \<open>
  C22. An authorized send goes through.  With healthy storage, a pending and unexpired proposal and an authorization for
  its payload, the sender is called once, its outcome becomes the status of the proposal, and both records are written;
  the caller is told \<open>sent\<close> exactly when the sender's outcome is \<open>accepted\<close>.
\<close>

theorem authorized_send_delivers:
  fixes w :: "authz_env world"
  assumes "world_healthy w" "healthy (en_records (w_env w))" "sender_keeps_records send"
    and "proposal_rows w pid = Some (proposal_to_dict p)" "p_status p = PENDING"
    and "authorize isoparse H E (stub_gate isoparse H E C) req (p_payload_digest p) (w_env w) = (Inr a, e)"
    and "dc_disposition (au_decision a) \<noteq> disposition_value NEEDS_APPROVAL"
    and "env_now e = (Inr now, e')" "0 \<le> now" "now < p_expires_at p"
  shows "\<exists>t x start finish. let fs = outcome_status (fst (send pid x)) in
    authorize_and_send (gateway_send isoparse H E C send mode) pid req w =
      (Inr (outcome True (fs = SENT) (status_value fs) (Some fs)), t) \<and>
    w_sent t = pid # w_sent w \<and> status_at (proposal_rows t) pid = Some fs \<and>
    dispatch_rows t = dispatch_rows w @
      [started_to_dict (started_of (au_decision a) req pid p (au_mono_decision_received a) start),
       completed_to_dict (completed_of (au_decision a) req pid p (au_mono_decision_received a) start finish fs)]"
  using assms by (rule healthy_send)

theorem authorized_send_delivers_witness:
  "\<exists>t. authorize_and_send sample_send (lit ''p1'') sample_authz_request (send_world []) =
     (Inr (outcome True True (lit ''sent'') (Some SENT)), t)"
proof -
  obtain a e where a: "authorize sample_iso toy_hash toy_ed sample_gate sample_authz_request (lit ''a'') sample_authz_env = (Inr a, e)"
    "dc_disposition (au_decision a) = lit ''authorized''" "en_wall e = [1767225701]"
    using sample_authorized by blast
  then show ?thesis
    using authorized_send_delivers [of "send_world []" accepting_sender "lit ''p1''" send_proposal sample_iso toy_hash toy_ed
        sample_config sample_authz_request a e 1767225701 e CONFIRM_THEN_SEND] send_world_good send_world_facts
    by (auto simp: env_now_def Let_def accepting_outcome)
qed

text \<open>
  A refused started record leaves the proposal stuck, and the outcome says otherwise: when the caller is told
  \<open>record_unavailable\<close> the outcome carries the status PENDING, read before the confirmation, while the proposal is
  CONFIRMED.  So it can neither be confirmed again nor expire, and nothing was sent.
\<close>

theorem record_unavailable_strands_proposal:
  fixes w :: "authz_env world"
  assumes "gw.good w" "records_clean w" "sender_keeps_records send"
    and "authorize_and_send (gateway_send isoparse H E C send mode) pid req w = (Inr o1, t)"
    and "so_public_code o1 = lit ''record_unavailable''"
  shows "so_proposal_status o1 = Some PENDING \<and> status_at (proposal_rows t) pid = Some CONFIRMED \<and> w_sent t = w_sent w \<and>
    (\<forall>now actor reach x u. fsm_confirm (gateway_fsm send mode) pid actor now reach t = (x, u) \<longrightarrow> (\<exists>err. x = Inl err)) \<and>
    (\<forall>now x u. fsm_expire (gateway_fsm send mode) pid now t = (x, u) \<longrightarrow> (\<exists>err. x = Inl err))"
proof -
  have "status_value fs \<noteq> lit ''record_unavailable''" for fs by (cases fs) (simp_all add: lit_def)
  moreover have "lit ''outcome_unknown'' \<noteq> lit ''record_unavailable''" by (simp add: lit_def)
  ultimately have "gw.good t \<and> so_proposal_status o1 = Some PENDING \<and> status_at (proposal_rows t) pid = Some CONFIRMED \<and>
      w_sent t = w_sent w"
    using send_steps [OF assms(1-4)] assms(5) by (auto simp: after_start_def outcome_def)
  moreover from this have "(\<exists>err. x = Inl err)" if "fsm_confirm (gateway_fsm send mode) pid actor now reach t = (x, u)" for now actor reach x u
    using gw.confirm_step [OF _ that] by auto
  moreover have "(\<exists>err. x = Inl err)" if "gw.good t" "status_at (proposal_rows t) pid = Some CONFIRMED"
    "fsm_expire (gateway_fsm send mode) pid now t = (x, u)" for now x u
    using gw.expire_step [OF that(1,3)] that(2) by auto
  ultimately show ?thesis by blast
qed

theorem record_unavailable_strands_proposal_witness:
  "\<exists>o1 t. authorize_and_send sample_send (lit ''p1'') sample_authz_request (send_world [True, False]) = (Inr o1, t) \<and>
     so_proposal_status o1 = Some PENDING \<and> status_at (proposal_rows t) (lit ''p1'') = Some CONFIRMED"
proof -
  obtain o1 t where t: "authorize_and_send sample_send (lit ''p1'') sample_authz_request (send_world [True, False]) = (Inr o1, t)"
    "so_public_code o1 = lit ''record_unavailable''"
    using sample_strands by blast
  from record_unavailable_strands_proposal [OF send_world_good(1,2,5) this] t(1) show ?thesis by blast
qed

end
