(* ===== verification/Interleaving.thy ===== *)
theory Interleaving
  imports Prelude
begin

text \<open>
  Threads over a shared state, for the parts of the program that run on several threads.  A thread is a
  value: it has returned, or it makes one atomic access to the shared state and goes on with what it read.
  \<open>run\<close> executes one thread alone and is a homomorphism onto the sequential programs of the
  prelude, so a sequential model and its threaded form are the same code.  A pool is a list of threads over
  one state; \<open>pool_step\<close> lets any unfinished thread make its next access.

  Two things are shown of pools.  A thread that is \<open>capped\<close> at a number of accesses bounds every
  schedule.  And a thread that satisfies its part of a rely/guarantee contract keeps it in a pool, whatever
  the schedule: the contract is the locale \<open>rg_pool\<close>, in which a thread may come to own a resource
  (an identifier it has just minted) that no other thread touches.
\<close>

subsection \<open>Threads\<close>

datatype ('s, 'a) thr = Ret "'a res" | Act "'s \<Rightarrow> 's" "'s \<Rightarrow> ('s, 'a) thr"

primrec run :: "('s, 'a) thr \<Rightarrow> ('s, 'a) pm" where
  "run (Ret r) = (\<lambda>s. (r, s))"
| "run (Act g k) = (\<lambda>s. run (k s) (g s))"

definition atomic :: "('s, 'a) pm \<Rightarrow> ('s, 'a) thr" where
  "atomic m = Act (\<lambda>s. snd (m s)) (\<lambda>s. Ret (fst (m s)))"

primrec ttry :: "('s, 'a) thr \<Rightarrow> (exn \<Rightarrow> ('s, 'b) thr) \<Rightarrow> ('a \<Rightarrow> ('s, 'b) thr) \<Rightarrow> ('s, 'b) thr" where
  "ttry (Ret r) h f = (case r of Inl e \<Rightarrow> h e | Inr a \<Rightarrow> f a)"
| "ttry (Act g k) h f = Act g (\<lambda>s. ttry (k s) h f)"

definition tbind :: "('s, 'a) thr \<Rightarrow> ('a \<Rightarrow> ('s, 'b) thr) \<Rightarrow> ('s, 'b) thr" where
  "tbind p f = ttry p (\<lambda>e. Ret (Inl e)) f"

lemma tbind_Ret: "tbind (Ret (Inr a)) f = f a" "tbind (Ret (Inl e)) f = Ret (Inl e)"
  by (simp_all add: tbind_def)

lemma run_atomic [simp]: "run (atomic m) = m"
  by (simp add: atomic_def)

lemma run_ttry [simp]: "run (ttry p h f) = ptry (run p) (\<lambda>e. run (h e)) (\<lambda>a. run (f a))"
proof (induction p)
  case (Ret r)
  show ?case by (rule ext) (simp add: ptry_def split: sum.split)
next
  case (Act g k)
  show ?case by (rule ext) (simp add: Act.IH ptry_def)
qed

lemma run_tbind [simp]: "run (tbind p f) = pbind (run p) (\<lambda>a. run (f a))"
  by (rule ext) (simp add: tbind_def ptry_def pbind_def split: prod.split sum.split)

lemma run_Ret [simp]: "run (Ret r) = plift r"
  by (rule ext) (simp add: plift_def)

declare run.simps(1) [simp del]

subsection \<open>Bounded threads\<close>

text \<open>At most \<open>n\<close> accesses, whatever the state is at each of them.\<close>

primrec capped :: "('s, 'a) thr \<Rightarrow> nat \<Rightarrow> bool" where
  "capped (Ret r) n = True"
| "capped (Act g k) n = (case n of 0 \<Rightarrow> False | Suc m \<Rightarrow> \<forall>s. capped (k s) m)"

lemma capped_ActE:
  assumes "capped (Act g k) n"
  obtains m where "n = Suc m" "\<And>s. capped (k s) m"
  using assms by (cases n) simp_all

lemma capped_mono: "capped p m \<Longrightarrow> m \<le> n \<Longrightarrow> capped p n"
proof (induction p arbitrary: m n)
  case (Act g k)
  from Act.prems(1) obtain m' where m: "m = Suc m'" "\<And>s. capped (k s) m'" by (rule capped_ActE) blast
  with Act.prems(2) obtain n' where n: "n = Suc n'" "m' \<le> n'" by (cases n) simp_all
  from Act.IH [OF rangeI m(2) n(2)] n(1) show ?case by simp
qed simp

lemma capped_atomic: "capped (atomic m) (Suc 0)"
  by (simp add: atomic_def)

lemma capped_ttry:
  "capped p m \<Longrightarrow> (\<And>e. capped (h e) n) \<Longrightarrow> (\<And>a. capped (f a) n) \<Longrightarrow> capped (ttry p h f) (m + n)"
proof (induction p arbitrary: m)
  case (Ret r)
  show ?case
  proof (cases r)
    case (Inl e)
    with capped_mono [OF Ret.prems(2), of "m + n" e] show ?thesis by simp
  next
    case (Inr a)
    with capped_mono [OF Ret.prems(3), of "m + n" a] show ?thesis by simp
  qed
next
  case (Act g k)
  from Act.prems(1) obtain m' where m: "m = Suc m'" "\<And>s. capped (k s) m'" by (rule capped_ActE) blast
  from Act.IH [OF rangeI m(2) Act.prems(2,3)] m(1) show ?case by simp
qed

lemma capped_tbind: "capped p m \<Longrightarrow> (\<And>a. capped (f a) n) \<Longrightarrow> capped (tbind p f) (m + n)"
  unfolding tbind_def by (rule capped_ttry) simp_all

text \<open>After one atomic access.\<close>

lemma capped_first: "(\<And>a. capped (f a) n) \<Longrightarrow> capped (tbind (atomic m) f) (Suc n)"
  using capped_tbind [OF capped_atomic] by fastforce

lemma capped_Ret_bind: "(\<And>a. capped (f a) n) \<Longrightarrow> capped (tbind (Ret r) f) n"
  by (simp add: tbind_def split: sum.split)

lemma capped_if: "(b \<Longrightarrow> capped p n) \<Longrightarrow> (\<not> b \<Longrightarrow> capped q n) \<Longrightarrow> capped (if b then p else q) n"
  by simp

subsection \<open>Pools\<close>

type_synonym ('s, 'a) pool = "('s, 'a) thr list \<times> 's"

inductive pool_step :: "nat \<Rightarrow> ('s, 'a) pool \<Rightarrow> ('s, 'a) pool \<Rightarrow> bool" where
  access: "i < length ps \<Longrightarrow> ps ! i = Act g k \<Longrightarrow> pool_step i (ps, s) (ps[i := k s], g s)"

inductive_cases pool_stepE: "pool_step i (ps, s) c"

text \<open>An execution, with the thread of each step.\<close>

inductive pool_steps :: "nat list \<Rightarrow> ('s, 'a) pool \<Rightarrow> ('s, 'a) pool \<Rightarrow> bool" where
  none: "pool_steps [] c c"
| more: "pool_steps tr c d \<Longrightarrow> pool_step i d e \<Longrightarrow> pool_steps (tr @ [i]) c e"

definition finished :: "('s, 'a) thr \<Rightarrow> bool" where
  "finished p \<longleftrightarrow> (\<exists>r. p = Ret r)"

definition result_of :: "('s, 'a) pool \<Rightarrow> nat \<Rightarrow> 'a res option" where
  "result_of c i = (if i < length (fst c) then case fst c ! i of Ret r \<Rightarrow> Some r | Act _ _ \<Rightarrow> None else None)"

text \<open>The execution a list of thread numbers describes; a finished thread is passed over.\<close>

fun pool_run :: "nat list \<Rightarrow> ('s, 'a) pool \<Rightarrow> ('s, 'a) pool" where
  "pool_run [] c = c"
| "pool_run (i # is) (ps, s) =
    (if i < length ps then case ps ! i of
         Ret r \<Rightarrow> pool_run is (ps, s)
       | Act g k \<Rightarrow> pool_run is (ps[i := k s], g s)
     else pool_run is (ps, s))"

lemma pool_steps_Cons: "pool_steps tr d e \<Longrightarrow> pool_step i c d \<Longrightarrow> pool_steps (i # tr) c e"
proof (induction rule: pool_steps.induct)
  case (none c)
  then show ?case using pool_steps.more [OF pool_steps.none] by fastforce
next
  case (more tr c d i' e)
  then show ?case using pool_steps.more [of "i # tr"] by fastforce
qed

lemma pool_run_steps: "\<exists>tr. pool_steps tr c (pool_run is c)"
proof (induction "is" c rule: pool_run.induct)
  case (1 c)
  show ?case by (rule exI [of _ "[]"]) (simp add: pool_steps.none)
next
  case (2 i "is" ps s)
  show ?case
  proof (cases "i < length ps")
    case True
    show ?thesis
    proof (cases "ps ! i")
      case (Ret r)
      with 2 True show ?thesis by simp
    next
      case (Act g k)
      with 2(2) True obtain tr where "pool_steps tr (ps[i := k s], g s) (pool_run is (ps[i := k s], g s))"
        by blast
      from pool_steps_Cons [OF this pool_step.access [OF True Act]] True Act show ?thesis by auto
    qed
  qed (use 2 in simp)
qed

lemma pool_steps_length: "pool_steps tr c d \<Longrightarrow> length (fst d) = length (fst c)"
  by (induction rule: pool_steps.induct) (auto elim!: pool_step.cases)

text \<open>The measure: what the threads have left.\<close>

definition left :: "('s, 'a) thr list \<Rightarrow> nat list \<Rightarrow> bool" where
  "left ps ns \<longleftrightarrow> list_all2 capped ps ns"

lemma pool_step_left:
  assumes "pool_step i (ps, s) (qs, t)" "left ps ns"
  obtains ms where "left qs ms" "sum_list ns = Suc (sum_list ms)"
proof -
  from assms(1) obtain g k where i: "i < length ps" "ps ! i = Act g k" "qs = ps[i := k s]"
    by (auto elim: pool_stepE)
  from assms(2) i have n: "i < length ns" "capped (Act g k) (ns ! i)"
    by (auto simp: left_def list_all2_conv_all_nth)
  then obtain m where m: "ns ! i = Suc m" "capped (k s) m" by (cases "ns ! i") auto
  have "left qs (ns[i := m])"
    using assms(2) i m by (auto simp: left_def intro: list_all2_update_cong)
  moreover have "sum_list ns = Suc (sum_list (ns[i := m]))"
    using n(1) m(1) elem_le_sum_list [OF n(1)] by (simp add: sum_list_update)
  ultimately show thesis by (rule that)
qed

lemma pool_steps_left:
  assumes "pool_steps tr c d" "left (fst c) ns"
  shows "\<exists>ms. left (fst d) ms \<and> sum_list ns = length tr + sum_list ms"
  using assms
proof (induction rule: pool_steps.induct)
  case (more tr c d i e)
  then obtain ms where ms: "left (fst d) ms" "sum_list ns = length tr + sum_list ms" by blast
  obtain ps s qs t where de: "d = (ps, s)" "e = (qs, t)" by (metis surj_pair)
  with more.hyps(2) ms(1) obtain ls where "left qs ls" "sum_list ms = Suc (sum_list ls)"
    using pool_step_left by (metis fst_conv)
  with ms(2) de show ?case by auto
qed auto

text \<open>No execution of threads of at most \<open>n\<close> accesses is longer than \<open>n\<close> times their number,
  and one that cannot go on has finished every thread.\<close>

lemma pool_bounded:
  assumes "pool_steps tr (ps, s) d" "\<And>p. p \<in> set ps \<Longrightarrow> capped p n"
  shows "length tr \<le> n * length ps"
proof -
  have "left (fst (ps, s)) (replicate (length ps) n)"
    using assms(2) by (auto simp: left_def list_all2_conv_all_nth)
  from pool_steps_left [OF assms(1) this] show ?thesis
    by (auto simp: sum_list_replicate mult.commute)
qed

lemma pool_stuck: "\<forall>i e. \<not> pool_step i d e \<Longrightarrow> \<forall>p \<in> set (fst d). finished p"
proof (rule ballI, rule ccontr)
  fix p assume stuck: "\<forall>i e. \<not> pool_step i d e" and p: "p \<in> set (fst d)" "\<not> finished p"
  from p(2) obtain g k where "p = Act g k" by (cases p) (auto simp: finished_def)
  with p(1) obtain i where "i < length (fst d)" "fst d ! i = Act g k" by (auto simp: in_set_conv_nth)
  from pool_step.access [OF this, of "snd d"] stuck show False by auto
qed

subsection \<open>What no thread touches\<close>

primrec tkeeps :: "('s \<Rightarrow> 'v) \<Rightarrow> ('s, 'a) thr \<Rightarrow> bool" where
  "tkeeps f (Ret r) = True"
| "tkeeps f (Act g k) = (\<forall>s. f (g s) = f s \<and> tkeeps f (k s))"

lemma tkeeps_Ret [keeps_intro]: "tkeeps f (Ret r)"
  by simp

lemma tkeeps_atomic [keeps_intro]: "keeps f m \<Longrightarrow> tkeeps f (atomic m)"
  by (simp add: atomic_def keeps_def) (metis prod.collapse)

lemma tkeeps_ttry [keeps_intro]:
  "tkeeps f p \<Longrightarrow> (\<And>e. tkeeps f (h e)) \<Longrightarrow> (\<And>a. tkeeps f (g a)) \<Longrightarrow> tkeeps f (ttry p h g)"
proof (induction p)
  case (Ret r)
  then show ?case by (cases r) simp_all
qed simp

lemma tkeeps_tbind [keeps_intro]: "tkeeps f p \<Longrightarrow> (\<And>a. tkeeps f (g a)) \<Longrightarrow> tkeeps f (tbind p g)"
  unfolding tbind_def by (rule tkeeps_ttry) simp_all

lemma pool_keeps:
  assumes "pool_steps tr c d" "\<And>p. p \<in> set (fst c) \<Longrightarrow> tkeeps f p"
  shows "f (snd d) = f (snd c) \<and> (\<forall>p \<in> set (fst d). tkeeps f p)"
  using assms
proof (induction rule: pool_steps.induct)
  case (more tr c d i e)
  then have IH: "f (snd d) = f (snd c)" "\<forall>p \<in> set (fst d). tkeeps f p" by blast+
  from more.hyps(2) show ?case
  proof cases
    case (access ps g k s)
    with IH(2) have "tkeeps f (Act g k)" by (metis fst_conv nth_mem)
    then have "f (g s) = f s" "tkeeps f (k s)" by simp_all
    moreover have "set (ps[i := k s]) \<subseteq> insert (k s) (set ps)" by (rule set_update_subset_insert)
    ultimately show ?thesis using IH access(1,2) by auto
  qed
qed simp

subsection \<open>Rely and guarantee\<close>

text \<open>A thread that owns \<open>c\<close> in a state related by \<open>R\<close> to the one it left, accesses
  the state inside \<open>G\<close>, may change what it owns, and returns with \<open>Q\<close>.  Both the
  others' steps and its own keep \<open>ok\<close>.\<close>

primrec sat :: "('c \<Rightarrow> 's \<Rightarrow> 's \<Rightarrow> bool) \<Rightarrow> ('c \<Rightarrow> 's \<Rightarrow> 'c \<Rightarrow> 's \<Rightarrow> bool) \<Rightarrow> ('c \<Rightarrow> 's \<Rightarrow> bool) \<Rightarrow>
    ('a res \<Rightarrow> 'c \<Rightarrow> 's \<Rightarrow> bool) \<Rightarrow> ('s, 'a) thr \<Rightarrow> 'c \<Rightarrow> 's \<Rightarrow> bool" where
  "sat R G ok Q (Ret r) = (\<lambda>c s. \<forall>t. R c s t \<and> ok c t \<longrightarrow> Q r c t)"
| "sat R G ok Q (Act g k) = (\<lambda>c s. \<forall>t. R c s t \<and> ok c t \<longrightarrow>
     (\<exists>c'. ok c' (g t) \<and> G c t c' (g t) \<and> sat R G ok Q (k t) c' (g t)))"

text \<open>The laws: what the others do is closed under repetition, and a step inside the guarantee of one
  thread is a step inside the rely of any other, and leaves what they own apart.\<close>

locale rg_pool =
  fixes R :: "'c \<Rightarrow> 's \<Rightarrow> 's \<Rightarrow> bool"
    and G :: "'c \<Rightarrow> 's \<Rightarrow> 'c \<Rightarrow> 's \<Rightarrow> bool"
    and ok :: "'c \<Rightarrow> 's \<Rightarrow> bool"
    and apart :: "'c \<Rightarrow> 'c \<Rightarrow> bool"
  assumes rely_refl: "R c s s"
    and rely_trans: "R c s t \<Longrightarrow> R c t u \<Longrightarrow> R c s u"
    and apart_sym: "apart c d \<Longrightarrow> apart d c"
    and interfere: "ok c s \<Longrightarrow> ok d s \<Longrightarrow> ok c' t \<Longrightarrow> apart c d \<Longrightarrow> G c s c' t \<Longrightarrow>
      R d s t \<and> ok d t \<and> apart c' d"
begin

lemma sat_rely: "sat R G ok Q p c s \<Longrightarrow> R c s t \<Longrightarrow> sat R G ok Q p c t"
proof (cases p)
  case (Ret r)
  show "sat R G ok Q p c s \<Longrightarrow> R c s t \<Longrightarrow> sat R G ok Q p c t"
    unfolding Ret sat.simps using rely_trans by blast
next
  case (Act g k)
  show "sat R G ok Q p c s \<Longrightarrow> R c s t \<Longrightarrow> sat R G ok Q p c t"
    unfolding Act sat.simps using rely_trans by blast
qed

lemma sat_finished: "sat R G ok Q (Ret r) c s \<Longrightarrow> ok c s \<Longrightarrow> Q r c s"
  using rely_refl by simp

lemma sat_access:
  "sat R G ok Q (Act g k) c s \<Longrightarrow> ok c s \<Longrightarrow> \<exists>c'. ok c' (g s) \<and> G c s c' (g s) \<and> sat R G ok Q (k s) c' (g s)"
  using rely_refl by simp

lemma sat_ttry:
  assumes "sat R G ok M p c s"
    and "\<And>e c s. ok c s \<Longrightarrow> M (Inl e) c s \<Longrightarrow> sat R G ok Q (h e) c s"
    and "\<And>a c s. ok c s \<Longrightarrow> M (Inr a) c s \<Longrightarrow> sat R G ok Q (f a) c s"
  shows "ok c s \<Longrightarrow> sat R G ok Q (ttry p h f) c s"
  using assms(1)
proof (induction p arbitrary: c s)
  case (Ret r)
  from sat_finished [OF Ret.prems(2,1)] have "M r c s" .
  with assms(2,3) Ret.prems(1) show ?case by (cases r) auto
next
  case (Act g k)
  from Act.prems(2) Act.IH [OF rangeI] show ?case by simp blast
qed

text \<open>Assertions the others cannot break.\<close>

definition steady :: "('c \<Rightarrow> 's \<Rightarrow> bool) \<Rightarrow> bool" where
  "steady P \<longleftrightarrow> (\<forall>c s t. ok c s \<and> P c s \<and> R c s t \<and> ok c t \<longrightarrow> P c t)"

definition triple :: "('c \<Rightarrow> 's \<Rightarrow> bool) \<Rightarrow> ('s, 'a) thr \<Rightarrow> ('a res \<Rightarrow> 'c \<Rightarrow> 's \<Rightarrow> bool) \<Rightarrow> bool" where
  "triple P p Q \<longleftrightarrow> (\<forall>c s. ok c s \<and> P c s \<longrightarrow> sat R G ok Q p c s)"

lemma triple_Ret:
  "(\<And>c s. ok c s \<Longrightarrow> P c s \<Longrightarrow> Q r c s) \<Longrightarrow> steady (Q r) \<Longrightarrow> triple P (Ret r) Q"
  unfolding triple_def steady_def sat.simps by blast

lemma triple_atomic:
  assumes "steady P" "\<And>r. steady (Q r)"
    and "\<And>c s r t. ok c s \<Longrightarrow> P c s \<Longrightarrow> m s = (r, t) \<Longrightarrow> \<exists>c'. ok c' t \<and> G c s c' t \<and> Q r c' t"
  shows "triple P (atomic m) Q"
  unfolding triple_def atomic_def sat.simps
proof (intro allI impI)
  fix c s t assume s: "ok c s \<and> P c s" and t: "R c s t \<and> ok c t"
  with assms(1) have "P c t" by (auto simp: steady_def)
  with assms(3) [of c t "fst (m t)" "snd (m t)"] t obtain c' where
    c': "ok c' (snd (m t))" "G c t c' (snd (m t))" "Q (fst (m t)) c' (snd (m t))" by auto
  with assms(2) have "\<forall>u. R c' (snd (m t)) u \<and> ok c' u \<longrightarrow> Q (fst (m t)) c' u"
    by (auto simp: steady_def)
  with c' show "\<exists>c'. ok c' (snd (m t)) \<and> G c t c' (snd (m t)) \<and>
      (\<forall>u. R c' (snd (m t)) u \<and> ok c' u \<longrightarrow> Q (fst (m t)) c' u)" by blast
qed

lemma triple_ttry:
  assumes "triple P p M" "\<And>e. triple (M (Inl e)) (h e) Q" "\<And>a. triple (M (Inr a)) (f a) Q"
  shows "triple P (ttry p h f) Q"
  using assms sat_ttry [of M p _ _ Q h f] by (auto simp: triple_def)

lemma triple_tbind:
  assumes "triple P p M" "\<And>e. triple (M (Inl e)) (Ret (Inl e)) Q" "\<And>a. triple (M (Inr a)) (f a) Q"
  shows "triple P (tbind p f) Q"
  unfolding tbind_def by (rule triple_ttry [OF assms])

text \<open>The forms the programs have: an access and what follows it, a pure step and what follows it.\<close>

lemma triple_access:
  assumes "steady P" "\<And>r. steady (M r)" "\<And>e. steady (Q (Inl e))"
    and "\<And>c s r t. ok c s \<Longrightarrow> P c s \<Longrightarrow> m s = (r, t) \<Longrightarrow> \<exists>c'. ok c' t \<and> G c s c' t \<and> M r c' t"
    and "\<And>e c s. ok c s \<Longrightarrow> M (Inl e) c s \<Longrightarrow> Q (Inl e) c s"
    and "\<And>a. triple (M (Inr a)) (f a) Q"
  shows "triple P (tbind (atomic m) f) Q"
proof (rule triple_tbind)
  show "triple P (atomic m) M" by (rule triple_atomic [OF assms(1,2,4)])
  show "triple (M (Inl e)) (Ret (Inl e)) Q" for e by (rule triple_Ret) (use assms(3,5) in auto)
qed (rule assms(6))

lemma triple_pure:
  assumes "\<And>a. r = Inr a \<Longrightarrow> triple P (f a) Q" "\<And>e. r = Inl e \<Longrightarrow> triple P (Ret (Inl e)) Q"
  shows "triple P (tbind (Ret r) f) Q"
  using assms by (cases r) (simp_all add: tbind_def)

lemma triple_pre: "triple P p Q \<Longrightarrow> (\<And>c s. ok c s \<Longrightarrow> P' c s \<Longrightarrow> P c s) \<Longrightarrow> triple P' p Q"
  by (simp add: triple_def)

lemma triple_post:
  assumes "triple P p Q" "\<And>r c s. ok c s \<Longrightarrow> Q r c s \<Longrightarrow> Q' r c s"
  shows "triple P p Q'"
proof -
  have "sat R G ok Q p c s \<Longrightarrow> sat R G ok Q' p c s" for c s
  proof (induction p arbitrary: c s)
    case (Ret r)
    with assms(2) show ?case unfolding sat.simps by blast
  next
    case (Act g k)
    from Act.IH [OF rangeI] Act.prems show ?case unfolding sat.simps by blast
  qed
  with assms(1) show ?thesis by (simp add: triple_def)
qed

lemma triple_if: "triple P p Q \<Longrightarrow> triple P q Q \<Longrightarrow> triple P (if b then p else q) Q"
  by simp

lemma triple_ex: "(\<And>x. triple (P x) p Q) \<Longrightarrow> triple (\<lambda>c s. \<exists>x. P x c s) p Q"
  by (auto simp: triple_def)

lemma triple_false: "triple (\<lambda>c s. False) p Q"
  by (simp add: triple_def)

text \<open>A pool whose threads satisfy their triples, each with what it owns.\<close>

definition pool_ok :: "('a res \<Rightarrow> 'c \<Rightarrow> 's \<Rightarrow> bool) list \<Rightarrow> ('s, 'a) pool \<Rightarrow> bool" where
  "pool_ok Qs d \<longleftrightarrow> length Qs = length (fst d) \<and>
     (\<exists>cs. length cs = length (fst d) \<and>
       (\<forall>i < length (fst d). ok (cs ! i) (snd d) \<and> sat R G ok (Qs ! i) (fst d ! i) (cs ! i) (snd d)) \<and>
       (\<forall>i < length (fst d). \<forall>j < length (fst d). i \<noteq> j \<longrightarrow> apart (cs ! i) (cs ! j)))"

lemma pool_ok_step:
  assumes "pool_ok Qs c" "pool_step i c d"
  shows "pool_ok Qs d"
proof -
  obtain ps s where c: "c = (ps, s)" by fastforce
  with assms(2) obtain g k where i: "i < length ps" "ps ! i = Act g k" "d = (ps[i := k s], g s)"
    by (auto elim: pool_stepE)
  from assms(1) c obtain cs where cs: "length Qs = length ps" "length cs = length ps"
    "\<And>j. j < length ps \<Longrightarrow> ok (cs ! j) s \<and> sat R G ok (Qs ! j) (ps ! j) (cs ! j) s"
    "\<And>a b. a < length ps \<Longrightarrow> b < length ps \<Longrightarrow> a \<noteq> b \<Longrightarrow> apart (cs ! a) (cs ! b)"
    by (auto simp: pool_ok_def)
  from cs(3) [OF i(1)] i(2) obtain c' where
    c': "ok c' (g s)" "G (cs ! i) s c' (g s)" "sat R G ok (Qs ! i) (k s) c' (g s)"
    using sat_access by metis
  have other: "R (cs ! j) s (g s) \<and> ok (cs ! j) (g s) \<and> apart c' (cs ! j)" if "j < length ps" "j \<noteq> i" for j
    using interfere [OF _ _ c'(1) _ c'(2)] cs(3,4) i(1) that by metis
  have sats: "ok (cs[i := c'] ! j) (g s) \<and> sat R G ok (Qs ! j) (ps[i := k s] ! j) (cs[i := c'] ! j) (g s)"
    if j: "j < length ps" for j
  proof (cases "j = i")
    case True
    with c' i(1) cs(2) show ?thesis by simp
  next
    case False
    from sat_rely [OF conjunct2 [OF cs(3) [OF j]] conjunct1 [OF other [OF j False]]]
      other [OF j False] False show ?thesis by simp
  qed
  moreover have "apart (cs[i := c'] ! a) (cs[i := c'] ! b)"
    if "a < length ps" "b < length ps" "a \<noteq> b" for a b
    using that other apart_sym cs(2,4) by (cases "a = i"; cases "b = i") auto
  ultimately show ?thesis
    unfolding pool_ok_def i(3) fst_conv snd_conv length_list_update
    using cs(1,2) by (intro conjI exI [of _ "cs[i := c']"]) auto
qed

lemma pool_ok_steps: "pool_steps tr c d \<Longrightarrow> pool_ok Qs c \<Longrightarrow> pool_ok Qs d"
  by (induction rule: pool_steps.induct) (auto intro: pool_ok_step)

lemma pool_ok_result:
  assumes "pool_ok Qs d" "result_of d i = Some r"
  shows "\<exists>c. ok c (snd d) \<and> (Qs ! i) r c (snd d)"
proof -
  from assms(2) have i: "i < length (fst d)" "fst d ! i = Ret r"
    by (auto simp: result_of_def split: if_splits thr.splits)
  with assms(1) obtain c where "ok c (snd d)" "sat R G ok (Qs ! i) (Ret r) c (snd d)"
    unfolding pool_ok_def by metis
  with sat_finished show ?thesis by blast
qed

text \<open>A pool that starts with nothing owned.\<close>

lemma pool_ok_init:
  assumes "length Qs = length ps" "ok c0 s" "apart c0 c0"
    and "\<And>i. i < length ps \<Longrightarrow> triple P (ps ! i) (Qs ! i)" "P c0 s"
  shows "pool_ok Qs (ps, s)"
  unfolding pool_ok_def
proof (intro conjI exI [of _ "replicate (length ps) c0"])
  show "\<forall>i<length (fst (ps, s)). ok (replicate (length ps) c0 ! i) (snd (ps, s)) \<and>
      sat R G ok (Qs ! i) (fst (ps, s) ! i) (replicate (length ps) c0 ! i) (snd (ps, s))"
    using assms(2,4,5) by (auto simp: triple_def)
qed (use assms in auto)

end

end
