(* ===== verification/Concurrent_Propose.thy ===== *)
theory Concurrent_Propose
  imports Interleaving Proposal_Api
begin

text \<open>
  \<open>gateway/proposal_api.py\<close> under concurrency.  \<open>ProposalServer\<close> is a
  \<open>ThreadingHTTPServer\<close>: every request runs on a thread of its own, and the threads share one
  service.  Here \<open>propose\<close> and the parts of \<open>store/proposals.py\<close> it calls are threads whose
  steps are the single accesses to shared state: one backend call (each holds the backend's lock), one
  call of the clock, of a factory.  Run alone, each is the sequential model (\<open>propose_threaded\<close>).

  The invariant of the pool is an ownership argument.  A request that has minted an id owns the rows under it until
  an index row leads there; nobody else writes, deletes or claims them.  A claimed key keeps leading
  to the same proposal.
\<close>

subsection \<open>The threads\<close>

definition ps_get_t :: "'s kv \<Rightarrow> pystr \<Rightarrow> ('s, proposal) thr" where
  "ps_get_t B pid = tbind (atomic (kv_get B pid)) (\<lambda>raw. case raw of
     None \<Rightarrow> Ret (Inl (Store (ProposalNotFoundError pid)))
   | Some d \<Rightarrow> Ret (proposal_from_dict d))"

definition ps_find_by_idempotency_t :: "'s kv \<Rightarrow> pystr \<Rightarrow> ('s, proposal option) thr" where
  "ps_find_by_idempotency_t B key = tbind (atomic (kv_get B (idem_index_key key))) (\<lambda>idx. case idx of
     None \<Rightarrow> Ret (Inr None)
   | Some d \<Rightarrow> tbind (Ret (rbind (dindex d (lit ''proposal_id'')) typed_str)) (\<lambda>pid.
       tbind (ps_get_t B pid) (\<lambda>p. Ret (Inr (Some p)))))"

definition ps_claim_t :: "'s kv \<Rightarrow> proposal \<Rightarrow> pystr \<Rightarrow> ('s, proposal) thr" where
  "ps_claim_t B p k =
     tbind (atomic (kv_claim B (idem_index_key k) (index_row (p_proposal_id p)))) (\<lambda>won.
     if won then Ret (Inr p)
     else tbind (atomic (kv_delete B (p_proposal_id p))) (\<lambda>_. Ret (Inl (Store DuplicateIdempotencyError))))"

definition ps_create_t :: "'s kv \<Rightarrow> proposal \<Rightarrow> ('s, proposal) thr" where
  "ps_create_t B p =
     tbind (Ret (validate_ts (p_expires_at p))) (\<lambda>_.
     tbind (Ret (validate_ts (p_created_at p))) (\<lambda>_.
     tbind (Ret (rguard (p_created_at p < p_expires_at p) (Store ProposalStateError))) (\<lambda>_.
     tbind (atomic (kv_get B (p_proposal_id p))) (\<lambda>old.
     if old \<noteq> None then Ret (Inl (Store ProposalStateError))
     else tbind (atomic (kv_put B (p_proposal_id p) (proposal_to_dict p))) (\<lambda>_.
       case p_idempotency_key p of
         None \<Rightarrow> Ret (Inr p)
       | Some k \<Rightarrow> ps_claim_t B p k)))))"

text \<open>The handler of a lost race.\<close>

definition svc_lost_t :: "'s proposal_service \<Rightarrow> pystr option \<Rightarrow> pystr \<Rightarrow> exn \<Rightarrow> ('s, dict) thr" where
  "svc_lost_t S key pid e =
     tbind (atomic (kv_delete (svc_payloads S) pid)) (\<lambda>_.
     tbind (case key of None \<Rightarrow> Ret (Inl (Py TypeError))
        | Some k \<Rightarrow> ps_find_by_idempotency_t (svc_proposals S) k) (\<lambda>existing.
     case existing of Some p \<Rightarrow> Ret (Inr (proposal_identifiers p)) | None \<Rightarrow> Ret (Inl e)))"

definition svc_freeze_t ::
  "(bytes \<Rightarrow> pystr) \<Rightarrow> 's proposal_service \<Rightarrow> pystr option \<Rightarrow> int \<Rightarrow> prepare_email_result \<Rightarrow> dict \<Rightarrow> ('s, dict) thr" where
  "svc_freeze_t H S key now result canonical =
     tbind (Ret (digest H (PDict canonical))) (\<lambda>h.
     if h \<noteq> per_payload_digest result then Ret (Inl (Canon PayloadSchemaError))
     else tbind (atomic (kv_put (svc_payloads S) (per_proposal_id result) canonical)) (\<lambda>_.
     ttry (ps_create_t (svc_proposals S)
         \<lparr>p_proposal_id = per_proposal_id result, p_payload_digest = per_payload_digest result,
          p_expires_at = per_expires_at result, p_created_at = now, p_status = PENDING,
          p_idempotency_key = key\<rparr>)
       (\<lambda>e. if e \<noteq> Store DuplicateIdempotencyError then Ret (Inl e)
         else svc_lost_t S key (per_proposal_id result) e)
       (\<lambda>_. Ret (Inr (identifiers (per_proposal_id result) (per_payload_digest result) (per_expires_at result))))))"

text \<open>Projecting touches shared state only by calling the id factory.\<close>

definition svc_new_t ::
  "(bytes \<Rightarrow> pystr) \<Rightarrow> 's proposal_service \<Rightarrow> dict \<Rightarrow> pystr option \<Rightarrow> ('s, dict) thr" where
  "svc_new_t H S params key =
     tbind (atomic (svc_now S)) (\<lambda>now.
     tbind (case svc_message_id_factory S of None \<Rightarrow> Ret (Inr PNone) | Some f \<Rightarrow> atomic f) (\<lambda>message_id.
     if svc_require_message_id S \<and> \<not> truthy message_id then Ret (Inl (Canon MessageIdNotConfiguredError))
     else tbind (atomic (prepare_email H (PDict params) now (svc_ttl S) (svc_id_factory S) message_id)) (\<lambda>result.
       tbind (Ret (build_canonical_payload (PDict params) message_id)) (\<lambda>canonical.
       svc_freeze_t H S key now result canonical))))"

definition propose_t :: "(bytes \<Rightarrow> pystr) \<Rightarrow> 's proposal_service \<Rightarrow> dict \<Rightarrow> ('s, dict) thr" where
  "propose_t H S params =
     (if svc_require_message_id S \<and> svc_message_id_factory S = None
      then Ret (Inl (Canon MessageIdNotConfiguredError))
      else tbind (Ret (idempotency_key_of params)) (\<lambda>key.
        case key of
          None \<Rightarrow> svc_new_t H S params None
        | Some k \<Rightarrow> tbind (ps_find_by_idempotency_t (svc_proposals S) k) (\<lambda>existing.
            case existing of
              Some p \<Rightarrow> Ret (Inr (proposal_identifiers p))
            | None \<Rightarrow> svc_new_t H S params (Some k))))"

subsection \<open>Run alone\<close>

lemma run_if: "run (if b then p else q) = (if b then run p else run q)"
  by simp

lemmas run_case = option.case_distrib [where h = run] run_if

lemma Ret_plift: "plift (Inr a) = preturn a" "plift (Inl e) = praise e"
  by (auto simp: plift_def preturn_def praise_def)

lemma run_get: "run (ps_get_t B pid) = ps_get B pid"
  by (simp add: ps_get_t_def ps_get_def run_case Ret_plift cong: option.case_cong if_cong)

lemma run_find: "run (ps_find_by_idempotency_t B k) = ps_find_by_idempotency B k"
  by (simp add: ps_find_by_idempotency_t_def ps_find_by_idempotency_def run_case run_get Ret_plift
      cong: option.case_cong if_cong)

lemma run_create: "run (ps_create_t B p) = ps_create B p"
  by (simp add: ps_create_t_def ps_create_def ps_claim_t_def ps_claim_def run_case Ret_plift
      cong: option.case_cong if_cong)

lemma run_freeze: "run (svc_freeze_t H S key now result c) = svc_freeze H S key now result c"
  by (simp add: svc_freeze_t_def svc_freeze_def svc_lost_t_def run_case run_create run_find Ret_plift
      cong: option.case_cong if_cong)

lemma run_new: "run (svc_new_t H S params key) = svc_new H S params key"
  by (simp add: svc_new_t_def svc_new_def run_case run_freeze Ret_plift cong: option.case_cong if_cong)

lemma run_propose: "run (propose_t H S params) = propose H S params"
  by (simp add: propose_t_def propose_def run_case run_find run_new Ret_plift cong: option.case_cong if_cong)

subsection \<open>Bounded\<close>

lemma capped_get: "capped (ps_get_t B pid) (Suc 0)"
  unfolding ps_get_t_def by (rule capped_first) (simp split: option.split)

lemma capped_find: "capped (ps_find_by_idempotency_t B k) 2"
proof -
  have "capped (tbind (ps_get_t B pid) (\<lambda>p. Ret (Inr (Some p)))) (Suc 0 + 0)" for pid
    by (rule capped_tbind [OF capped_get]) simp
  then show ?thesis
    unfolding ps_find_by_idempotency_t_def numeral_2_eq_2
    by (intro capped_first) (auto simp: tbind_def split: option.split sum.split)
qed

lemma capped_claim: "capped (ps_claim_t B p k) 2"
proof -
  have "capped (tbind (atomic (kv_delete B pid)) (\<lambda>_. Ret (Inl e))) (Suc 0)"
    for pid and e :: exn by (rule capped_first) simp
  then show ?thesis
    unfolding ps_claim_t_def numeral_2_eq_2 by (intro capped_first capped_if) simp_all
qed

lemma capped_create: "capped (ps_create_t B p) 4"
proof -
  have "capped (case p_idempotency_key p of None \<Rightarrow> Ret (Inr p) | Some k \<Rightarrow> ps_claim_t B p k) 2"
    by (simp add: capped_claim split: option.split)
  then have "capped (tbind (atomic (kv_put B (p_proposal_id p) (proposal_to_dict p)))
      (\<lambda>_. case p_idempotency_key p of None \<Rightarrow> Ret (Inr p) | Some k \<Rightarrow> ps_claim_t B p k)) (Suc 2)"
    by (rule capped_first)
  then have "capped (ps_create_t B p) (Suc (Suc 2))"
    unfolding ps_create_t_def by (intro capped_Ret_bind capped_first) simp
  then show ?thesis by (simp add: eval_nat_numeral)
qed

lemma capped_lost: "capped (svc_lost_t S key pid e) 3"
proof -
  have f: "capped (case key of None \<Rightarrow> Ret (Inl (Py TypeError))
      | Some k \<Rightarrow> ps_find_by_idempotency_t (svc_proposals S) k) 2"
    by (simp add: capped_find split: option.split)
  have "capped (tbind (case key of None \<Rightarrow> Ret (Inl (Py TypeError))
      | Some k \<Rightarrow> ps_find_by_idempotency_t (svc_proposals S) k)
      (\<lambda>existing. case existing of Some p \<Rightarrow> Ret (Inr (proposal_identifiers p)) | None \<Rightarrow> Ret (Inl e))) (2 + 0)"
    by (rule capped_tbind [OF f]) (simp split: option.split)
  then have "capped (svc_lost_t S key pid e) (Suc (2 + 0))"
    unfolding svc_lost_t_def by (rule capped_first)
  then show ?thesis by (simp add: eval_nat_numeral)
qed

lemma capped_freeze: "capped (svc_freeze_t H S key now result c) 8"
proof -
  let ?p = "\<lparr>p_proposal_id = per_proposal_id result, p_payload_digest = per_payload_digest result,
          p_expires_at = per_expires_at result, p_created_at = now, p_status = PENDING,
          p_idempotency_key = key\<rparr>"
  have "capped (ttry (ps_create_t (svc_proposals S) ?p)
       (\<lambda>e. if e \<noteq> Store DuplicateIdempotencyError then Ret (Inl e)
         else svc_lost_t S key (per_proposal_id result) e)
       (\<lambda>_. Ret (Inr (identifiers (per_proposal_id result) (per_payload_digest result) (per_expires_at result)))))
     (4 + 3)"
    by (rule capped_ttry [OF capped_create]) (simp_all add: capped_lost)
  then have "capped (svc_freeze_t H S key now result c) (Suc (4 + 3))"
    unfolding svc_freeze_t_def by (intro capped_Ret_bind capped_if capped_first) simp_all
  then show ?thesis by simp
qed

lemma capped_new: "capped (svc_new_t H S params key) 11"
proof -
  have mid: "capped (case svc_message_id_factory S of None \<Rightarrow> Ret (Inr PNone) | Some f \<Rightarrow> atomic f) (Suc 0)"
    by (simp add: capped_atomic split: option.split)
  have "capped (tbind (atomic (prepare_email H (PDict params) now (svc_ttl S) (svc_id_factory S) m)) (\<lambda>result.
       tbind (Ret (build_canonical_payload (PDict params) m)) (\<lambda>canonical.
       svc_freeze_t H S key now result canonical))) (Suc 8)" for now m
    by (intro capped_first capped_Ret_bind capped_freeze)
  then have "capped (svc_new_t H S params key) (Suc (Suc 0 + Suc 8))"
    unfolding svc_new_t_def by (intro capped_first capped_tbind [OF mid]) simp
  then show ?thesis by simp
qed

lemma capped_propose: "capped (propose_t H S params) 13"
proof -
  have new: "capped (svc_new_t H S params key) 13" for key
    by (rule capped_mono [OF capped_new]) simp
  have "capped (tbind (ps_find_by_idempotency_t (svc_proposals S) k) (\<lambda>existing. case existing of
      Some p \<Rightarrow> Ret (Inr (proposal_identifiers p)) | None \<Rightarrow> svc_new_t H S params (Some k))) (2 + 11)" for k
    by (rule capped_tbind [OF capped_find]) (simp add: capped_new split: option.split)
  with new show ?thesis
    unfolding propose_t_def by (auto intro!: capped_Ret_bind split: option.split)
qed

subsection \<open>Ownership\<close>

text \<open>The id factory is shared.  Which ids it has given out is a function \<open>M\<close> of the state the
  injected objects keep; it never gives one out twice, and none that could be an index key.\<close>

definition id_source ::
  "('e \<Rightarrow> pystr set) \<Rightarrow> ('e, int) pm \<Rightarrow> ('e, pystr) pm \<Rightarrow> ('e, pyval) pm option \<Rightarrow> bool" where
  "id_source M clock idf midf \<longleftrightarrow>
     (\<forall>e r e'. clock e = (r, e') \<longrightarrow> M e \<subseteq> M e') \<and>
     (\<forall>f e r e'. midf = Some f \<and> f e = (r, e') \<longrightarrow> M e \<subseteq> M e') \<and>
     (\<forall>e r e'. idf e = (r, e') \<longrightarrow> M e \<subseteq> M e' \<and>
        (\<forall>pid. r = Inr pid \<longrightarrow> pid \<notin> M e \<and> pid \<in> M e' \<and> \<not> index_key pid))"

text \<open>Every id in the stores was given out.\<close>

definition only_minted :: "('e \<Rightarrow> pystr set) \<Rightarrow> 'e world \<Rightarrow> bool" where
  "only_minted M w \<longleftrightarrow> (\<forall>pid. pid \<notin> M (w_env w) \<and> \<not> index_key pid \<longrightarrow>
     proposal_rows w pid = None \<and> payload_rows w pid = None)"

definition leads_to :: "'e world \<Rightarrow> pystr \<Rightarrow> pystr \<Rightarrow> bool" where
  "leads_to w k pid \<longleftrightarrow> proposal_rows w (idem_index_key k) = Some (index_row pid)"

definition keys_kept :: "'e world \<Rightarrow> 'e world \<Rightarrow> bool" where
  "keys_kept s t \<longleftrightarrow> (\<forall>k pid. leads_to s k pid \<longrightarrow> leads_to t k pid \<and> proposal_rows t pid = proposal_rows s pid)"

definition id_untouched :: "pystr \<Rightarrow> 'e world \<Rightarrow> 'e world \<Rightarrow> bool" where
  "id_untouched pid s t \<longleftrightarrow> proposal_rows t pid = proposal_rows s pid \<and> payload_rows t pid = payload_rows s pid \<and>
     (\<forall>k. leads_to t k pid \<longrightarrow> leads_to s k pid)"

text \<open>What a request owns is the id it has minted, if any.\<close>

definition req_ok :: "(bytes \<Rightarrow> pystr) \<Rightarrow> ('e \<Rightarrow> pystr set) \<Rightarrow> pystr option \<Rightarrow> 'e world \<Rightarrow> bool" where
  "req_ok H M c w \<longleftrightarrow> stores_ok H w \<and> only_minted M w \<and> (\<forall>pid. c = Some pid \<longrightarrow> pid \<in> M (w_env w) \<and> \<not> index_key pid)"

definition req_rely :: "('e \<Rightarrow> pystr set) \<Rightarrow> pystr option \<Rightarrow> 'e world \<Rightarrow> 'e world \<Rightarrow> bool" where
  "req_rely M c s t \<longleftrightarrow> M (w_env s) \<subseteq> M (w_env t) \<and> keys_kept s t \<and> (\<forall>pid. c = Some pid \<longrightarrow> id_untouched pid s t)"

definition req_guar :: "('e \<Rightarrow> pystr set) \<Rightarrow> pystr option \<Rightarrow> 'e world \<Rightarrow> pystr option \<Rightarrow> 'e world \<Rightarrow> bool" where
  "req_guar M c s c' t \<longleftrightarrow> M (w_env s) \<subseteq> M (w_env t) \<and> keys_kept s t \<and>
     (c' = c \<or> c = None \<and> (\<exists>pid. c' = Some pid \<and> pid \<notin> M (w_env s))) \<and>
     (\<forall>pid. pid \<in> M (w_env s) \<and> \<not> index_key pid \<and> c \<noteq> Some pid \<longrightarrow> id_untouched pid s t)"

definition req_apart :: "pystr option \<Rightarrow> pystr option \<Rightarrow> bool" where
  "req_apart c d \<longleftrightarrow> c = None \<or> c \<noteq> d"

lemma keys_kept_refl [simp]: "keys_kept s s"
  by (simp add: keys_kept_def)

lemma keys_kept_trans: "keys_kept s t \<Longrightarrow> keys_kept t u \<Longrightarrow> keys_kept s u"
  unfolding keys_kept_def by metis

lemma id_untouched_refl [simp]: "id_untouched pid s s"
  by (simp add: id_untouched_def)

lemma id_untouched_trans: "id_untouched pid s t \<Longrightarrow> id_untouched pid t u \<Longrightarrow> id_untouched pid s u"
  by (simp add: id_untouched_def)

interpretation req: rg_pool "req_rely M" "req_guar M" "req_ok H M" req_apart for H M
proof unfold_locales
  show "req_rely M c s s" for c s
    by (simp add: req_rely_def)
  show "req_rely M c s u" if "req_rely M c s t" "req_rely M c t u" for c s t u
    using that unfolding req_rely_def by (metis keys_kept_trans id_untouched_trans subset_trans)
  show "req_apart d c" if "req_apart c d" for c d
    using that by (auto simp: req_apart_def)
  fix c s d c' t
  assume a: "req_ok H M c s" "req_ok H M d s" "req_ok H M c' t" "req_apart c d" "req_guar M c s c' t"
  have own: "pid \<in> M (w_env s) \<and> c \<noteq> Some pid \<and> \<not> index_key pid" if "d = Some pid" for pid
    using a(2,4) that unfolding req_ok_def req_apart_def by auto
  have "req_rely M d s t"
    using a(5) own unfolding req_rely_def req_guar_def by simp
  moreover have "req_ok H M d t"
    using a(3,5) own unfolding req_ok_def req_guar_def by (simp add: subset_iff)
  moreover have "req_apart c' d"
    using a(4,5) own unfolding req_apart_def req_guar_def by metis
  ultimately show "req_rely M d s t \<and> req_ok H M d t \<and> req_apart c' d" by blast
qed

text \<open>The assertions the proof uses are stable.\<close>

definition owns_new :: "pystr \<Rightarrow> pystr option \<Rightarrow> 'e world \<Rightarrow> bool" where
  "owns_new pid c w \<longleftrightarrow> c = Some pid \<and> proposal_rows w pid = None"

definition owns_row :: "proposal \<Rightarrow> pystr option \<Rightarrow> 'e world \<Rightarrow> bool" where
  "owns_row p c w \<longleftrightarrow> c = Some (p_proposal_id p) \<and> proposal_rows w (p_proposal_id p) = Some (proposal_to_dict p) \<and>
     (\<forall>k. \<not> leads_to w k (p_proposal_id p))"

definition frozen :: "(bytes \<Rightarrow> pystr) \<Rightarrow> proposal \<Rightarrow> 'e world \<Rightarrow> bool" where
  "frozen H p w \<longleftrightarrow> (\<exists>can. payload_rows w (p_proposal_id p) = Some can \<and> digest H (PDict can) = Inr (p_payload_digest p))"

text \<open>The key has been claimed for the proposal.\<close>

definition bound_to :: "'e world \<Rightarrow> pystr \<Rightarrow> proposal \<Rightarrow> bool" where
  "bound_to w k p \<longleftrightarrow> leads_to w k (p_proposal_id p) \<and>
     proposal_rows w (p_proposal_id p) = Some (proposal_to_dict p) \<and> p_idempotency_key p = Some k"

lemma owns_new_stable: "owns_new pid c s \<Longrightarrow> req_rely M c s t \<Longrightarrow> owns_new pid c t"
  by (simp add: owns_new_def req_rely_def id_untouched_def)

lemma owns_row_stable: "owns_row p c s \<Longrightarrow> req_rely M c s t \<Longrightarrow> owns_row p c t"
  by (auto simp: owns_row_def req_rely_def id_untouched_def)

lemma frozen_stable: "frozen H p s \<Longrightarrow> c = Some (p_proposal_id p) \<Longrightarrow> req_rely M c s t \<Longrightarrow> frozen H p t"
  by (auto simp: frozen_def req_rely_def id_untouched_def)

lemma bound_to_kept: "bound_to s k p \<Longrightarrow> keys_kept s t \<Longrightarrow> bound_to t k p"
  unfolding bound_to_def keys_kept_def by metis

lemma bound_to_stable: "bound_to s k p \<Longrightarrow> req_rely M c s t \<Longrightarrow> bound_to t k p"
  by (simp add: bound_to_kept req_rely_def)

lemma bound_to_inj:
  "bound_to w k p \<Longrightarrow> bound_to w l q \<Longrightarrow> (proposal_identifiers p = proposal_identifiers q) = (k = l)"
proof
  assume a: "bound_to w k p" "bound_to w l q"
  show "k = l" if "proposal_identifiers p = proposal_identifiers q"
  proof -
    from that have "p_proposal_id p = p_proposal_id q"
      by (simp add: proposal_identifiers_def identifiers_def)
    with a have "p = q" unfolding bound_to_def by (metis option.inject to_dict_eq)
    with a show ?thesis by (simp add: bound_to_def)
  qed
  show "proposal_identifiers p = proposal_identifiers q" if "k = l"
  proof -
    from a that have "p_proposal_id p = p_proposal_id q"
      by (simp add: bound_to_def leads_to_def index_row_def)
    with a have "p = q" unfolding bound_to_def by (metis option.inject to_dict_eq)
    then show ?thesis by simp
  qed
qed

lemma req_stableI: "(\<And>c s t. P c s \<Longrightarrow> req_rely M c s t \<Longrightarrow> P c t) \<Longrightarrow> req.steady M H P"
  by (auto simp: req.steady_def)

subsection \<open>The accesses\<close>

lemma proposals_frame:
  "kv_get proposals_db k w = (r, t) \<Longrightarrow> w_payloads t = w_payloads w \<and> w_env t = w_env w"
  "kv_put proposals_db k v w = (u, t) \<Longrightarrow> w_payloads t = w_payloads w \<and> w_env t = w_env w"
  "kv_claim proposals_db k v w = (b, t) \<Longrightarrow> w_payloads t = w_payloads w \<and> w_env t = w_env w"
  "kv_delete proposals_db k w = (u, t) \<Longrightarrow> w_payloads t = w_payloads w \<and> w_env t = w_env w"
  by (auto simp: proposals_db_simps lift_proposals_iff)

lemma payloads_frame:
  "kv_put payloads_db k v w = (u, t) \<Longrightarrow> w_env t = w_env w"
  "kv_delete payloads_db k w = (u, t) \<Longrightarrow> w_env t = w_env w"
  by (auto simp: payloads_db_def lift_pm_iff put_payloads_def)

lemma payload_rows_eq: "w_payloads t = w_payloads w \<Longrightarrow> payload_rows t = payload_rows w"
  by (simp add: payload_rows_def)

lemma req_okD:
  assumes "req_ok H M c w"
  shows "clean (w_proposals w)" "clean (w_payloads w)" "index_inv (proposal_rows w)" "faithful H w"
    "only_minted M w" "c = Some pid \<Longrightarrow> pid \<in> M (w_env w)" "c = Some pid \<Longrightarrow> \<not> index_key pid"
  using assms by (simp_all add: req_ok_def stores_ok_def)

text \<open>An access that changes no row.\<close>

lemma quiet_access:
  assumes "req_ok H M c w" "proposal_rows t = proposal_rows w" "payload_rows t = payload_rows w"
    and "clean (w_proposals t)" "clean (w_payloads t)" "M (w_env w) \<subseteq> M (w_env t)"
  shows "req_ok H M c t" "req_guar M c w c t"
proof -
  have "leads_to t k pid = leads_to w k pid" for k pid
    using assms(2) by (simp add: leads_to_def)
  with assms show "req_guar M c w c t"
    by (simp add: req_guar_def keys_kept_def id_untouched_def)
  have "stores_ok H t"
    using req_okD(3,4) [OF assms(1)] assms(4,5) by (simp add: stores_ok_def faithful_def assms(2,3))
  moreover have "only_minted M t"
    using req_okD(5) [OF assms(1)] assms(6) by (auto simp: only_minted_def assms(2,3))
  ultimately show "req_ok H M c t"
    using req_okD(6,7) [OF assms(1)] assms(6) by (auto simp: req_ok_def)
qed

lemma get_access:
  assumes "req_ok H M c w" "kv_get proposals_db k w = (r, t)"
  shows "req_ok H M c t" "req_guar M c w c t" "proposal_rows t = proposal_rows w"
    "payload_rows t = payload_rows w" "r = Inr v \<Longrightarrow> v = proposal_rows w k" "r = Inl e \<Longrightarrow> db_error e"
proof -
  note g = pdb.get_atomic [OF req_okD(1) [OF assms(1)] assms(2)]
  note f = proposals_frame(1) [OF assms(2)]
  show p: "proposal_rows t = proposal_rows w" using g by (rule conjunct1 [OF conjunct2])
  show q: "payload_rows t = payload_rows w" using f by (intro payload_rows_eq) (rule conjunct1)
  have "clean (w_proposals t)" "clean (w_payloads t)" "M (w_env w) \<subseteq> M (w_env t)"
    using g f req_okD(2) [OF assms(1)] by simp_all
  from quiet_access [OF assms(1) p q this]
  show "req_ok H M c t" "req_guar M c w c t" .
  show "v = proposal_rows w k" if "r = Inr v" using g that by blast
  show "db_error e" if "r = Inl e" using g that by blast
qed

text \<open>An access to the rows under the owned id, while no key leads there.\<close>

lemma own_access:
  assumes "req_ok H M c w" "c = Some pid" "\<And>k. \<not> leads_to w k pid" "stores_ok H t" "w_env t = w_env w"
    and "\<And>q. q \<noteq> pid \<Longrightarrow> proposal_rows t q = proposal_rows w q"
    and "\<And>q. q \<noteq> pid \<Longrightarrow> payload_rows t q = payload_rows w q"
  shows "req_ok H M c t" "req_guar M c w c t" "leads_to t k q = leads_to w k q"
proof -
  have leads: "leads_to t k q = leads_to w k q" for k q
    using assms(6) not_index_key [OF req_okD(7) [OF assms(1,2)]] by (simp add: leads_to_def)
  then show "leads_to t k q = leads_to w k q" .
  have "keys_kept w t"
    unfolding keys_kept_def using leads assms(3,6) by metis
  moreover have "id_untouched q w t" if "c \<noteq> Some q" for q
    using that assms(2,6,7) leads by (simp add: id_untouched_def)
  ultimately show "req_guar M c w c t"
    using assms(5) by (simp add: req_guar_def)
  have "only_minted M t"
    using req_okD(5,6) [OF assms(1)] assms(2,5,6,7) unfolding only_minted_def by metis
  with assms(1,2,4,5) show "req_ok H M c t"
    by (simp add: req_ok_def)
qed

lemma new_not_led:
  assumes "req_ok H M c w" "owns_new pid c w"
  shows "\<not> leads_to w k pid"
proof
  assume "leads_to w k pid"
  then have "proposal_rows w (idem_index_key k) = Some (index_row pid)" by (simp add: leads_to_def)
  from index_inv_index [OF req_okD(3) [OF assms(1)] this] assms(2) show False
    by (auto simp: index_row_def owns_new_def)
qed

lemma index_inv_drop:
  assumes m: "index_inv m" and pid: "\<not> index_key pid" "\<And>i. m (idem_index_key i) \<noteq> Some (index_row pid)"
  shows "index_inv (m(pid := None))"
  unfolding index_inv_def
proof (intro conjI allI impI)
  fix i d assume "(m(pid := None)) (idem_index_key i) = Some d"
  with not_index_key [OF pid(1)] have d: "m (idem_index_key i) = Some d" by simp
  from index_inv_index [OF m d] obtain p where p: "d = index_row (p_proposal_id p)"
    "m (p_proposal_id p) = Some (proposal_to_dict p)" "p_idempotency_key p = Some i" by blast
  with d pid(2) have "p_proposal_id p \<noteq> pid" by metis
  with p show "\<exists>p. d = index_row (p_proposal_id p) \<and>
      (m(pid := None)) (p_proposal_id p) = Some (proposal_to_dict p) \<and> p_idempotency_key p = Some i"
    by (intro exI [of _ p]) simp
next
  fix k d assume "(m(pid := None)) k = Some d \<and> \<not> index_key k"
  with index_inv_proposal [OF m] show "\<exists>q. d = proposal_to_dict q \<and> p_proposal_id q = k"
    by (auto split: if_splits)
qed

lemma put_access:
  assumes ok: "req_ok H M c w" and new: "owns_new (p_proposal_id p) c w" "frozen H p w"
    and put: "kv_put proposals_db (p_proposal_id p) (proposal_to_dict p) w = (r, t)"
  shows "req_ok H M c t" "req_guar M c w c t" "r = Inr u \<Longrightarrow> owns_row p c t" "r = Inl e \<Longrightarrow> db_error e"
proof -
  let ?pid = "p_proposal_id p"
  note a = pdb.put_atomic [OF req_okD(1) [OF ok] put]
  note f = proposals_frame(2) [OF put]
  have c: "c = Some ?pid" and none: "proposal_rows w ?pid = None" using new(1) by (simp_all add: owns_new_def)
  note pid = req_okD(7) [OF ok c]
  note pay = payload_rows_eq [of t w]
  have rows: "proposal_rows t q = proposal_rows w q" if "q \<noteq> ?pid" for q
    using a that by (cases r) simp_all
  have "index_inv (proposal_rows t)"
    using a index_inv_new [OF req_okD(3) [OF ok] none pid] req_okD(3) [OF ok] by (cases r) simp_all
  moreover have "faithful H t"
  proof (rule faithful_other [OF req_okD(4) [OF ok], of ?pid])
    show "\<exists>can. payload_rows t ?pid = Some can \<and> digest H (PDict can) = Inr (p_payload_digest x)"
      if "proposal_rows t ?pid = Some (proposal_to_dict x)" for x
      using that a none new(2) f pay by (cases r) (auto simp: frozen_def)
  qed (use rows f pay in auto)
  ultimately have "stores_ok H t"
    using a f req_okD(2) [OF ok] by (simp add: stores_ok_def)
  note own = own_access [OF ok c new_not_led [OF ok new(1)] this]
  show "req_ok H M c t" "req_guar M c w c t"
    using own f pay rows by simp_all
  show "owns_row p c t" if "r = Inr u"
    using that a c own(3) f pay rows new_not_led [OF ok new(1)] by (simp add: owns_row_def)
  show "db_error e" if "r = Inl e" using a that by simp
qed

lemma claim_access:
  assumes ok: "req_ok H M c w" and own: "owns_row p c w" and k: "p_idempotency_key p = Some k"
    and claim: "kv_claim proposals_db (idem_index_key k) (index_row (p_proposal_id p)) w = (r, t)"
  shows "req_ok H M c t" "req_guar M c w c t" "r = Inr True \<Longrightarrow> bound_to t k p"
    "r = Inr False \<Longrightarrow> owns_row p c t" "r = Inl e \<Longrightarrow> db_error e"
proof -
  let ?pid = "p_proposal_id p"
  note a = pdb.claim_atomic [OF req_okD(1) [OF ok] claim]
  note f = proposals_frame(3) [OF claim]
  have c: "c = Some ?pid" and row: "proposal_rows w ?pid = Some (proposal_to_dict p)"
    using own by (simp_all add: owns_row_def)
  note pid = req_okD(7) [OF ok c]
  note pay = payload_rows_eq [of t w]
  show "db_error e" if "r = Inl e" using a that by simp
  have "req_ok H M c t \<and> req_guar M c w c t \<and> (r = Inr True \<longrightarrow> bound_to t k p) \<and> (r = Inr False \<longrightarrow> owns_row p c t)"
  proof (cases "r = Inr True")
    case False
    with a have rows: "proposal_rows t = proposal_rows w" by simp
    from quiet_access [OF ok rows] f pay a req_okD(2) [OF ok] False own rows
    show ?thesis
      by (simp add: owns_row_def leads_to_def)
  next
    case True
    with a have rows: "proposal_rows t = (proposal_rows w)(idem_index_key k \<mapsto> index_row ?pid)"
      by simp
    from a True have free: "proposal_rows w (idem_index_key k) = None" by blast
    have other: "proposal_rows t q = proposal_rows w q" if "\<not> index_key q" for q
      using rows not_index_key [OF that] by simp
    have leads: "leads_to t j q \<longleftrightarrow> leads_to w j q \<or> j = k \<and> q = ?pid" for j q
      using rows free by (auto simp: leads_to_def index_row_def)
    have "index_inv (proposal_rows t)"
      unfolding rows by (rule index_inv_claim [OF req_okD(3) [OF ok] row k pid])
    moreover have "faithful H t"
      using req_okD(4) [OF ok] f pay rows to_dict_not_index [symmetric]
      unfolding faithful_def by (auto split: if_splits)
    ultimately have "req_ok H M c t"
      using ok f a rows pay by (auto simp: req_ok_def stores_ok_def only_minted_def index_key_def)
    moreover have led: "\<not> index_key q" if "leads_to w j q" for j q
    proof -
      from that have "proposal_rows w (idem_index_key j) = Some (index_row q)" by (simp add: leads_to_def)
      from index_invD [OF req_okD(3) [OF ok] this] show ?thesis by (auto simp: index_row_def)
    qed
    then have "keys_kept w t"
      using leads other unfolding keys_kept_def by blast
    moreover have "id_untouched q w t" if "\<not> index_key q" "c \<noteq> Some q" for q
      using that leads other c f pay by (auto simp: id_untouched_def)
    moreover have "bound_to t k p"
      using leads other [OF pid] row k by (simp add: bound_to_def)
    ultimately show ?thesis
      using True f by (simp add: req_guar_def)
  qed
  then show "req_ok H M c t" "req_guar M c w c t" "r = Inr True \<Longrightarrow> bound_to t k p" "r = Inr False \<Longrightarrow> owns_row p c t"
    by simp_all
qed

lemma delete_access:
  assumes ok: "req_ok H M c w" and own: "owns_row p c w"
    and del: "kv_delete proposals_db (p_proposal_id p) w = (r, t)"
  shows "req_ok H M c t" "req_guar M c w c t" "r = Inr u \<Longrightarrow> owns_new (p_proposal_id p) c t"
    "r = Inl e \<Longrightarrow> db_error e"
proof -
  let ?pid = "p_proposal_id p"
  note a = pdb.delete_atomic [OF req_okD(1) [OF ok] del]
  note f = proposals_frame(4) [OF del]
  have c: "c = Some ?pid" and led: "\<And>k. \<not> leads_to w k ?pid"
    using own by (simp_all add: owns_row_def)
  note pid = req_okD(7) [OF ok c]
  note pay = payload_rows_eq [of t w]
  have rows: "proposal_rows t q = proposal_rows w q" if "q \<noteq> ?pid" for q
    using a that by (cases r) simp_all
  have "index_inv ((proposal_rows w)(?pid := None))"
    by (rule index_inv_drop [OF req_okD(3) [OF ok] pid]) (use led in \<open>simp add: leads_to_def\<close>)
  then have "index_inv (proposal_rows t)"
    using a req_okD(3) [OF ok] by (cases r) simp_all
  moreover have "faithful H t"
  proof (rule faithful_other [OF req_okD(4) [OF ok], of ?pid])
    show "\<exists>can. payload_rows t ?pid = Some can \<and> digest H (PDict can) = Inr (p_payload_digest x)"
      if "proposal_rows t ?pid = Some (proposal_to_dict x)" for x
      using that a f pay req_okD(4) [OF ok] by (cases r) (auto simp: faithful_def)
  qed (use rows f pay in auto)
  ultimately have "stores_ok H t"
    using a f req_okD(2) [OF ok] by (simp add: stores_ok_def)
  note own' = own_access [OF ok c led this]
  show "req_ok H M c t" "req_guar M c w c t"
    using own' f pay rows by simp_all
  show "owns_new ?pid c t" if "r = Inr u"
    using that a c by (simp add: owns_new_def)
  show "db_error e" if "r = Inl e" using a that by simp
qed

text \<open>The payload under the owned id, while no proposal refers to it.\<close>

lemma payload_access:
  assumes ok: "req_ok H M c w" and new: "owns_new pid c w"
    and t: "clean (w_payloads t)" "w_proposals t = w_proposals w" "w_env t = w_env w"
    and rows: "\<And>q. q \<noteq> pid \<Longrightarrow> payload_rows t q = payload_rows w q"
  shows "req_ok H M c t" "req_guar M c w c t" "owns_new pid c t"
proof -
  have c: "c = Some pid" and none: "proposal_rows w pid = None" using new by (simp_all add: owns_new_def)
  have same: "proposal_rows t = proposal_rows w" using t(2) by (simp add: proposal_rows_def)
  have "faithful H t"
    by (rule faithful_other [OF req_okD(4) [OF ok], of pid]) (use rows same none in auto)
  then have "stores_ok H t"
    using req_okD(1,3) [OF ok] t(1,2) same by (simp add: stores_ok_def)
  from own_access [OF ok c new_not_led [OF ok new] this t(3) _ rows] same
  show "req_ok H M c t" "req_guar M c w c t" by simp_all
  show "owns_new pid c t" using c none same by (simp add: owns_new_def)
qed

lemma payload_put_access:
  assumes ok: "req_ok H M c w" and new: "owns_new pid c w"
    and put: "kv_put payloads_db pid can w = (r, t)"
  shows "req_ok H M c t" "req_guar M c w c t" "owns_new pid c t" "r = Inr u \<Longrightarrow> payload_rows t pid = Some can"
proof -
  note a = payload_put_step [OF req_okD(2) [OF ok] put]
  have rows: "payload_rows t q = payload_rows w q" if "q \<noteq> pid" for q
    using a that by (cases r) simp_all
  from payload_access [OF ok new _ _ payloads_frame(1) [OF put] rows] a
  show "req_ok H M c t" "req_guar M c w c t" "owns_new pid c t" by simp_all
  show "payload_rows t pid = Some can" if "r = Inr u" using a that by simp
qed

lemma payload_delete_access:
  assumes ok: "req_ok H M c w" and new: "owns_new pid c w"
    and del: "kv_delete payloads_db pid w = (r, t)"
  shows "req_ok H M c t" "req_guar M c w c t"
proof -
  note a = payload_delete_step [OF req_okD(2) [OF ok] del]
  have rows: "payload_rows t q = payload_rows w q" if "q \<noteq> pid" for q
    using a that by (cases r) simp_all
  from payload_access [OF ok new _ _ payloads_frame(2) [OF del] rows] a
  show "req_ok H M c t" "req_guar M c w c t" by simp_all
qed

lemma same_access:
  assumes "req_ok H M c w" "same_stores w t" "M (w_env w) \<subseteq> M (w_env t)"
  shows "req_ok H M c t" "req_guar M c w c t"
proof -
  have "proposal_rows t = proposal_rows w" "payload_rows t = payload_rows w"
    "clean (w_proposals t)" "clean (w_payloads t)"
    using assms(2) req_okD(1,2) [OF assms(1)]
    by (simp_all add: same_stores_def proposal_rows_def payload_rows_def)
  from quiet_access [OF assms(1) this assms(3)] show "req_ok H M c t" "req_guar M c w c t" .
qed

lemma env_pm_env: "env_pm m w = (r, t) \<Longrightarrow> m (w_env w) = (r, w_env t)"
  by (auto simp: env_pm_def split: prod.splits)

lemma clock_access:
  assumes "id_source M clock idf midf" "req_ok H M c w" "env_pm clock w = (r, t)"
  shows "req_ok H M c t" "req_guar M c w c t"
proof -
  have "M (w_env w) \<subseteq> M (w_env t)"
    using assms(1) env_pm_env [OF assms(3)] unfolding id_source_def by metis
  from same_access [OF assms(2) _ this] env_step [OF assms(3)]
  show "req_ok H M c t" "req_guar M c w c t" by simp_all
qed

lemma message_id_access:
  assumes "id_source M clock idf (Some f)" "req_ok H M c w" "env_pm f w = (r, t)"
  shows "req_ok H M c t" "req_guar M c w c t"
proof -
  have "M (w_env w) \<subseteq> M (w_env t)"
    using assms(1) env_pm_env [OF assms(3)] unfolding id_source_def by metis
  from same_access [OF assms(2) _ this] env_step [OF assms(3)]
  show "req_ok H M c t" "req_guar M c w c t" by simp_all
qed

text \<open>Minting: the new id is the request's own.\<close>

lemma prepare_env:
  assumes "prepare_email H params now ttl (env_pm idf) m w = (r, t)"
  shows "t = w \<and> (\<forall>x. r \<noteq> Inr x) \<or> (\<exists>g. env_pm idf w = (g, t) \<and> (\<forall>x. r = Inr x \<longrightarrow> g = Inr (per_proposal_id x)))"
proof -
  obtain g u where g: "env_pm idf w = (g, u)" by fastforce
  show ?thesis
  proof (cases r)
    case (Inr x)
    with assms have "\<exists>pid. env_pm idf w = (Inr pid, t) \<and> per_proposal_id x = pid"
      by (auto simp: prepare_email_ok_iff)
    with Inr show ?thesis by auto
  next
    case (Inl e)
    have "t = w \<or> t = u"
      using assms g by (auto simp: prepare_email_def pm_simps rguard_def split: sum.splits if_splits)
    with g Inl show ?thesis by auto
  qed
qed

lemma mint_access:
  assumes src: "id_source M clock idf midf" and ok: "req_ok H M None w"
    and run: "prepare_email H' params now ttl (env_pm idf) m w = (r, t)"
  shows "\<exists>c'. req_ok H M c' t \<and> req_guar M None w c' t \<and> (\<forall>x. r = Inr x \<longrightarrow> owns_new (per_proposal_id x) c' t)"
  using prepare_env [OF run]
proof (elim disjE exE conjE)
  assume "t = w" "\<forall>x. r \<noteq> Inr x"
  with same_access [OF ok, of w] ok show ?thesis by auto
next
  fix g assume g: "env_pm idf w = (g, t)" and x: "\<forall>x. r = Inr x \<longrightarrow> g = Inr (per_proposal_id x)"
  have src': "M (w_env w) \<subseteq> M (w_env t)"
    "\<And>pid. g = Inr pid \<Longrightarrow> pid \<notin> M (w_env w) \<and> pid \<in> M (w_env t) \<and> \<not> index_key pid"
    using src env_pm_env [OF g] unfolding id_source_def by metis+
  have same: "same_stores w t" using env_step [OF g] by simp
  note a = same_access [OF ok same src'(1)]
  show ?thesis
  proof (cases r)
    case (Inl e)
    with a show ?thesis by auto
  next
    case (Inr y)
    let ?pid = "per_proposal_id y"
    from x Inr have "g = Inr ?pid" by simp
    note pid = src'(2) [OF this]
    have "req_ok H M (Some ?pid) t" using a(1) pid by (simp add: req_ok_def)
    moreover have "req_guar M None w (Some ?pid) t" using a(2) pid by (simp add: req_guar_def)
    moreover have "owns_new ?pid (Some ?pid) t"
      using req_okD(5) [OF ok] pid same
      by (simp add: owns_new_def only_minted_def same_stores_def proposal_rows_def)
    ultimately show ?thesis using Inr by (intro exI [of _ "Some ?pid"]) simp
  qed
qed

subsection \<open>The requests\<close>

lemmas stable_facts = owns_new_stable owns_row_stable frozen_stable bound_to_stable

text \<open>A lookup by key finds the proposal the key is bound to, whatever happens between its two reads.\<close>

definition found :: "(pystr option \<Rightarrow> bool) \<Rightarrow> pystr \<Rightarrow> proposal option res \<Rightarrow> pystr option \<Rightarrow> 'e world \<Rightarrow> bool" where
  "found P k r c w \<longleftrightarrow> P c \<and> (\<forall>p. r = Inr (Some p) \<longrightarrow> bound_to w k p)"

lemma found_stable: "req.steady M H (found P k r)"
  by (rule req_stableI) (auto simp: found_def dest: bound_to_stable)

lemma get_bound_access:
  assumes "req_ok H M c w" "kv_get proposals_db (idem_index_key k) w = (Inr (Some d), t)"
  shows "\<exists>p. d = index_row (p_proposal_id p) \<and> bound_to t k p"
proof -
  note a = get_access [OF assms]
  from a(5) have d: "proposal_rows w (idem_index_key k) = Some d" by simp
  from index_invD [OF req_okD(3) [OF assms(1)] d] obtain p where "d = index_row (p_proposal_id p)"
    "proposal_rows w (p_proposal_id p) = Some (proposal_to_dict p)" "p_idempotency_key p = Some k" .
  with d a(3) show ?thesis by (intro exI [of _ p]) (simp add: bound_to_def leads_to_def)
qed

lemma triple_get_bound:
  "req.triple M H (\<lambda>c w. P c \<and> bound_to w k p)
     (tbind (ps_get_t proposals_db (p_proposal_id p)) (\<lambda>p. Ret (Inr (Some p)))) (found P k)"
proof (rule req.triple_tbind [where M = "\<lambda>r c w. P c \<and> bound_to w k p \<and> (\<forall>q. r = Inr q \<longrightarrow> q = p)"])
  show "req.triple M H (\<lambda>c w. P c \<and> bound_to w k p) (ps_get_t proposals_db (p_proposal_id p))
      (\<lambda>r c w. P c \<and> bound_to w k p \<and> (\<forall>q. r = Inr q \<longrightarrow> q = p))"
    unfolding ps_get_t_def
  proof (rule req.triple_access [where M = "\<lambda>r c w. P c \<and> bound_to w k p \<and>
      (\<forall>d. r = Inr (Some d) \<longrightarrow> d = proposal_to_dict p)"])
    fix c w r t
    assume ok: "req_ok H M c w" and P: "P c \<and> bound_to w k p"
      and g: "kv_get proposals_db (p_proposal_id p) w = (r, t)"
    note a = get_access [OF ok g]
    have "bound_to t k p" using P a(3) by (simp add: bound_to_def leads_to_def)
    moreover have "d = proposal_to_dict p" if "r = Inr (Some d)" for d
      using a(5) [OF that] P by (simp add: bound_to_def)
    ultimately show "\<exists>c'. req_ok H M c' t \<and> req_guar M c w c' t \<and> P c' \<and> bound_to t k p \<and>
        (\<forall>d. r = Inr (Some d) \<longrightarrow> d = proposal_to_dict p)"
      using a(1,2) P by blast
  next
    show "req.triple M H (\<lambda>c w. P c \<and> bound_to w k p \<and> (\<forall>d. Inr a = Inr (Some d) \<longrightarrow> d = proposal_to_dict p))
      (case a of None \<Rightarrow> Ret (Inl (Store (ProposalNotFoundError (p_proposal_id p)))) | Some d \<Rightarrow> Ret (proposal_from_dict d))
      (\<lambda>r c w. P c \<and> bound_to w k p \<and> (\<forall>q. r = Inr q \<longrightarrow> q = p))" for a
      by (cases a) (auto intro!: req.triple_Ret req_stableI dest: bound_to_stable)
  qed (auto intro!: req_stableI dest: bound_to_stable)
qed (auto intro!: req.triple_Ret found_stable simp: found_def)

lemma triple_find: "req.triple M H (\<lambda>c w. P c) (ps_find_by_idempotency_t proposals_db k) (found P k)"
  unfolding ps_find_by_idempotency_t_def
proof (rule req.triple_access [where M = "\<lambda>r c w. P c \<and>
    (\<forall>d. r = Inr (Some d) \<longrightarrow> (\<exists>p. d = index_row (p_proposal_id p) \<and> bound_to w k p))"])
  fix c w r t
  assume ok: "req_ok H M c w" and P: "P c" and g: "kv_get proposals_db (idem_index_key k) w = (r, t)"
  have "\<exists>p. d = index_row (p_proposal_id p) \<and> bound_to t k p" if "r = Inr (Some d)" for d
    using get_bound_access [OF ok] g that by simp
  with get_access(1,2) [OF ok g] P show "\<exists>c'. req_ok H M c' t \<and> req_guar M c w c' t \<and> P c' \<and>
      (\<forall>d. r = Inr (Some d) \<longrightarrow> (\<exists>p. d = index_row (p_proposal_id p) \<and> bound_to t k p))"
    by (intro exI [of _ c] conjI allI impI)
next
  fix idx :: "dict option"
  show "req.triple M H (\<lambda>c w. P c \<and>
      (\<forall>d. Inr idx = Inr (Some d) \<longrightarrow> (\<exists>p. d = index_row (p_proposal_id p) \<and> bound_to w k p)))
    (case idx of None \<Rightarrow> Ret (Inr None)
     | Some d \<Rightarrow> tbind (Ret (rbind (dindex d (lit ''proposal_id'')) typed_str)) (\<lambda>pid.
         tbind (ps_get_t proposals_db pid) (\<lambda>p. Ret (Inr (Some p))))) (found P k)"
  proof (cases idx)
    case None
    then show ?thesis by (auto intro!: req.triple_Ret found_stable simp: found_def)
  next
    case (Some d)
    have "req.triple M H (\<lambda>c w. \<exists>p. d = index_row (p_proposal_id p) \<and> P c \<and> bound_to w k p)
      (tbind (Ret (rbind (dindex d (lit ''proposal_id'')) typed_str)) (\<lambda>pid.
         tbind (ps_get_t proposals_db pid) (\<lambda>p. Ret (Inr (Some p))))) (found P k)"
    proof (rule req.triple_ex)
      fix p
      show "req.triple M H (\<lambda>c w. d = index_row (p_proposal_id p) \<and> P c \<and> bound_to w k p)
        (tbind (Ret (rbind (dindex d (lit ''proposal_id'')) typed_str)) (\<lambda>pid.
           tbind (ps_get_t proposals_db pid) (\<lambda>p. Ret (Inr (Some p))))) (found P k)"
      proof (cases "d = index_row (p_proposal_id p)")
        case True
        then have "rbind (dindex d (lit ''proposal_id'')) typed_str = Inr (p_proposal_id p)"
          by (simp add: index_row_def dindex_def typed_str_def)
        with True triple_get_bound [of M H P k p] show ?thesis by (simp add: tbind_def)
      qed (simp add: req.triple_false)
    qed
    then show ?thesis unfolding Some option.case by (rule req.triple_pre) auto
  qed
next
  show "req.steady M H (\<lambda>c w. P c \<and>
      (\<forall>d. r = Inr (Some d) \<longrightarrow> (\<exists>p. d = index_row (p_proposal_id p) \<and> bound_to w k p)))" for r
    by (rule req_stableI) (metis bound_to_stable)
qed (auto intro!: req_stableI found_stable simp: found_def)

text \<open>Creating: the key is bound to the new proposal, or another request has it and the row is gone again.\<close>

definition created :: "proposal \<Rightarrow> proposal res \<Rightarrow> pystr option \<Rightarrow> 'e world \<Rightarrow> bool" where
  "created p r c w \<longleftrightarrow> (\<forall>q k. r = Inr q \<and> p_idempotency_key p = Some k \<longrightarrow> bound_to w k p) \<and>
     (r = Inl (Store DuplicateIdempotencyError) \<longrightarrow> owns_new (p_proposal_id p) c w)"

lemma created_stable: "req.steady M H (created p r)"
  by (rule req_stableI) (auto simp: created_def dest: bound_to_stable owns_new_stable)

lemma created_error: "e \<noteq> Store DuplicateIdempotencyError \<Longrightarrow> created p (Inl e) c w"
  by (simp add: created_def)

lemma triple_claim:
  assumes k: "p_idempotency_key p = Some k"
  shows "req.triple M H (owns_row p) (ps_claim_t proposals_db p k) (created p)"
  unfolding ps_claim_t_def
proof (rule req.triple_access [where M = "\<lambda>r c w. (r = Inr True \<longrightarrow> bound_to w k p) \<and>
    (r = Inr False \<longrightarrow> owns_row p c w) \<and> (\<forall>e. r = Inl e \<longrightarrow> db_error e)"])
  fix c w r t
  assume "req_ok H M c w" "owns_row p c w"
    "kv_claim proposals_db (idem_index_key k) (index_row (p_proposal_id p)) w = (r, t)"
  from claim_access [OF this(1,2) k this(3)]
  show "\<exists>c'. req_ok H M c' t \<and> req_guar M c w c' t \<and> (r = Inr True \<longrightarrow> bound_to t k p) \<and>
      (r = Inr False \<longrightarrow> owns_row p c' t) \<and> (\<forall>e. r = Inl e \<longrightarrow> db_error e)"
    by (intro exI [of _ c]) blast
next
  fix won
  have "req.triple M H (owns_row p)
      (tbind (atomic (kv_delete proposals_db (p_proposal_id p))) (\<lambda>_. Ret (Inl (Store DuplicateIdempotencyError))))
      (created p)"
  proof (rule req.triple_access [where M = "\<lambda>r c w. (r = Inr () \<longrightarrow> owns_new (p_proposal_id p) c w) \<and>
      (\<forall>e. r = Inl e \<longrightarrow> db_error e)"])
    fix c w r t
    assume "req_ok H M c w" "owns_row p c w" "kv_delete proposals_db (p_proposal_id p) w = (r, t)"
    from delete_access [OF this]
    show "\<exists>c'. req_ok H M c' t \<and> req_guar M c w c' t \<and> (r = Inr () \<longrightarrow> owns_new (p_proposal_id p) c' t) \<and>
        (\<forall>e. r = Inl e \<longrightarrow> db_error e)"
      by (intro exI [of _ c]) blast
  qed (auto intro!: req_stableI req.triple_Ret created_stable simp: created_def
      dest: owns_row_stable owns_new_stable db_error_not_store)
  moreover have "req.triple M H (\<lambda>c w. bound_to w k p) (Ret (Inr p)) (created p)"
    by (rule req.triple_Ret) (use k in \<open>auto intro: created_stable simp: created_def\<close>)
  ultimately show "req.triple M H (\<lambda>c w. (Inr won = Inr True \<longrightarrow> bound_to w k p) \<and>
      (Inr won = Inr False \<longrightarrow> owns_row p c w) \<and> (\<forall>e. Inr won = Inl e \<longrightarrow> db_error e))
    (if won then Ret (Inr p) else
      tbind (atomic (kv_delete proposals_db (p_proposal_id p))) (\<lambda>_. Ret (Inl (Store DuplicateIdempotencyError))))
    (created p)"
    by (cases won) simp_all
qed (auto intro!: req_stableI created_stable intro: created_error dest: bound_to_stable owns_row_stable db_error_not_store)

lemma ready_stable:
  "owns_new (p_proposal_id p) c s \<and> frozen H p s \<Longrightarrow> req_rely M c s t \<Longrightarrow> owns_new (p_proposal_id p) c t \<and> frozen H p t"
  using owns_new_stable frozen_stable owns_new_def by metis

lemma triple_put:
  "req.triple M H (\<lambda>c w. owns_new (p_proposal_id p) c w \<and> frozen H p w)
     (tbind (atomic (kv_put proposals_db (p_proposal_id p) (proposal_to_dict p))) (\<lambda>_.
       case p_idempotency_key p of None \<Rightarrow> Ret (Inr p) | Some k \<Rightarrow> ps_claim_t proposals_db p k)) (created p)"
proof (rule req.triple_access [where M = "\<lambda>r c w. (r = Inr () \<longrightarrow> owns_row p c w) \<and> (\<forall>e. r = Inl e \<longrightarrow> db_error e)"])
  fix c w r t
  assume "req_ok H M c w" "owns_new (p_proposal_id p) c w \<and> frozen H p w"
    "kv_put proposals_db (p_proposal_id p) (proposal_to_dict p) w = (r, t)"
  from put_access [OF this(1) conjunct1 [OF this(2)] conjunct2 [OF this(2)] this(3)]
  show "\<exists>c'. req_ok H M c' t \<and> req_guar M c w c' t \<and> (r = Inr () \<longrightarrow> owns_row p c' t) \<and>
      (\<forall>e. r = Inl e \<longrightarrow> db_error e)"
    by (intro exI [of _ c]) blast
next
  fix u :: unit
  have "req.triple M H (owns_row p)
    (case p_idempotency_key p of None \<Rightarrow> Ret (Inr p) | Some k \<Rightarrow> ps_claim_t proposals_db p k) (created p)"
    by (cases "p_idempotency_key p") (auto intro!: req.triple_Ret created_stable triple_claim simp: created_def)
  then show "req.triple M H (\<lambda>c w. (Inr u = Inr () \<longrightarrow> owns_row p c w) \<and> (\<forall>e. Inr u = Inl e \<longrightarrow> db_error e))
    (case p_idempotency_key p of None \<Rightarrow> Ret (Inr p) | Some k \<Rightarrow> ps_claim_t proposals_db p k) (created p)"
    by simp
next
  show "req.steady M H (\<lambda>c w. owns_new (p_proposal_id p) c w \<and> frozen H p w)"
    by (rule req_stableI) (rule ready_stable)
qed (auto intro!: req_stableI created_stable intro: created_error dest: owns_row_stable db_error_not_store)

lemma triple_create:
  "req.triple M H (\<lambda>c w. owns_new (p_proposal_id p) c w \<and> frozen H p w) (ps_create_t proposals_db p) (created p)"
proof -
  have err: "req.triple M H P (Ret (Inl (Store ProposalStateError))) (created p)" for P
    by (rule req.triple_Ret) (simp_all add: created_def created_stable)
  have st: "req.steady M H (\<lambda>c w. owns_new (p_proposal_id p) c w \<and> frozen H p w)"
    by (rule req_stableI) (rule ready_stable)
  have get: "req.triple M H (\<lambda>c w. owns_new (p_proposal_id p) c w \<and> frozen H p w)
    (tbind (atomic (kv_get proposals_db (p_proposal_id p))) (\<lambda>old.
     if old \<noteq> None then Ret (Inl (Store ProposalStateError))
     else tbind (atomic (kv_put proposals_db (p_proposal_id p) (proposal_to_dict p))) (\<lambda>_.
       case p_idempotency_key p of None \<Rightarrow> Ret (Inr p) | Some k \<Rightarrow> ps_claim_t proposals_db p k))) (created p)"
  proof (rule req.triple_access [where M = "\<lambda>r c w. (owns_new (p_proposal_id p) c w \<and> frozen H p w) \<and>
      (\<forall>e. r = Inl e \<longrightarrow> db_error e)"])
    fix c w r t
    assume ok: "req_ok H M c w" and P: "owns_new (p_proposal_id p) c w \<and> frozen H p w"
      and g: "kv_get proposals_db (p_proposal_id p) w = (r, t)"
    note a = get_access [OF ok g]
    have "owns_new (p_proposal_id p) c t \<and> frozen H p t"
      using P a(3,4) by (simp add: owns_new_def frozen_def)
    with a show "\<exists>c'. req_ok H M c' t \<and> req_guar M c w c' t \<and> (owns_new (p_proposal_id p) c' t \<and> frozen H p t) \<and>
        (\<forall>e. r = Inl e \<longrightarrow> db_error e)"
      by (intro exI [of _ c]) blast
  next
    fix old
    show "req.triple M H (\<lambda>c w. (owns_new (p_proposal_id p) c w \<and> frozen H p w) \<and> (\<forall>e. Inr old = Inl e \<longrightarrow> db_error e))
     (if old \<noteq> None then Ret (Inl (Store ProposalStateError))
     else tbind (atomic (kv_put proposals_db (p_proposal_id p) (proposal_to_dict p))) (\<lambda>_.
       case p_idempotency_key p of None \<Rightarrow> Ret (Inr p) | Some k \<Rightarrow> ps_claim_t proposals_db p k)) (created p)"
      using err triple_put [of M H p] by (cases old) simp_all
  next
    show "req.steady M H (\<lambda>c w. (owns_new (p_proposal_id p) c w \<and> frozen H p w) \<and> (\<forall>e. r = Inl e \<longrightarrow> db_error e))" for r
      by (rule req_stableI) (use ready_stable in blast)
  qed (auto intro: st created_stable created_error dest: db_error_not_store)
  show ?thesis
    unfolding ps_create_t_def
    by (intro req.triple_pure get) (auto simp: validate_ts_def rguard_def err split: if_splits)
qed

text \<open>The answer to a request with a key are the identifiers of the proposal the key is bound to.\<close>

definition answered :: "pystr option \<Rightarrow> dict res \<Rightarrow> pystr option \<Rightarrow> 'e world \<Rightarrow> bool" where
  "answered key r c w \<longleftrightarrow> (\<forall>d k. r = Inr d \<and> key = Some k \<longrightarrow> (\<exists>p. bound_to w k p \<and> d = proposal_identifiers p))"

lemma answered_stable: "req.steady M H (answered key r)"
  unfolding answered_def by (rule req_stableI) (metis bound_to_stable)

lemma answered_error [simp]: "answered key (Inl e) c w"
  by (simp add: answered_def)

lemma triple_raise: "req.triple M H P (Ret (Inl e)) (answered key)"
  by (rule req.triple_Ret) (simp_all add: answered_stable)

lemma triple_found:
  "req.triple M H (found P k (Inr existing))
     (case existing of Some p \<Rightarrow> Ret (Inr (proposal_identifiers p)) | None \<Rightarrow> Ret (Inl e)) (answered (Some k))"
proof (cases existing)
  case (Some p)
  have "req.triple M H (found P k (Inr existing)) (Ret (Inr (proposal_identifiers p))) (answered (Some k))"
  proof (rule req.triple_Ret)
    show "answered (Some k) (Inr (proposal_identifiers p)) c w" if "found P k (Inr existing) c w" for c w
      using that Some unfolding found_def answered_def by (intro allI impI exI [of _ p]) simp
  qed (rule answered_stable)
  with Some show ?thesis by simp
qed (simp add: triple_raise)

lemma triple_lost:
  "req.triple M H (owns_new pid) (svc_lost_t (gateway_service clock ttl idf midf q) key pid e) (answered key)"
  unfolding svc_lost_t_def gateway_service_simps
proof (rule req.triple_access [where M = "\<lambda>r c w. True"])
  fix c w r t
  assume "req_ok H M c w" "owns_new pid c w" "kv_delete payloads_db pid w = (r, t)"
  from payload_delete_access [OF this]
  show "\<exists>c'. req_ok H M c' t \<and> req_guar M c w c' t \<and> True" by blast
next
  fix u :: unit
  show "req.triple M H (\<lambda>c w. True)
    (tbind (case key of None \<Rightarrow> Ret (Inl (Py TypeError)) | Some k \<Rightarrow> ps_find_by_idempotency_t proposals_db k)
      (\<lambda>existing. case existing of Some p \<Rightarrow> Ret (Inr (proposal_identifiers p)) | None \<Rightarrow> Ret (Inl e))) (answered key)"
  proof (cases key)
    case None
    then show ?thesis by (simp add: tbind_def triple_raise)
  next
    case (Some k)
    have "req.triple M H (\<lambda>c w. True) (tbind (ps_find_by_idempotency_t proposals_db k)
      (\<lambda>existing. case existing of Some p \<Rightarrow> Ret (Inr (proposal_identifiers p)) | None \<Rightarrow> Ret (Inl e))) (answered (Some k))"
      by (rule req.triple_tbind [OF triple_find [of M H "\<lambda>_. True"]]) (rule triple_raise triple_found)+
    with Some show ?thesis by simp
  qed
qed (auto intro!: req_stableI answered_stable dest: owns_new_stable)

lemma triple_freeze:
  "req.triple M H (owns_new (per_proposal_id result))
     (svc_freeze_t H (gateway_service clock ttl idf midf q) key now result can) (answered key)"
  unfolding svc_freeze_t_def gateway_service_simps
proof (rule req.triple_pure)
  fix h assume h: "digest H (PDict can) = Inr h"
  let ?pid = "per_proposal_id result"
  let ?p = "\<lparr>p_proposal_id = ?pid, p_payload_digest = per_payload_digest result,
          p_expires_at = per_expires_at result, p_created_at = now, p_status = PENDING, p_idempotency_key = key\<rparr>"
  let ?rest = "ttry (ps_create_t proposals_db ?p)
       (\<lambda>e. if e \<noteq> Store DuplicateIdempotencyError then Ret (Inl e)
         else svc_lost_t (gateway_service clock ttl idf midf q) key ?pid e)
       (\<lambda>_. Ret (Inr (identifiers ?pid (per_payload_digest result) (per_expires_at result))))"
  have rest: "req.triple M H (\<lambda>c w. owns_new (p_proposal_id ?p) c w \<and> frozen H ?p w) ?rest (answered key)"
  proof (rule req.triple_ttry [OF triple_create])
    fix e
    show "req.triple M H (created ?p (Inl e)) (if e \<noteq> Store DuplicateIdempotencyError then Ret (Inl e)
         else svc_lost_t (gateway_service clock ttl idf midf q) key ?pid e) (answered key)"
    proof (cases "e = Store DuplicateIdempotencyError")
      case True
      have "req.triple M H (created ?p (Inl e)) (svc_lost_t (gateway_service clock ttl idf midf q) key ?pid e) (answered key)"
        by (rule req.triple_pre [OF triple_lost]) (simp add: created_def True)
      with True show ?thesis by simp
    qed (simp add: triple_raise)
  next
    fix p
    show "req.triple M H (created ?p (Inr p))
      (Ret (Inr (identifiers ?pid (per_payload_digest result) (per_expires_at result)))) (answered key)"
    proof (rule req.triple_Ret)
      show "answered key (Inr (identifiers ?pid (per_payload_digest result) (per_expires_at result))) c w"
        if "created ?p (Inr p) c w" for c w
        unfolding answered_def using that
        by (intro allI impI exI [of _ ?p]) (simp add: created_def proposal_identifiers_def)
    qed (rule answered_stable)
  qed
  have "req.triple M H (owns_new ?pid) (tbind (atomic (kv_put payloads_db ?pid can)) (\<lambda>_. ?rest)) (answered key)"
    if "h = per_payload_digest result"
  proof (rule req.triple_access [where M = "\<lambda>r c w. owns_new (p_proposal_id ?p) c w \<and> (r = Inr () \<longrightarrow> frozen H ?p w)"])
    fix c w r t
    assume a: "req_ok H M c w" "owns_new ?pid c w" "kv_put payloads_db ?pid can w = (r, t)"
    from payload_put_access [OF a] h that
    show "\<exists>c'. req_ok H M c' t \<and> req_guar M c w c' t \<and> owns_new (p_proposal_id ?p) c' t \<and> (r = Inr () \<longrightarrow> frozen H ?p t)"
      by (intro exI [of _ c]) (simp add: frozen_def)
  next
    fix u :: unit
    show "req.triple M H (\<lambda>c w. owns_new (p_proposal_id ?p) c w \<and> (Inr u = Inr () \<longrightarrow> frozen H ?p w)) ?rest (answered key)"
      using rest by simp
  next
    show "req.steady M H (\<lambda>c w. owns_new (p_proposal_id ?p) c w \<and> (r = Inr () \<longrightarrow> frozen H ?p w))" for r
      by (rule req_stableI) (metis owns_new_stable ready_stable)
  qed (auto intro!: req_stableI answered_stable dest: owns_new_stable)
  then show "req.triple M H (owns_new ?pid) (if h \<noteq> per_payload_digest result then Ret (Inl (Canon PayloadSchemaError))
     else tbind (atomic (kv_put payloads_db ?pid can)) (\<lambda>_. ?rest)) (answered key)"
    by (cases "h = per_payload_digest result") (simp_all, rule triple_raise)
qed (rule triple_raise)

lemma triple_new:
  assumes src: "id_source M clock idf midf"
  shows "req.triple M H (\<lambda>c w. c = None) (svc_new_t H (gateway_service clock ttl idf midf q) params key) (answered key)"
  unfolding svc_new_t_def gateway_service_simps
proof (rule req.triple_access [where M = "\<lambda>r c w. c = None"])
  fix c w r t
  assume "req_ok H M c w" "c = None" "env_pm clock w = (r, t)"
  with clock_access [OF src this(1,3)] show "\<exists>c'. req_ok H M c' t \<and> req_guar M c w c' t \<and> c' = None" by blast
next
  fix now :: int
  let ?last = "\<lambda>m. tbind (atomic (prepare_email H (PDict params) now ttl (env_pm idf) m)) (\<lambda>result.
       tbind (Ret (build_canonical_payload (PDict params) m)) (\<lambda>canonical.
       svc_freeze_t H (gateway_service clock ttl idf midf q) key now result canonical))"
  have last: "req.triple M H (\<lambda>c w. c = None) (?last m) (answered key)" for m
  proof (rule req.triple_access [where M = "\<lambda>r c w. \<forall>x. r = Inr x \<longrightarrow> owns_new (per_proposal_id x) c w"])
    fix c w r t
    assume "req_ok H M c w" "c = None" "prepare_email H (PDict params) now ttl (env_pm idf) m w = (r, t)"
    with mint_access [OF src, of H w H "PDict params" now ttl m r t]
    show "\<exists>c'. req_ok H M c' t \<and> req_guar M c w c' t \<and> (\<forall>x. r = Inr x \<longrightarrow> owns_new (per_proposal_id x) c' t)"
      by simp
  next
    fix result
    have "req.triple M H (owns_new (per_proposal_id result)) (tbind (Ret (build_canonical_payload (PDict params) m)) (\<lambda>canonical.
       svc_freeze_t H (gateway_service clock ttl idf midf q) key now result canonical)) (answered key)"
      by (rule req.triple_pure) (rule triple_freeze triple_raise)+
    then show "req.triple M H (\<lambda>c w. \<forall>x. Inr result = Inr x \<longrightarrow> owns_new (per_proposal_id x) c w)
      (tbind (Ret (build_canonical_payload (PDict params) m)) (\<lambda>canonical.
       svc_freeze_t H (gateway_service clock ttl idf midf q) key now result canonical)) (answered key)"
      by simp
  qed (auto intro!: req_stableI answered_stable dest: owns_new_stable)
  have mid: "req.triple M H (\<lambda>c w. c = None)
     (case map_option env_pm midf of None \<Rightarrow> Ret (Inr PNone) | Some f \<Rightarrow> atomic f) (\<lambda>r c w. c = None)"
  proof (cases midf)
    case None
    then show ?thesis by (auto intro!: req.triple_Ret req_stableI)
  next
    case (Some f)
    have "req.triple M H (\<lambda>c w. c = None) (atomic (env_pm f)) (\<lambda>r c w. c = None)"
    proof (rule req.triple_atomic)
      fix c w r t
      assume "req_ok H M c w" "c = None" "env_pm f w = (r, t)"
      with message_id_access [OF src [unfolded Some] this(1,3)]
      show "\<exists>c'. req_ok H M c' t \<and> req_guar M c w c' t \<and> c' = None" by blast
    qed (auto intro!: req_stableI)
    with Some show ?thesis by simp
  qed
  show "req.triple M H (\<lambda>c w. c = None)
    (tbind (case map_option env_pm midf of None \<Rightarrow> Ret (Inr PNone) | Some f \<Rightarrow> atomic f) (\<lambda>m.
      if q \<and> \<not> truthy m then Ret (Inl (Canon MessageIdNotConfiguredError)) else ?last m)) (answered key)"
    by (rule req.triple_tbind [OF mid]) (simp_all add: triple_raise last)
qed (auto intro!: req_stableI answered_stable)

lemma triple_propose:
  assumes "id_source M clock idf midf"
  shows "req.triple M H (\<lambda>c w. c = None) (propose_t H (gateway_service clock ttl idf midf q) params)
    (\<lambda>r c w. \<forall>key. idempotency_key_of params = Inr key \<longrightarrow> answered key r c w)"
proof (cases "idempotency_key_of params")
  case (Inl e)
  then show ?thesis
    by (auto simp: propose_t_def tbind_def intro!: req.triple_Ret req_stableI)
next
  case (Inr key)
  let ?S = "gateway_service clock ttl idf midf q"
  have "req.triple M H (\<lambda>c w. c = None) (case key of None \<Rightarrow> svc_new_t H ?S params None
      | Some k \<Rightarrow> tbind (ps_find_by_idempotency_t proposals_db k) (\<lambda>existing. case existing of
            Some p \<Rightarrow> Ret (Inr (proposal_identifiers p))
          | None \<Rightarrow> svc_new_t H ?S params (Some k))) (answered key)"
  proof (cases key)
    case None
    with triple_new [OF assms] show ?thesis by simp
  next
    case (Some k)
    have "req.triple M H (found (\<lambda>c. c = None) k (Inr existing)) (case existing of
            Some p \<Rightarrow> Ret (Inr (proposal_identifiers p))
          | None \<Rightarrow> svc_new_t H ?S params (Some k)) (answered (Some k))" for existing
    proof (cases existing)
      case None
      have "req.triple M H (found (\<lambda>c. c = None) k (Inr existing)) (svc_new_t H ?S params (Some k)) (answered (Some k))"
        by (rule req.triple_pre [OF triple_new [OF assms]]) (simp add: found_def)
      with None show ?thesis by simp
    next
      case (Some p)
      with triple_found [of M H "\<lambda>c. c = None" k existing] show ?thesis by simp
    qed
    then have "req.triple M H (\<lambda>c w. c = None) (tbind (ps_find_by_idempotency_t proposals_db k) (\<lambda>existing. case existing of
            Some p \<Rightarrow> Ret (Inr (proposal_identifiers p))
          | None \<Rightarrow> svc_new_t H ?S params (Some k))) (answered (Some k))"
      by (rule req.triple_tbind [OF triple_find triple_raise])
    with Some show ?thesis by simp
  qed
  moreover have "req.triple M H (\<lambda>c w. c = None) (Ret (Inl (Canon MessageIdNotConfiguredError))) (answered key)"
    by (rule triple_raise)
  ultimately have "req.triple M H (\<lambda>c w. c = None) (propose_t H ?S params) (answered key)"
    unfolding propose_t_def gateway_service_simps Inr tbind_Ret
    by (intro req.triple_if)
  with Inr show ?thesis by simp
qed

end
