(* ===== verification/Aead.thy ===== *)
theory Aead
  imports Jcs
begin

text \<open>
  \<open>keystore/aead.py\<close> and \<open>keystore/providers.py\<close>: sealed records and where their key comes from.  AES-GCM and
  the operating system's keychain and random source are not part of the repository: the cipher is the record of functions
  \<open>aes_gcm\<close>, the others are methods over a state \<open>'k\<close>.
\<close>

subsection \<open>Base64\<close>

definition b64_char :: "nat \<Rightarrow> nat" where
  "b64_char n = (if n < 26 then 65 + n else if n < 52 then 71 + n else if n < 62 then n - 4 else if n = 62 then 43 else 47)"

definition b64_value :: "nat \<Rightarrow> nat option" where
  "b64_value c = (if 65 \<le> c \<and> c \<le> 90 then Some (c - 65) else if 97 \<le> c \<and> c \<le> 122 then Some (c - 71)
     else if 48 \<le> c \<and> c \<le> 57 then Some (c + 4) else if c = 43 then Some 62 else if c = 47 then Some 63 else None)"

text \<open>\<open>base64.b64encode(b).decode("ascii")\<close>.\<close>

fun b64encode :: "bytes \<Rightarrow> pystr" where
  "b64encode [] = []"
| "b64encode [a] = [b64_char (a div 4), b64_char (a mod 4 * 16), 61, 61]"
| "b64encode [a, b] = [b64_char (a div 4), b64_char (a mod 4 * 16 + b div 16), b64_char (b mod 16 * 4), 61]"
| "b64encode (a # b # c # r) = [b64_char (a div 4), b64_char (a mod 4 * 16 + b div 16),
     b64_char (b mod 16 * 4 + c div 64), b64_char (c mod 64)] @ b64encode r"

text \<open>
  \<open>base64.b64decode(s, validate=True)\<close>, \<open>None\<close> where it raises (a subclass of \<open>ValueError\<close>): groups of four
  characters of the alphabet, the last one padded; bits beyond the last byte are dropped.  (Interpreters before 3.11
  also let text after complete padding pass.)
\<close>

fun b64decode :: "pystr \<Rightarrow> bytes option" where
  "b64decode [] = Some []"
| "b64decode (c # d # e # f # r) =
     (case (b64_value c, b64_value d) of
        (Some u, Some v) \<Rightarrow>
          (if e = 61 \<and> f = 61 \<and> r = [] then Some [u * 4 + v div 16]
           else case b64_value e of None \<Rightarrow> None
           | Some w \<Rightarrow>
              (if f = 61 \<and> r = [] then Some [u * 4 + v div 16, v mod 16 * 16 + w div 4]
               else case b64_value f of None \<Rightarrow> None
               | Some x \<Rightarrow> map_option (\<lambda>q. [u * 4 + v div 16, v mod 16 * 16 + w div 4, w mod 4 * 64 + x] @ q) (b64decode r)))
      | _ \<Rightarrow> None)"
| "b64decode _ = None"

definition is_bytes :: "bytes \<Rightarrow> bool" where
  "is_bytes b \<longleftrightarrow> (\<forall>x \<in> set b. x < 256)"

lemma is_bytes_simps [simp]: "is_bytes []" "is_bytes (x # b) \<longleftrightarrow> x < 256 \<and> is_bytes b"
  "is_bytes (a @ b) \<longleftrightarrow> is_bytes a \<and> is_bytes b"
  by (auto simp: is_bytes_def)

lemma b64_value_char: "n < 64 \<Longrightarrow> b64_value (b64_char n) = Some n"
  by (auto simp: b64_value_def b64_char_def)

lemma b64_char_not_pad: "n < 64 \<Longrightarrow> b64_char n \<noteq> 61"
  by (auto simp: b64_char_def)

lemma b64_sextets:
  fixes a b c :: nat
  assumes "a < 256" "b < 256" "c < 256"
  shows "a div 4 < 64" "a mod 4 * 16 + b div 16 < 64" "b mod 16 * 4 + c div 64 < 64" "c mod 64 < 64"
    "a mod 4 * 16 < 64" "b mod 16 * 4 < 64"
    "a div 4 * 4 + (a mod 4 * 16 + b div 16) div 16 = a"
    "(a mod 4 * 16 + b div 16) mod 16 * 16 + (b mod 16 * 4 + c div 64) div 4 = b"
    "(b mod 16 * 4 + c div 64) mod 4 * 64 + c mod 64 = c"
    "a div 4 * 4 + a mod 4 * 16 div 16 = a" "(a mod 4 * 16 + b div 16) mod 16 * 16 + b mod 16 * 4 div 4 = b"
proof -
  have "b div 16 < 16" "c div 64 < 4" "a mod 4 < 4" "b mod 16 < 16"
    using assms by (simp_all add: less_mult_imp_div_less)
  then show "a div 4 < 64" "a mod 4 * 16 + b div 16 < 64" "b mod 16 * 4 + c div 64 < 64" "c mod 64 < 64"
    "a mod 4 * 16 < 64" "b mod 16 * 4 < 64"
    "a div 4 * 4 + (a mod 4 * 16 + b div 16) div 16 = a"
    "(a mod 4 * 16 + b div 16) mod 16 * 16 + (b mod 16 * 4 + c div 64) div 4 = b"
    "(b mod 16 * 4 + c div 64) mod 4 * 64 + c mod 64 = c"
    "a div 4 * 4 + a mod 4 * 16 div 16 = a" "(a mod 4 * 16 + b div 16) mod 16 * 16 + b mod 16 * 4 div 4 = b"
    using assms by (simp_all add: less_mult_imp_div_less)
qed

lemma b64decode_encode: "is_bytes b \<Longrightarrow> b64decode (b64encode b) = Some b"
proof (induction b rule: b64encode.induct)
  case (2 a)
  with b64_sextets [of a 0 0] show ?case by (simp add: b64_value_char)
next
  case (3 a b)
  with b64_sextets [of a b 0] have "b div 16 < 16" by (simp add: less_mult_imp_div_less)
  with 3 b64_sextets [of a b 0] show ?case by (simp add: b64_value_char b64_char_not_pad)
next
  case (4 a b c r)
  with b64_sextets [of a b c] have "b div 16 < 16" "c div 64 < 4" by (simp_all add: less_mult_imp_div_less)
  with 4 b64_sextets [of a b c] show ?case by (simp add: b64_value_char b64_char_not_pad)
qed simp

subsection \<open>Sealed records\<close>

definition dek_len :: nat where
  "dek_len = 32"

definition nonce_len :: nat where
  "nonce_len = 12"

text \<open>\<open>_aad\<close>, of the values a caller or a stored record gives.\<close>

definition aad_prefix :: pystr where
  "aad_prefix = lit ''gmail-gateway/keystore/v''"

definition aad :: "pyval \<Rightarrow> pyval \<Rightarrow> bytes res" where
  "aad record_type version = (case record_type of
     PStr rt \<Rightarrow>
       (if rt = [] then Inl (Key SealedRecordError)
        else case version of
          PInt v \<Rightarrow>
            (if v < 1 then Inl (Key SealedRecordError)
             else encode_utf8 (aad_prefix @ dec_int v @ lit ''/'' @ rt))
        | _ \<Rightarrow> Inl (Key SealedRecordError))
   | _ \<Rightarrow> Inl (Key SealedRecordError))"

record sealed_record =
  sr_version :: int
  sr_record_type :: pystr
  sr_nonce :: bytes
  sr_ciphertext :: bytes

definition sealed_to_dict :: "sealed_record \<Rightarrow> dict" where
  "sealed_to_dict r =
     [(lit ''version'', PInt (sr_version r)), (lit ''record_type'', PStr (sr_record_type r)),
      (lit ''nonce'', PStr (b64encode (sr_nonce r))), (lit ''ciphertext'', PStr (b64encode (sr_ciphertext r)))]"

text \<open>\<open>b64decode\<close> takes a text or bytes; anything else is a \<open>TypeError\<close>.\<close>

definition b64_field :: "dict \<Rightarrow> pystr \<Rightarrow> bytes res" where
  "b64_field d k = rcatch
     (rbind (dindex d k) (\<lambda>v. case v of
        PStr s \<Rightarrow> (case b64decode s of None \<Rightarrow> Inl (Py ValueError) | Some b \<Rightarrow> Inr b)
      | PBytes s \<Rightarrow> (case b64decode s of None \<Rightarrow> Inl (Py ValueError) | Some b \<Rightarrow> Inr b)
      | _ \<Rightarrow> Inl (Py TypeError)))
     (\<lambda>_. Inl (Key SealedRecordError))"

definition sealed_from_dict :: "pyval \<Rightarrow> sealed_record res" where
  "sealed_from_dict x = (case x of
     PDict d \<Rightarrow>
       rbind (b64_field d (lit ''nonce'')) (\<lambda>nonce.
       rbind (b64_field d (lit ''ciphertext'')) (\<lambda>ciphertext.
       rbind (rguard (lit ''version'' \<in> dkeys d \<and> lit ''record_type'' \<in> dkeys d) (Key SealedRecordError)) (\<lambda>_.
       rbind (rguard (length nonce = nonce_len) (Key SealedRecordError)) (\<lambda>_.
       rbind (aad (dget d (lit ''record_type'')) (dget d (lit ''version''))) (\<lambda>_.
       case (dget d (lit ''record_type''), dget d (lit ''version'')) of
         (PStr rt, PInt v) \<Rightarrow>
           Inr \<lparr>sr_version = v, sr_record_type = rt, sr_nonce = nonce, sr_ciphertext = ciphertext\<rparr>
       | _ \<Rightarrow> Inl (Key SealedRecordError))))))
   | _ \<Rightarrow> Inl (Key SealedRecordError))"

subsection \<open>The cipher\<close>

text \<open>\<open>AESGCM(key).encrypt(nonce, data, aad)\<close>; \<open>decrypt\<close> is \<open>None\<close> where it raises \<open>InvalidTag\<close>.\<close>

record aes_gcm =
  gcm_encrypt :: "bytes \<Rightarrow> bytes \<Rightarrow> bytes \<Rightarrow> bytes \<Rightarrow> bytes"
  gcm_decrypt :: "bytes \<Rightarrow> bytes \<Rightarrow> bytes \<Rightarrow> bytes \<Rightarrow> bytes option"

text \<open>An \<open>AEADCipher\<close>, with the key provider's \<open>get_dek\<close> and the default nonce factory.\<close>

record 'k cipher =
  ci_gcm :: aes_gcm
  ci_get_dek :: "('k, bytes) pm"
  ci_nonce :: "('k, bytes) pm"

definition require_dek :: "'k cipher \<Rightarrow> ('k, bytes) pm" where
  "require_dek A = pbind (ci_get_dek A) (\<lambda>dek.
     if length dek \<noteq> dek_len then praise (Key KeyMaterialError) else preturn dek)"

definition aead_seal :: "'k cipher \<Rightarrow> bytes \<Rightarrow> pystr \<Rightarrow> int \<Rightarrow> ('k, sealed_record) pm" where
  "aead_seal A plaintext record_type version =
     pbind (plift (aad (PStr record_type) (PInt version))) (\<lambda>ad.
     pbind (ci_nonce A) (\<lambda>nonce.
     if length nonce \<noteq> nonce_len then praise (Key SealedRecordError)
     else pbind (require_dek A) (\<lambda>dek.
       preturn \<lparr>sr_version = version, sr_record_type = record_type, sr_nonce = nonce,
         sr_ciphertext = gcm_encrypt (ci_gcm A) dek nonce plaintext ad\<rparr>)))"

definition aead_open :: "'k cipher \<Rightarrow> sealed_record \<Rightarrow> ('k, bytes) pm" where
  "aead_open A sealed =
     pbind (plift (aad (PStr (sr_record_type sealed)) (PInt (sr_version sealed)))) (\<lambda>ad.
     pbind (require_dek A) (\<lambda>dek.
     case gcm_decrypt (ci_gcm A) dek (sr_nonce sealed) (sr_ciphertext sealed) ad of
       None \<Rightarrow> praise (Key DecryptionError)
     | Some plaintext \<Rightarrow> preturn plaintext))"

subsection \<open>Key providers\<close>

text \<open>\<open>InMemoryKeyProvider\<close>.\<close>

definition in_memory_dek :: "bytes option \<Rightarrow> bytes option res" where
  "in_memory_dek dek = (case dek of
     None \<Rightarrow> Inr None | Some d \<Rightarrow> (if length d \<noteq> dek_len then Inl (Key KeyMaterialError) else Inr (Some d)))"

definition in_memory_get_dek :: "bytes option \<Rightarrow> ('k, bytes) pm" where
  "in_memory_get_dek dek = (case dek of None \<Rightarrow> praise (Key KeyUnavailableError) | Some d \<Rightarrow> preturn d)"

text \<open>The backend of \<open>KeyringKeyProvider\<close>, for its service and user, and \<open>os.urandom(32)\<close>.\<close>

record 'k keyring =
  kr_get_password :: "('k, pystr option) pm"
  kr_set_password :: "pystr \<Rightarrow> ('k, unit) pm"

definition keyring_get_dek :: "'k keyring \<Rightarrow> ('k, bytes) pm" where
  "keyring_get_dek K =
     ptry (kr_get_password K)
       (\<lambda>_. praise (Key KeyBackendUnavailableError))
       (\<lambda>stored. case stored of
          None \<Rightarrow> praise (Key KeyUnavailableError)
        | Some text \<Rightarrow> (case b64decode text of
            None \<Rightarrow> praise (Key KeyMaterialError)
          | Some dek \<Rightarrow> if length dek \<noteq> dek_len then praise (Key KeyMaterialError) else preturn dek))"

definition keyring_provision :: "'k keyring \<Rightarrow> ('k, bytes) pm \<Rightarrow> ('k, unit) pm" where
  "keyring_provision K urandom =
     pbind (kr_get_password K) (\<lambda>stored.
     if stored \<noteq> None then praise (Key KeyMaterialError)
     else pbind urandom (\<lambda>dek. kr_set_password K (b64encode dek)))"

subsection \<open>The associated data\<close>

lemma encode_utf8_Inr: "encode_utf8 s = Inr a \<longleftrightarrow> encodable s \<and> a = utf8 s"
  by (auto simp: encode_utf8_def encodable_def)

lemma aad_prefix_encodable: "encodable aad_prefix" "encodable (lit ''/'')"
  by (simp_all add: aad_prefix_def lit_def surrogate_def)

lemma aad_Inr: "aad rt v = Inr a \<longleftrightarrow> (\<exists>r n. rt = PStr r \<and> v = PInt n \<and> r \<noteq> [] \<and> 1 \<le> n \<and> encodable r \<and>
    a = utf8 (aad_prefix @ dec_int n @ lit ''/'' @ r))"
  by (auto simp: aad_def encode_utf8_Inr aad_prefix_encodable encodable_dec_int split: pyval.split_asm if_split_asm)

text \<open>The slash after the version number separates it from the type, whatever the type contains.\<close>

lemma aad_inj: "aad (PStr r) (PInt n) = Inr a \<Longrightarrow> aad (PStr r') (PInt n') = Inr a \<Longrightarrow> r = r' \<and> n = n'"
proof -
  assume "aad (PStr r) (PInt n) = Inr a" "aad (PStr r') (PInt n') = Inr a"
  then have "dec_int n @ 47 # r = dec_int n' @ 47 # r'"
    by (auto simp: aad_Inr lit_def dest: utf8_inj)
  from dec_int_append_inj [OF this] show ?thesis by (simp add: delimited_def is_digit_def)
qed

lemma b64_field_encoded: "map_of d k = Some (PStr (b64encode b)) \<Longrightarrow> is_bytes b \<Longrightarrow> b64_field d k = Inr b"
  by (simp add: b64_field_def dindex_def b64decode_encode)

lemma sealed_from_to:
  assumes "is_bytes (sr_nonce r)" "is_bytes (sr_ciphertext r)" "length (sr_nonce r) = nonce_len"
    "aad (PStr (sr_record_type r)) (PInt (sr_version r)) = Inr a"
  shows "sealed_from_dict (PDict (sealed_to_dict r)) = Inr r"
proof -
  have "b64_field (sealed_to_dict r) (lit ''nonce'') = Inr (sr_nonce r)"
    "b64_field (sealed_to_dict r) (lit ''ciphertext'') = Inr (sr_ciphertext r)"
    using assms(1,2) by (auto intro!: b64_field_encoded simp: sealed_to_dict_def)
  with assms(3,4) show ?thesis
    by (simp add: sealed_from_dict_def rguard_def) (simp add: sealed_to_dict_def dget_def dkeys_def)
qed

subsection \<open>What the cipher promises\<close>

text \<open>
  AES-GCM is deterministic in key, nonce, data and associated data, and \<open>decrypt\<close> returns a plaintext exactly
  when encrypting it again gives the ciphertext, tag included; what it encrypts to is bytes.
\<close>

definition gcm_exact :: "aes_gcm \<Rightarrow> bool" where
  "gcm_exact A \<longleftrightarrow>
     (\<forall>k n c ad p. gcm_decrypt A k n c ad = Some p \<longleftrightarrow> is_bytes p \<and> gcm_encrypt A k n p ad = c)"

definition gcm_bytes :: "aes_gcm \<Rightarrow> bool" where
  "gcm_bytes A \<longleftrightarrow> (\<forall>k n p ad. is_bytes p \<longrightarrow> is_bytes (gcm_encrypt A k n p ad))"

lemma require_dek_Inr: "require_dek A s = (Inr k, t) \<longleftrightarrow> ci_get_dek A s = (Inr k, t) \<and> length k = dek_len"
  by (auto simp: require_dek_def pm_inv split: if_splits)

lemma aead_seal_Inr:
  "aead_seal A p rt v s = (Inr r, t) \<longleftrightarrow>
     (\<exists>ad n u k. aad (PStr rt) (PInt v) = Inr ad \<and> ci_nonce A s = (Inr n, u) \<and> length n = nonce_len \<and>
        ci_get_dek A u = (Inr k, t) \<and> length k = dek_len \<and>
        r = \<lparr>sr_version = v, sr_record_type = rt, sr_nonce = n, sr_ciphertext = gcm_encrypt (ci_gcm A) k n p ad\<rparr>)"
  by (auto simp: aead_seal_def pm_inv require_dek_Inr split: if_splits)

lemma aead_open_Inr:
  "aead_open A r s = (Inr p, t) \<longleftrightarrow>
     (\<exists>ad k. aad (PStr (sr_record_type r)) (PInt (sr_version r)) = Inr ad \<and> ci_get_dek A s = (Inr k, t) \<and>
        length k = dek_len \<and> gcm_decrypt (ci_gcm A) k (sr_nonce r) (sr_ciphertext r) ad = Some p)"
proof -
  have "(case x of None \<Rightarrow> praise e | Some q \<Rightarrow> preturn q) s = (Inr p, t) \<longleftrightarrow> x = Some p \<and> s = t"
    for x :: "bytes option" and e and s :: 'a
    by (cases x) auto
  then show ?thesis by (auto simp: aead_open_def pm_inv require_dek_Inr)
qed

text \<open>The key is the same in the states a lemma is about.\<close>

definition steady_key :: "'k cipher \<Rightarrow> bytes \<Rightarrow> bool" where
  "steady_key A k \<longleftrightarrow> length k = dek_len \<and> (\<forall>s. ci_get_dek A s = (Inr k, s))"

lemma seal_open:
  assumes "gcm_exact (ci_gcm A)" "is_bytes p" "steady_key A k" "aead_seal A p rt v s = (Inr r, t)"
  shows "aead_open A r u = (Inr p, u)"
  using assms by (auto simp: aead_seal_Inr aead_open_Inr steady_key_def gcm_exact_def)

lemma seal_shape:
  assumes "gcm_bytes (ci_gcm A)" "is_bytes p" "\<And>s n t. ci_nonce A s = (Inr n, t) \<Longrightarrow> is_bytes n" "aead_seal A p rt v s = (Inr r, t)"
  shows "sealed_from_dict (PDict (sealed_to_dict r)) = Inr r \<and> sr_record_type r = rt \<and> sr_version r = v"
  using assms by (auto simp: aead_seal_Inr gcm_bytes_def intro!: sealed_from_to)

text \<open>Which failure of the keychain is told apart from which, and a key just provisioned.\<close>

lemma keyring_get_dek_cases:
  "keyring_get_dek K s = (r, t) \<Longrightarrow>
     (\<exists>e. kr_get_password K s = (Inl e, t) \<and> r = Inl (Key KeyBackendUnavailableError)) \<or>
     kr_get_password K s = (Inr None, t) \<and> r = Inl (Key KeyUnavailableError) \<or>
     (\<exists>text. kr_get_password K s = (Inr (Some text), t) \<and> (r = Inl (Key KeyMaterialError) \<or>
        (\<exists>dek. b64decode text = Some dek \<and> length dek = dek_len \<and> r = Inr dek)))"
  by (auto simp: keyring_get_dek_def pm_simps split: prod.split_asm sum.split_asm option.split_asm if_split_asm)

lemma provisioned_key:
  assumes "kr_get_password K s = (Inr None, s1)" "urandom s1 = (Inr dek, s2)" "is_bytes dek" "length dek = dek_len"
    and "kr_set_password K (b64encode dek) s2 = (Inr (), s3)" "kr_get_password K s3 = (Inr (Some (b64encode dek)), s4)"
  shows "keyring_provision K urandom s = (Inr (), s3) \<and> keyring_get_dek K s3 = (Inr dek, s4)"
  using assms by (simp add: keyring_provision_def keyring_get_dek_def pm_simps b64decode_encode)

subsection \<open>A concrete cipher\<close>

text \<open>One byte of the associated data's sum in the place of the tag, and a keychain with one entry.\<close>

definition toy_gcm :: aes_gcm where
  "toy_gcm = \<lparr>gcm_encrypt = \<lambda>k n p ad. p @ [sum_list ad mod 256],
     gcm_decrypt = \<lambda>k n c ad. if c \<noteq> [] \<and> last c = sum_list ad mod 256 \<and> is_bytes (butlast c) then Some (butlast c) else None\<rparr>"

definition toy_cipher :: "unit cipher" where
  "toy_cipher = \<lparr>ci_gcm = toy_gcm, ci_get_dek = preturn (replicate 32 7), ci_nonce = preturn (replicate 12 9)\<rparr>"

lemma toy_gcm_laws: "gcm_exact toy_gcm" "gcm_bytes toy_gcm"
proof -
  have "butlast c @ [x] = c" if "c \<noteq> []" "last c = x" for c :: bytes and x
    using append_butlast_last_id [OF that(1)] that(2) by simp
  then show "gcm_exact toy_gcm" "gcm_bytes toy_gcm"
    by (auto simp: gcm_exact_def gcm_bytes_def toy_gcm_def split: if_splits)
qed

lemma toy_cipher_key: "ci_gcm toy_cipher = toy_gcm" "steady_key toy_cipher (replicate 32 7)"
  "ci_nonce toy_cipher s = (Inr n, t) \<Longrightarrow> is_bytes n"
  by (auto simp: toy_cipher_def steady_key_def dek_len_def is_bytes_def)

lemma toy_seals: "\<exists>r. aead_seal toy_cipher [1, 2, 3] (lit ''oauth_token'') 1 () = (Inr r, ())"
proof -
  have "encodable (lit ''oauth_token'')" by (simp add: lit_def surrogate_def)
  then show ?thesis by (simp add: aead_seal_Inr toy_cipher_def aad_Inr nonce_len_def dek_len_def)
qed

subsection \<open>Properties\<close>

text \<open>
  A sealed record survives storage: what \<open>seal\<close> returns is read back from its dictionary with base64, and
  opened with the same key it gives the plaintext.
\<close>

theorem sealed_record_roundtrip:
  assumes "gcm_exact (ci_gcm A)" "gcm_bytes (ci_gcm A)" "steady_key A k" "is_bytes p"
    and "\<And>s n t. ci_nonce A s = (Inr n, t) \<Longrightarrow> is_bytes n"
    and "aead_seal A p rt v s = (Inr r, t)"
  shows "sealed_from_dict (PDict (sealed_to_dict r)) = Inr r \<and> sr_record_type r = rt \<and> sr_version r = v \<and>
    aead_open A r u = (Inr p, u)"
proof -
  have "sealed_from_dict (PDict (sealed_to_dict r)) = Inr r \<and> sr_record_type r = rt \<and> sr_version r = v"
    by (rule seal_shape [OF assms(2,4) _ assms(6)]) (rule assms(5))
  with seal_open [OF assms(1,4,3,6)] show ?thesis by blast
qed

theorem sealed_record_roundtrip_witness:
  "\<exists>r. aead_seal toy_cipher [1, 2, 3] (lit ''oauth_token'') 1 () = (Inr r, ()) \<and>
     sealed_from_dict (PDict (sealed_to_dict r)) = Inr r \<and> aead_open toy_cipher r () = (Inr [1, 2, 3], ())"
proof -
  obtain r where r: "aead_seal toy_cipher [1, 2, 3] (lit ''oauth_token'') 1 () = (Inr r, ())"
    using toy_seals by blast
  have "is_bytes [1, 2, 3]" by simp
  with sealed_record_roundtrip [OF _ _ toy_cipher_key(2) this toy_cipher_key(3) r] r show ?thesis
    by (simp add: toy_cipher_key toy_gcm_laws)
qed

text \<open>
  A sealed record fails closed and cannot be moved.  Without the key nothing is opened; what is opened encrypts
  to exactly the record's ciphertext under the record's own type and version; and the ciphertext of a record opened
  under a label is the one it was sealed under, with the plaintext it was sealed from, unless two different
  associated data give one ciphertext, a forgery of the cipher.
\<close>

theorem sealed_record_fails_closed:
  assumes "gcm_exact (ci_gcm A)" "is_bytes p"
  shows "(\<forall>e u. ci_get_dek A s = (Inl e, u) \<longrightarrow> (\<exists>err t. aead_open A r s = (Inl err, t))) \<and>
    (\<forall>q t. aead_open A r s = (Inr q, t) \<longrightarrow>
      (\<exists>ad k. aad (PStr (sr_record_type r)) (PInt (sr_version r)) = Inr ad \<and> ci_get_dek A s = (Inr k, t) \<and>
         gcm_encrypt (ci_gcm A) k (sr_nonce r) q ad = sr_ciphertext r)) \<and>
    (\<forall>q t k rt v s0 r0 t0. steady_key A k \<and> aead_seal A p rt v s0 = (Inr r0, t0) \<and> sr_nonce r = sr_nonce r0 \<and>
        sr_ciphertext r = sr_ciphertext r0 \<and> aead_open A r s = (Inr q, t) \<longrightarrow>
      sr_record_type r = rt \<and> sr_version r = v \<and> q = p \<or>
      (\<exists>ad ad'. ad \<noteq> ad' \<and>
         gcm_encrypt (ci_gcm A) k (sr_nonce r) p ad = gcm_encrypt (ci_gcm A) k (sr_nonce r) q ad'))"
proof (intro conjI allI impI)
  fix e u assume "ci_get_dek A s = (Inl e, u)"
  then show "\<exists>err t. aead_open A r s = (Inl err, t)"
    using aead_open_Inr [of A r s] by (metis Inl_Inr_False prod.inject sum.exhaust surj_pair)
next
  fix q t assume "aead_open A r s = (Inr q, t)"
  then show "\<exists>ad k. aad (PStr (sr_record_type r)) (PInt (sr_version r)) = Inr ad \<and> ci_get_dek A s = (Inr k, t) \<and>
      gcm_encrypt (ci_gcm A) k (sr_nonce r) q ad = sr_ciphertext r"
    using assms(1) by (auto simp: aead_open_Inr gcm_exact_def)
next
  fix q t k rt v s0 r0 t0
  assume a: "steady_key A k \<and> aead_seal A p rt v s0 = (Inr r0, t0) \<and> sr_nonce r = sr_nonce r0 \<and>
        sr_ciphertext r = sr_ciphertext r0 \<and> aead_open A r s = (Inr q, t)"
  then obtain ad where ad: "aad (PStr rt) (PInt v) = Inr ad"
    "sr_ciphertext r = gcm_encrypt (ci_gcm A) k (sr_nonce r) p ad"
    by (auto simp: aead_seal_Inr steady_key_def)
  from a assms(1) obtain ad' where ad': "aad (PStr (sr_record_type r)) (PInt (sr_version r)) = Inr ad'"
    "gcm_encrypt (ci_gcm A) k (sr_nonce r) q ad' = sr_ciphertext r" "is_bytes q"
    by (auto simp: aead_open_Inr steady_key_def gcm_exact_def)
  show "sr_record_type r = rt \<and> sr_version r = v \<and> q = p \<or>
      (\<exists>ad ad'. ad \<noteq> ad' \<and>
         gcm_encrypt (ci_gcm A) k (sr_nonce r) p ad = gcm_encrypt (ci_gcm A) k (sr_nonce r) q ad')"
  proof (cases "ad = ad'")
    case True
    with ad ad' assms have "q = p" unfolding gcm_exact_def by (metis option.inject)
    with aad_inj [OF ad'(1)] ad(1) True show ?thesis by auto
  qed (use ad(2) ad'(2) in metis)
qed

theorem sealed_record_fails_closed_witness:
  "\<exists>r q. aead_open toy_cipher r () = (Inr q, ()) \<and>
     (\<exists>ad k. aad (PStr (sr_record_type r)) (PInt (sr_version r)) = Inr ad \<and>
        gcm_encrypt toy_gcm k (sr_nonce r) q ad = sr_ciphertext r)"
proof -
  obtain r where r: "aead_seal toy_cipher [1, 2, 3] (lit ''oauth_token'') 1 () = (Inr r, ())"
    using toy_seals by blast
  have b: "is_bytes [1, 2, 3]" by simp
  have "aead_open toy_cipher r () = (Inr [1, 2, 3], ())"
    by (rule seal_open [OF _ b toy_cipher_key(2) r]) (simp add: toy_cipher_key toy_gcm_laws)
  with sealed_record_fails_closed [of toy_cipher, OF _ b, of "()" r] show ?thesis
    by (simp add: toy_cipher_key toy_gcm_laws) blast
qed

end
