(* ===== verification/Oauth.thy ===== *)
theory Oauth
  imports Aead Capability Proposal_Api
begin

text \<open>
  \<open>oauth/\<close>: the pure core of the authorization-code flow with PKCE on a loopback redirect.  \<open>urllib\<close>'s
  \<open>urlsplit\<close>, SHA-256 and the random source are parameters.
\<close>

subsection \<open>The redirect\<close>

text \<open>The parts of a URL the code reads; \<open>port\<close> is a property that may itself raise \<open>ValueError\<close>.\<close>

record url_parts =
  up_scheme :: pystr
  up_username :: "pystr option"
  up_password :: "pystr option"
  up_hostname :: "pystr option"
  up_port :: "int option res"

type_synonym 'u url_splitter = "pystr \<Rightarrow> 'u url_parts_scheme res"

definition loopback_hosts :: "pystr list" where
  "loopback_hosts = [lit ''127.0.0.1'', lit ''::1'', lit ''localhost'']"

definition given :: "pystr option \<Rightarrow> bool" where
  "given x \<longleftrightarrow> (case x of None \<Rightarrow> False | Some s \<Rightarrow> s \<noteq> [])"

definition validate_loopback_redirect :: "'u url_splitter \<Rightarrow> pystr \<Rightarrow> unit res" where
  "validate_loopback_redirect urlsplit redirect_uri =
     rbind (urlsplit redirect_uri) (\<lambda>parts.
     rbind (rguard (up_scheme parts = lit ''http'') (OAuth LoopbackRequiredError)) (\<lambda>_.
     rbind (rguard (\<not> (given (up_username parts) \<or> given (up_password parts))) (OAuth LoopbackRequiredError)) (\<lambda>_.
     rbind (rguard (up_hostname parts \<in> Some ` set loopback_hosts) (OAuth LoopbackRequiredError)) (\<lambda>_.
     rbind (up_port parts) (\<lambda>port. rguard (port \<noteq> None) (OAuth LoopbackRequiredError))))))"

subsection \<open>PKCE\<close>

text \<open>\<open>base64.urlsafe_b64encode(raw).rstrip(b"=")\<close>; \<open>secrets.token_urlsafe\<close> does the same to its random bytes.\<close>

definition urlsafe :: "nat \<Rightarrow> nat" where
  "urlsafe c = (if c = 43 then 45 else if c = 47 then 95 else c)"

definition rstrip_pad :: "pystr \<Rightarrow> pystr" where
  "rstrip_pad s = rev (dropWhile (\<lambda>c. c = 61) (rev s))"

definition b64url_nopad :: "bytes \<Rightarrow> pystr" where
  "b64url_nopad raw = rstrip_pad (map urlsafe (b64encode raw))"

definition code_challenge_method :: pystr where
  "code_challenge_method = lit ''S256''"

definition unreserved :: "nat \<Rightarrow> bool" where
  "unreserved c \<longleftrightarrow> 65 \<le> c \<and> c \<le> 90 \<or> 97 \<le> c \<and> c \<le> 122 \<or> is_digit c \<or> c \<in> {45, 46, 95, 126}"

definition verifier_text :: "pystr \<Rightarrow> bool" where
  "verifier_text s \<longleftrightarrow> 43 \<le> length s \<and> length s \<le> 128 \<and> list_all unreserved s"

definition validate_code_verifier :: "pystr \<Rightarrow> unit res" where
  "validate_code_verifier verifier = rguard (match_to_dollar verifier_text verifier) (OAuth PKCEError)"

definition code_challenge :: "(bytes \<Rightarrow> bytes) \<Rightarrow> pystr \<Rightarrow> pystr res" where
  "code_challenge sha verifier = rmap (\<lambda>_. b64url_nopad (sha verifier)) (validate_code_verifier verifier)"

definition generate_code_verifier :: "('s, bytes) pm \<Rightarrow> ('s, pystr) pm" where
  "generate_code_verifier token_bytes = pbind token_bytes (\<lambda>raw. preturn (b64url_nopad raw))"

record pkce_pair =
  pk_verifier :: pystr
  pk_challenge :: pystr
  pk_method :: pystr

definition generate_pkce_pair :: "(bytes \<Rightarrow> bytes) \<Rightarrow> ('s, bytes) pm \<Rightarrow> ('s, pkce_pair) pm" where
  "generate_pkce_pair sha token_bytes =
     pbind (generate_code_verifier token_bytes) (\<lambda>verifier.
     pbind (plift (code_challenge sha verifier)) (\<lambda>challenge.
     preturn \<lparr>pk_verifier = verifier, pk_challenge = challenge, pk_method = code_challenge_method\<rparr>))"

subsection \<open>State and callback\<close>

definition generate_state :: "('s, bytes) pm \<Rightarrow> ('s, pystr) pm" where
  "generate_state token_bytes = pbind token_bytes (\<lambda>raw. preturn (b64url_nopad raw))"

definition state_matches :: "pystr \<Rightarrow> pystr \<Rightarrow> bool res" where
  "state_matches expected received =
     (if expected = [] \<or> received = [] then Inr False else compare_digest expected received)"

definition extract_authorization_code :: "(pystr \<times> pystr) list \<Rightarrow> pystr \<Rightarrow> pystr res" where
  "extract_authorization_code params expected_state =
     rbind (state_matches expected_state (case map_of params (lit ''state'') of None \<Rightarrow> [] | Some s \<Rightarrow> s)) (\<lambda>ok.
     rbind (rguard ok (OAuth StateMismatchError)) (\<lambda>_.
     if given (map_of params (lit ''error'')) then Inl (OAuth (ProviderError (the (map_of params (lit ''error'')))))
     else case map_of params (lit ''code'') of
       None \<Rightarrow> Inl (OAuth MissingCodeError)
     | Some code \<Rightarrow> (if code = [] then Inl (OAuth MissingCodeError) else Inr code)))"

subsection \<open>The authorization request\<close>

definition v1_allowed_scopes :: "pystr list" where
  "v1_allowed_scopes = [lit ''https://www.googleapis.com/auth/gmail.send'']"

definition validate_scopes :: "pystr set \<Rightarrow> unit res" where
  "validate_scopes scopes =
     rbind (rguard (scopes - set v1_allowed_scopes = {}) (OAuth ScopeViolationError)) (\<lambda>_.
     rguard (scopes \<noteq> {}) (OAuth ScopeViolationError))"

record oauth_request =
  or_client_id :: pystr
  or_redirect_uri :: pystr
  or_state :: pystr
  or_code_challenge :: pystr
  or_scopes :: "pystr set"

text \<open>\<open>AuthorizationRequest(...)\<close> with its \<open>__post_init__\<close>.\<close>

definition authorization_request_init ::
  "'u url_splitter \<Rightarrow> pystr \<Rightarrow> pystr \<Rightarrow> pystr \<Rightarrow> pystr \<Rightarrow> pystr set \<Rightarrow> oauth_request res" where
  "authorization_request_init urlsplit client_id redirect_uri state challenge scopes =
     rbind (validate_loopback_redirect urlsplit redirect_uri) (\<lambda>_.
     rbind (validate_scopes scopes) (\<lambda>_.
     Inr \<lparr>or_client_id = client_id, or_redirect_uri = redirect_uri, or_state = state,
       or_code_challenge = challenge, or_scopes = scopes\<rparr>))"

definition authorization_params :: "oauth_request \<Rightarrow> (pystr \<times> pystr) list" where
  "authorization_params rq =
     [(lit ''client_id'', or_client_id rq), (lit ''redirect_uri'', or_redirect_uri rq),
      (lit ''response_type'', lit ''code''), (lit ''scope'', join [32] (sorted_list_of_set (or_scopes rq))),
      (lit ''state'', or_state rq), (lit ''code_challenge'', or_code_challenge rq),
      (lit ''code_challenge_method'', code_challenge_method), (lit ''access_type'', lit ''offline''),
      (lit ''prompt'', lit ''consent'')]"

text \<open>\<open>urllib.parse.urlencode\<close> of a dict of texts: \<open>quote_plus\<close> of every key and value, over their UTF-8 bytes.\<close>

definition hex_upper :: "nat \<Rightarrow> nat" where
  "hex_upper n = (if n < 10 then 48 + n else 55 + n)"

definition quote_byte :: "nat \<Rightarrow> pystr" where
  "quote_byte b =
     (if unreserved b then [b] else if b = 32 then [43] else [37, hex_upper (b div 16), hex_upper (b mod 16)])"

definition quote_plus :: "pystr \<Rightarrow> pystr res" where
  "quote_plus s = rmap (\<lambda>b. concat (map quote_byte b)) (encode_utf8 s)"

definition urlencode :: "(pystr \<times> pystr) list \<Rightarrow> pystr res" where
  "urlencode pairs = rmap (join [38])
     (traverse (\<lambda>(k, v). rbind (quote_plus k) (\<lambda>a. rmap (\<lambda>b. a @ 61 # b) (quote_plus v))) pairs)"

definition build_authorization_url :: "oauth_request \<Rightarrow> pystr \<Rightarrow> pystr res" where
  "build_authorization_url rq auth_endpoint =
     rmap (\<lambda>q. auth_endpoint @ lit ''?'' @ q) (urlencode (authorization_params rq))"

subsection \<open>The token endpoint\<close>

definition default_token_endpoint :: pystr where
  "default_token_endpoint = lit ''https://oauth2.googleapis.com/token''"

definition default_revoke_endpoint :: pystr where
  "default_revoke_endpoint = lit ''https://oauth2.googleapis.com/revoke''"

text \<open>\<open>TokenExchangeRequest\<close>, \<open>RefreshTokenRequest\<close> and \<open>RevokeTokenRequest\<close>: where to post, and the form body.\<close>

record form_request =
  fr_endpoint :: pystr
  fr_body :: "(pystr \<times> pystr) list"

definition with_secret :: "pystr option \<Rightarrow> (pystr \<times> pystr) list \<Rightarrow> (pystr \<times> pystr) list" where
  "with_secret client_secret body = (case client_secret of None \<Rightarrow> body | Some x \<Rightarrow> dset body (lit ''client_secret'') x)"

definition build_token_exchange_request ::
  "'u url_splitter \<Rightarrow> pystr \<Rightarrow> pystr \<Rightarrow> pystr \<Rightarrow> pystr \<Rightarrow> pystr option \<Rightarrow> pystr \<Rightarrow> form_request res" where
  "build_token_exchange_request urlsplit code verifier client_id redirect_uri client_secret token_endpoint =
     rbind (rguard (code \<noteq> []) (Py ValueError)) (\<lambda>_.
     rbind (validate_code_verifier verifier) (\<lambda>_.
     rbind (validate_loopback_redirect urlsplit redirect_uri) (\<lambda>_.
     Inr \<lparr>fr_endpoint = token_endpoint, fr_body = with_secret client_secret
       [(lit ''grant_type'', lit ''authorization_code''), (lit ''code'', code), (lit ''redirect_uri'', redirect_uri),
        (lit ''client_id'', client_id), (lit ''code_verifier'', verifier)]\<rparr>)))"

definition build_refresh_token_request ::
  "pystr \<Rightarrow> pystr \<Rightarrow> pystr option \<Rightarrow> pystr \<Rightarrow> form_request res" where
  "build_refresh_token_request refresh_token client_id client_secret token_endpoint =
     rbind (rguard (refresh_token \<noteq> []) (Py ValueError)) (\<lambda>_.
     rbind (rguard (client_id \<noteq> []) (Py ValueError)) (\<lambda>_.
     Inr \<lparr>fr_endpoint = token_endpoint, fr_body = with_secret client_secret
       [(lit ''grant_type'', lit ''refresh_token''), (lit ''refresh_token'', refresh_token),
        (lit ''client_id'', client_id)]\<rparr>))"

definition build_revoke_token_request :: "pystr \<Rightarrow> pystr \<Rightarrow> form_request res" where
  "build_revoke_token_request token revoke_endpoint =
     rmap (\<lambda>_. \<lparr>fr_endpoint = revoke_endpoint, fr_body = [(lit ''token'', token)]\<rparr>)
       (rguard (token \<noteq> []) (Py ValueError))"

subsection \<open>Base64 without padding\<close>

definition pad_len :: "nat \<Rightarrow> nat" where
  "pad_len n = (if n mod 3 = 0 then 0 else 3 - n mod 3)"

lemma pad_len_3 [simp]: "pad_len (Suc (Suc (Suc n))) = pad_len n"
proof -
  have "Suc (Suc (Suc n)) mod 3 = n mod 3" by presburger
  then show ?thesis by (simp add: pad_len_def)
qed

lemma b64_char_url: "n < 64 \<Longrightarrow> unreserved (urlsafe (b64_char n))"
  by (auto simp: unreserved_def urlsafe_def b64_char_def is_digit_def)

lemma urlsafe_pad [simp]: "urlsafe 61 = 61"
  by (simp add: urlsafe_def)

lemma b64encode_length: "length (b64encode b) = 4 * ((length b + 2) div 3)"
proof (induction b rule: b64encode.induct)
  case (4 a b c r)
  have "(Suc (Suc (Suc (length r))) + 2) div 3 = Suc ((length r + 2) div 3)" by presburger
  with 4 show ?case by simp
qed simp_all

lemma b64encode_split:
  "is_bytes b \<Longrightarrow> \<exists>s. b64encode b = map b64_char s @ replicate (pad_len (length b)) 61 \<and> list_all (\<lambda>n. n < 64) s"
proof (induction b rule: b64encode.induct)
  case 1
  show ?case by (intro exI [of _ "[]"]) (simp add: pad_len_def)
next
  case (2 a)
  then have "a < 256" by simp
  note x = b64_sextets(1,5) [OF this this this]
  show ?case by (intro exI [of _ "[a div 4, a mod 4 * 16]"]) (simp add: x pad_len_def numeral_2_eq_2)
next
  case (3 a b)
  then have "a < 256" "b < 256" by simp_all
  note x = b64_sextets(1,2,6) [OF this this(2)]
  show ?case by (intro exI [of _ "[a div 4, a mod 4 * 16 + b div 16, b mod 16 * 4]"]) (simp add: x pad_len_def numeral_2_eq_2)
next
  case (4 a b c r)
  then have "a < 256" "b < 256" "c < 256" by simp_all
  note x = b64_sextets(1,2,3,4) [OF this]
  from 4 obtain s where "b64encode r = map b64_char s @ replicate (pad_len (length r)) 61" "list_all (\<lambda>n. n < 64) s" by auto
  with x show ?case
    by (intro exI [of _ "[a div 4, a mod 4 * 16 + b div 16, b mod 16 * 4 + c div 64, c mod 64] @ s"]) simp
qed

lemma rstrip_replicate: "list_all unreserved s \<Longrightarrow> rstrip_pad (s @ replicate n 61) = s"
proof -
  assume s: "list_all unreserved s"
  have "\<not> unreserved 61" by (simp add: unreserved_def is_digit_def)
  with s have "dropWhile (\<lambda>c. c = 61) (rev s) = rev s"
    by (cases s rule: rev_cases) auto
  moreover have "dropWhile (\<lambda>c. c = 61) (replicate n 61 @ rev s) = dropWhile (\<lambda>c. c = 61) (rev s)"
    by (induction n) auto
  ultimately show ?thesis by (simp add: rstrip_pad_def)
qed

lemma b64url_nopad_text:
  assumes "is_bytes b"
  shows "map urlsafe (b64encode b) = b64url_nopad b @ replicate (pad_len (length b)) 61"
    "list_all unreserved (b64url_nopad b)" "length (b64url_nopad b) + pad_len (length b) = 4 * ((length b + 2) div 3)"
proof -
  from b64encode_split [OF assms] obtain v where v: "b64encode b = map b64_char v @ replicate (pad_len (length b)) 61"
    "list_all (\<lambda>n. n < 64) v" by blast
  define s where "s = map (\<lambda>n. urlsafe (b64_char n)) v"
  have s: "map urlsafe (b64encode b) = s @ replicate (pad_len (length b)) 61" "list_all unreserved s"
    using v by (auto simp: s_def list_all_iff b64_char_url)
  have "length s + pad_len (length b) = 4 * ((length b + 2) div 3)"
    using arg_cong [OF s(1), of length] b64encode_length [of b] by simp
  note s = s this
  have "b64url_nopad b = s" using s by (simp add: b64url_nopad_def rstrip_replicate)
  with s show "map urlsafe (b64encode b) = b64url_nopad b @ replicate (pad_len (length b)) 61"
    "list_all unreserved (b64url_nopad b)" "length (b64url_nopad b) + pad_len (length b) = 4 * ((length b + 2) div 3)" by auto
qed

lemma urlsafe_char_inj: "n < 64 \<Longrightarrow> m < 64 \<Longrightarrow> urlsafe (b64_char n) = urlsafe (b64_char m) \<Longrightarrow> n = m"
  by (auto simp: urlsafe_def b64_char_def split: if_split_asm)

lemma b64url_nopad_inj:
  assumes "is_bytes a" "is_bytes b" "length a = length b" "b64url_nopad a = b64url_nopad b"
  shows "a = b"
proof -
  from b64encode_split [OF assms(1)] obtain v where v: "b64encode a = map b64_char v @ replicate (pad_len (length a)) 61"
    "list_all (\<lambda>n. n < 64) v" by blast
  from b64encode_split [OF assms(2)] obtain w where w: "b64encode b = map b64_char w @ replicate (pad_len (length a)) 61"
    "list_all (\<lambda>n. n < 64) w" using assms(3) by auto
  have "map (urlsafe \<circ> b64_char) v = map (urlsafe \<circ> b64_char) w"
    using b64url_nopad_text(1) [OF assms(1)] b64url_nopad_text(1) [OF assms(2)] assms(3,4) v(1) w(1) by simp
  moreover have "inj_on (urlsafe \<circ> b64_char) (set v \<union> set w)"
    using v(2) w(2) urlsafe_char_inj by (auto simp: inj_on_def list_all_iff)
  ultimately have "v = w" using inj_on_map_eq_map by blast
  with v(1) w(1) have "b64decode (b64encode a) = b64decode (b64encode b)" by simp
  then show ?thesis using b64decode_encode assms(1,2) by simp
qed

lemma b64url_nopad_32:
  assumes "is_bytes b" "length b = 32"
  shows "length (b64url_nopad b) = 43" "list_all unreserved (b64url_nopad b)"
  using b64url_nopad_text(2,3) [OF assms(1)] assms(2) by (simp_all add: pad_len_def)

lemma code_challenge_Inr: "code_challenge sha v = Inr c \<longleftrightarrow> match_to_dollar verifier_text v \<and> c = b64url_nopad (sha v)"
  by (auto simp: code_challenge_def validate_code_verifier_def pm_inv)

lemma validate_loopback_Inr:
  "validate_loopback_redirect urlsplit u = Inr x \<longleftrightarrow> (\<exists>parts port. urlsplit u = Inr parts \<and> up_scheme parts = lit ''http'' \<and>
     \<not> given (up_username parts) \<and> \<not> given (up_password parts) \<and>
     (\<exists>h \<in> set loopback_hosts. up_hostname parts = Some h) \<and> up_port parts = Inr (Some port))"
  by (auto simp: validate_loopback_redirect_def pm_inv)

lemma validate_scopes_Inr: "validate_scopes scopes = Inr x \<longleftrightarrow> scopes = set v1_allowed_scopes"
  by (auto simp: validate_scopes_def pm_inv v1_allowed_scopes_def)

subsection \<open>Properties\<close>

text \<open>
  PKCE.  From 32 random bytes the generator makes a verifier of 43 unreserved characters, which validates, and its
  challenge, 43 characters too; the challenge commits to the verifier: another text with the same challenge is a collision of SHA-256.
\<close>

theorem pkce_pair_sound:
  assumes "token_bytes s = (Inr raw, t)" "is_bytes raw" "length raw = 32" "\<And>x. is_bytes (sha x) \<and> length (sha x) = 32"
  shows "\<exists>pair. generate_pkce_pair sha token_bytes s = (Inr pair, t) \<and> length (pk_verifier pair) = 43 \<and>
    verifier_text (pk_verifier pair) \<and> validate_code_verifier (pk_verifier pair) = Inr () \<and>
    code_challenge sha (pk_verifier pair) = Inr (pk_challenge pair) \<and>
    length (pk_challenge pair) = 43 \<and> list_all unreserved (pk_challenge pair) \<and>
    (\<forall>v. code_challenge sha v = Inr (pk_challenge pair) \<longrightarrow> sha v = sha (pk_verifier pair))"
proof -
  let ?v = "b64url_nopad raw"
  note v = b64url_nopad_32 [OF assms(2,3)]
  then have t: "verifier_text ?v" by (simp add: verifier_text_def)
  then have m: "match_to_dollar verifier_text ?v" by (simp add: match_to_dollar_def)
  let ?p = "\<lparr>pk_verifier = ?v, pk_challenge = b64url_nopad (sha ?v), pk_method = code_challenge_method\<rparr>"
  have "generate_pkce_pair sha token_bytes s = (Inr ?p, t)"
    using assms(1) m by (simp add: generate_pkce_pair_def generate_code_verifier_def code_challenge_def
        validate_code_verifier_def rguard_def pm_simps)
  moreover have "\<forall>v. code_challenge sha v = Inr (pk_challenge ?p) \<longrightarrow> sha v = sha (pk_verifier ?p)"
  proof (intro allI impI)
    fix v assume "code_challenge sha v = Inr (pk_challenge ?p)"
    then have "b64url_nopad (sha v) = b64url_nopad (sha ?v)" by (simp add: code_challenge_Inr)
    with b64url_nopad_inj [of "sha v" "sha ?v"] assms(4) [of v] assms(4) [of ?v]
    show "sha v = sha (pk_verifier ?p)" by simp
  qed
  moreover have "length (pk_challenge ?p) = 43" "list_all unreserved (pk_challenge ?p)"
    using assms(4) [of ?v] b64url_nopad_32 [of "sha ?v"] by simp_all
  moreover have "length (pk_verifier ?p) = 43" "verifier_text (pk_verifier ?p)"
    "validate_code_verifier (pk_verifier ?p) = Inr ()" "code_challenge sha (pk_verifier ?p) = Inr (pk_challenge ?p)"
    using v t m by (simp_all add: code_challenge_Inr validate_code_verifier_def rguard_def)
  ultimately show ?thesis by blast
qed

theorem pkce_pair_sound_witness:
  "\<exists>pair. generate_pkce_pair (\<lambda>x. replicate 32 (length x mod 256)) (preturn (replicate 32 7)) () = (Inr pair, ()) \<and>
     length (pk_verifier pair) = 43 \<and> length (pk_challenge pair) = 43"
  using pkce_pair_sound [of "preturn (replicate 32 7)" "()" "replicate 32 7" "()" "\<lambda>x. replicate 32 (length x mod 256)"]
  by (auto simp: is_bytes_def)

text \<open>
  What the browser is sent to.  An authorization request that can be constructed asks for exactly the scope of
  sending mail, with a redirect over plain HTTP to a loopback host on a fixed port and without user information; the
  token exchange is built only for such a redirect and a well-formed verifier.
\<close>

theorem authorization_request_confined:
  "(\<forall>rq. authorization_request_init urlsplit client u state challenge scopes = Inr rq \<longrightarrow>
      or_scopes rq = set v1_allowed_scopes \<and> or_redirect_uri rq = u \<and>
      (lit ''scope'', lit ''https://www.googleapis.com/auth/gmail.send'') \<in> set (authorization_params rq) \<and>
      (\<exists>parts port. urlsplit u = Inr parts \<and> up_scheme parts = lit ''http'' \<and> up_port parts = Inr (Some port) \<and>
         \<not> given (up_username parts) \<and> \<not> given (up_password parts) \<and>
         (\<exists>h \<in> set loopback_hosts. up_hostname parts = Some h))) \<and>
    (\<forall>fr. build_token_exchange_request urlsplit code verifier client u secret endpoint = Inr fr \<longrightarrow>
      code \<noteq> [] \<and> match_to_dollar verifier_text verifier \<and> fr_endpoint fr = endpoint \<and>
      validate_loopback_redirect urlsplit u = Inr () \<and> (lit ''code_verifier'', verifier) \<in> set (fr_body fr) \<and>
      (lit ''client_secret'' \<in> dkeys (fr_body fr) \<longleftrightarrow> secret \<noteq> None))"
proof (intro conjI allI impI)
  fix rq assume "authorization_request_init urlsplit client u state challenge scopes = Inr rq"
  then have rq: "validate_loopback_redirect urlsplit u = Inr ()" "validate_scopes scopes = Inr ()"
    "or_scopes rq = scopes" "or_redirect_uri rq = u"
    by (auto simp: authorization_request_init_def pm_inv)
  then show "or_scopes rq = set v1_allowed_scopes" "or_redirect_uri rq = u" by (simp_all add: validate_scopes_Inr)
  then show "(lit ''scope'', lit ''https://www.googleapis.com/auth/gmail.send'') \<in> set (authorization_params rq)"
    by (simp add: authorization_params_def v1_allowed_scopes_def)
  from rq(1) show "\<exists>parts port. urlsplit u = Inr parts \<and> up_scheme parts = lit ''http'' \<and> up_port parts = Inr (Some port) \<and>
         \<not> given (up_username parts) \<and> \<not> given (up_password parts) \<and>
         (\<exists>h \<in> set loopback_hosts. up_hostname parts = Some h)"
    unfolding validate_loopback_Inr by blast
next
  fix fr assume "build_token_exchange_request urlsplit code verifier client u secret endpoint = Inr fr"
  then have "code \<noteq> [] \<and> match_to_dollar verifier_text verifier \<and> fr_endpoint fr = endpoint \<and>
      validate_loopback_redirect urlsplit u = Inr () \<and> (lit ''code_verifier'', verifier) \<in> set (fr_body fr) \<and>
      (lit ''client_secret'' \<in> dkeys (fr_body fr) \<longleftrightarrow> secret \<noteq> None)"
    by (cases secret) (auto simp: build_token_exchange_request_def validate_code_verifier_def with_secret_def pm_inv)
  then show "code \<noteq> []" "match_to_dollar verifier_text verifier" "fr_endpoint fr = endpoint"
    "validate_loopback_redirect urlsplit u = Inr ()" "(lit ''code_verifier'', verifier) \<in> set (fr_body fr)"
    "lit ''client_secret'' \<in> dkeys (fr_body fr) \<longleftrightarrow> secret \<noteq> None" by blast+
qed

theorem authorization_request_confined_witness:
  "\<exists>rq. authorization_request_init (\<lambda>_. Inr \<lparr>up_scheme = lit ''http'', up_username = None, up_password = None,
      up_hostname = Some (lit ''localhost''), up_port = Inr (Some 8080)\<rparr>) (lit ''c'') (lit ''http://localhost:8080/cb'')
      (lit ''s'') (lit ''x'') (set v1_allowed_scopes) = Inr rq \<and>
     (lit ''scope'', lit ''https://www.googleapis.com/auth/gmail.send'') \<in> set (authorization_params rq)"
proof -
  let ?u = "\<lambda>_. Inr \<lparr>up_scheme = lit ''http'', up_username = None, up_password = None,
      up_hostname = Some (lit ''localhost''), up_port = Inr (Some 8080)\<rparr>"
  have "validate_loopback_redirect ?u (lit ''http://localhost:8080/cb'') = Inr ()"
    by (simp add: validate_loopback_Inr given_def loopback_hosts_def)
  moreover have "validate_scopes (set v1_allowed_scopes) = Inr ()" by (simp add: validate_scopes_Inr)
  ultimately obtain rq where "authorization_request_init ?u (lit ''c'') (lit ''http://localhost:8080/cb'')
      (lit ''s'') (lit ''x'') (set v1_allowed_scopes) = Inr rq"
    by (simp add: authorization_request_init_def)
  with authorization_request_confined show ?thesis by blast
qed

text \<open>
  C35. The callback.  A code comes back exactly from a callback whose state is the issued one, with no provider error;
  a callback with any other state is refused the same way whatever else it carries.  But the refusal is not always the
  documented one: a state with a character outside ASCII makes \<open>compare_digest\<close> raise a \<open>TypeError\<close>, which no
  handler of OAuth errors catches.
\<close>

theorem callback_exact:
  assumes "expected \<noteq> []" "ascii expected"
  shows "(\<forall>code. extract_authorization_code params expected = Inr code \<longleftrightarrow>
      map_of params (lit ''state'') = Some expected \<and> \<not> given (map_of params (lit ''error'')) \<and>
      map_of params (lit ''code'') = Some code \<and> code \<noteq> []) \<and>
    (\<forall>params'. map_of params (lit ''state'') \<noteq> Some expected \<and>
        map_of params' (lit ''state'') = map_of params (lit ''state'') \<longrightarrow>
      extract_authorization_code params' expected = extract_authorization_code params expected \<and>
      (\<exists>e. extract_authorization_code params expected = Inl e \<and> e \<in> {OAuth StateMismatchError, Py TypeError})) \<and>
    (\<forall>received. map_of params (lit ''state'') = Some received \<and> \<not> ascii received \<longrightarrow>
      extract_authorization_code params expected = Inl (Py TypeError) \<and> \<not> is_oauth_error (Py TypeError))"
proof (intro conjI allI impI)
  fix code
  show "extract_authorization_code params expected = Inr code \<longleftrightarrow>
      map_of params (lit ''state'') = Some expected \<and> \<not> given (map_of params (lit ''error'')) \<and>
      map_of params (lit ''code'') = Some code \<and> code \<noteq> []"
    using assms by (auto simp: extract_authorization_code_def state_matches_def compare_digest_def pm_inv
        split: option.splits if_split_asm)
next
  fix params' assume p: "map_of params (lit ''state'') \<noteq> Some expected \<and> map_of params' (lit ''state'') = map_of params (lit ''state'')"
  then have "extract_authorization_code params' expected = extract_authorization_code params expected \<and>
      extract_authorization_code params expected \<in> {Inl (OAuth StateMismatchError), Inl (Py TypeError)}"
    using assms by (cases "map_of params (lit ''state'')")
      (auto simp: extract_authorization_code_def state_matches_def compare_digest_def rguard_def)
  then show "extract_authorization_code params' expected = extract_authorization_code params expected"
    "\<exists>e. extract_authorization_code params expected = Inl e \<and> e \<in> {OAuth StateMismatchError, Py TypeError}" by auto
next
  fix received assume "map_of params (lit ''state'') = Some received \<and> \<not> ascii received"
  then show "extract_authorization_code params expected = Inl (Py TypeError)"
    using assms by (auto simp: extract_authorization_code_def state_matches_def compare_digest_def ascii_def)
qed (simp add: is_oauth_error_def)

theorem callback_exact_witness:
  "extract_authorization_code [(lit ''state'', lit ''s''), (lit ''code'', lit ''c'')] (lit ''s'') = Inr (lit ''c'') \<and>
   extract_authorization_code [(lit ''state'', [233]), (lit ''code'', lit ''c'')] (lit ''s'') = Inl (Py TypeError)"
proof -
  have e: "lit ''s'' \<noteq> []" "ascii (lit ''s'')" by (simp_all add: ascii_def lit_def)
  have "\<not> ascii [233]" by (simp add: ascii_def)
  with callback_exact [OF e, of "[(lit ''state'', lit ''s''), (lit ''code'', lit ''c'')]"]
    callback_exact [OF e, of "[(lit ''state'', [233]), (lit ''code'', lit ''c'')]"]
  show ?thesis by (simp add: given_def)
qed

end
