(* ===== verification/Text_Codec.thy ===== *)
theory Text_Codec
  imports Jcs
begin

text \<open>
  Facts about texts put together from parts, shared by the codecs: a separator that occurs in no part makes the parts
  readable again, and hexadecimal digests.
\<close>

subsection \<open>Separators\<close>

lemma separated_inj: "a @ c # x = b @ c # y \<Longrightarrow> c \<notin> set a \<Longrightarrow> c \<notin> set b \<Longrightarrow> a = b \<and> x = y"
proof (induction a arbitrary: b)
  case Nil
  then show ?case by (cases b) auto
next
  case (Cons u a)
  then show ?case by (cases b) auto
qed

lemma join_sep_inj:
  assumes "join [c] xs = join [c] ys" "\<forall>x \<in> set xs \<union> set ys. x \<noteq> [] \<and> c \<notin> set x"
  shows "xs = ys"
  using assms
proof (induction xs arbitrary: ys)
  case Nil
  then show ?case by (cases ys; cases "tl ys") auto
next
  case (Cons x xs)
  then obtain y zs where y: "ys = y # zs" by (cases ys; cases xs) auto
  show ?case
  proof (cases xs)
    case Nil
    with Cons.prems y have "zs = []" by (cases zs) auto
    with Nil Cons.prems y show ?thesis by simp
  next
    case (Cons x' xs')
    have zs: "zs \<noteq> []"
    proof
      assume "zs = []"
      with Cons.prems y \<open>xs = x' # xs'\<close> have "x @ c # join [c] xs = y" by simp
      then have "c \<in> set y" by (metis in_set_conv_decomp)
      with Cons.prems y show False by simp
    qed
    then have "x @ c # join [c] xs = y @ c # join [c] zs"
      using Cons.prems y \<open>xs = x' # xs'\<close> by (cases zs) auto
    with Cons.prems y have "x = y" "join [c] xs = join [c] zs"
      using separated_inj [of x c "join [c] xs" y "join [c] zs"] by auto
    with Cons.IH [of zs] Cons.prems y show ?thesis by auto
  qed
qed

lemma terminated_inj:
  assumes "concat (map (\<lambda>l. l @ [c]) xs) = concat (map (\<lambda>l. l @ [c]) ys)" "\<forall>x \<in> set xs \<union> set ys. c \<notin> set x"
  shows "xs = ys"
  using assms
proof (induction xs arbitrary: ys)
  case Nil
  then show ?case by (cases ys) auto
next
  case (Cons x xs)
  then obtain y zs where y: "ys = y # zs" by (cases ys) auto
  from Cons.prems y have "x @ c # concat (map (\<lambda>l. l @ [c]) xs) = y @ c # concat (map (\<lambda>l. l @ [c]) zs)" by simp
  with Cons.prems y have "x = y" "concat (map (\<lambda>l. l @ [c]) xs) = concat (map (\<lambda>l. l @ [c]) zs)"
    using separated_inj [of x c _ y] by auto
  with Cons.IH [of zs] Cons.prems y show ?case by auto
qed

lemma traverse_inj:
  assumes "traverse f xs = Inr zs" "traverse f ys = Inr zs" "\<And>x y z. f x = Inr z \<Longrightarrow> f y = Inr z \<Longrightarrow> x = y"
  shows "xs = ys"
  using assms(1,2)
proof (induction xs arbitrary: ys zs)
  case Nil
  then show ?case by (cases ys) (auto simp: pm_inv)
next
  case (Cons x xs)
  then obtain y ws where "ys = y # ws" by (cases ys) (auto simp: pm_inv)
  with Cons assms(3) show ?case by (auto simp: pm_inv)
qed

lemma utf8_ascii: "c < 128 \<Longrightarrow> c \<in> set (utf8 s) \<longleftrightarrow> c \<in> set s"
  by (induction s) (auto simp: utf8_def utf8_char_def)

subsection \<open>Hexadecimal digests\<close>

text \<open>\<open>hashlib.sha256(raw).hexdigest()\<close> is 64 lower-case hexadecimal digits.\<close>

definition hex_char :: "nat \<Rightarrow> bool" where
  "hex_char c \<longleftrightarrow> 48 \<le> c \<and> c \<le> 57 \<or> 97 \<le> c \<and> c \<le> 102"

definition hex_digest :: "(bytes \<Rightarrow> pystr) \<Rightarrow> bool" where
  "hex_digest sha \<longleftrightarrow> (\<forall>b. length (sha b) = 64 \<and> list_all hex_char (sha b))"

lemma hex_digestD: "hex_digest sha \<Longrightarrow> length (sha b) = 64" "hex_digest sha \<Longrightarrow> list_all hex_char (sha b)"
  by (simp_all add: hex_digest_def)

lemma hex_char_ascii: "hex_char c \<Longrightarrow> c < 128" "\<not> hex_char 10" "\<not> hex_char 13"
  by (auto simp: hex_char_def)

end
