(* ===== verification/Egress.thy ===== *)
theory Egress
  imports Oauth Text_Codec
begin

text \<open>
  \<open>gateway/egress.py\<close>: the HTTP client with the host allow-list, over an injected transport.  The transport is a
  method of the state; \<open>urlsplit\<close> is a parameter.  Also the injectivity of the form encoding, which the posts of
  the token endpoint rely on.
\<close>

subsection \<open>Requests\<close>

record http_request =
  hq_method :: pystr
  hq_url :: pystr
  hq_headers :: "(pystr \<times> pystr) list"
  hq_body :: bytes

record http_response =
  hr_status :: int
  hr_body :: bytes
  hr_host :: pystr

type_synonym 's transport = "http_request \<Rightarrow> ('s, int \<times> bytes) pm"

text \<open>
  \<open>urllib_transport\<close> over \<open>opener.open\<close>, which answers with a status and a body still to be read, raises
  \<open>HTTPError\<close> with the same, or raises something else.  \<open>_NoRedirect\<close> makes a redirect one of the former.
\<close>

datatype 's opened =
    Opened int "('s, bytes) pm"
  | HttpError int "('s, bytes) pm"

definition urllib_transport :: "(http_request \<Rightarrow> ('s, 's opened) pm) \<Rightarrow> 's transport" where
  "urllib_transport opener rq = pbind (opener rq) (\<lambda>resp. case resp of
     Opened st read_body \<Rightarrow> pbind read_body (\<lambda>b. preturn (st, b))
   | HttpError st read_body \<Rightarrow>
       ptry read_body (\<lambda>e. if is_os_error e then preturn (st, []) else praise e) (\<lambda>b. preturn (st, b)))"

subsection \<open>The guarded client\<close>

text \<open>\<open>str.lower\<close> on the hosts of an allow-list, which are ASCII.\<close>

definition lower_ascii :: "pystr \<Rightarrow> pystr" where
  "lower_ascii = map (\<lambda>c. if 65 \<le> c \<and> c \<le> 90 then c + 32 else c)"

record ('u, 's) egress =
  eg_allow :: "pystr set"
  eg_transport :: "'s transport"
  eg_urlsplit :: "'u url_splitter"

definition egress_client :: "'u url_splitter \<Rightarrow> pystr set \<Rightarrow> 's transport \<Rightarrow> ('u, 's) egress" where
  "egress_client urlsplit allow_hosts transport =
     \<lparr>eg_allow = lower_ascii ` allow_hosts, eg_transport = transport, eg_urlsplit = urlsplit\<rparr>"

definition blocked :: "pystr option \<Rightarrow> exn" where
  "blocked host = Gw (EgressBlockedError (case host of None \<Rightarrow> [] | Some h \<Rightarrow> h))"

definition egress_post ::
  "('u, 's) egress \<Rightarrow> pystr \<Rightarrow> (pystr \<times> pystr) list \<Rightarrow> bytes \<Rightarrow> ('s, http_response) pm" where
  "egress_post C url headers body =
     pbind (plift (eg_urlsplit C url)) (\<lambda>parts.
     if up_scheme parts \<noteq> lit ''https'' then praise (blocked (up_hostname parts))
     else case up_hostname parts of
       None \<Rightarrow> praise (blocked None)
     | Some host \<Rightarrow>
         if host \<notin> eg_allow C then praise (blocked (Some host))
         else pbind (eg_transport C \<lparr>hq_method = lit ''POST'', hq_url = url, hq_headers = headers, hq_body = body\<rparr>)
           (\<lambda>(st, b). preturn \<lparr>hr_status = st, hr_body = b, hr_host = host\<rparr>))"

subsection \<open>What a post does\<close>

text \<open>The request as the transport gets it, and whether the client lets it out.\<close>

definition post_request :: "pystr \<Rightarrow> (pystr \<times> pystr) list \<Rightarrow> bytes \<Rightarrow> http_request" where
  "post_request url headers body = \<lparr>hq_method = lit ''POST'', hq_url = url, hq_headers = headers, hq_body = body\<rparr>"

definition admitted :: "('u, 's) egress \<Rightarrow> pystr \<Rightarrow> pystr \<Rightarrow> bool" where
  "admitted C url host \<longleftrightarrow> (\<exists>parts. eg_urlsplit C url = Inr parts \<and> up_scheme parts = lit ''https'' \<and>
     up_hostname parts = Some host \<and> host \<in> eg_allow C)"

lemma egress_post_admitted:
  assumes "admitted C url host"
  shows "egress_post C url headers body s = (case eg_transport C (post_request url headers body) s of
     (Inl e, t) \<Rightarrow> (Inl e, t)
   | (Inr (st, b), t) \<Rightarrow> (Inr \<lparr>hr_status = st, hr_body = b, hr_host = host\<rparr>, t))"
  using assms by (auto simp: admitted_def egress_post_def post_request_def pm_simps split: prod.splits sum.splits)

lemma egress_post_refused:
  assumes "\<And>host. \<not> admitted C url host"
  shows "\<exists>e. egress_post C url headers body s = (Inl e, s) \<and>
    (eg_urlsplit C url = Inl e \<or> (\<exists>parts. eg_urlsplit C url = Inr parts \<and> e = blocked (up_hostname parts)))"
proof (cases "eg_urlsplit C url")
  case (Inr parts)
  then show ?thesis
  proof (cases "up_hostname parts")
    case None
    with Inr show ?thesis by (auto simp: egress_post_def)
  next
    case (Some h)
    with assms [of h] Inr have "up_scheme parts \<noteq> lit ''https'' \<or> h \<notin> eg_allow C" by (auto simp: admitted_def)
    with Some Inr show ?thesis by (auto simp: egress_post_def)
  qed
qed (simp add: egress_post_def)

lemma egress_post_cases:
  assumes "egress_post C url headers body s = (r, t)"
  obtains (refused) e where "r = Inl e" "t = s" "\<And>host. \<not> admitted C url host"
      "eg_urlsplit C url = Inl e \<or> (\<exists>parts. eg_urlsplit C url = Inr parts \<and> e = blocked (up_hostname parts))"
  | (raised) host e where "admitted C url host" "eg_transport C (post_request url headers body) s = (Inl e, t)" "r = Inl e"
  | (answered) host st b where "admitted C url host" "eg_transport C (post_request url headers body) s = (Inr (st, b), t)"
      "r = Inr \<lparr>hr_status = st, hr_body = b, hr_host = host\<rparr>"
proof (cases "\<exists>host. admitted C url host")
  case True
  then obtain host where h: "admitted C url host" by blast
  obtain q u where q: "eg_transport C (post_request url headers body) s = (q, u)" by fastforce
  with assms egress_post_admitted [OF h, of headers body s] raised [OF h] answered [OF h] show thesis
    by (cases q) auto
next
  case False
  with assms egress_post_refused [of C url headers body s] refused show thesis by auto
qed

subsection \<open>Forms\<close>

text \<open>Two forms with the same encoding are the same: nothing in a value can look like another member.\<close>

lemma hex_upper_inj: "hex_upper m = hex_upper n \<Longrightarrow> m = n"
  by (auto simp: hex_upper_def split: if_splits)

lemma unreserved_special: "\<not> unreserved 43" "\<not> unreserved 37" "\<not> unreserved 38" "\<not> unreserved 61" "\<not> unreserved 32"
  by (simp_all add: unreserved_def is_digit_def)

lemma quote_byte_append_inj:
  assumes "quote_byte a @ x = quote_byte b @ y"
  shows "a = b \<and> x = y"
proof -
  have "a = b" if "hex_upper (a div 16) = hex_upper (b div 16)" "hex_upper (a mod 16) = hex_upper (b mod 16)"
    using that hex_upper_inj by (metis div_mult_mod_eq)
  with assms show ?thesis
    by (cases "unreserved a"; cases "unreserved b"; cases "a = 32"; cases "b = 32")
      (auto simp: quote_byte_def unreserved_special)
qed

lemma quote_byte_nonempty [simp]: "quote_byte b \<noteq> []"
  by (simp add: quote_byte_def)

lemma quote_bytes_inj: "concat (map quote_byte x) = concat (map quote_byte y) \<Longrightarrow> x = y"
proof (induction x arbitrary: y)
  case Nil
  then show ?case by (cases y) simp_all
next
  case (Cons a x)
  then obtain b z where y: "y = b # z" by (cases y) simp_all
  from quote_byte_append_inj [of a "concat (map quote_byte x)" b "concat (map quote_byte z)"] Cons.prems y
  have "a = b" "concat (map quote_byte x) = concat (map quote_byte z)" by simp_all
  with Cons.IH y show ?case by simp
qed

lemma quote_byte_free: "38 \<notin> set (quote_byte b)" "61 \<notin> set (quote_byte b)"
  by (auto simp: quote_byte_def hex_upper_def unreserved_special)

lemma quote_plus_Inr: "quote_plus s = Inr q \<Longrightarrow> 38 \<notin> set q \<and> 61 \<notin> set q"
  by (auto simp: quote_plus_def pm_inv quote_byte_free)

lemma quote_plus_inj: "quote_plus s = Inr q \<Longrightarrow> quote_plus t = Inr q \<Longrightarrow> s = t"
  by (auto simp: quote_plus_def pm_inv encode_utf8_Inr dest!: quote_bytes_inj utf8_inj)

lemma urlencode_inj:
  assumes "urlencode p = Inr q" "urlencode r = Inr q"
  shows "p = r"
proof -
  let ?f = "\<lambda>(k, v). rbind (quote_plus k) (\<lambda>a. rmap (\<lambda>b. a @ 61 # b) (quote_plus v))"
  have f: "x \<noteq> [] \<and> 38 \<notin> set x" if "traverse ?f l = Inr xs" "x \<in> set xs" for l xs x
    using traverse_Inr_from [OF that] by (auto simp: pm_inv dest!: quote_plus_Inr)
  from assms obtain xs ys where x: "traverse ?f p = Inr xs" "traverse ?f r = Inr ys" "join [38] xs = join [38] ys"
    by (auto simp: urlencode_def pm_inv)
  with f [OF x(1)] f [OF x(2)] have "xs = ys" by (intro join_sep_inj) auto
  moreover have "u = v" if "?f u = Inr z" "?f v = Inr z" for u v z
  proof -
    obtain k x l y where uv: "u = (k, x)" "v = (l, y)" by (cases u; cases v)
    from that uv obtain a b a' b' where q: "quote_plus k = Inr a" "quote_plus x = Inr b" "quote_plus l = Inr a'"
      "quote_plus y = Inr b'" "a @ 61 # b = a' @ 61 # b'" by (auto simp: pm_inv)
    with separated_inj [OF q(5)] quote_plus_Inr have "a = a'" "b = b'" by blast+
    with q uv show ?thesis using quote_plus_inj by blast
  qed
  ultimately show ?thesis using x(1,2) traverse_inj by blast
qed

end
