(* ===== verification/Token_Store.thy ===== *)
theory Token_Store
  imports Aead World
begin

text \<open>
  \<open>gateway/sealed_token_store.py\<close> behind the seam of \<open>gateway/token_store.py\<close>: the sealed OAuth credentials, the
  commit record, the voided operations and the generation barrier, in one row of the key-value store, so that every
  method is one transaction.  The state is the store with whatever the key provider reads.  \<open>json.dumps\<close> and
  \<open>json.loads\<close> of the credentials are parameters.
\<close>

subsection \<open>Transactions\<close>

record 'k token_env =
  te_kv :: "kv_rows sqlite"
  te_keys :: 'k

definition put_kv :: "kv_rows sqlite \<Rightarrow> 'k token_env \<Rightarrow> 'k token_env" where
  "put_kv r s = s\<lparr>te_kv := r\<rparr>"

definition put_keys :: "'k \<Rightarrow> 'k token_env \<Rightarrow> 'k token_env" where
  "put_keys k s = s\<lparr>te_keys := k\<rparr>"

text \<open>
  \<open>SqliteKV.update\<close> with a closure that also leaves a result in its \<open>holder\<close>: the closure gives the result and the new
  row, or \<open>None\<close> for \<open>ABORT\<close>.
\<close>

definition sqlite_txn :: "pystr \<Rightarrow> (dict option \<Rightarrow> ('h \<times> dict option) res) \<Rightarrow> (kv_rows sqlite, 'h) pm" where
  "sqlite_txn key fn =
     pbind ensure_live (\<lambda>_.
     pbind (sq_select (\<lambda>r. map_of r key)) (\<lambda>current.
     pbind (plift (fn current)) (\<lambda>(h, result). case result of
       None \<Rightarrow> preturn h
     | Some v \<Rightarrow> write_commit (\<lambda>r. (h, dset r key v)))))"

definition state_key :: pystr where
  "state_key = lit ''gmail_oauth_state''"

definition on_row :: "(dict option \<Rightarrow> ('h \<times> dict option) res) \<Rightarrow> ('k token_env, 'h) pm" where
  "on_row fn = lift_pm te_kv put_kv (sqlite_txn state_key fn)"

definition get_row :: "('k token_env, dict option) pm" where
  "get_row = lift_pm te_kv put_kv (sqlite_get state_key)"

text \<open>\<open>dict(current or {})\<close>, and what the closures read from it.  The row holds integers under \<open>barrier\<close> and
  \<open>last_generation\<close> and a list under \<open>invalidated_ops\<close> (\<open>represents\<close> below); with anything else the arithmetic and
  the membership test raise.\<close>

definition row_of :: "dict option \<Rightarrow> dict" where
  "row_of current = (case current of None \<Rightarrow> [] | Some d \<Rightarrow> d)"

definition row_int :: "dict \<Rightarrow> pystr \<Rightarrow> int res" where
  "row_int d k = (case dget_or d k (PInt 0) of PInt n \<Rightarrow> Inr n | _ \<Rightarrow> Inl (Py TypeError))"

definition row_ops :: "dict \<Rightarrow> pyval list res" where
  "row_ops d = (case dget_or d (lit ''invalidated_ops'') (PList []) of PList xs \<Rightarrow> Inr xs | _ \<Rightarrow> Inl (Py TypeError))"

definition dsetdefault :: "dict \<Rightarrow> pystr \<Rightarrow> pyval \<Rightarrow> dict" where
  "dsetdefault d k v = (if k \<in> dkeys d then d else dset d k v)"

subsection \<open>The commit record\<close>

text \<open>\<open>CommitRecord\<close>: a dataclass does not check its fields, and recovery reads them back as they are stored.\<close>

record commit_record =
  cr_operation_id :: pyval
  cr_connection_id :: pyval
  cr_result_id :: pyval
  cr_version :: pyval
  cr_generation :: pyval
  cr_ack_pending :: pyval
  cr_invalidated :: pyval

definition commit_asdict :: "commit_record \<Rightarrow> dict" where
  "commit_asdict c =
     [(lit ''operation_id'', cr_operation_id c), (lit ''connection_id'', cr_connection_id c),
      (lit ''result_id'', cr_result_id c), (lit ''version'', cr_version c), (lit ''generation'', cr_generation c),
      (lit ''ack_pending'', cr_ack_pending c), (lit ''invalidated'', cr_invalidated c)]"

definition fresh_commit :: "pystr \<Rightarrow> pystr \<Rightarrow> pystr \<Rightarrow> int \<Rightarrow> int \<Rightarrow> bool \<Rightarrow> commit_record" where
  "fresh_commit operation connection rslt version generation ack_pending =
     \<lparr>cr_operation_id = PStr operation, cr_connection_id = PStr connection, cr_result_id = PStr rslt,
      cr_version = PInt version, cr_generation = PInt generation, cr_ack_pending = PBool ack_pending,
      cr_invalidated = PBool False\<rparr>"

definition parse_commit :: "pyval \<Rightarrow> commit_record res" where
  "parse_commit v = rcatch
     (case v of
        PDict c \<Rightarrow>
          rbind (dindex c (lit ''operation_id'')) (\<lambda>operation.
          rbind (dindex c (lit ''connection_id'')) (\<lambda>connection.
          rbind (dindex c (lit ''result_id'')) (\<lambda>rslt.
          rbind (dindex c (lit ''version'')) (\<lambda>version.
          rbind (dindex c (lit ''generation'')) (\<lambda>generation.
          rbind (dindex c (lit ''ack_pending'')) (\<lambda>ack_pending.
          Inr \<lparr>cr_operation_id = operation, cr_connection_id = connection, cr_result_id = rslt, cr_version = version,
            cr_generation = generation, cr_ack_pending = ack_pending,
            cr_invalidated = dget_or c (lit ''invalidated'') (PBool False)\<rparr>))))))
      | _ \<Rightarrow> Inl (Py TypeError))
     (\<lambda>_. Inl (Tok TokenStoreError))"

subsection \<open>The methods\<close>

record 'k token_store =
  ts_cipher :: "'k cipher"
  ts_dumps :: "dict \<Rightarrow> bytes res"         \<comment> \<open>\<open>json.dumps(credentials).encode("utf-8")\<close>\<close>
  ts_loads :: "bytes \<Rightarrow> pyval res"        \<comment> \<open>\<open>json.loads(plaintext.decode("utf-8"))\<close>\<close>

definition reserve_txn :: "dict option \<Rightarrow> (int \<times> dict option) res" where
  "reserve_txn current = (let d = row_of current in
     rbind (row_int d (lit ''last_generation'')) (\<lambda>last_generation.
     rbind (row_int d (lit ''barrier'')) (\<lambda>barrier.
     let g = max last_generation barrier + 1
     in Inr (g, Some (dset d (lit ''last_generation'') (PInt g))))))"

definition reserve_generation :: "('k token_env, int) pm" where
  "reserve_generation = on_row reserve_txn"

definition current_barrier :: "('k token_env, pyval) pm" where
  "current_barrier = pbind get_row (\<lambda>row.
     preturn (case row of None \<Rightarrow> PInt 0 | Some d \<Rightarrow> dget_or d (lit ''barrier'') (PInt 0)))"

definition void_txn :: "int \<Rightarrow> dict option \<Rightarrow> (unit \<times> dict option) res" where
  "void_txn generation current = (let d = row_of current in
     rmap (\<lambda>barrier. ((), Some (dset d (lit ''barrier'') (PInt (max barrier generation))))) (row_int d (lit ''barrier'')))"

definition void_generation :: "int \<Rightarrow> ('k token_env, unit) pm" where
  "void_generation generation = on_row (void_txn generation)"

text \<open>\<open>None\<close> in the holder: refused.\<close>

definition save_txn ::
  "sealed_record \<Rightarrow> commit_record \<Rightarrow> pystr \<Rightarrow> int \<Rightarrow> dict option \<Rightarrow> (commit_record option \<times> dict option) res" where
  "save_txn sealed rec operation generation current = (let d = row_of current in
     rbind (row_ops d) (\<lambda>ops.
     if PStr operation \<in> set ops then Inr (None, None)
     else rbind (row_int d (lit ''barrier'')) (\<lambda>barrier.
       if generation \<le> barrier then Inr (None, None)
       else Inr (Some rec, Some (dsetdefault
         (dset (dset d (lit ''sealed'') (PDict (sealed_to_dict sealed))) (lit ''commit'') (PDict (commit_asdict rec)))
         (lit ''invalidated_ops'') (PList []))))))"

definition record_type :: pystr where
  "record_type = lit ''oauth_credentials''"

definition save_commit ::
  "'k token_store \<Rightarrow> pystr \<Rightarrow> pystr \<Rightarrow> pystr \<Rightarrow> int \<Rightarrow> int \<Rightarrow> dict \<Rightarrow> bool \<Rightarrow> ('k token_env, commit_record) pm" where
  "save_commit T operation connection rslt version generation credentials ack_pending =
     pbind (plift (ts_dumps T credentials)) (\<lambda>plaintext.
     pbind (lift_pm te_keys put_keys (aead_seal (ts_cipher T) plaintext record_type 1)) (\<lambda>sealed.
     pbind (on_row (save_txn sealed (fresh_commit operation connection rslt version generation ack_pending)
         operation generation)) (\<lambda>saved. case saved of
       None \<Rightarrow> praise (Tok CommitInvalidated)
     | Some rec \<Rightarrow> preturn rec)))"

text \<open>\<open>_open\<close>: every failure onto one bucket.\<close>

definition open_bucket :: "exn \<Rightarrow> exn" where
  "open_bucket e =
     (if e = Key KeyUnavailableError then Tok CredentialsMissing
      else if e = Key KeyBackendUnavailableError then Tok KeychainUnavailable
      else if e = Key KeyMaterialError \<or> e = Key DecryptionError then Tok CredentialsCorrupt
      else e)"

definition open_credentials :: "'k token_store \<Rightarrow> pyval \<Rightarrow> ('k token_env, pyval) pm" where
  "open_credentials T sealed_dict =
     pbind (plift (rcatch (sealed_from_dict sealed_dict)
       (\<lambda>e. Inl (if e = Key SealedRecordError then Tok CredentialsCorrupt else e)))) (\<lambda>sealed.
     ptry (lift_pm te_keys put_keys (aead_open (ts_cipher T) sealed))
       (\<lambda>e. praise (open_bucket e))
       (\<lambda>plaintext. plift (rcatch (ts_loads T plaintext)
          (\<lambda>e. Inl (if is_value_error e then Tok CredentialsCorrupt else e)))))"

definition load_credentials :: "'k token_store \<Rightarrow> ('k token_env, pyval) pm" where
  "load_credentials T = pbind get_row (\<lambda>row. case row of
     None \<Rightarrow> praise (Tok CredentialsMissing)
   | Some d \<Rightarrow> (if dget d (lit ''sealed'') = PNone then praise (Tok CredentialsMissing)
       else open_credentials T (dget d (lit ''sealed''))))"

definition load_commit :: "('k token_env, commit_record option) pm" where
  "load_commit = pbind get_row (\<lambda>row. case row of
     None \<Rightarrow> preturn None
   | Some d \<Rightarrow> (if dget d (lit ''commit'') = PNone then preturn None
       else plift (rmap Some (parse_commit (dget d (lit ''commit''))))))"

definition ack_txn :: "pystr \<Rightarrow> pystr \<Rightarrow> int \<Rightarrow> dict option \<Rightarrow> (bool \<times> dict option) res" where
  "ack_txn operation rslt version current = (case current of
     None \<Rightarrow> Inr (False, None)
   | Some d \<Rightarrow> (case dget d (lit ''commit'') of
       PNone \<Rightarrow> Inr (False, None)
     | PDict c \<Rightarrow>
         rbind (dindex c (lit ''operation_id'')) (\<lambda>o1. if o1 \<noteq> PStr operation then Inr (False, None) else
         rbind (dindex c (lit ''result_id'')) (\<lambda>r1. if r1 \<noteq> PStr rslt then Inr (False, None) else
         rbind (dindex c (lit ''version'')) (\<lambda>v1. if \<not> py_eq_int v1 version then Inr (False, None) else
         rbind (dindex c (lit ''ack_pending'')) (\<lambda>a1. if \<not> truthy a1 then Inr (True, None) else
         Inr (True, Some (dset d (lit ''commit'') (PDict (dset c (lit ''ack_pending'') (PBool False)))))))))
     | _ \<Rightarrow> Inl (Py TypeError)))"

definition mark_ack_confirmed :: "pystr \<Rightarrow> pystr \<Rightarrow> int \<Rightarrow> ('k token_env, bool) pm" where
  "mark_ack_confirmed operation rslt version = on_row (ack_txn operation rslt version)"

definition invalidate_txn :: "pystr \<Rightarrow> dict option \<Rightarrow> (bool \<times> dict option) res" where
  "invalidate_txn operation current = (let d = row_of current in
     rbind (row_ops d) (\<lambda>ops.
     let d1 = dset d (lit ''invalidated_ops'')
       (PList (if PStr operation \<in> set ops then ops else ops @ [PStr operation]))
     in case dget d1 (lit ''commit'') of
          PNone \<Rightarrow> Inr (False, Some d1)
        | PDict c \<Rightarrow> rmap (\<lambda>o1.
            if o1 = PStr operation
            then (True, Some (dset d1 (lit ''commit'') (PDict (dset c (lit ''invalidated'') (PBool True)))))
            else (False, Some d1)) (dindex c (lit ''operation_id''))
        | _ \<Rightarrow> Inl (Py TypeError)))"

definition invalidate_commit :: "pystr \<Rightarrow> ('k token_env, bool) pm" where
  "invalidate_commit operation = on_row (invalidate_txn operation)"

definition clear_txn :: "dict option \<Rightarrow> (bool \<times> dict option) res" where
  "clear_txn current = Inr (case current of
     None \<Rightarrow> (False, None)
   | Some d \<Rightarrow> (if dget d (lit ''sealed'') = PNone then (False, None)
       else (True, Some (dset d (lit ''sealed'') PNone))))"

definition clear_credentials :: "('k token_env, bool) pm" where
  "clear_credentials = on_row clear_txn"

subsection \<open>The abstract store\<close>

text \<open>What the seam promises, without rows and JSON: the voided operations, the barrier, the last generation handed out,
  the commit, and whether credentials are there.\<close>

record commit =
  cm_operation :: pystr
  cm_connection :: pystr
  cm_result :: pystr
  cm_version :: int
  cm_generation :: int
  cm_ack_pending :: bool
  cm_invalidated :: bool

record connection =
  cn_voided :: "pystr set"
  cn_barrier :: int
  cn_last :: int
  cn_commit :: "commit option"
  cn_present :: bool

definition no_connection :: connection where
  "no_connection = \<lparr>cn_voided = {}, cn_barrier = 0, cn_last = 0, cn_commit = None, cn_present = False\<rparr>"

datatype token_op =
    TReserve
  | TVoid int
  | TSave pystr pystr pystr int int dict bool
  | TAck pystr pystr int
  | TInvalidate pystr
  | TClear

datatype token_result = Generation int | Done | Saved commit_record | Refused | Flag bool

definition commit_of :: "commit \<Rightarrow> commit_record" where
  "commit_of m = \<lparr>cr_operation_id = PStr (cm_operation m), cr_connection_id = PStr (cm_connection m),
     cr_result_id = PStr (cm_result m), cr_version = PInt (cm_version m), cr_generation = PInt (cm_generation m),
     cr_ack_pending = PBool (cm_ack_pending m), cr_invalidated = PBool (cm_invalidated m)\<rparr>"

definition ack_matches :: "pystr \<Rightarrow> pystr \<Rightarrow> int \<Rightarrow> commit \<Rightarrow> bool" where
  "ack_matches operation rslt version m \<longleftrightarrow>
     cm_operation m = operation \<and> cm_result m = rslt \<and> cm_version m = version"

fun cn_step :: "token_op \<Rightarrow> connection \<Rightarrow> token_result \<times> connection" where
  "cn_step TReserve c = (let g = max (cn_last c) (cn_barrier c) + 1 in (Generation g, c\<lparr>cn_last := g\<rparr>))"
| "cn_step (TVoid g) c = (Done, c\<lparr>cn_barrier := max (cn_barrier c) g\<rparr>)"
| "cn_step (TSave operation connection rslt version generation credentials ack) c =
     (if operation \<in> cn_voided c \<or> generation \<le> cn_barrier c then (Refused, c)
      else let m = \<lparr>cm_operation = operation, cm_connection = connection, cm_result = rslt, cm_version = version,
          cm_generation = generation, cm_ack_pending = ack, cm_invalidated = False\<rparr>
        in (Saved (commit_of m), c\<lparr>cn_commit := Some m, cn_present := True\<rparr>))"
| "cn_step (TAck operation rslt version) c = (case cn_commit c of
     None \<Rightarrow> (Flag False, c)
   | Some m \<Rightarrow> (if ack_matches operation rslt version m
       then (Flag True, c\<lparr>cn_commit := Some (m\<lparr>cm_ack_pending := False\<rparr>)\<rparr>) else (Flag False, c)))"
| "cn_step (TInvalidate operation) c = (let c1 = c\<lparr>cn_voided := insert operation (cn_voided c)\<rparr> in
     case cn_commit c of
       None \<Rightarrow> (Flag False, c1)
     | Some m \<Rightarrow> (if cm_operation m = operation
         then (Flag True, c1\<lparr>cn_commit := Some (m\<lparr>cm_invalidated := True\<rparr>)\<rparr>) else (Flag False, c1)))"
| "cn_step TClear c = (if cn_present c then (Flag True, c\<lparr>cn_present := False\<rparr>) else (Flag False, c))"

text \<open>How the row represents it.\<close>

definition represents :: "dict option \<Rightarrow> connection \<Rightarrow> bool" where
  "represents row c \<longleftrightarrow>
     row_int (row_of row) (lit ''barrier'') = Inr (cn_barrier c) \<and>
     row_int (row_of row) (lit ''last_generation'') = Inr (cn_last c) \<and>
     (\<exists>ops. row_ops (row_of row) = Inr (map PStr ops) \<and> set ops = cn_voided c) \<and>
     dget (row_of row) (lit ''commit'') =
       (case cn_commit c of None \<Rightarrow> PNone | Some m \<Rightarrow> PDict (commit_asdict (commit_of m))) \<and>
     (dget (row_of row) (lit ''sealed'') \<noteq> PNone \<longleftrightarrow> cn_present c)"

lemma represents_empty: "represents None no_connection"
  by (simp add: represents_def row_of_def no_connection_def row_int_def row_ops_def dget_def dget_or_def)

subsection \<open>Each transaction is the abstract step\<close>

named_theorems row_simps "reading a row after a write"

lemma dget_dset [row_simps]: "dget (dset d k v) k' = (if k' = k then v else dget d k')"
  and dget_or_dset [row_simps]: "dget_or (dset d k v) k' w = (if k' = k then v else dget_or d k' w)"
  by (auto simp: dget_def dget_or_def)

lemma row_int_dset [row_simps]:
  "row_int (dset d k v) k' = (if k' = k then (case v of PInt n \<Rightarrow> Inr n | _ \<Rightarrow> Inl (Py TypeError)) else row_int d k')"
  and row_ops_dset [row_simps]: "row_ops (dset d k v) = (if k = lit ''invalidated_ops''
     then (case v of PList xs \<Rightarrow> Inr xs | _ \<Rightarrow> Inl (Py TypeError)) else row_ops d)"
  by (simp_all add: row_int_def row_ops_def dget_or_dset)

lemma dsetdefault_reads [row_simps]:
  "row_ops (dsetdefault d (lit ''invalidated_ops'') (PList [])) = row_ops d"
  "k \<noteq> lit ''invalidated_ops'' \<Longrightarrow> row_int (dsetdefault d (lit ''invalidated_ops'') v) k = row_int d k"
  "k \<noteq> lit ''invalidated_ops'' \<Longrightarrow> dget (dsetdefault d (lit ''invalidated_ops'') v) k = dget d k"
  by (auto simp: dsetdefault_def row_simps) (auto simp: row_ops_def dget_or_def map_of_None_dkeys [symmetric])

lemma row_of_Some [simp]: "row_of (Some d) = d"
  by (simp add: row_of_def)

lemma representsE:
  assumes "represents row c"
  obtains ops where "row_int (row_of row) (lit ''barrier'') = Inr (cn_barrier c)"
    "row_int (row_of row) (lit ''last_generation'') = Inr (cn_last c)"
    "row_ops (row_of row) = Inr (map PStr ops)" "set ops = cn_voided c"
    "dget (row_of row) (lit ''commit'') =
       (case cn_commit c of None \<Rightarrow> PNone | Some m \<Rightarrow> PDict (commit_asdict (commit_of m)))"
    "dget (row_of row) (lit ''sealed'') \<noteq> PNone \<longleftrightarrow> cn_present c"
  using assms by (auto simp: represents_def)

lemma reserve_represents:
  assumes "represents row c"
  shows "\<exists>d. reserve_txn row = Inr (max (cn_last c) (cn_barrier c) + 1, Some d) \<and>
    represents (Some d) (snd (cn_step TReserve c))"
  using assms by (rule representsE) (auto simp: reserve_txn_def represents_def row_simps Let_def)

lemma void_represents:
  assumes "represents row c"
  shows "\<exists>d. void_txn g row = Inr ((), Some d) \<and> represents (Some d) (snd (cn_step (TVoid g) c))"
  using assms by (rule representsE) (auto simp: void_txn_def represents_def row_simps Let_def)

lemma save_represents:
  assumes "represents row c"
  shows "save_txn sealed (fresh_commit operation connection rslt version generation ack) operation generation row =
      Inr (None, None) \<and> fst (cn_step (TSave operation connection rslt version generation cr ack) c) = Refused \<or>
    (\<exists>m d. save_txn sealed (fresh_commit operation connection rslt version generation ack) operation generation row =
        Inr (Some (commit_of m), Some d) \<and>
      fst (cn_step (TSave operation connection rslt version generation cr ack) c) = Saved (commit_of m) \<and>
      dget d (lit ''sealed'') = PDict (sealed_to_dict sealed) \<and>
      represents (Some d) (snd (cn_step (TSave operation connection rslt version generation cr ack) c)))"
proof -
  from assms obtain ops where r: "row_int (row_of row) (lit ''barrier'') = Inr (cn_barrier c)"
    "row_int (row_of row) (lit ''last_generation'') = Inr (cn_last c)"
    "row_ops (row_of row) = Inr (map PStr ops)" "set ops = cn_voided c" by (rule representsE)
  then have "PStr operation \<in> set (map PStr ops) \<longleftrightarrow> operation \<in> cn_voided c" by auto
  moreover define m where "m = \<lparr>cm_operation = operation, cm_connection = connection, cm_result = rslt,
    cm_version = version, cm_generation = generation, cm_ack_pending = ack, cm_invalidated = False\<rparr>"
  moreover from this have "fresh_commit operation connection rslt version generation ack = commit_of m"
    by (simp add: fresh_commit_def commit_of_def)
  moreover have "cn_step (TSave operation connection rslt version generation cr ack) c =
      (if operation \<in> cn_voided c \<or> generation \<le> cn_barrier c then (Refused, c)
       else (Saved (commit_of m), c\<lparr>cn_commit := Some m, cn_present := True\<rparr>))"
    by (simp add: m_def Let_def)
  ultimately show ?thesis
    using r by (auto simp: save_txn_def represents_def row_simps Let_def simp del: cn_step.simps set_map)
qed

lemma commit_fields [row_simps]:
  "dindex (commit_asdict (commit_of m)) (lit ''operation_id'') = Inr (PStr (cm_operation m))"
  "dindex (commit_asdict (commit_of m)) (lit ''result_id'') = Inr (PStr (cm_result m))"
  "dindex (commit_asdict (commit_of m)) (lit ''version'') = Inr (PInt (cm_version m))"
  "dindex (commit_asdict (commit_of m)) (lit ''ack_pending'') = Inr (PBool (cm_ack_pending m))"
  "dset (commit_asdict (commit_of m)) (lit ''ack_pending'') (PBool b) = commit_asdict (commit_of (m\<lparr>cm_ack_pending := b\<rparr>))"
  "dset (commit_asdict (commit_of m)) (lit ''invalidated'') (PBool b) = commit_asdict (commit_of (m\<lparr>cm_invalidated := b\<rparr>))"
  by (simp_all add: commit_asdict_def commit_of_def dindex_def)

lemma parse_commit_of [row_simps]: "parse_commit (PDict (commit_asdict (commit_of m))) = Inr (commit_of m)"
  by (simp add: parse_commit_def commit_asdict_def dindex_def dget_or_def)

lemma same_ack: "\<not> cm_ack_pending m \<Longrightarrow> m\<lparr>cm_ack_pending := False\<rparr> = m"
  by simp

text \<open>A transaction that aborts keeps the row.\<close>

definition row_after :: "dict option \<Rightarrow> dict option \<Rightarrow> dict option" where
  "row_after row new = (case new of None \<Rightarrow> row | Some d \<Rightarrow> Some d)"

lemma row_after_simps [simp]: "row_after row None = row" "row_after row (Some d) = Some d"
  by (simp_all add: row_after_def)

lemma ack_represents:
  assumes "represents row c"
  shows "\<exists>b new. ack_txn operation rslt version row = Inr (b, new) \<and>
    cn_step (TAck operation rslt version) c = (Flag b, snd (cn_step (TAck operation rslt version) c)) \<and>
    represents (row_after row new) (snd (cn_step (TAck operation rslt version) c))"
proof (cases "cn_commit c")
  case None
  with assms show ?thesis
    by (cases row) (auto simp: ack_txn_def represents_def)
next
  case (Some m)
  with assms obtain d where d: "row = Some d" "dget d (lit ''commit'') = PDict (commit_asdict (commit_of m))"
    by (cases row) (auto simp: represents_def row_of_def dget_def)
  show ?thesis
  proof (cases "ack_matches operation rslt version m \<and> cm_ack_pending m")
    case True
    with assms d Some show ?thesis
      by (auto simp: ack_txn_def ack_matches_def represents_def row_simps)
  next
    case False
    with Some have c: "snd (cn_step (TAck operation rslt version) c) = c"
      by (cases c; cases m) (auto simp: ack_matches_def)
    have "\<exists>b. ack_txn operation rslt version row = Inr (b, None) \<and> fst (cn_step (TAck operation rslt version) c) = Flag b"
      using False d Some by (auto simp: ack_txn_def ack_matches_def row_simps)
    then obtain b where "ack_txn operation rslt version row = Inr (b, None)" "fst (cn_step (TAck operation rslt version) c) = Flag b"
      by blast
    with c assms show ?thesis by (intro exI [of _ b] exI [of _ None]) (simp add: prod_eq_iff)
  qed
qed

lemma invalidate_represents:
  assumes "represents row c"
  shows "\<exists>b d. invalidate_txn operation row = Inr (b, Some d) \<and>
    cn_step (TInvalidate operation) c = (Flag b, snd (cn_step (TInvalidate operation) c)) \<and>
    represents (Some d) (snd (cn_step (TInvalidate operation) c))"
proof -
  from assms obtain ops where r: "row_int (row_of row) (lit ''barrier'') = Inr (cn_barrier c)"
    "row_int (row_of row) (lit ''last_generation'') = Inr (cn_last c)"
    "row_ops (row_of row) = Inr (map PStr ops)" "set ops = cn_voided c"
    "dget (row_of row) (lit ''commit'') =
       (case cn_commit c of None \<Rightarrow> PNone | Some m \<Rightarrow> PDict (commit_asdict (commit_of m)))"
    "dget (row_of row) (lit ''sealed'') \<noteq> PNone \<longleftrightarrow> cn_present c" by (rule representsE)
  define ops' where "ops' = (if operation \<in> set ops then ops else ops @ [operation])"
  have m: "PStr operation \<in> set (map PStr ops) \<longleftrightarrow> operation \<in> set ops" by auto
  have ops': "set ops' = insert operation (cn_voided c)" using r(4) by (auto simp: ops'_def)
  have "(if PStr operation \<in> set (map PStr ops) then map PStr ops else map PStr ops @ [PStr operation]) = map PStr ops'"
    using m by (simp add: ops'_def)
  with r ops' show ?thesis
    by (cases "cn_commit c")
      (auto simp: invalidate_txn_def represents_def row_simps Let_def simp del: set_map intro!: exI [of _ ops'])
qed

lemma clear_represents:
  assumes "represents row c"
  shows "\<exists>b new. clear_txn row = Inr (b, new) \<and> cn_step TClear c = (Flag b, snd (cn_step TClear c)) \<and>
    represents (row_after row new) (snd (cn_step TClear c))"
proof (cases row)
  case None
  with assms have "\<not> cn_present c" by (auto simp: represents_def row_of_def dget_def)
  with assms None show ?thesis by (auto simp: clear_txn_def)
next
  case (Some d)
  with assms show ?thesis
    by (auto simp: clear_txn_def represents_def row_simps)
qed

subsection \<open>Calls, under any failure of the storage\<close>

lemma sqlite_update_txn: "sqlite_update key fn = sqlite_txn key (\<lambda>c. rmap (\<lambda>v. (v, v)) (fn c))"
proof -
  have "pbind (plift (fn c)) (\<lambda>result. case result of
       None \<Rightarrow> preturn None | Some v \<Rightarrow> write_commit (\<lambda>r. (Some v, dset r key v))) =
    pbind (plift (rmap (\<lambda>v. (v, v)) (fn c))) (\<lambda>(h, result). case result of
       None \<Rightarrow> preturn h | Some v \<Rightarrow> write_commit (\<lambda>r. (h, dset r key v)))" for c
  proof (cases "fn c")
    case (Inr a)
    then show ?thesis by (cases a) simp_all
  qed simp
  then show ?thesis unfolding sqlite_update_def sqlite_txn_def by simp
qed

lemma sqlite_txn_atomic:
  assumes "clean s" "sqlite_txn key fn s = (r, t)"
  shows "clean t \<and> (case r of
      Inl e \<Rightarrow> map_of (sq_committed t) = map_of (sq_committed s)
    | Inr h \<Rightarrow> (\<exists>new. fn (map_of (sq_committed s) key) = Inr (h, new) \<and>
        map_of (sq_committed t) = (case new of None \<Rightarrow> map_of (sq_committed s) | Some v \<Rightarrow> (map_of (sq_committed s))(key \<mapsto> v))))"
proof (cases "sq_broken s")
  case True
  with assms show ?thesis by (auto simp: sqlite_txn_def pbind_def ensure_live_def)
next
  case False
  obtain g u where g: "sq_select (\<lambda>r. map_of r key) s = (g, u)" by fastforce
  note sg = select_atomic [OF assms(1) g]
  have c: "(case g of Inl e \<Rightarrow> (Inl e, u) | Inr current \<Rightarrow> (case fn current of Inl e \<Rightarrow> (Inl e, u)
      | Inr (h, None) \<Rightarrow> (Inr h, u) | Inr (h, Some v) \<Rightarrow> write_commit (\<lambda>r. (h, dset r key v)) u)) = (r, t)"
    using assms(2) False g
    by (auto simp: sqlite_txn_def pbind_def ensure_live_def plift_def split: sum.splits prod.splits option.splits)
  show ?thesis
  proof (cases "\<exists>current h v. g = Inr current \<and> fn current = Inr (h, Some v)")
    case True
    then obtain current h v where p: "g = Inr current" "fn current = Inr (h, Some v)" by blast
    with c have w: "write_commit (\<lambda>r. (h, dset r key v)) u = (r, t)" by simp
    from write_commit_atomic [OF _ this] sg p show ?thesis by (auto split: sum.splits)
  next
    case False
    with c sg show ?thesis by (auto split: sum.split_asm prod.split_asm option.split_asm)
  qed
qed

definition token_rows :: "'k token_env \<Rightarrow> pystr \<Rightarrow> dict option" where
  "token_rows s = map_of (sq_committed (te_kv s))"

definition token_row :: "'k token_env \<Rightarrow> dict option" where
  "token_row s = token_rows s state_key"

text \<open>A call that raised changed no row; one that returned did its transaction on the row and touched no other.\<close>

lemma on_row_step:
  assumes "clean (te_kv s)" "on_row fn s = (r, t)"
  shows "clean (te_kv t) \<and> (\<forall>key. key \<noteq> state_key \<longrightarrow> token_rows t key = token_rows s key) \<and>
    (case r of Inl e \<Rightarrow> token_row t = token_row s
     | Inr h \<Rightarrow> (\<exists>new. fn (token_row s) = Inr (h, new) \<and> token_row t = row_after (token_row s) new))"
proof -
  from assms(2) obtain v where v: "sqlite_txn state_key fn (te_kv s) = (r, v)" "te_kv t = v"
    by (auto simp: on_row_def lift_pm_def put_kv_def split: prod.splits)
  note a = sqlite_txn_atomic [OF assms(1) v(1)]
  show ?thesis
  proof (cases r)
    case (Inl e)
    with a v(2) show ?thesis by (simp add: token_rows_def token_row_def)
  next
    case (Inr h)
    with a v(2) obtain new where "clean (te_kv t)" "fn (token_row s) = Inr (h, new)"
      "token_rows t = (case new of None \<Rightarrow> token_rows s | Some d \<Rightarrow> (token_rows s)(state_key \<mapsto> d))"
      unfolding token_rows_def token_row_def by auto
    with Inr show ?thesis by (cases new) (auto simp: token_row_def)
  qed
qed

lemma keys_keep: "keeps te_kv (lift_pm te_keys put_keys m)"
  by (auto simp: keeps_def lift_pm_def put_keys_def split: prod.splits)

lemma keys_frame: "lift_pm te_keys put_keys m s = (r, t) \<Longrightarrow> te_kv t = te_kv s"
  using keys_keep by (rule keepsD)

fun token_do :: "'k token_store \<Rightarrow> token_op \<Rightarrow> ('k token_env, token_result) pm" where
  "token_do T TReserve = pbind reserve_generation (\<lambda>g. preturn (Generation g))"
| "token_do T (TVoid g) = pbind (void_generation g) (\<lambda>_. preturn Done)"
| "token_do T (TSave operation connection rslt version generation credentials ack) =
     pbind (save_commit T operation connection rslt version generation credentials ack) (\<lambda>rec. preturn (Saved rec))"
| "token_do T (TAck operation rslt version) = pbind (mark_ack_confirmed operation rslt version) (\<lambda>b. preturn (Flag b))"
| "token_do T (TInvalidate operation) = pbind (invalidate_commit operation) (\<lambda>b. preturn (Flag b))"
| "token_do T TClear = pbind clear_credentials (\<lambda>b. preturn (Flag b))"

text \<open>One call against the abstract step.\<close>

definition step_ok :: "token_op \<Rightarrow> connection \<Rightarrow> 'k token_env \<Rightarrow> token_result res \<Rightarrow> 'k token_env \<Rightarrow> bool" where
  "step_ok x c s r t \<longleftrightarrow> clean (te_kv t) \<and> (\<forall>key. key \<noteq> state_key \<longrightarrow> token_rows t key = token_rows s key) \<and>
     (case r of Inl _ \<Rightarrow> represents (token_row t) c
      | Inr v \<Rightarrow> v \<noteq> Refused \<and> fst (cn_step x c) = v \<and> represents (token_row t) (snd (cn_step x c)))"

lemma mapped_step:
  assumes "clean (te_kv s)" "represents (token_row s) c" "pbind (on_row fn) (\<lambda>h. preturn (f h)) s = (r, t)"
    and "\<exists>h new. fn (token_row s) = Inr (h, new) \<and> fst (cn_step x c) = f h \<and> f h \<noteq> Refused \<and>
      represents (row_after (token_row s) new) (snd (cn_step x c))"
  shows "step_ok x c s r t"
proof -
  obtain y u where y: "on_row fn s = (y, u)" by fastforce
  from on_row_step [OF assms(1) y] assms(2-4) y show ?thesis
    by (auto simp: step_ok_def pbind_def preturn_def split: sum.splits)
qed

lemma token_step:
  assumes s: "clean (te_kv s)" "represents (token_row s) c" and d: "token_do T x s = (r, t)"
  shows "step_ok x c s r t"
proof (cases x)
  case TReserve
  from reserve_represents [OF s(2)] obtain d where
    "reserve_txn (token_row s) = Inr (max (cn_last c) (cn_barrier c) + 1, Some d)"
    "represents (Some d) (snd (cn_step TReserve c))" by blast
  then show ?thesis
    using d TReserve by (intro mapped_step [OF s, of reserve_txn Generation]) (auto simp: reserve_generation_def Let_def)
next
  case (TVoid g)
  from void_represents [OF s(2)] obtain d where
    "void_txn g (token_row s) = Inr ((), Some d)" "represents (Some d) (snd (cn_step (TVoid g) c))" by blast
  then show ?thesis
    using d TVoid by (intro mapped_step [OF s, of "void_txn g" "\<lambda>_. Done"]) (auto simp: void_generation_def)
next
  case (TAck operation rslt version)
  from ack_represents [OF s(2)] show ?thesis
    using d TAck by (intro mapped_step [OF s, of "ack_txn operation rslt version" Flag])
      (metis mark_ack_confirmed_def token_do.simps(4), metis fst_conv token_result.distinct)
next
  case (TInvalidate operation)
  from invalidate_represents [OF s(2)] show ?thesis
    using d TInvalidate by (intro mapped_step [OF s, of "invalidate_txn operation" Flag])
      (metis invalidate_commit_def token_do.simps(5), metis fst_conv row_after_simps(2) token_result.distinct)
next
  case TClear
  from clear_represents [OF s(2)] show ?thesis
    using d TClear by (intro mapped_step [OF s, of clear_txn Flag])
      (metis clear_credentials_def token_do.simps(6), metis fst_conv token_result.distinct)
next
  case (TSave operation connection rslt version generation cr ack)
  let ?c = "fresh_commit operation connection rslt version generation ack"
  show ?thesis
  proof (cases "\<exists>p r0 u. ts_dumps T cr = Inr p \<and> lift_pm te_keys put_keys (aead_seal (ts_cipher T) p record_type 1) s = (Inr r0, u)")
    case False
    then have "te_kv t = te_kv s \<and> (\<exists>e. r = Inl e)"
      using d TSave keys_frame by (auto simp: save_commit_def pbind_def plift_def split: prod.splits sum.splits)
    with s show ?thesis by (auto simp: step_ok_def token_rows_def token_row_def)
  next
    case True
    then obtain p r0 u where p: "ts_dumps T cr = Inr p"
      "lift_pm te_keys put_keys (aead_seal (ts_cipher T) p record_type 1) s = (Inr r0, u)" by blast
    have u: "te_kv u = te_kv s" using keepsD [OF keys_keep p(2)] .
    obtain y v where y: "on_row (save_txn r0 ?c operation generation) u = (y, v)" by fastforce
    have r: "v = t \<and> r = (case y of Inl e \<Rightarrow> Inl e | Inr None \<Rightarrow> Inl (Tok CommitInvalidated) | Inr (Some rec) \<Rightarrow> Inr (Saved rec))"
      using d TSave p y by (auto simp: save_commit_def pbind_def plift_def split: sum.splits option.splits)
    have "represents (token_row u) c" using s u by (simp add: token_row_def token_rows_def)
    from save_represents [OF this, of r0 operation connection rslt version generation ack cr]
      on_row_step [OF _ y] s u r TSave show ?thesis
      by (cases y) (auto simp: step_ok_def token_rows_def token_row_def split: option.splits simp del: cn_step.simps)
  qed
qed

subsection \<open>Sequences of calls\<close>

fun token_run :: "'k token_store \<Rightarrow> token_op list \<Rightarrow> 'k token_env \<Rightarrow> (token_op \<times> token_result res) list \<times> 'k token_env" where
  "token_run T [] s = ([], s)"
| "token_run T (x # xs) s = (case token_do T x s of (r, t) \<Rightarrow>
     (case token_run T xs t of (rs, u) \<Rightarrow> ((x, r) # rs, u)))"

text \<open>A call that raised did nothing, one that returned did the abstract step, and a refusal never returns.\<close>

fun follows :: "(token_op \<times> token_result res) list \<Rightarrow> connection \<Rightarrow> connection \<Rightarrow> bool" where
  "follows [] c c' = (c' = c)"
| "follows ((x, Inl e) # l) c c' = follows l c c'"
| "follows ((x, Inr v) # l) c c' = (v \<noteq> Refused \<and> fst (cn_step x c) = v \<and> follows l (snd (cn_step x c)) c')"

lemma run_follows:
  assumes "clean (te_kv s)" "represents (token_row s) c" "token_run T ops s = (events, t)"
  shows "clean (te_kv t) \<and> (\<exists>c'. represents (token_row t) c' \<and> follows events c c') \<and>
    (\<forall>key. key \<noteq> state_key \<longrightarrow> token_rows t key = token_rows s key)"
  using assms
proof (induction ops arbitrary: s c events t)
  case (Cons x ops)
  obtain r u where u: "token_do T x s = (r, u)" by fastforce
  obtain l v where v: "token_run T ops u = (l, v)" by fastforce
  from Cons.prems(3) u v have e: "events = (x, r) # l" "v = t" by auto
  from token_step [OF Cons.prems(1,2) u] have k: "step_ok x c s r u" .
  show ?case
  proof (cases r)
    case (Inl err)
    with k have "clean (te_kv u)" "represents (token_row u) c" by (auto simp: step_ok_def)
    from Cons.IH [OF this v] e Inl k show ?thesis by (auto simp: step_ok_def)
  next
    case (Inr w)
    with k have "clean (te_kv u)" "represents (token_row u) (snd (cn_step x c))" by (auto simp: step_ok_def)
    from Cons.IH [OF this v] e Inr k show ?thesis by (auto simp: step_ok_def)
  qed
qed auto

text \<open>What never goes back.\<close>

lemma cn_step_mono:
  "cn_voided c \<subseteq> cn_voided (snd (cn_step x c))" "cn_barrier c \<le> cn_barrier (snd (cn_step x c))"
  "cn_last c \<le> cn_last (snd (cn_step x c))"
  by (cases x; auto simp: Let_def split: option.splits)+

lemma follows_mono: "follows l c c' \<Longrightarrow> cn_voided c \<subseteq> cn_voided c' \<and> cn_barrier c \<le> cn_barrier c' \<and> cn_last c \<le> cn_last c'"
proof (induction l c c' rule: follows.induct)
  case (3 x v l c c')
  with cn_step_mono [where c = c and x = x] show ?case by force
qed auto

lemma voided_refused:
  assumes "follows l c c'" "operation \<in> cn_voided c \<or> generation \<le> cn_barrier c"
    and "(TSave operation connection rslt version generation credentials ack, r) \<in> set l"
  shows "\<exists>e. r = Inl e"
  using assms
proof (induction l c c' rule: follows.induct)
  case (2 x e l c c')
  then show ?case by auto
next
  case (3 x v l c c')
  show ?case
  proof (cases "(TSave operation connection rslt version generation credentials ack, r) = (x, Inr v)")
    case True
    with 3 show ?thesis by auto
  next
    case False
    moreover have "operation \<in> cn_voided (snd (cn_step x c)) \<or> generation \<le> cn_barrier (snd (cn_step x c))"
      using 3(3) cn_step_mono(1,2) [of c x] by auto
    ultimately show ?thesis using 3 by auto
  qed
qed auto

text \<open>A commit of a voided operation carries its mark.\<close>

definition marked :: "connection \<Rightarrow> bool" where
  "marked c \<longleftrightarrow> (\<forall>m. cn_commit c = Some m \<longrightarrow> cm_operation m \<in> cn_voided c \<longrightarrow> cm_invalidated m)"

lemma marked_step: "marked c \<Longrightarrow> marked (snd (cn_step x c))"
  by (cases "cn_commit c"; cases x) (auto simp: marked_def Let_def)

lemma follows_marked: "follows l c c' \<Longrightarrow> marked c \<Longrightarrow> marked c'"
proof (induction l c c' rule: follows.induct)
  case (3 x v l c c')
  then show ?case using marked_step [of c x] by simp
qed auto

text \<open>The generations handed out: each above all the earlier ones and above every barrier raised before.\<close>

definition generations :: "(token_op \<times> token_result res) list \<Rightarrow> int list" where
  "generations l = concat (map (\<lambda>(x, r). case r of Inr (Generation g) \<Rightarrow> [g] | _ \<Rightarrow> []) l)"

lemma generations_simps [simp]:
  "generations [] = []" "generations ((x, Inl e) # l) = generations l"
  "generations ((x, Inr v) # l) = (case v of Generation g \<Rightarrow> [g] | _ \<Rightarrow> []) @ generations l"
  by (simp_all add: generations_def split: token_result.splits)

lemma cn_step_generation:
  "fst (cn_step x c) = Generation g \<Longrightarrow> cn_last c < g \<and> cn_barrier c < g \<and> cn_last (snd (cn_step x c)) = g"
  by (cases x) (auto simp: Let_def split: option.split_asm if_split_asm)

lemma generations_above: "follows l c c' \<Longrightarrow> g \<in> set (generations l) \<Longrightarrow> cn_last c < g \<and> cn_barrier c < g \<and> g \<le> cn_last c'"
proof (induction l c c' rule: follows.induct)
  case (3 x v l c c')
  note m = cn_step_mono(2,3) [of c x] follows_mono [of l "snd (cn_step x c)" c']
  show ?case
  proof (cases "g \<in> set (generations l)")
    case True
    with 3 m show ?thesis by fastforce
  next
    case False
    with 3 have "fst (cn_step x c) = Generation g" by (cases v) auto
    from cn_step_generation [OF this] 3 m show ?thesis by auto
  qed
qed auto

lemma generations_sorted: "follows l c c' \<Longrightarrow> sorted_wrt (<) (generations l)"
proof (induction l c c' rule: follows.induct)
  case (3 x v l c c')
  then have l: "sorted_wrt (<) (generations l)" by simp
  show ?case
  proof (cases "\<exists>g. v = Generation g")
    case True
    then obtain g where "v = Generation g" by blast
    with 3 cn_step_generation [of x c g] generations_above [of l "snd (cn_step x c)" c'] show ?thesis by fastforce
  next
    case False
    with l show ?thesis by (cases v) auto
  qed
qed auto

subsection \<open>Reading\<close>

lemma get_row_step:
  "clean (te_kv s) \<Longrightarrow> get_row s = (Inr row, t) \<Longrightarrow> row = token_row s \<and> token_rows t = token_rows s \<and> clean (te_kv t)"
  using sqlite_get_atomic [of "te_kv s" state_key]
  by (auto simp: get_row_def lift_pm_iff put_kv_def token_row_def token_rows_def)

lemma load_commit_represents:
  assumes "clean (te_kv s)" "represents (token_row s) c" "load_commit s = (Inr x, t)"
  shows "x = map_option commit_of (cn_commit c)"
proof -
  from assms(3) obtain row u where "get_row s = (Inr row, u)"
    and x: "(case row of None \<Rightarrow> preturn None | Some d \<Rightarrow> (if dget d (lit ''commit'') = PNone then preturn None
       else plift (rmap Some (parse_commit (dget d (lit ''commit'')))))) u = (Inr x, t)"
    by (auto simp: load_commit_def pbind_Inr_iff)
  with get_row_step [OF assms(1)] have "row = token_row s" by blast
  with assms(2) have "dget (row_of row) (lit ''commit'') =
      (case cn_commit c of None \<Rightarrow> PNone | Some m \<Rightarrow> PDict (commit_asdict (commit_of m)))"
    by (simp add: represents_def)
  with x show ?thesis
    by (cases row; cases "cn_commit c") (auto simp: row_of_def dget_def [of "[]"] row_simps pm_inv)
qed

lemma get_row_healthy: "healthy (te_kv s) \<Longrightarrow> get_row s = (Inr (token_row s), s)"
  using guarded_healthy_read [of "te_kv s" "\<lambda>r. map_of r state_key"]
  by (simp add: get_row_def lift_pm_def sqlite_get_def put_kv_def token_row_def token_rows_def)

lemma on_row_healthy:
  assumes "healthy (te_kv s)" "fn (token_row s) = Inr (h, new)"
  shows "\<exists>t. on_row fn s = (Inr h, t) \<and> healthy (te_kv t) \<and> te_keys t = te_keys s \<and> token_row t = row_after (token_row s) new"
proof -
  have s: "sq_select (\<lambda>r. map_of r state_key) (te_kv s) = (Inr (token_row s), te_kv s)"
    using select_healthy [OF assms(1)] by (simp add: token_row_def token_rows_def)
  show ?thesis
  proof (cases new)
    case None
    with assms s have "on_row fn s = (Inr h, s)"
      by (simp add: on_row_def lift_pm_def sqlite_txn_def pbind_def plift_def healthy_live put_kv_def)
    with assms(1) None show ?thesis by simp
  next
    case (Some d)
    let ?t = "s\<lparr>te_kv := (te_kv s)\<lparr>sq_committed := dset (sq_committed (te_kv s)) state_key d\<rparr>\<rparr>"
    from assms s Some have "on_row fn s = (Inr h, ?t)"
      by (simp add: on_row_def lift_pm_def sqlite_txn_def pbind_def plift_def healthy_live put_kv_def write_commit_healthy)
    moreover have "token_row ?t = Some d" by (simp add: token_row_def token_rows_def)
    ultimately show ?thesis using assms(1) Some healthy_commit by (intro exI [of _ ?t]) simp
  qed
qed

lemma load_healthy:
  assumes "healthy (te_kv s)" "dget (row_of (token_row s)) (lit ''sealed'') = PDict (sealed_to_dict r)"
    and "sealed_from_dict (PDict (sealed_to_dict r)) = Inr r" "\<And>u. aead_open (ts_cipher T) r u = (Inr p, u)"
    and "ts_loads T p = Inr v"
  shows "load_credentials T s = (Inr v, s)"
proof -
  obtain d where d: "token_row s = Some d" "dget d (lit ''sealed'') = PDict (sealed_to_dict r)"
    using assms(2) by (cases "token_row s") (auto simp: row_of_def dget_def)
  have "lift_pm te_keys put_keys (aead_open (ts_cipher T) r) s = (Inr p, s)"
    using assms(4) by (simp add: lift_pm_def put_keys_def)
  with d assms(3,5) show ?thesis
    by (simp add: load_credentials_def pbind_def get_row_healthy [OF assms(1)] open_credentials_def plift_def ptry_def)
qed

lemma load_commit_healthy:
  assumes "healthy (te_kv s)" "dget (row_of (token_row s)) (lit ''commit'') = PDict (commit_asdict (commit_of m))"
  shows "load_commit s = (Inr (Some (commit_of m)), s)"
proof -
  obtain d where "token_row s = Some d" "dget d (lit ''commit'') = PDict (commit_asdict (commit_of m))"
    using assms(2) by (cases "token_row s") (auto simp: row_of_def dget_def)
  then show ?thesis
    by (simp add: load_commit_def pbind_def get_row_healthy [OF assms(1)] row_simps plift_def)
qed

subsection \<open>A concrete store\<close>

definition toy_store :: "unit token_store" where
  "toy_store = \<lparr>ts_cipher = toy_cipher, ts_dumps = \<lambda>_. Inr [123, 125], ts_loads = \<lambda>_. Inr (PDict [])\<rparr>"

definition toy_tokens :: "unit token_env" where
  "toy_tokens = \<lparr>te_kv = empty_sqlite [], te_keys = ()\<rparr>"

lemma toy_tokens_ok: "healthy (te_kv toy_tokens)" "clean (te_kv toy_tokens)" "represents (token_row toy_tokens) no_connection"
  using represents_empty
  by (simp_all add: toy_tokens_def empty_sqlite_def healthy_def clean_def token_row_def token_rows_def)

text \<open>
  The one failure that no bucket takes: a stored record type that UTF-8 cannot encode, a lone surrogate, is neither a
  malformed record nor a failure of the cipher.
\<close>

lemma surrogate_label_escapes:
  assumes "is_bytes (sr_nonce r)" "is_bytes (sr_ciphertext r)" "length (sr_nonce r) = nonce_len"
    and "1 \<le> sr_version r" "\<not> encodable (sr_record_type r)"
  shows "open_credentials T (PDict (sealed_to_dict r)) s = (Inl (Py UnicodeEncodeError), s)"
proof -
  have "b64_field (sealed_to_dict r) (lit ''nonce'') = Inr (sr_nonce r)"
    "b64_field (sealed_to_dict r) (lit ''ciphertext'') = Inr (sr_ciphertext r)"
    using assms(1,2) by (auto intro!: b64_field_encoded simp: sealed_to_dict_def)
  moreover have "aad (PStr (sr_record_type r)) (PInt (sr_version r)) = Inl (Py UnicodeEncodeError)"
    using assms(4,5) by (auto simp: aad_def encode_utf8_def encodable_def)
  ultimately have "sealed_from_dict (PDict (sealed_to_dict r)) = Inl (Py UnicodeEncodeError)"
    using assms(3) by (simp add: sealed_from_dict_def rguard_def) (simp add: sealed_to_dict_def dget_def dkeys_def)
  then show ?thesis by (simp add: open_credentials_def pbind_def plift_def)
qed

subsection \<open>Properties\<close>

text \<open>
  C32. The store refines its contract.  Under any failures of the storage, the keychain and the JSON codec, a sequence of calls on a row that represents an abstract
  store does, call by call, nothing when the call raised and exactly the abstract step when it returned; a save that
  the contract refuses never returns; the row at the end represents the abstract store then reached; and no other row
  of the database changes.
\<close>

theorem token_store_refines:
  assumes "clean (te_kv s)" "represents (token_row s) c" "token_run T ops s = (events, t)"
  shows "clean (te_kv t) \<and> (\<exists>c'. represents (token_row t) c' \<and> follows events c c') \<and>
    (\<forall>key. key \<noteq> state_key \<longrightarrow> token_rows t key = token_rows s key)"
  using assms by (rule run_follows)

theorem token_store_refines_witness:
  "\<exists>events t c'. token_run toy_store [TReserve, TInvalidate (lit ''o''), TClear] toy_tokens = (events, t) \<and>
     represents (token_row t) c' \<and> follows events no_connection c'"
proof -
  obtain events t where "token_run toy_store [TReserve, TInvalidate (lit ''o''), TClear] toy_tokens = (events, t)"
    by fastforce
  with token_store_refines [OF toy_tokens_ok(2,3) this] show ?thesis by blast
qed

text \<open>
  C31. A voided write never lands.  Once \<open>invalidate_commit\<close> for an operation, or \<open>void_generation\<close> for a generation, has
  returned, no later \<open>save_commit\<close> of that operation, or of a generation up to that one, returns, whatever is called in
  between and whatever fails; and what recovery then reads as the commit of a voided operation carries the mark.
\<close>

theorem voided_never_lands:
  assumes "clean (te_kv s)" "represents (token_row s) c" "marked c"
    and "token_do T x s = (Inr v, t)" "token_run T ops t = (events, u)"
    and "x = TInvalidate operation \<or> (\<exists>g. x = TVoid g \<and> generation \<le> g)"
  shows "(\<forall>connection rslt version credentials ack r.
      (TSave operation connection rslt version generation credentials ack, r) \<in> set events \<longrightarrow> (\<exists>e. r = Inl e)) \<and>
    (\<forall>rec w. x = TInvalidate operation \<and> load_commit u = (Inr (Some rec), w) \<and> cr_operation_id rec = PStr operation \<longrightarrow>
      cr_invalidated rec = PBool True)"
proof -
  let ?c = "snd (cn_step x c)"
  from token_step [OF assms(1,2,4)] have t: "clean (te_kv t)" "represents (token_row t) ?c"
    by (simp_all add: step_ok_def)
  from run_follows [OF t assms(5)] obtain c' where u: "clean (te_kv u)" "represents (token_row u) c'" "follows events ?c c'"
    by blast
  have v: "operation \<in> cn_voided ?c \<or> generation \<le> cn_barrier ?c"
    using assms(6) by (auto simp: Let_def split: option.splits)
  show ?thesis
  proof (intro conjI allI impI)
    fix connection rslt version credentials ack r
    assume "(TSave operation connection rslt version generation credentials ack, r) \<in> set events"
    with voided_refused [OF u(3) v] show "\<exists>e. r = Inl e" by blast
  next
    fix rec w
    assume a: "x = TInvalidate operation \<and> load_commit u = (Inr (Some rec), w) \<and> cr_operation_id rec = PStr operation"
    with load_commit_represents [OF u(1,2)] obtain m where m: "cn_commit c' = Some m" "rec = commit_of m"
      by (cases "cn_commit c'") auto
    have "operation \<in> cn_voided ?c" using a by (simp add: Let_def split: option.splits)
    then have "operation \<in> cn_voided c'" using follows_mono [OF u(3)] by blast
    moreover have "marked c'" using follows_marked [OF u(3) marked_step [OF assms(3)]] .
    ultimately show "cr_invalidated rec = PBool True"
      using a m by (simp add: marked_def commit_of_def)
  qed
qed

theorem voided_never_lands_witness:
  "\<exists>t events u r. token_do toy_store (TInvalidate (lit ''o'')) toy_tokens = (Inr (Flag False), t) \<and>
     token_run toy_store [TSave (lit ''o'') (lit ''c'') (lit ''r'') 1 1 [] True] t = (events, u) \<and>
     events = [(TSave (lit ''o'') (lit ''c'') (lit ''r'') 1 1 [] True, r)] \<and> (\<exists>e. r = Inl e)"
proof -
  from invalidate_represents [OF toy_tokens_ok(3), of "lit ''o''"] obtain new where
    i: "invalidate_txn (lit ''o'') (token_row toy_tokens) = Inr (False, new)"
    by (auto simp: no_connection_def Let_def)
  from on_row_healthy [of toy_tokens "invalidate_txn (lit ''o'')" False new, OF toy_tokens_ok(1) i] obtain t where
    "on_row (invalidate_txn (lit ''o'')) toy_tokens = (Inr False, t)" by blast
  then have t: "token_do toy_store (TInvalidate (lit ''o'')) toy_tokens = (Inr (Flag False), t)"
    by (simp add: invalidate_commit_def pbind_def)
  obtain r u where "token_do toy_store (TSave (lit ''o'') (lit ''c'') (lit ''r'') 1 1 [] True) t = (r, u)" by fastforce
  then have r: "token_run toy_store [TSave (lit ''o'') (lit ''c'') (lit ''r'') 1 1 [] True] t =
      ([(TSave (lit ''o'') (lit ''c'') (lit ''r'') 1 1 [] True, r)], u)"
    by simp
  have "marked no_connection" by (simp add: marked_def no_connection_def)
  from voided_never_lands [OF toy_tokens_ok(2,3) this t r, of "lit ''o''" 1] t r show ?thesis by auto
qed

text \<open>
  Generations are never reused: over any sequence of calls the generations handed out ascend strictly, each above
  every generation handed out before the sequence and above the barrier.
\<close>

theorem generations_ascend:
  assumes "clean (te_kv s)" "represents (token_row s) c" "token_run T ops s = (events, t)"
  shows "sorted_wrt (<) (generations events) \<and> (\<forall>g \<in> set (generations events). cn_last c < g \<and> cn_barrier c < g) \<and>
    (\<exists>c'. represents (token_row t) c' \<and> (\<forall>g \<in> set (generations events). g \<le> cn_last c'))"
proof -
  from run_follows [OF assms] obtain c' where "represents (token_row t) c'" "follows events c c'" by blast
  with generations_sorted [OF this(2)] generations_above [OF this(2)] show ?thesis by blast
qed

theorem generations_ascend_witness:
  "let gs = generations (fst (token_run toy_store [TReserve, TVoid 5, TReserve] toy_tokens))
   in sorted_wrt (<) gs \<and> list_all (\<lambda>g. 0 < g) gs"
  using generations_ascend
    [OF toy_tokens_ok(2,3) prod.collapse [of "token_run toy_store [TReserve, TVoid 5, TReserve] toy_tokens", symmetric]]
  by (simp add: no_connection_def Let_def list_all_iff)

text \<open>
  C33. What is committed is loaded.  With healthy storage and a key, a save that nothing has voided returns the record it
  was given, the credentials open to what was saved and recovery reads the commit; clearing removes the credentials and
  leaves the commit.
\<close>

theorem committed_credentials_load:
  assumes "healthy (te_kv s)" "represents (token_row s) c" "operation \<notin> cn_voided c" "cn_barrier c < generation"
    and "gcm_exact (ci_gcm (ts_cipher T))" "gcm_bytes (ci_gcm (ts_cipher T))" "steady_key (ts_cipher T) key"
    and "ci_nonce (ts_cipher T) (te_keys s) = (Inr n, k)" "length n = nonce_len" "is_bytes n"
    and "ts_dumps T credentials = Inr p" "is_bytes p" "ts_loads T p = Inr (PDict credentials)"
  shows "\<exists>t u. let rec = fresh_commit operation connection rslt version generation ack in
    save_commit T operation connection rslt version generation credentials ack s = (Inr rec, t) \<and>
    load_credentials T t = (Inr (PDict credentials), t) \<and> load_commit t = (Inr (Some rec), t) \<and>
    clear_credentials t = (Inr True, u) \<and> load_credentials T u = (Inl (Tok CredentialsMissing), u) \<and>
    load_commit u = (Inr (Some rec), u)"
proof -
  let ?rec = "fresh_commit operation connection rslt version generation ack"
  let ?x = "TSave operation connection rslt version generation credentials ack"
  have "encodable record_type" "record_type \<noteq> []" by (simp_all add: record_type_def lit_def surrogate_def)
  then obtain ad where ad: "aad (PStr record_type) (PInt 1) = Inr ad" by (auto simp: aad_Inr)
  define r where "r = \<lparr>sr_version = 1, sr_record_type = record_type, sr_nonce = n,
    sr_ciphertext = gcm_encrypt (ci_gcm (ts_cipher T)) key n p ad\<rparr>"
  have seal: "aead_seal (ts_cipher T) p record_type 1 (te_keys s) = (Inr r, k)"
    using ad assms(7,8,9) by (auto simp: aead_seal_Inr steady_key_def r_def)
  have r: "sealed_from_dict (PDict (sealed_to_dict r)) = Inr r"
    using assms(6,9,10,12) ad by (intro sealed_from_to) (auto simp: r_def gcm_bytes_def)
  have opened: "aead_open (ts_cipher T) r u = (Inr p, u)" for u
    using seal_open [OF assms(5,12,7) seal] .
  let ?s = "put_keys k s"
  have s: "lift_pm te_keys put_keys (aead_seal (ts_cipher T) p record_type 1) s = (Inr r, ?s)"
    using seal by (simp add: lift_pm_def)
  have hs: "healthy (te_kv ?s)" "token_row ?s = token_row s"
    using assms(1) by (simp_all add: put_keys_def token_row_def token_rows_def)
  have st: "cn_step ?x c = (Saved ?rec, snd (cn_step ?x c))" using assms(3,4) by (simp add: Let_def fresh_commit_def commit_of_def)
  then have "fst (cn_step ?x c) = Saved ?rec" by (metis fst_conv)
  with save_represents [OF assms(2), of r operation connection rslt version generation ack credentials]
  obtain m d where d: "save_txn r ?rec operation generation (token_row s) = Inr (Some (commit_of m), Some d)"
    "commit_of m = ?rec" "dget d (lit ''sealed'') = PDict (sealed_to_dict r)" "represents (Some d) (snd (cn_step ?x c))"
    by (auto simp del: cn_step.simps)
  from on_row_healthy [OF hs(1), of "save_txn r ?rec operation generation"] d(1) hs(2) obtain t where
    t: "on_row (save_txn r ?rec operation generation) ?s = (Inr (Some (commit_of m)), t)" "healthy (te_kv t)" "token_row t = Some d"
    by fastforce
  have save: "save_commit T operation connection rslt version generation credentials ack s = (Inr ?rec, t)"
    using assms(11) s t(1) d(2) by (simp add: save_commit_def pbind_def plift_def)
  have load: "load_credentials T t = (Inr (PDict credentials), t)"
    using load_healthy [OF t(2) _ r opened assms(13)] t(3) d(3) by simp
  have cm: "dget d (lit ''commit'') = PDict (commit_asdict (commit_of m))"
    using d(2,4) assms(3,4) by (simp add: represents_def Let_def fresh_commit_def commit_of_def)
  have lc: "load_commit t = (Inr (Some ?rec), t)"
    using load_commit_healthy [OF t(2), of m] t(3) cm d(2) by simp
  have "clear_txn (token_row t) = Inr (True, Some (dset d (lit ''sealed'') PNone))"
    using t(3) d(3) by (simp add: clear_txn_def)
  from on_row_healthy [of t clear_txn, OF t(2) this] t(3) obtain u where
    u: "clear_credentials t = (Inr True, u)" "healthy (te_kv u)" "token_row u = Some (dset d (lit ''sealed'') PNone)"
    by (auto simp: clear_credentials_def)
  have "load_credentials T u = (Inl (Tok CredentialsMissing), u)"
    using u(3) by (simp add: load_credentials_def pbind_def get_row_healthy [OF u(2)] row_simps)
  moreover have "load_commit u = (Inr (Some ?rec), u)"
    using load_commit_healthy [OF u(2), of m] u(3) cm d(2) by (simp add: row_simps)
  ultimately show ?thesis using save load lc u(1) unfolding Let_def by blast
qed

theorem committed_credentials_load_witness:
  "\<exists>t. save_commit toy_store (lit ''o'') (lit ''c'') (lit ''r'') 1 1 [] True toy_tokens =
      (Inr (fresh_commit (lit ''o'') (lit ''c'') (lit ''r'') 1 1 True), t) \<and>
     load_credentials toy_store t = (Inr (PDict []), t)"
proof -
  have "gcm_exact (ci_gcm (ts_cipher toy_store))" "gcm_bytes (ci_gcm (ts_cipher toy_store))"
    "steady_key (ts_cipher toy_store) (replicate 32 7)"
    using toy_gcm_laws toy_cipher_key by (simp_all add: toy_store_def)
  moreover have "ci_nonce (ts_cipher toy_store) (te_keys toy_tokens) = (Inr (replicate 12 9), ())"
    by (simp add: toy_store_def toy_cipher_def)
  moreover have "is_bytes (replicate 12 9)" "is_bytes [123, 125]" by (simp_all add: is_bytes_def)
  moreover have "ts_dumps toy_store [] = Inr [123, 125]" "ts_loads toy_store [123, 125] = Inr (PDict [])"
    by (simp_all add: toy_store_def)
  moreover have "lit ''o'' \<notin> cn_voided no_connection" "cn_barrier no_connection < 1" by (simp_all add: no_connection_def)
  ultimately show ?thesis
    using committed_credentials_load [OF toy_tokens_ok(1,3), of "lit ''o''" 1 toy_store "replicate 32 7" "replicate 12 9" "()" "[]"
        "[123, 125]" "lit ''c''" "lit ''r''" 1 True]
    by (auto simp: Let_def nonce_len_def)
qed

end
