(* ===== verification/Sealed_Tokens.thy ===== *)
theory Sealed_Tokens
  imports Token_Store
begin

text \<open>
  \<open>SealedTokenStore\<close> of \<open>gateway/send_path.py\<close>: the OAuth token of the send path, sealed in one row of the token
  database together with what a refresh needs.  State and codec are those of \<open>Token_Store\<close>; the two classes share a
  name in the source and nothing else.
\<close>

subsection \<open>Equality of Python values\<close>

text \<open>\<open>v == w\<close>: numbers by value, bools among them, dicts without their order.  A float that is not finite is unequal to
  everything here, as a NaN is.\<close>

fun py_num :: "pyval \<Rightarrow> rat option" where
  "py_num (PInt i) = Some (of_int i)"
| "py_num (PBool b) = Some (of_bool b)"
| "py_num (PFloat (Finite q)) = Some q"
| "py_num _ = None"

function (sequential) py_eq :: "pyval \<Rightarrow> pyval \<Rightarrow> bool" where
  "py_eq (PList xs) w = (case w of
     PList ys \<Rightarrow> length xs = length ys \<and> list_all (\<lambda>(x, y). py_eq x y) (zip xs ys) | _ \<Rightarrow> False)"
| "py_eq (PTuple xs) w = (case w of
     PTuple ys \<Rightarrow> length xs = length ys \<and> list_all (\<lambda>(x, y). py_eq x y) (zip xs ys) | _ \<Rightarrow> False)"
| "py_eq (PDict d) w = (case w of
     PDict e \<Rightarrow> dkeys d = dkeys e \<and>
       list_all (\<lambda>(k, v). case map_of e k of None \<Rightarrow> False | Some u \<Rightarrow> py_eq v u) d | _ \<Rightarrow> False)"
| "py_eq PNone w = (w = PNone)"
| "py_eq (PStr s) w = (w = PStr s)"
| "py_eq (PBytes s) w = (w = PBytes s)"
| "py_eq v w = (py_num v \<noteq> None \<and> py_num v = py_num w)"
  by pat_completeness auto

lemma size_in_list: "x \<in> set xs \<Longrightarrow> f x < Suc (size_list f xs)"
  by (simp add: less_Suc_eq_le size_list_estimation')

termination py_eq
proof (relation "measure (size \<circ> fst)", goal_cases)
  case (2 xs w ys z x y)
  then have "x \<in> set xs" by (auto dest: set_zip_leftD)
  from size_in_list [OF this, of size] show ?case by simp
next
  case (3 xs w ys z x y)
  then have "x \<in> set xs" by (auto dest: set_zip_leftD)
  from size_in_list [OF this, of size] show ?case by simp
next
  case (4 d w e z k v u)
  then have "(k, v) \<in> set d" by simp
  from size_in_list [OF this, of "size_prod (\<lambda>x. 0) size"] show ?case by simp
qed simp

subsection \<open>The store\<close>

definition tokens_kv :: "'k token_env kv" where
  "tokens_kv = lift_kv te_kv put_kv sqlite_kv"

definition token_key :: pystr where
  "token_key = lit ''sealed_token''"

definition token_type :: pystr where
  "token_type = lit ''oauth_token''"

definition write_origins :: "pystr list" where
  "write_origins = [lit ''authorize'', lit ''refresh'']"

text \<open>The keyword arguments of \<open>store\<close>; an annotation does not check a value.\<close>

record token_fields =
  tf_access_token :: pystr
  tf_refresh_token :: pyval
  tf_issued_at :: pyval
  tf_expires_at :: pyval
  tf_client_id :: pyval
  tf_client_secret :: pyval
  tf_scope :: pyval
  tf_write_origin :: pystr

definition token_blob :: "token_fields \<Rightarrow> dict" where
  "token_blob f =
     [(lit ''access_token'', PStr (tf_access_token f)), (lit ''refresh_token'', tf_refresh_token f),
      (lit ''issued_at'', tf_issued_at f), (lit ''expires_at'', tf_expires_at f), (lit ''client_id'', tf_client_id f),
      (lit ''client_secret'', tf_client_secret f), (lit ''scope'', tf_scope f),
      (lit ''write_origin'', PStr (tf_write_origin f)), (lit ''written_at'', tf_issued_at f)]"

definition with_provenance :: "dict \<Rightarrow> token_fields \<Rightarrow> dict" where
  "with_provenance d f = dset (dset d (lit ''write_origin'') (PStr (tf_write_origin f))) (lit ''written_at'') (tf_issued_at f)"

definition tokens_store :: "'k token_store \<Rightarrow> token_fields \<Rightarrow> ('k token_env, unit) pm" where
  "tokens_store T f =
     (if tf_write_origin f \<notin> set write_origins then praise (Py ValueError)
      else pbind (plift (ts_dumps T (token_blob f))) (\<lambda>blob.
        pbind (lift_pm te_keys put_keys (aead_seal (ts_cipher T) blob token_type 1)) (\<lambda>sealed.
        kv_put tokens_kv token_key (with_provenance (sealed_to_dict sealed) f))))"

text \<open>The provenance check of \<open>_open\<close>; a list or a dict cannot be looked up in the frozen set.\<close>

definition check_provenance :: "dict \<Rightarrow> dict \<Rightarrow> unit res" where
  "check_provenance raw data =
     (let outer_origin = dget raw (lit ''write_origin''); inner_origin = dget data (lit ''write_origin'');
          outer_at = dget raw (lit ''written_at''); inner_at = dget data (lit ''written_at'')
      in if outer_origin = PNone \<and> inner_origin = PNone then Inr ()
         else if \<not> py_eq outer_origin inner_origin then Inl (Key KeyMaterialError)
         else case outer_origin of
           PStr origin \<Rightarrow> rguard (origin \<in> set write_origins \<and> py_eq outer_at inner_at) (Key KeyMaterialError)
         | PList _ \<Rightarrow> Inl (Py TypeError)
         | PDict _ \<Rightarrow> Inl (Py TypeError)
         | _ \<Rightarrow> Inl (Key KeyMaterialError))"

definition tokens_open :: "'k token_store \<Rightarrow> ('k token_env, dict) pm" where
  "tokens_open T = pbind (kv_get tokens_kv token_key) (\<lambda>row. case row of
     None \<Rightarrow> praise (Key KeyUnavailableError)
   | Some raw \<Rightarrow>
       pbind (plift (sealed_from_dict (PDict raw))) (\<lambda>sealed.
       pbind (lift_pm te_keys put_keys (aead_open (ts_cipher T) sealed)) (\<lambda>plaintext.
       pbind (plift (ts_loads T plaintext)) (\<lambda>data. case data of
         PDict d \<Rightarrow>
           (if as_str (dget d (lit ''access_token'')) = None then praise (Key KeyMaterialError)
            else pbind (plift (check_provenance raw d)) (\<lambda>_. preturn d))
       | _ \<Rightarrow> praise (Py AttributeError)))))"

text \<open>\<open>record["access_token"]\<close>; \<open>_open\<close> has seen that it is a text.\<close>

definition access_token_of :: "dict \<Rightarrow> pystr res" where
  "access_token_of d = (case dget d (lit ''access_token'') of PStr a \<Rightarrow> Inr a | _ \<Rightarrow> Inl (Py KeyError))"

definition tokens_access_token :: "'k token_store \<Rightarrow> ('k token_env, pystr) pm" where
  "tokens_access_token T = pbind (tokens_open T) (\<lambda>d. plift (access_token_of d))"

definition token_record :: "'k token_store \<Rightarrow> ('k token_env, dict) pm" where
  "token_record T = tokens_open T"

text \<open>\<open>v or w\<close>.\<close>

definition py_or :: "pyval \<Rightarrow> pyval \<Rightarrow> pyval" where
  "py_or v w = (if truthy v then v else w)"

definition refreshed_fields :: "dict \<Rightarrow> pystr \<Rightarrow> int \<Rightarrow> pyval \<Rightarrow> pyval \<Rightarrow> pyval \<Rightarrow> token_fields" where
  "refreshed_fields current access_token issued_at expires_at refresh_token scope =
     \<lparr>tf_access_token = access_token, tf_refresh_token = py_or refresh_token (dget current (lit ''refresh_token'')),
      tf_issued_at = PInt issued_at, tf_expires_at = expires_at,
      tf_client_id = dget current (lit ''client_id''), tf_client_secret = dget current (lit ''client_secret''),
      tf_scope = py_or scope (dget current (lit ''scope'')), tf_write_origin = lit ''refresh''\<rparr>"

definition replace_access_token ::
  "'k token_store \<Rightarrow> pystr \<Rightarrow> int \<Rightarrow> pyval \<Rightarrow> pyval \<Rightarrow> pyval \<Rightarrow> ('k token_env, unit) pm" where
  "replace_access_token T access_token issued_at expires_at refresh_token scope =
     pbind (tokens_open T) (\<lambda>current.
     tokens_store T (refreshed_fields current access_token issued_at expires_at refresh_token scope))"

subsection \<open>Storage\<close>

interpretation tkdb: kv_live tokens_kv token_rows "\<lambda>s. clean (te_kv s)" "\<lambda>s. healthy (te_kv s)"
  unfolding tokens_kv_def token_rows_def
  by (rule kv_live_lift [OF sqlite.kv_live_axioms]) (simp_all add: put_kv_def)

lemma tokens_kv_keys: "keeps te_keys (kv_get tokens_kv k)" "keeps te_keys (kv_put tokens_kv k v)"
  by (auto simp: keeps_def tokens_kv_def lift_pm_iff put_kv_def)

text \<open>The record is read from four members, whatever else the row carries.\<close>

lemma sealed_from_dict_cong:
  assumes "\<And>k. k \<in> {lit ''version'', lit ''record_type'', lit ''nonce'', lit ''ciphertext''} \<Longrightarrow> map_of d k = map_of e k"
  shows "sealed_from_dict (PDict d) = sealed_from_dict (PDict e)"
proof -
  have "b64_field d k = b64_field e k" "dget d k = dget e k" "k \<in> dkeys d \<longleftrightarrow> k \<in> dkeys e"
    if "k \<in> {lit ''version'', lit ''record_type'', lit ''nonce'', lit ''ciphertext''}" for k
    using assms [OF that] map_of_None_dkeys [of d k] map_of_None_dkeys [of e k]
    by (simp_all add: b64_field_def dindex_def dget_def)
  then show ?thesis by (simp add: sealed_from_dict_def)
qed

lemma sealed_from_provenance: "sealed_from_dict (PDict (with_provenance d f)) = sealed_from_dict (PDict d)"
  by (rule sealed_from_dict_cong) (auto simp: with_provenance_def)

lemma provenance_dget:
  "dget (with_provenance d f) (lit ''write_origin'') = PStr (tf_write_origin f)"
  "dget (with_provenance d f) (lit ''written_at'') = tf_issued_at f"
  by (simp_all add: with_provenance_def dget_dset)

lemma blob_dget:
  "dget (token_blob f) (lit ''access_token'') = PStr (tf_access_token f)"
  "dget (token_blob f) (lit ''refresh_token'') = tf_refresh_token f"
  "dget (token_blob f) (lit ''issued_at'') = tf_issued_at f"
  "dget (token_blob f) (lit ''expires_at'') = tf_expires_at f"
  "dget (token_blob f) (lit ''client_id'') = tf_client_id f"
  "dget (token_blob f) (lit ''client_secret'') = tf_client_secret f"
  "dget (token_blob f) (lit ''scope'') = tf_scope f"
  "dget (token_blob f) (lit ''write_origin'') = PStr (tf_write_origin f)"
  "dget (token_blob f) (lit ''written_at'') = tf_issued_at f"
  by (simp_all add: token_blob_def dget_def)

lemma check_provenance_Inr:
  "check_provenance raw data = Inr () \<longleftrightarrow>
     dget raw (lit ''write_origin'') = PNone \<and> dget data (lit ''write_origin'') = PNone \<or>
     (\<exists>origin \<in> set write_origins. dget raw (lit ''write_origin'') = PStr origin \<and>
        dget data (lit ''write_origin'') = PStr origin \<and>
        py_eq (dget raw (lit ''written_at'')) (dget data (lit ''written_at'')))"
  by (cases "dget raw (lit ''write_origin'')") (auto simp: check_provenance_def Let_def rguard_def)

subsection \<open>What is stored opens\<close>

definition codec_ok :: "'k token_store \<Rightarrow> dict \<Rightarrow> bool" where
  "codec_ok T d \<longleftrightarrow> (\<exists>p. ts_dumps T d = Inr p \<and> is_bytes p \<and> ts_loads T p = Inr (PDict d))"

text \<open>Storage, cipher, keychain and random source are in order.\<close>

definition vault_ready :: "'k token_store \<Rightarrow> 'k token_env \<Rightarrow> bool" where
  "vault_ready T s \<longleftrightarrow> healthy (te_kv s) \<and> gcm_exact (ci_gcm (ts_cipher T)) \<and> gcm_bytes (ci_gcm (ts_cipher T)) \<and>
     (\<exists>key. steady_key (ts_cipher T) key) \<and>
     (\<forall>k. \<exists>n k'. ci_nonce (ts_cipher T) k = (Inr n, k') \<and> length n = nonce_len \<and> is_bytes n)"

lemma tokens_get_healthy: "healthy (te_kv s) \<Longrightarrow> kv_get tokens_kv token_key s = (Inr (token_rows s token_key), s)"
  by (rule tkdb.get_live)

lemma tokens_open_keys:
  assumes "healthy (te_kv s)" "token_rows s token_key = Some raw" "sealed_from_dict (PDict raw) = Inr sealed"
    and "aead_open (ts_cipher T) sealed (te_keys s) = (Inr p, k)" "ts_loads T p = Inr (PDict d)"
    and "dget d (lit ''access_token'') = PStr a" "check_provenance raw d = Inr ()"
  shows "tokens_open T s = (Inr d, put_keys k s)"
  using assms by (simp add: tokens_open_def tokens_get_healthy lift_pm_def put_keys_def pm_simps)

lemma tokens_open_row:
  assumes "healthy (te_kv s)" "token_rows s token_key = Some raw" "sealed_from_dict (PDict raw) = Inr sealed"
    and "aead_open (ts_cipher T) sealed (te_keys s) = (Inr p, te_keys s)" "ts_loads T p = Inr (PDict d)"
    and "dget d (lit ''access_token'') = PStr a" "check_provenance raw d = Inr ()"
  shows "tokens_open T s = (Inr d, s)"
  using tokens_open_keys [OF assms] by (simp add: put_keys_def)

lemma tokens_store_opens:
  assumes "vault_ready T s" "codec_ok T (token_blob f)" "tf_write_origin f \<in> set write_origins"
    and "py_eq (tf_issued_at f) (tf_issued_at f)"
  obtains t where "tokens_store T f s = (Inr (), t)" "vault_ready T t" "tokens_open T t = (Inr (token_blob f), t)"
    "\<And>key. key \<noteq> token_key \<Longrightarrow> token_rows t key = token_rows s key"
proof -
  from assms(1) obtain key n k where v: "healthy (te_kv s)" "gcm_exact (ci_gcm (ts_cipher T))" "gcm_bytes (ci_gcm (ts_cipher T))"
    "steady_key (ts_cipher T) key" "ci_nonce (ts_cipher T) (te_keys s) = (Inr n, k)" "length n = nonce_len" "is_bytes n"
    unfolding vault_ready_def by blast
  from assms(2) obtain p where p: "ts_dumps T (token_blob f) = Inr p" "is_bytes p" "ts_loads T p = Inr (PDict (token_blob f))"
    unfolding codec_ok_def by blast
  have "encodable token_type" "token_type \<noteq> []" by (simp_all add: token_type_def lit_def surrogate_def)
  then obtain ad where ad: "aad (PStr token_type) (PInt 1) = Inr ad" by (auto simp: aad_Inr)
  define r where "r = \<lparr>sr_version = 1, sr_record_type = token_type, sr_nonce = n,
    sr_ciphertext = gcm_encrypt (ci_gcm (ts_cipher T)) key n p ad\<rparr>"
  have seal: "aead_seal (ts_cipher T) p token_type 1 (te_keys s) = (Inr r, k)"
    using ad v(4-6) by (auto simp: aead_seal_Inr steady_key_def r_def)
  have r: "sealed_from_dict (PDict (sealed_to_dict r)) = Inr r"
    using v(3,6,7) p(2) ad by (intro sealed_from_to) (auto simp: r_def gcm_bytes_def)
  have opened: "aead_open (ts_cipher T) r u = (Inr p, u)" for u
    using seal_open [OF v(2) p(2) v(4) seal] .
  let ?s = "put_keys k s" and ?raw = "with_provenance (sealed_to_dict r) f"
  have "healthy (te_kv ?s)" using v(1) by (simp add: put_keys_def)
  from tkdb.put_returns [OF this, of token_key ?raw] obtain t where
    t: "kv_put tokens_kv token_key ?raw ?s = (Inr (), t)" "healthy (te_kv t)"
      "token_rows t = (token_rows ?s)(token_key \<mapsto> ?raw)" by blast
  have st: "tokens_store T f s = (Inr (), t)"
    using assms(3) p(1) seal t(1) by (simp add: tokens_store_def pbind_def plift_def lift_pm_def)
  have "check_provenance ?raw (token_blob f) = Inr ()"
    using assms(3,4) by (auto simp: check_provenance_Inr provenance_dget blob_dget)
  then have "tokens_open T t = (Inr (token_blob f), t)"
    using t r opened p(3) by (intro tokens_open_row) (simp_all add: sealed_from_provenance blob_dget)
  moreover have "vault_ready T t" using assms(1) t(2) by (simp add: vault_ready_def)
  ultimately show thesis using st t(3) by (intro that [of t]) (auto simp: put_keys_def token_rows_def)
qed

lemma tokens_open_frame:
  assumes "clean (te_kv s)" "tokens_open T s = (r, t)"
  shows "clean (te_kv t) \<and> token_rows t = token_rows s"
proof -
  obtain q u where q: "kv_get tokens_kv token_key s = (q, u)" by fastforce
  from tkdb.get_atomic [OF assms(1) q] have u: "clean (te_kv u)" "token_rows u = token_rows s" by simp_all
  have "keeps te_kv (case row of None \<Rightarrow> praise e | Some raw \<Rightarrow>
       pbind (plift (sealed_from_dict (PDict raw))) (\<lambda>sealed.
       pbind (lift_pm te_keys put_keys (aead_open (ts_cipher T) sealed)) (\<lambda>plaintext.
       pbind (plift (ts_loads T plaintext)) (\<lambda>data. case data of
         PDict d \<Rightarrow>
           (if as_str (dget d (lit ''access_token'')) = None then praise (Key KeyMaterialError)
            else pbind (plift (check_provenance raw d)) (\<lambda>_. preturn d))
       | _ \<Rightarrow> praise (Py AttributeError)))))" for row e
    by (cases row) (auto intro!: keeps_intro keys_keep split: pyval.splits)
  from keepsD [OF this] have "te_kv t = te_kv u" if "\<exists>row. q = Inr row"
    using assms(2) q that unfolding tokens_open_def pbind_def [of "kv_get tokens_kv token_key"] by fastforce
  moreover have "t = u" if "\<exists>e. q = Inl e"
    using assms(2) q that by (auto simp: tokens_open_def pbind_def)
  ultimately show ?thesis using u by (cases q) (auto simp: token_rows_def)
qed

text \<open>
  What an authentic token record is: the row was encrypted under the key the provider hands out now, with the version and type of
  the row as associated data, to a dictionary with an access token whose provenance is the one written beside the ciphertext.
\<close>

definition authentic_token :: "'k token_store \<Rightarrow> (pystr \<Rightarrow> dict option) \<Rightarrow> 'k \<Rightarrow> dict \<Rightarrow> 'k \<Rightarrow> bool" where
  "authentic_token T rows keys d keys' \<longleftrightarrow> (\<exists>raw sealed key ad p.
     rows token_key = Some raw \<and> sealed_from_dict (PDict raw) = Inr sealed \<and>
     ci_get_dek (ts_cipher T) keys = (Inr key, keys') \<and> length key = dek_len \<and>
     aad (PStr (sr_record_type sealed)) (PInt (sr_version sealed)) = Inr ad \<and> is_bytes p \<and>
     gcm_encrypt (ci_gcm (ts_cipher T)) key (sr_nonce sealed) p ad = sr_ciphertext sealed \<and> ts_loads T p = Inr (PDict d) \<and>
     (\<exists>a. dget d (lit ''access_token'') = PStr a) \<and>
     (dget raw (lit ''write_origin'') = PNone \<and> dget d (lit ''write_origin'') = PNone \<or>
      dget raw (lit ''write_origin'') = dget d (lit ''write_origin'') \<and>
      dget raw (lit ''write_origin'') \<in> PStr ` set write_origins \<and>
      py_eq (dget raw (lit ''written_at'')) (dget d (lit ''written_at''))))"

lemma provenance_agrees:
  "check_provenance raw d = Inr () \<longleftrightarrow>
     (dget raw (lit ''write_origin'') = PNone \<and> dget d (lit ''write_origin'') = PNone \<or>
      dget raw (lit ''write_origin'') = dget d (lit ''write_origin'') \<and>
      dget raw (lit ''write_origin'') \<in> PStr ` set write_origins \<and>
      py_eq (dget raw (lit ''written_at'')) (dget d (lit ''written_at'')))"
  unfolding check_provenance_Inr by force

lemma open_authentic:
  assumes "gcm_exact (ci_gcm (ts_cipher T))"
  shows "authentic_token T rows keys d keys' \<longleftrightarrow> (\<exists>raw sealed p a. rows token_key = Some raw \<and>
    sealed_from_dict (PDict raw) = Inr sealed \<and> aead_open (ts_cipher T) sealed keys = (Inr p, keys') \<and>
    ts_loads T p = Inr (PDict d) \<and> dget d (lit ''access_token'') = PStr a \<and> check_provenance raw d = Inr ())"
  using assms unfolding authentic_token_def provenance_agrees [symmetric] aead_open_Inr gcm_exact_def by blast

lemma tokens_open_authentic:
  assumes "clean (te_kv s)" "gcm_exact (ci_gcm (ts_cipher T))" "tokens_open T s = (Inr d, t)"
  shows "authentic_token T (token_rows s) (te_keys s) d (te_keys t)"
proof -
  obtain q u where q: "kv_get tokens_kv token_key s = (q, u)" by fastforce
  from tkdb.get_atomic [OF assms(1) q] assms(3) q have row: "q = Inr (token_rows s token_key)"
    by (cases q) (auto simp: tokens_open_def pbind_def)
  from keepsD [OF tokens_kv_keys(1) q] have u: "te_keys u = te_keys s" .
  from assms(3) q row obtain raw where raw: "token_rows s token_key = Some raw"
    by (cases "token_rows s token_key") (auto simp: tokens_open_def pbind_def)
  with assms(3) q row obtain sealed p v w where s: "sealed_from_dict (PDict raw) = Inr sealed"
    "lift_pm te_keys put_keys (aead_open (ts_cipher T) sealed) u = (Inr p, v)" "ts_loads T p = Inr w"
    "(case w of PDict e \<Rightarrow>
           (if as_str (dget e (lit ''access_token'')) = None then praise (Key KeyMaterialError)
            else pbind (plift (check_provenance raw e)) (\<lambda>_. preturn e))
       | _ \<Rightarrow> praise (Py AttributeError)) v = (Inr d, t)"
    by (auto simp: tokens_open_def pm_inv)
  then have d: "w = PDict d \<and> t = v \<and> (\<exists>a. dget d (lit ''access_token'') = PStr a) \<and> check_provenance raw d = Inr ()"
    by (cases w; auto simp: pm_inv split: if_splits)
  from s(2) u d have "aead_open (ts_cipher T) sealed (te_keys s) = (Inr p, te_keys t)" by (auto simp: lift_pm_iff put_keys_def)
  with raw s d show ?thesis unfolding open_authentic [OF assms(2)] by blast
qed

subsection \<open>Properties\<close>

definition toy_fields :: token_fields where
  "toy_fields = \<lparr>tf_access_token = [], tf_refresh_token = PNone, tf_issued_at = PInt 1, tf_expires_at = PNone,
     tf_client_id = PNone, tf_client_secret = PNone, tf_scope = PNone, tf_write_origin = lit ''authorize''\<rparr>"

definition toy_vault :: "unit token_store" where
  "toy_vault = \<lparr>ts_cipher = toy_cipher, ts_dumps = \<lambda>_. Inr [1, 2, 3], ts_loads = \<lambda>_. Inr (PDict (token_blob toy_fields))\<rparr>"

lemma toy_vault_ready: "vault_ready toy_vault toy_tokens" "codec_ok toy_vault (token_blob toy_fields)"
  using toy_gcm_laws toy_cipher_key(1,2) toy_tokens_ok(1)
  by (auto simp: vault_ready_def toy_vault_def codec_ok_def is_bytes_def) (simp add: toy_cipher_def nonce_len_def)

text \<open>
  The token at rest.  Stored with storage, keychain and random source in order, the token opens to what was stored,
  the access token with it, and no other row of the database changes.
\<close>

theorem sealed_token_roundtrip:
  assumes "vault_ready T s" "codec_ok T (token_blob f)" "tf_write_origin f \<in> set write_origins"
    and "py_eq (tf_issued_at f) (tf_issued_at f)"
  shows "\<exists>t. tokens_store T f s = (Inr (), t) \<and> token_record T t = (Inr (token_blob f), t) \<and>
    tokens_access_token T t = (Inr (tf_access_token f), t) \<and>
    (\<forall>key. key \<noteq> token_key \<longrightarrow> token_rows t key = token_rows s key)"
proof -
  obtain t where t: "tokens_store T f s = (Inr (), t)" "tokens_open T t = (Inr (token_blob f), t)"
    "\<And>key. key \<noteq> token_key \<Longrightarrow> token_rows t key = token_rows s key"
    using tokens_store_opens [OF assms] by metis
  then have "tokens_access_token T t = (Inr (tf_access_token f), t)"
    by (simp add: tokens_access_token_def pm_simps access_token_of_def blob_dget)
  with t show ?thesis by (auto simp: token_record_def)
qed

theorem sealed_token_roundtrip_witness:
  "\<exists>t. tokens_store toy_vault toy_fields toy_tokens = (Inr (), t) \<and> tokens_access_token toy_vault t = (Inr [], t)"
  using sealed_token_roundtrip [OF toy_vault_ready] by (auto simp: toy_fields_def write_origins_def)



text \<open>
  The type of a sealed record is not enforced by who opens it.  The associated data is built from the type the row
  itself names, so any record sealed under the key, for whatever purpose, opens as the token of the send path when it
  stands in its row and carries a text under \<open>access_token\<close>: a record of another type is not refused.
\<close>

theorem foreign_record_opens:
  assumes "healthy (te_kv s)" "gcm_exact (ci_gcm (ts_cipher T))" "gcm_bytes (ci_gcm (ts_cipher T))" "steady_key (ts_cipher T) key"
    and "\<And>k n k'. ci_nonce (ts_cipher T) k = (Inr n, k') \<Longrightarrow> is_bytes n"
    and "aead_seal (ts_cipher T) p other_type 1 k = (Inr sealed, k')" "is_bytes p" "ts_loads T p = Inr (PDict d)"
    and "token_rows s token_key = Some (sealed_to_dict sealed)"
    and "dget d (lit ''access_token'') = PStr a" "dget d (lit ''write_origin'') = PNone"
  shows "sr_record_type sealed = other_type \<and> tokens_access_token T s = (Inr a, s)"
proof -
  have r: "sealed_from_dict (PDict (sealed_to_dict sealed)) = Inr sealed \<and> sr_record_type sealed = other_type \<and> sr_version sealed = 1"
    by (rule seal_shape [OF assms(3,7) _ assms(6)]) (rule assms(5))
  have "dget (sealed_to_dict sealed) (lit ''write_origin'') = PNone" by (simp add: sealed_to_dict_def dget_def)
  with assms(11) have "check_provenance (sealed_to_dict sealed) d = Inr ()" by (simp add: check_provenance_def)
  with r assms(1,8-10) seal_open [OF assms(2,7,4,6)] have "tokens_open T s = (Inr d, s)"
    by (intro tokens_open_row) auto
  with r assms(10) show ?thesis by (simp add: tokens_access_token_def pm_simps access_token_of_def)
qed

definition foreign_vault :: "unit token_store" where
  "foreign_vault = toy_vault\<lparr>ts_loads := \<lambda>_. Inr (PDict [(lit ''access_token'', PStr (lit ''a''))])\<rparr>"

theorem foreign_record_opens_witness:
  "\<exists>(sealed :: sealed_record) s. sr_record_type sealed = record_type \<and> record_type \<noteq> token_type \<and>
     tokens_access_token foreign_vault s = (Inr (lit ''a''), s)"
proof -
  have "encodable record_type" by (simp add: record_type_def lit_def surrogate_def)
  then obtain r where r: "aead_seal toy_cipher [1, 2, 3] record_type 1 () = (Inr r, ())"
    by (simp add: aead_seal_Inr toy_cipher_def aad_Inr nonce_len_def dek_len_def record_type_def)
  define s :: "unit token_env" where
    "s = \<lparr>te_kv = (empty_sqlite [])\<lparr>sq_committed := [(token_key, sealed_to_dict r)]\<rparr>, te_keys = ()\<rparr>"
  have c: "ts_cipher foreign_vault = toy_cipher" by (simp add: foreign_vault_def toy_vault_def)
  have s: "healthy (te_kv s)" "token_rows s token_key = Some (sealed_to_dict r)"
    by (simp_all add: s_def empty_sqlite_def healthy_def clean_def token_rows_def)
  have d: "dget [(lit ''access_token'', PStr (lit ''a''))] (lit ''access_token'') = PStr (lit ''a'')"
    "dget [(lit ''access_token'', PStr (lit ''a''))] (lit ''write_origin'') = PNone" by (simp_all add: dget_def)
  have "sr_record_type r = record_type \<and> tokens_access_token foreign_vault s = (Inr (lit ''a''), s)"
  proof (rule foreign_record_opens)
    show "aead_seal (ts_cipher foreign_vault) [1, 2, 3] record_type 1 () = (Inr r, ())" using r by (simp add: c)
    show "is_bytes n" if "ci_nonce (ts_cipher foreign_vault) k = (Inr n, k')" for k n k'
      using that c toy_cipher_key(3) by simp
  qed (use s c d toy_gcm_laws toy_cipher_key(1,2) in \<open>simp_all add: foreign_vault_def is_bytes_def\<close>)
  moreover have "record_type \<noteq> token_type" by (simp add: record_type_def token_type_def)
  ultimately show ?thesis by blast
qed

end
