(* ===== verification/Token_Endpoint.thy ===== *)
theory Token_Endpoint
  imports Egress Sealed_Tokens
begin

text \<open>
  The callers of Google's token endpoint: \<open>TokenResult\<close> and the code exchange of \<open>gateway/oauth_listener.py\<close>,
  \<open>gateway/token_revoke.py\<close>.  \<open>json.loads(body.decode("utf-8"))\<close> is the parameter \<open>loads\<close>; the revoker's worker
  thread runs its call to the end, so it is a call.
\<close>

definition oauth_allow_hosts :: "pystr list" where
  "oauth_allow_hosts = [lit ''oauth2.googleapis.com'']"

definition form_headers :: "(pystr \<times> pystr) list" where
  "form_headers = [(lit ''Content-Type'', lit ''application/x-www-form-urlencoded'')]"

definition post_form :: "('u, 's) egress \<Rightarrow> form_request \<Rightarrow> ('s, http_response) pm" where
  "post_form C rq = pbind (plift (urlencode (fr_body rq))) (\<lambda>body. egress_post C (fr_endpoint rq) form_headers body)"

definition ok_status :: "int \<Rightarrow> bool" where
  "ok_status st \<longleftrightarrow> 200 \<le> st \<and> st < 300"

subsection \<open>Token responses\<close>

record token_result =
  tr_access_token :: pystr
  tr_refresh_token :: pyval
  tr_expires_in :: "int option"
  tr_scope :: pyval
  tr_token_type :: pyval
  tr_received_at :: "int option"

definition token_from_response :: "(bytes \<Rightarrow> pyval res) \<Rightarrow> bytes \<Rightarrow> token_result res" where
  "token_from_response loads body =
     rbind (rcatch (loads body) (\<lambda>e. Inl (if is_value_error e then OAuth OAuthExchangeError else e))) (\<lambda>data.
     case data of
       PDict d \<Rightarrow> (case dget d (lit ''access_token'') of
           PStr a \<Rightarrow> Inr \<lparr>tr_access_token = a, tr_refresh_token = dget d (lit ''refresh_token''),
             tr_expires_in = as_int (dget d (lit ''expires_in'')), tr_scope = dget d (lit ''scope''),
             tr_token_type = dget d (lit ''token_type''), tr_received_at = None\<rparr>
         | _ \<Rightarrow> Inl (OAuth OAuthExchangeError))
     | _ \<Rightarrow> Inl (OAuth OAuthExchangeError))"

text \<open>\<open>__repr__\<close>, over \<open>repr\<close> of a value.\<close>

definition opt_int :: "int option \<Rightarrow> pyval" where
  "opt_int i = (case i of None \<Rightarrow> PNone | Some n \<Rightarrow> PInt n)"

definition token_repr :: "(pyval \<Rightarrow> pystr) \<Rightarrow> token_result \<Rightarrow> pystr" where
  "token_repr py_repr r =
     lit ''TokenResult(access_token=<redacted>, refresh_token='' @
     (if truthy (tr_refresh_token r) then lit ''<redacted>'' else lit ''None'') @
     lit '', expires_in='' @ py_repr (opt_int (tr_expires_in r)) @ lit '', scope='' @ py_repr (tr_scope r) @
     lit '', token_type='' @ py_repr (tr_token_type r) @
     lit '', received_at='' @ py_repr (opt_int (tr_received_at r)) @ lit '')''"

subsection \<open>The code exchange\<close>

definition safe_error :: "(bytes \<Rightarrow> pyval res) \<Rightarrow> http_response \<Rightarrow> pystr res" where
  "safe_error loads resp =
     rmap (\<lambda>err. case err of PStr e \<Rightarrow> e | _ \<Rightarrow> lit ''HTTP '' @ dec_int (hr_status resp))
       (rcatch (rmap (\<lambda>data. case data of PDict d \<Rightarrow> dget d (lit ''error'') | _ \<Rightarrow> PNone) (loads (hr_body resp)))
         (\<lambda>e. if is_value_error e then Inr PNone else Inl e))"

text \<open>The configuration of a \<open>LoopbackOAuthFlow\<close>; the message of the error it raises is \<open>safe_error\<close>'s.\<close>

record ('u, 's) oauth_flow =
  of_client_id :: pystr
  of_client_secret :: "pystr option"
  of_egress :: "('u, 's) egress"
  of_scopes :: "pystr set"
  of_host :: pystr
  of_callback_path :: pystr
  of_auth_endpoint :: pystr
  of_token_endpoint :: pystr
  of_now :: "('s, int) pm"
  of_loads :: "bytes \<Rightarrow> pyval res"

definition exchange_answer :: "('u, 's) oauth_flow \<Rightarrow> http_response \<Rightarrow> ('s, token_result) pm" where
  "exchange_answer F resp =
     (if \<not> ok_status (hr_status resp)
      then pbind (plift (safe_error (of_loads F) resp)) (\<lambda>_. praise (OAuth OAuthExchangeError))
      else pbind (plift (token_from_response (of_loads F) (hr_body resp))) (\<lambda>parsed.
        pbind (of_now F) (\<lambda>now. preturn (parsed\<lparr>tr_received_at := Some now\<rparr>))))"

definition exchange_code :: "('u, 's) oauth_flow \<Rightarrow> pystr \<Rightarrow> pystr \<Rightarrow> pystr \<Rightarrow> ('s, token_result) pm" where
  "exchange_code F code verifier redirect_uri =
     pbind (plift (build_token_exchange_request (eg_urlsplit (of_egress F)) code verifier (of_client_id F) redirect_uri
       (of_client_secret F) (of_token_endpoint F))) (\<lambda>rq.
     pbind (post_form (of_egress F) rq) (exchange_answer F))"

subsection \<open>Revocation\<close>

datatype revoke_outcome = R_CONFIRMED | R_FAILED | R_UNKNOWN

record revoke_result =
  rv_outcome :: revoke_outcome
  rv_reason :: "pystr option"
  rv_egress_hosts :: "pystr list"

definition revoke_host :: pystr where
  "revoke_host = lit ''oauth2.googleapis.com''"

definition new_revoker :: "('u, 's) egress \<Rightarrow> unit res" where
  "new_revoker C = rguard (eg_allow C = set oauth_allow_hosts) (Py ValueError)"

definition revoke_classify :: "http_response \<Rightarrow> revoke_result" where
  "revoke_classify resp =
     (if ok_status (hr_status resp)
      then \<lparr>rv_outcome = R_CONFIRMED, rv_reason = None, rv_egress_hosts = [hr_host resp]\<rparr>
      else if 400 \<le> hr_status resp \<and> hr_status resp < 500
      then \<lparr>rv_outcome = R_FAILED, rv_reason = Some (lit ''rejected_'' @ dec_int (hr_status resp)),
        rv_egress_hosts = [hr_host resp]\<rparr>
      else \<lparr>rv_outcome = R_UNKNOWN, rv_reason = Some (lit ''server_'' @ dec_int (hr_status resp)),
        rv_egress_hosts = [hr_host resp]\<rparr>)"

definition revoke_failure :: "exn \<Rightarrow> revoke_result res" where
  "revoke_failure e = (case e of
     Gw (EgressBlockedError host) \<Rightarrow>
       Inr \<lparr>rv_outcome = R_UNKNOWN, rv_reason = Some (lit ''egress_blocked''),
         rv_egress_hosts = (if host = [] then [] else [host])\<rparr>
   | _ \<Rightarrow>
       if e = Py TimeoutError
       then Inr \<lparr>rv_outcome = R_UNKNOWN, rv_reason = Some (lit ''timeout''), rv_egress_hosts = [revoke_host]\<rparr>
       else if is_os_error e
       then Inr \<lparr>rv_outcome = R_UNKNOWN, rv_reason = Some (lit ''transport''), rv_egress_hosts = [revoke_host]\<rparr>
       else Inl e)"

definition revoke :: "('u, 's) egress \<Rightarrow> pystr \<Rightarrow> pystr \<Rightarrow> ('s, revoke_result) pm" where
  "revoke C endpoint token =
     pbind (plift (build_revoke_token_request token endpoint)) (\<lambda>rq.
     ptry (post_form C rq) (\<lambda>e. plift (revoke_failure e)) (\<lambda>resp. preturn (revoke_classify resp)))"

text \<open>\<open>make_disconnect_revoker\<close>; \<open>urlencode\<close> takes \<open>str\<close> of a token that is not a text.\<close>

definition text_of :: "(pyval \<Rightarrow> pystr) \<Rightarrow> pyval \<Rightarrow> pystr" where
  "text_of py_str v = (case v of PStr s \<Rightarrow> s | _ \<Rightarrow> py_str v)"

definition disconnect_revoke ::
  "(pyval \<Rightarrow> pystr) \<Rightarrow> ('u, 's) egress \<Rightarrow> pystr \<Rightarrow> dict \<Rightarrow> ('s, revoke_outcome \<times> pystr) pm" where
  "disconnect_revoke py_str C endpoint credentials =
     (let token = py_or (dget credentials (lit ''refresh_token'')) (dget credentials (lit ''access_token''))
      in if \<not> truthy token then preturn (R_UNKNOWN, lit ''no_token_in_record'')
         else pbind (revoke C endpoint (text_of py_str token)) (\<lambda>result.
           preturn (rv_outcome result, case rv_reason result of None \<Rightarrow> [] | Some reason \<Rightarrow> reason)))"

subsection \<open>Posts to the endpoint\<close>

lemma post_form_cases:
  assumes "post_form C rq s = (r, t)"
  obtains (unencodable) e where "urlencode (fr_body rq) = Inl e" "r = Inl e" "t = s"
  | (refused) e where "r = Inl e" "t = s" "\<And>host. \<not> admitted C (fr_endpoint rq) host"
  | (raised) b host e where "urlencode (fr_body rq) = Inr b" "admitted C (fr_endpoint rq) host"
      "eg_transport C (post_request (fr_endpoint rq) form_headers b) s = (Inl e, t)" "r = Inl e"
  | (answered) b host st body where "urlencode (fr_body rq) = Inr b" "admitted C (fr_endpoint rq) host"
      "eg_transport C (post_request (fr_endpoint rq) form_headers b) s = (Inr (st, body), t)"
      "r = Inr \<lparr>hr_status = st, hr_body = body, hr_host = host\<rparr>"
proof (cases "urlencode (fr_body rq)")
  case (Inl e)
  with assms unencodable show thesis by (auto simp: post_form_def)
next
  case (Inr b)
  with assms have "egress_post C (fr_endpoint rq) form_headers b s = (r, t)" by (simp add: post_form_def)
  then show thesis by (cases rule: egress_post_cases) (use Inr refused raised answered in blast)+
qed

lemma post_form_admitted:
  assumes "urlencode (fr_body rq) = Inr b" "admitted C (fr_endpoint rq) host"
  shows "post_form C rq s = (case eg_transport C (post_request (fr_endpoint rq) form_headers b) s of
     (Inl e, t) \<Rightarrow> (Inl e, t)
   | (Inr (st, x), t) \<Rightarrow> (Inr \<lparr>hr_status = st, hr_body = x, hr_host = host\<rparr>, t))"
  using assms egress_post_admitted [OF assms(2)] by (simp add: post_form_def)

lemma revoke_admitted:
  assumes "token \<noteq> []" "urlencode [(lit ''token'', token)] = Inr b" "admitted C endpoint host"
  shows "revoke C endpoint token s = (case eg_transport C (post_request endpoint form_headers b) s of
     (Inl e, t) \<Rightarrow> (revoke_failure e, t)
   | (Inr (st, x), t) \<Rightarrow> (Inr (revoke_classify \<lparr>hr_status = st, hr_body = x, hr_host = host\<rparr>), t))"
  using assms post_form_admitted [of "\<lparr>fr_endpoint = endpoint, fr_body = [(lit ''token'', token)]\<rparr>" b C host s]
  by (auto simp: revoke_def build_revoke_token_request_def rguard_def pm_simps split: prod.splits sum.splits)

lemma revoke_failure_outcome: "revoke_failure e = Inr res \<Longrightarrow> rv_outcome res = R_UNKNOWN"
  and revoke_failure_raises: "revoke_failure e = Inl x \<longleftrightarrow> x = e \<and> \<not> is_os_error e \<and> (\<forall>h. e \<noteq> Gw (EgressBlockedError h))"
  by (cases e; auto simp: revoke_failure_def is_os_error_def split: gw_exn.splits if_splits)+

subsection \<open>Properties\<close>

text \<open>
  C37. Three outcomes of a revocation.  The post that leaves the machine determines the token it is for; the outcome is
  CONFIRMED exactly when the provider answered 2xx and FAILED exactly when it answered 4xx, and does not depend on the body of
  the answer.  Only an exception of the transport that is neither an \<open>OSError\<close> nor a refusal of the client leaves the
  revoker, which its description (it never raises for a network outcome) does not have.
\<close>

theorem revoke_outcomes:
  assumes "token \<noteq> []" "urlencode [(lit ''token'', token)] = Inr b" "admitted C endpoint host"
    and "eg_transport C (post_request endpoint form_headers b) s = (reply, t)"
  shows "\<exists>r. revoke C endpoint token s = (r, t) \<and>
    (\<forall>form. urlencode form = Inr b \<longrightarrow> form = [(lit ''token'', token)]) \<and>
    ((\<exists>res. r = Inr res \<and> rv_outcome res = R_CONFIRMED) \<longleftrightarrow> (\<exists>st x. reply = Inr (st, x) \<and> 200 \<le> st \<and> st < 300)) \<and>
    ((\<exists>res. r = Inr res \<and> rv_outcome res = R_FAILED) \<longleftrightarrow> (\<exists>st x. reply = Inr (st, x) \<and> 400 \<le> st \<and> st < 500)) \<and>
    (\<forall>st x. reply = Inr (st, x) \<longrightarrow> r = Inr (revoke_classify \<lparr>hr_status = st, hr_body = [], hr_host = host\<rparr>)) \<and>
    (\<forall>e. r = Inl e \<longleftrightarrow> reply = Inl e \<and> \<not> is_os_error e \<and> (\<forall>h. e \<noteq> Gw (EgressBlockedError h)))"
proof -
  have form: "\<forall>form. urlencode form = Inr b \<longrightarrow> form = [(lit ''token'', token)]"
    using urlencode_inj assms(2) by blast
  show ?thesis
  proof (cases reply)
    case (Inl e)
    then have "revoke C endpoint token s = (revoke_failure e, t)"
      using revoke_admitted [OF assms(1-3), of s] assms(4) by simp
    with form Inl show ?thesis by (auto dest: revoke_failure_outcome simp: revoke_failure_raises)
  next
    case (Inr p)
    obtain st x where p: "p = (st, x)" by (cases p)
    then have "revoke C endpoint token s = (Inr (revoke_classify \<lparr>hr_status = st, hr_body = x, hr_host = host\<rparr>), t)"
      using revoke_admitted [OF assms(1-3), of s] assms(4) Inr by simp
    with form Inr p show ?thesis by (auto simp: revoke_classify_def ok_status_def)
  qed
qed

definition toy_split :: "pystr \<Rightarrow> url_parts res" where
  "toy_split u = Inr \<lparr>up_scheme = lit ''https'', up_username = None, up_password = None,
     up_hostname = Some (lit ''oauth2.googleapis.com''), up_port = Inr None\<rparr>"

definition toy_egress :: "int res \<Rightarrow> (unit, http_request list) egress" where
  "toy_egress reply = egress_client toy_split (set oauth_allow_hosts)
     (\<lambda>rq s. (rmap (\<lambda>st. (st, [123])) reply, s @ [rq]))"

lemma toy_admitted: "admitted (toy_egress reply) u (lit ''oauth2.googleapis.com'')"
  by (simp add: admitted_def toy_egress_def egress_client_def toy_split_def oauth_allow_hosts_def lower_ascii_def lit_def)

lemma toy_form: "urlencode [(lit ''token'', lit ''t'')] = Inr (lit ''token=t'')"
  by code_simp

theorem revoke_outcomes_witness:
  "fst (revoke (toy_egress (Inl (Py HTTPException))) default_revoke_endpoint (lit ''t'') []) = Inl (Py HTTPException) \<and>
   (\<exists>res. fst (revoke (toy_egress (Inr 200)) default_revoke_endpoint (lit ''t'') []) = Inr res \<and> rv_outcome res = R_CONFIRMED)"
proof -
  have t: "lit ''t'' \<noteq> []" by simp
  note r = revoke_outcomes [OF t toy_form toy_admitted, of _ default_revoke_endpoint "[]", OF prod.collapse [symmetric]]
  have "\<not> is_os_error (Py HTTPException)" by (simp add: is_os_error_def)
  with r [of "Inl (Py HTTPException)"] r [of "Inr 200"] show ?thesis
    by (auto simp: toy_egress_def egress_client_def)
qed

text \<open>
  The code exchange.  Tokens come back exactly after one post to the token endpoint, over HTTPS to an allowed host,
  whose body encodes the issued verifier and nothing a code could smuggle in; the answer was 2xx and carried an access
  token; the time stamp is the clock's after the answer; and the representation of the result shows neither token.
\<close>

theorem exchange_code_sound:
  assumes "exchange_code F code verifier redirect_uri s = (Inr result, t)"
  shows "\<exists>b host st body u now parsed.
    urlencode (with_secret (of_client_secret F) [(lit ''grant_type'', lit ''authorization_code''), (lit ''code'', code),
      (lit ''redirect_uri'', redirect_uri), (lit ''client_id'', of_client_id F), (lit ''code_verifier'', verifier)]) = Inr b \<and>
    (\<forall>form. urlencode form = Inr b \<longrightarrow> map_of form (lit ''code'') = Some code \<and> map_of form (lit ''code_verifier'') = Some verifier) \<and>
    match_to_dollar verifier_text verifier \<and> admitted (of_egress F) (of_token_endpoint F) host \<and>
    eg_transport (of_egress F) (post_request (of_token_endpoint F) form_headers b) s = (Inr (st, body), u) \<and>
    200 \<le> st \<and> st < 300 \<and> token_from_response (of_loads F) body = Inr parsed \<and> of_now F u = (Inr now, t) \<and>
    result = parsed\<lparr>tr_received_at := Some now\<rparr> \<and>
    (\<forall>f a x. truthy x = truthy (tr_refresh_token result) \<longrightarrow>
      token_repr f (result\<lparr>tr_access_token := a, tr_refresh_token := x\<rparr>) = token_repr f result)"
proof -
  let ?form = "with_secret (of_client_secret F) [(lit ''grant_type'', lit ''authorization_code''), (lit ''code'', code),
      (lit ''redirect_uri'', redirect_uri), (lit ''client_id'', of_client_id F), (lit ''code_verifier'', verifier)]"
  let ?rq = "\<lparr>fr_endpoint = of_token_endpoint F, fr_body = ?form\<rparr>"
  from assms obtain resp u parsed now where p: "match_to_dollar verifier_text verifier"
    "post_form (of_egress F) ?rq s = (Inr resp, u)" "ok_status (hr_status resp)"
    "token_from_response (of_loads F) (hr_body resp) = Inr parsed" "of_now F u = (Inr now, t)"
    "result = parsed\<lparr>tr_received_at := Some now\<rparr>"
    by (auto simp: exchange_code_def exchange_answer_def build_token_exchange_request_def validate_code_verifier_def pm_inv
        split: if_splits)
  from p(2) obtain b host st body where a: "urlencode ?form = Inr b" "admitted (of_egress F) (of_token_endpoint F) host"
    "eg_transport (of_egress F) (post_request (of_token_endpoint F) form_headers b) s = (Inr (st, body), u)"
    "resp = \<lparr>hr_status = st, hr_body = body, hr_host = host\<rparr>"
    by (cases rule: post_form_cases) auto
  have "map_of form (lit ''code'') = Some code \<and> map_of form (lit ''code_verifier'') = Some verifier"
    if "urlencode form = Inr b" for form
    using urlencode_inj [OF that a(1)] by (cases "of_client_secret F") (simp_all add: with_secret_def)
  moreover have "token_repr f (result\<lparr>tr_access_token := a, tr_refresh_token := x\<rparr>) = token_repr f result"
    if "truthy x = truthy (tr_refresh_token result)" for f a x
    using that by (simp add: token_repr_def)
  ultimately show ?thesis using p a by (auto simp: ok_status_def)
qed

definition loopback_split :: "pystr \<Rightarrow> url_parts res" where
  "loopback_split u = (if u = lit ''u'' then Inr \<lparr>up_scheme = lit ''http'', up_username = None, up_password = None,
     up_hostname = Some (lit ''127.0.0.1''), up_port = Inr (Some 8080)\<rparr> else toy_split u)"

definition toy_flow :: "(unit, http_request list) oauth_flow" where
  "toy_flow = \<lparr>of_client_id = lit ''c'', of_client_secret = None,
     of_egress = egress_client loopback_split (set oauth_allow_hosts) (\<lambda>rq s. (Inr (200, []), s @ [rq])),
     of_scopes = set v1_allowed_scopes, of_host = lit ''127.0.0.1'', of_callback_path = lit ''/cb'',
     of_auth_endpoint = lit ''https://a'', of_token_endpoint = default_token_endpoint, of_now = preturn 7,
     of_loads = \<lambda>_. Inr (PDict [(lit ''access_token'', PStr (lit ''a''))])\<rparr>"

theorem exchange_code_sound_witness:
  "\<exists>result t. exchange_code toy_flow (lit ''code'') (replicate 43 97) (lit ''u'') [] = (Inr result, t) \<and>
     (\<exists>u. of_now toy_flow u = (Inr 7, t)) \<and> tr_received_at result = Some 7"
proof -
  have "isl (fst (exchange_code toy_flow (lit ''code'') (replicate 43 97) (lit ''u'') [])) = False"
    by code_simp
  then obtain result t where r: "exchange_code toy_flow (lit ''code'') (replicate 43 97) (lit ''u'') [] = (Inr result, t)"
    by (cases "exchange_code toy_flow (lit ''code'') (replicate 43 97) (lit ''u'') []"; cases "fst (exchange_code toy_flow
      (lit ''code'') (replicate 43 97) (lit ''u'') [])") auto
  from exchange_code_sound [OF this] obtain u now parsed where "of_now toy_flow u = (Inr now, t)"
    "result = parsed\<lparr>tr_received_at := Some now\<rparr>" by blast
  with r show ?thesis by (auto simp: toy_flow_def)
qed

end
