(* ===== verification/Token_Refresh.thy ===== *)
theory Token_Refresh
  imports Token_Endpoint
begin

text \<open>
  \<open>gateway/token_refresh.py\<close>, on the outside of the send process: the requests that left the machine with what came back (a history
  variable), the answers the network will give, one per request and each of them a status with a body or an exception, the clock, and
  the token database with its keychain.  The per-connection lock makes a call one step.
\<close>

subsection \<open>The outside\<close>

record 'k outbound =
  ob_wire :: "(http_request \<times> (int \<times> bytes) res) list"
  ob_replies :: "(int \<times> bytes) res list"
  ob_clock :: "nat \<Rightarrow> int"
  ob_tokens :: "'k token_env"

definition put_tokens :: "'k token_env \<Rightarrow> 'k outbound \<Rightarrow> 'k outbound" where
  "put_tokens v s = s\<lparr>ob_tokens := v\<rparr>"

definition wire_transport :: "'k outbound transport" where
  "wire_transport rq s = (case ob_replies s of
     [] \<Rightarrow> (Inl (Py OSError), s\<lparr>ob_wire := ob_wire s @ [(rq, Inl (Py OSError))]\<rparr>)
   | reply # rest \<Rightarrow> (reply, s\<lparr>ob_wire := ob_wire s @ [(rq, reply)], ob_replies := rest\<rparr>))"

definition read_clock :: "('k outbound, int) pm" where
  "read_clock s = (Inr (ob_clock s 0), s\<lparr>ob_clock := ob_clock s \<circ> Suc\<rparr>)"

definition oauth_client :: "'u url_splitter \<Rightarrow> ('u, 'k outbound) egress" where
  "oauth_client urlsplit = egress_client urlsplit (set oauth_allow_hosts) wire_transport"

subsection \<open>The provider\<close>

record ('u, 'k) token_provider =
  tp_store :: "'k token_store"
  tp_client :: "('u, 'k outbound) egress"
  tp_skew :: int

definition new_provider :: "('u, 'k) token_provider \<Rightarrow> unit res" where
  "new_provider P =
     rbind (rguard (eg_allow (tp_client P) = set oauth_allow_hosts) (Py ValueError)) (\<lambda>_.
     rguard (0 \<le> tp_skew P) (Py ValueError))"

text \<open>\<open>s.split()\<close>.\<close>

fun split_words :: "pystr \<Rightarrow> pystr \<Rightarrow> pystr list" where
  "split_words w [] = (if w = [] then [] else [w])"
| "split_words w (c # s) =
     (if py_space c then (if w = [] then split_words [] s else w # split_words [] s) else split_words (w @ [c]) s)"

definition check_scope :: "pyval \<Rightarrow> unit res" where
  "check_scope scope = (case scope of
     PNone \<Rightarrow> Inr ()
   | PStr s \<Rightarrow> rguard (set (split_words [] s) = set v1_allowed_scopes) (OAuth TokenRefreshError)
   | _ \<Rightarrow> Inl (Py AttributeError))"

definition refresh_failure :: "exn \<Rightarrow> exn" where
  "refresh_failure e = (if (\<exists>h. e = Gw (EgressBlockedError h)) \<or> is_os_error e then OAuth TokenRefreshError else e)"

definition expiry :: "int \<Rightarrow> int option \<Rightarrow> pyval" where
  "expiry issued_at expires_in = (case expires_in of None \<Rightarrow> PNone | Some n \<Rightarrow> PInt (issued_at + n))"

text \<open>The answer of the token endpoint.\<close>

definition refresh_answer :: "('u, 'k) token_provider \<Rightarrow> http_response \<Rightarrow> ('k outbound, pystr) pm" where
  "refresh_answer P response =
     (if \<not> ok_status (hr_status response)
      then praise (OAuth (if hr_status response = 400 then ReauthorizationRequiredError else TokenRefreshError))
      else pbind (plift (rcatch (token_from_response (ts_loads (tp_store P)) (hr_body response))
          (\<lambda>e. Inl (if is_oauth_error e then OAuth TokenRefreshError else e)))) (\<lambda>result.
        pbind (plift (check_scope (tr_scope result))) (\<lambda>_.
        pbind read_clock (\<lambda>refreshed_at.
        pbind (lift_pm ob_tokens put_tokens (replace_access_token (tp_store P) (tr_access_token result) refreshed_at
            (expiry refreshed_at (tr_expires_in result)) (tr_refresh_token result) (tr_scope result))) (\<lambda>_.
        preturn (tr_access_token result))))))"

definition refresh_with ::
  "('u, 'k) token_provider \<Rightarrow> pystr \<Rightarrow> pystr \<Rightarrow> pystr option \<Rightarrow> ('k outbound, pystr) pm" where
  "refresh_with P refresh_token client_id client_secret =
     pbind (plift (build_refresh_token_request refresh_token client_id client_secret default_token_endpoint)) (\<lambda>rq.
     ptry (post_form (tp_client P) rq) (\<lambda>e. praise (refresh_failure e)) (refresh_answer P))"

definition refresh :: "('u, 'k) token_provider \<Rightarrow> dict \<Rightarrow> ('k outbound, pystr) pm" where
  "refresh P current = (case dget current (lit ''refresh_token'') of
     PStr refresh_token \<Rightarrow> (case dget current (lit ''client_id'') of
         PStr client_id \<Rightarrow> (case dget current (lit ''client_secret'') of
             PNone \<Rightarrow> refresh_with P refresh_token client_id None
           | PStr client_secret \<Rightarrow> refresh_with P refresh_token client_id (Some client_secret)
           | _ \<Rightarrow> praise (OAuth ReauthorizationRequiredError))
       | _ \<Rightarrow> praise (OAuth ReauthorizationRequiredError))
   | _ \<Rightarrow> praise (OAuth ReauthorizationRequiredError))"

definition access_token :: "('u, 'k) token_provider \<Rightarrow> ('k outbound, pystr) pm" where
  "access_token P =
     pbind (lift_pm ob_tokens put_tokens (token_record (tp_store P))) (\<lambda>current.
     case as_int (dget current (lit ''expires_at'')) of
       None \<Rightarrow> refresh P current
     | Some expires_at \<Rightarrow> pbind read_clock (\<lambda>now.
         if now < expires_at - tp_skew P then plift (access_token_of current) else refresh P current))"

subsection \<open>What leaves the machine\<close>

definition refresh_form :: "pystr \<Rightarrow> pystr \<Rightarrow> pystr option \<Rightarrow> (pystr \<times> pystr) list" where
  "refresh_form refresh_token client_id client_secret = with_secret client_secret
     [(lit ''grant_type'', lit ''refresh_token''), (lit ''refresh_token'', refresh_token), (lit ''client_id'', client_id)]"

lemma wire_transport_wire: "wire_transport rq s = (r, t) \<Longrightarrow>
    ob_wire t = ob_wire s @ [(rq, r)] \<and> ob_tokens t = ob_tokens s \<and> ob_clock t = ob_clock s"
  by (auto simp: wire_transport_def split: list.splits)

lemma keeps_lift: "(\<And>v s. f (put v s) = f s) \<Longrightarrow> keeps f (lift_pm get put m)"
  by (auto simp: keeps_def lift_pm_def split: prod.splits)

lemma wire_keep: "keeps ob_wire read_clock" "keeps ob_wire (lift_pm ob_tokens put_tokens m)"
  by (auto simp: read_clock_def put_tokens_def keeps_def lift_pm_def split: prod.splits)

lemma refresh_answer_keeps: "keeps ob_wire (refresh_answer P resp)"
  by (auto simp: refresh_answer_def intro!: keeps_intro wire_keep)

lemma refresh_with_wire:
  assumes "eg_transport (tp_client P) = wire_transport" "refresh_with P rt cid secret s = (r, t)"
  shows "ob_wire t = ob_wire s \<and> (\<exists>e. r = Inl e) \<or>
    (\<exists>b host reply. urlencode (refresh_form rt cid secret) = Inr b \<and> admitted (tp_client P) default_token_endpoint host \<and>
       ob_wire t = ob_wire s @ [(post_request default_token_endpoint form_headers b, reply)])"
proof (cases "rt = [] \<or> cid = []")
  case True
  with assms(2) show ?thesis
    by (cases "rt = []") (auto simp: refresh_with_def build_refresh_token_request_def rguard_def)
next
  case False
  let ?rq = "\<lparr>fr_endpoint = default_token_endpoint, fr_body = refresh_form rt cid secret\<rparr>"
  obtain q u where q: "post_form (tp_client P) ?rq s = (q, u)" by fastforce
  from False assms(2) q have c: "(case q of Inl e \<Rightarrow> (Inl (refresh_failure e), u) | Inr resp \<Rightarrow> refresh_answer P resp u) = (r, t)"
    by (cases q) (simp_all add: refresh_with_def build_refresh_token_request_def rguard_def refresh_form_def ptry_def)
  have k: "ob_wire t = ob_wire u"
    using c keepsD [OF refresh_answer_keeps] by (cases q) auto
  from q show ?thesis
  proof (cases rule: post_form_cases)
    case (raised b host e)
    with wire_transport_wire assms(1) k show ?thesis by fastforce
  next
    case (answered b host st body)
    with wire_transport_wire assms(1) k show ?thesis by fastforce
  qed (use c k in auto)
qed

lemma oauth_client_transport: "eg_transport (oauth_client urlsplit) = wire_transport"
  by (simp add: oauth_client_def egress_client_def)

text \<open>The stored credentials a refresh uses.\<close>

definition refresh_credentials :: "dict \<Rightarrow> pystr \<Rightarrow> pystr \<Rightarrow> pystr option \<Rightarrow> bool" where
  "refresh_credentials current rt cid secret \<longleftrightarrow> dget current (lit ''refresh_token'') = PStr rt \<and>
     dget current (lit ''client_id'') = PStr cid \<and>
     dget current (lit ''client_secret'') = (case secret of None \<Rightarrow> PNone | Some x \<Rightarrow> PStr x)"

lemma refresh_cases:
  assumes "refresh P current s = (r, t)"
  obtains (none) "r = Inl (OAuth ReauthorizationRequiredError)" "t = s"
  | (asked) rt cid secret where "refresh_credentials current rt cid secret" "refresh_with P rt cid secret s = (r, t)"
proof (cases "\<exists>rt cid secret. refresh_credentials current rt cid secret")
  case True
  then obtain rt cid secret where c: "refresh_credentials current rt cid secret" by blast
  then have "refresh_with P rt cid secret s = (r, t)"
    using assms by (cases secret) (simp_all add: refresh_def refresh_credentials_def)
  with c asked show thesis by blast
next
  case False
  have "refresh P current s = (Inl (OAuth ReauthorizationRequiredError), s)"
  proof (rule ccontr)
    assume "\<not> ?thesis"
    then obtain rt cid where "dget current (lit ''refresh_token'') = PStr rt" "dget current (lit ''client_id'') = PStr cid"
      "dget current (lit ''client_secret'') = PNone \<or> (\<exists>x. dget current (lit ''client_secret'') = PStr x)"
      by (auto simp: refresh_def split: pyval.splits)
    with False show False by (force simp: refresh_credentials_def split: option.splits)
  qed
  with assms none show thesis by simp
qed

lemma access_token_cases:
  assumes "access_token P s = (r, t)"
  obtains (unread) e v where "token_record (tp_store P) (ob_tokens s) = (Inl e, v)" "r = Inl e" "t = put_tokens v s"
  | (fresh) current v ex where "token_record (tp_store P) (ob_tokens s) = (Inr current, v)"
      "dget current (lit ''expires_at'') = PInt ex" "ob_clock s 0 < ex - tp_skew P" "r = access_token_of current"
      "t = snd (read_clock (put_tokens v s))"
  | (stale) current v u where "token_record (tp_store P) (ob_tokens s) = (Inr current, v)" "ob_wire u = ob_wire s"
      "ob_tokens u = v" "ob_replies u = ob_replies s" "refresh P current u = (r, t)"
      "u = put_tokens v s \<or> u = snd (read_clock (put_tokens v s))"
proof -
  obtain q v where q: "token_record (tp_store P) (ob_tokens s) = (q, v)" by fastforce
  show thesis
  proof (cases q)
    case (Inl e)
    with assms q unread show thesis by (simp add: access_token_def pbind_def lift_pm_def)
  next
    case (Inr current)
    show thesis
    proof (cases "as_int (dget current (lit ''expires_at''))")
      case None
      with assms q Inr stale [of current v "put_tokens v s"] show thesis
        by (simp add: access_token_def pbind_def lift_pm_def put_tokens_def)
    next
      case (Some ex)
      with assms q Inr have c: "(if ob_clock s 0 < ex - tp_skew P
          then (access_token_of current, snd (read_clock (put_tokens v s)))
          else refresh P current (snd (read_clock (put_tokens v s)))) = (r, t)"
        by (simp add: access_token_def pbind_def lift_pm_def put_tokens_def read_clock_def plift_def split: if_splits)
      show thesis
      proof (cases "ob_clock s 0 < ex - tp_skew P")
        case True
        with c q Inr Some fresh show thesis by simp
      next
        case False
        with c q Inr stale [of current v "snd (read_clock (put_tokens v s))"] show thesis
          by (simp add: put_tokens_def read_clock_def)
      qed
    qed
  qed
qed

lemma access_token_wire:
  assumes "access_token P s = (r, t)" "tp_client P = oauth_client urlsplit"
  shows "(ob_wire t = ob_wire s \<or>
      (\<exists>current v rt cid secret b host reply. token_record (tp_store P) (ob_tokens s) = (Inr current, v) \<and>
         refresh_credentials current rt cid secret \<and> urlencode (refresh_form rt cid secret) = Inr b \<and>
         admitted (tp_client P) default_token_endpoint host \<and>
         ob_wire t = ob_wire s @ [(post_request default_token_endpoint form_headers b, reply)])) \<and>
    (\<forall>a. r = Inr a \<and> ob_wire t = ob_wire s \<longrightarrow>
      (\<exists>current v ex. token_record (tp_store P) (ob_tokens s) = (Inr current, v) \<and>
         dget current (lit ''access_token'') = PStr a \<and> dget current (lit ''expires_at'') = PInt ex \<and>
         ob_clock s 0 < ex - tp_skew P))"
  using assms(1)
proof (cases rule: access_token_cases)
  case (unread e v)
  then show ?thesis by (simp add: put_tokens_def)
next
  case (fresh current v ex)
  then show ?thesis by (auto simp: put_tokens_def read_clock_def access_token_of_def split: pyval.splits)
next
  case (stale current v u)
  from stale(5) show ?thesis
  proof (cases rule: refresh_cases)
    case none
    with stale show ?thesis by simp
  next
    case (asked rt cid secret)
    have tr: "eg_transport (tp_client P) = wire_transport" using assms(2) by (simp add: oauth_client_transport)
    from refresh_with_wire [OF tr asked(2)] asked(1) stale(1,2) show ?thesis by fastforce
  qed
qed

subsection \<open>A concrete provider\<close>

definition old_fields :: token_fields where
  "old_fields = \<lparr>tf_access_token = lit ''old'', tf_refresh_token = PStr (lit ''r''), tf_issued_at = PInt 0, tf_expires_at = PInt 10,
     tf_client_id = PStr (lit ''c''), tf_client_secret = PNone, tf_scope = PNone, tf_write_origin = lit ''authorize''\<rparr>"

definition new_fields :: token_fields where
  "new_fields = refreshed_fields (token_blob old_fields) (lit ''new'') 100 (PInt 3700) PNone PNone"

definition toy_answer :: token_result where
  "toy_answer = \<lparr>tr_access_token = lit ''new'', tr_refresh_token = PNone, tr_expires_in = Some 3600, tr_scope = PNone,
     tr_token_type = PNone, tr_received_at = None\<rparr>"

definition toy_codec :: "unit token_store" where
  "toy_codec = \<lparr>ts_cipher = toy_cipher, ts_dumps = \<lambda>d. Inr (if d = token_blob new_fields then [2] else [1]),
     ts_loads = \<lambda>p. Inr (PDict (if p = [1] then token_blob old_fields else if p = [2] then token_blob new_fields
       else [(lit ''access_token'', PStr (lit ''new'')), (lit ''expires_in'', PInt 3600)]))\<rparr>"

definition toy_provider :: "(unit, unit) token_provider" where
  "toy_provider = \<lparr>tp_store = toy_codec, tp_client = oauth_client toy_split, tp_skew = 60\<rparr>"

definition toy_outside :: "unit token_env \<Rightarrow> unit outbound" where
  "toy_outside v = \<lparr>ob_wire = [], ob_replies = [Inr (200, [3])], ob_clock = \<lambda>_. 100, ob_tokens = v\<rparr>"

lemma toy_vault_filled:
  obtains v where "vault_ready toy_codec v" "token_record toy_codec v = (Inr (token_blob old_fields), v)"
proof -
  have n: "token_blob old_fields \<noteq> token_blob new_fields"
    by (simp add: token_blob_def old_fields_def new_fields_def refreshed_fields_def)
  have "vault_ready toy_codec toy_tokens" using toy_vault_ready(1) by (simp add: vault_ready_def toy_vault_def toy_codec_def)
  moreover have "codec_ok toy_codec (token_blob old_fields)" using n by (simp add: codec_ok_def toy_codec_def is_bytes_def)
  moreover have "tf_write_origin old_fields \<in> set write_origins" "py_eq (tf_issued_at old_fields) (tf_issued_at old_fields)"
    by (simp_all add: old_fields_def write_origins_def)
  ultimately obtain v where "vault_ready toy_codec v" "tokens_open toy_codec v = (Inr (token_blob old_fields), v)"
    using tokens_store_opens by blast
  then show thesis using that by (simp add: token_record_def)
qed

lemma toy_refresh_form:
  "urlencode (refresh_form (lit ''r'') (lit ''c'') None) = Inr (lit ''grant_type=refresh_token&refresh_token=r&client_id=c'')"
  by code_simp

subsection \<open>Properties\<close>

text \<open>
  C34. What a refresh may do.  Whatever the network, the storage and the keychain do, asking for the access token sends
  nothing, or one post to the token endpoint of an allowed host, whose form is made of the sealed refresh token and
  client alone; a token that comes back without a post is the sealed one, and it has more than the skew left.
\<close>

theorem refresh_confined:
  assumes "access_token P s = (r, t)" "tp_client P = oauth_client urlsplit"
  shows "(ob_wire t = ob_wire s \<or>
      (\<exists>current v rt cid secret b host reply. token_record (tp_store P) (ob_tokens s) = (Inr current, v) \<and>
         refresh_credentials current rt cid secret \<and> urlencode (refresh_form rt cid secret) = Inr b \<and>
         admitted (tp_client P) default_token_endpoint host \<and>
         ob_wire t = ob_wire s @ [(post_request default_token_endpoint form_headers b, reply)])) \<and>
    (\<forall>a. r = Inr a \<and> ob_wire t = ob_wire s \<longrightarrow>
      (\<exists>current v ex. token_record (tp_store P) (ob_tokens s) = (Inr current, v) \<and>
         dget current (lit ''access_token'') = PStr a \<and> dget current (lit ''expires_at'') = PInt ex \<and>
         ob_clock s 0 < ex - tp_skew P))"
  using assms by (rule access_token_wire)

theorem refresh_confined_witness:
  "\<exists>r t. access_token toy_provider (toy_outside toy_tokens) = (r, t) \<and> length (ob_wire t) \<le> 1"
proof -
  obtain r t where rt: "access_token toy_provider (toy_outside toy_tokens) = (r, t)" by fastforce
  have "tp_client toy_provider = oauth_client toy_split" by (simp add: toy_provider_def)
  from refresh_confined [OF rt this] have "length (ob_wire t) \<le> 1" by (auto simp: toy_outside_def)
  with rt show ?thesis by blast
qed

text \<open>
  C27. A refresh rotates the token and keeps the rest.  With the outside in order, an expired or undated record leads to
  one post; the access token answered is returned and sealed, with the refresh token of the answer or else the old one, and with
  the same client; and until the new expiry it is served from the store without another post.
\<close>

theorem refresh_rotates:
  fixes s :: "'k outbound"
  defines "now \<equiv> \<lambda>current. ob_clock s (if as_int (dget current (lit ''expires_at'')) = None then 0 else 1)"
  assumes "tp_client P = oauth_client urlsplit" "admitted (tp_client P) default_token_endpoint host"
    and "vault_ready (tp_store P) (ob_tokens s)"
    and "token_record (tp_store P) (ob_tokens s) = (Inr current, ob_tokens s)"
    and "refresh_credentials current rt cid secret" "rt \<noteq> []" "cid \<noteq> []"
    and "\<And>ex. dget current (lit ''expires_at'') = PInt ex \<Longrightarrow> ex - tp_skew P \<le> ob_clock s 0"
    and "urlencode (refresh_form rt cid secret) = Inr b" "ob_replies s = Inr (st, body) # rest" "200 \<le> st" "st < 300"
    and "token_from_response (ts_loads (tp_store P)) body = Inr result" "check_scope (tr_scope result) = Inr ()"
    and "f = refreshed_fields current (tr_access_token result) (now current) (expiry (now current) (tr_expires_in result))
      (tr_refresh_token result) (tr_scope result)" "codec_ok (tp_store P) (token_blob f)"
  shows "\<exists>t. access_token P s = (Inr (tr_access_token result), t) \<and>
    ob_wire t = ob_wire s @ [(post_request default_token_endpoint form_headers b, Inr (st, body))] \<and>
    token_record (tp_store P) (ob_tokens t) = (Inr (token_blob f), ob_tokens t) \<and>
    tf_refresh_token f = (if truthy (tr_refresh_token result) then tr_refresh_token result else PStr rt) \<and>
    tf_client_id f = PStr cid \<and> tf_client_secret f = (case secret of None \<Rightarrow> PNone | Some x \<Rightarrow> PStr x) \<and>
    (\<forall>n. tr_expires_in result = Some n \<and> ob_clock t 0 < now current + n - tp_skew P \<longrightarrow>
      (\<exists>u. access_token P t = (Inr (tr_access_token result), u) \<and> ob_wire u = ob_wire t))"
proof -
  let ?T = "tp_store P" and ?ex = "as_int (dget current (lit ''expires_at''))"
  define u where "u = (if ?ex = None then s else snd (read_clock s))"
  have u: "ob_tokens u = ob_tokens s" "ob_replies u = ob_replies s" "ob_wire u = ob_wire s" "ob_clock u 0 = now current"
    by (auto simp: u_def read_clock_def now_def)
  define v where "v = u\<lparr>ob_wire := ob_wire u @ [(post_request default_token_endpoint form_headers b, Inr (st, body))], ob_replies := rest\<rparr>"
  let ?rq = "\<lparr>fr_endpoint = default_token_endpoint, fr_body = refresh_form rt cid secret\<rparr>"
  have tr: "eg_transport (tp_client P) = wire_transport" using assms(2) by (simp add: oauth_client_transport)
  have post: "post_form (tp_client P) ?rq u = (Inr \<lparr>hr_status = st, hr_body = body, hr_host = host\<rparr>, v)"
    using post_form_admitted [of ?rq b "tp_client P" host u] assms(3,10,11) u(2) tr
    by (simp add: wire_transport_def v_def)
  define w where "w = snd (read_clock v)"
  have w: "read_clock v = (Inr (now current), w)" "ob_tokens w = ob_tokens s"
    "ob_wire w = ob_wire s @ [(post_request default_token_endpoint form_headers b, Inr (st, body))]"
    using u by (simp_all add: w_def read_clock_def v_def)
  have o: "tf_write_origin f \<in> set write_origins" "py_eq (tf_issued_at f) (tf_issued_at f)"
    using assms(16) by (simp_all add: refreshed_fields_def write_origins_def)
  from tokens_store_opens [OF assms(4,17) o] obtain x where
    x: "tokens_store ?T f (ob_tokens s) = (Inr (), x)" "tokens_open ?T x = (Inr (token_blob f), x)" by metis
  define t where "t = put_tokens x w"
  have "replace_access_token ?T (tr_access_token result) (now current) (expiry (now current) (tr_expires_in result))
      (tr_refresh_token result) (tr_scope result) (ob_tokens s) = (Inr (), x)"
    using assms(5,16) x(1) by (simp add: replace_access_token_def token_record_def pbind_def)
  then have ans: "refresh_answer P \<lparr>hr_status = st, hr_body = body, hr_host = host\<rparr> v = (Inr (tr_access_token result), t)"
    using assms(12-15) w by (simp add: refresh_answer_def ok_status_def pbind_def plift_def lift_pm_def t_def)
  have "refresh_with P rt cid secret u = (Inr (tr_access_token result), t)"
    using assms(7,8) post ans
    by (simp add: refresh_with_def build_refresh_token_request_def rguard_def refresh_form_def ptry_def)
  then have "refresh P current u = (Inr (tr_access_token result), t)"
    using assms(6) by (cases secret) (simp_all add: refresh_def refresh_credentials_def)
  then have got: "access_token P s = (Inr (tr_access_token result), t)"
    using assms(5,9) by (cases ?ex)
      (auto simp: access_token_def pbind_def lift_pm_def put_tokens_def u_def read_clock_def)
  have t: "ob_wire t = ob_wire s @ [(post_request default_token_endpoint form_headers b, Inr (st, body))]" "ob_tokens t = x"
    using w by (simp_all add: t_def put_tokens_def)
  have "\<exists>u. access_token P t = (Inr (tr_access_token result), u) \<and> ob_wire u = ob_wire t"
    if "tr_expires_in result = Some n" "ob_clock t 0 < now current + n - tp_skew P" for n
    using that x(2) t(2) assms(16)
    by (simp add: access_token_def pbind_def lift_pm_def put_tokens_def token_record_def blob_dget refreshed_fields_def
        expiry_def read_clock_def plift_def access_token_of_def)
  moreover have "tf_refresh_token f = (if truthy (tr_refresh_token result) then tr_refresh_token result else PStr rt)"
    "tf_client_id f = PStr cid" "tf_client_secret f = (case secret of None \<Rightarrow> PNone | Some x \<Rightarrow> PStr x)"
    using assms(6,16) by (simp_all add: refreshed_fields_def py_or_def refresh_credentials_def)
  ultimately show ?thesis using got t x(2) by (auto simp: token_record_def)
qed

theorem refresh_rotates_witness:
  "\<exists>v t. access_token toy_provider (toy_outside v) = (Inr (lit ''new''), t) \<and> length (ob_wire t) = 1 \<and>
     token_record toy_codec (ob_tokens t) = (Inr (token_blob new_fields), ob_tokens t)"
proof -
  obtain v where v: "vault_ready toy_codec v" "token_record toy_codec v = (Inr (token_blob old_fields), v)"
    using toy_vault_filled by blast
  have "\<exists>t. access_token toy_provider (toy_outside v) = (Inr (tr_access_token toy_answer), t) \<and>
    ob_wire t = ob_wire (toy_outside v) @ [(post_request default_token_endpoint form_headers
      (lit ''grant_type=refresh_token&refresh_token=r&client_id=c''), Inr (200, [3]))] \<and>
    token_record (tp_store toy_provider) (ob_tokens t) = (Inr (token_blob new_fields), ob_tokens t) \<and>
    tf_refresh_token new_fields = (if truthy (tr_refresh_token toy_answer) then tr_refresh_token toy_answer else PStr (lit ''r'')) \<and>
    tf_client_id new_fields = PStr (lit ''c'') \<and> tf_client_secret new_fields = (case None of None \<Rightarrow> PNone | Some x \<Rightarrow> PStr x) \<and>
    (\<forall>n. tr_expires_in toy_answer = Some n \<and> ob_clock t 0 <
        ob_clock (toy_outside v) (if as_int (dget (token_blob old_fields) (lit ''expires_at'')) = None then 0 else 1) + n - tp_skew toy_provider \<longrightarrow>
      (\<exists>u. access_token toy_provider t = (Inr (tr_access_token toy_answer), u) \<and> ob_wire u = ob_wire t))"
  proof (rule refresh_rotates)
    show "token_from_response (ts_loads (tp_store toy_provider)) [3] = Inr toy_answer"
      by (simp add: token_from_response_def toy_provider_def toy_codec_def toy_answer_def dget_def)
    show "admitted (tp_client toy_provider) default_token_endpoint (lit ''oauth2.googleapis.com'')"
      by (simp add: admitted_def toy_provider_def oauth_client_def egress_client_def toy_split_def oauth_allow_hosts_def
          lower_ascii_def lit_def)
    show "refresh_credentials (token_blob old_fields) (lit ''r'') (lit ''c'') None"
      by (simp add: refresh_credentials_def blob_dget old_fields_def)
    show "new_fields = refreshed_fields (token_blob old_fields) (tr_access_token toy_answer)
        (ob_clock (toy_outside v) (if as_int (dget (token_blob old_fields) (lit ''expires_at'')) = None then 0 else 1))
        (expiry (ob_clock (toy_outside v) (if as_int (dget (token_blob old_fields) (lit ''expires_at'')) = None then 0 else 1))
          (tr_expires_in toy_answer)) (tr_refresh_token toy_answer) (tr_scope toy_answer)"
      by (simp add: new_fields_def toy_answer_def toy_outside_def expiry_def)
    show "codec_ok (tp_store toy_provider) (token_blob new_fields)"
      by (simp add: codec_ok_def toy_provider_def toy_codec_def is_bytes_def)
  qed (use v toy_refresh_form in \<open>auto simp: toy_provider_def toy_outside_def toy_answer_def check_scope_def blob_dget old_fields_def\<close>)
  then obtain t where t: "access_token toy_provider (toy_outside v) = (Inr (tr_access_token toy_answer), t)"
    "ob_wire t = ob_wire (toy_outside v) @ [(post_request default_token_endpoint form_headers
      (lit ''grant_type=refresh_token&refresh_token=r&client_id=c''), Inr (200, [3]))]"
    "token_record (tp_store toy_provider) (ob_tokens t) = (Inr (token_blob new_fields), ob_tokens t)" by blast
  have "tr_access_token toy_answer = lit ''new''" "ob_wire (toy_outside v) = []" "tp_store toy_provider = toy_codec"
    by (simp_all add: toy_answer_def toy_outside_def toy_provider_def)
  with t have "access_token toy_provider (toy_outside v) = (Inr (lit ''new''), t) \<and> length (ob_wire t) = 1 \<and>
    token_record toy_codec (ob_tokens t) = (Inr (token_blob new_fields), ob_tokens t)" by simp
  then show ?thesis by blast
qed

end
