(* ===== verification/Loopback_Flow.thy ===== *)
theory Loopback_Flow
  imports Token_Refresh
begin

text \<open>
  The consent flow of \<open>gateway/oauth_listener.py\<close>: the callback handler, the loopback listener and
  \<open>LoopbackOAuthFlow.run\<close>.  The requests that reach the listener are whatever any local program sends; sockets, the
  browser and the random source are methods of the state, \<open>urlsplit\<close>, \<open>unquote\<close> and \<open>ipaddress\<close> parameters.
\<close>

subsection \<open>The callback\<close>

text \<open>The members of a split URL beside those the redirect is checked by.\<close>

record url_split = url_parts +
  up_netloc :: pystr
  up_path :: pystr
  up_query :: pystr

text \<open>\<open>parse_qsl\<close>, which drops members without a value.\<close>

fun split_on :: "nat \<Rightarrow> pystr \<Rightarrow> pystr list" where
  "split_on c [] = [[]]"
| "split_on c (x # s) = (if x = c then [] # split_on c s
     else case split_on c s of [] \<Rightarrow> [[x]] | w # ws \<Rightarrow> (x # w) # ws)"

definition plus_to_space :: "pystr \<Rightarrow> pystr" where
  "plus_to_space = map (\<lambda>c. if c = 43 then 32 else c)"

definition qs_member :: "(pystr \<Rightarrow> pystr) \<Rightarrow> pystr \<Rightarrow> (pystr \<times> pystr) list" where
  "qs_member unquote part = (case dropWhile (\<lambda>c. c \<noteq> 61) part of
     [] \<Rightarrow> []
   | _ # v \<Rightarrow> (if v = [] then []
       else [(unquote (plus_to_space (takeWhile (\<lambda>c. c \<noteq> 61) part)), unquote (plus_to_space v))]))"

definition parse_qsl :: "(pystr \<Rightarrow> pystr) \<Rightarrow> pystr \<Rightarrow> (pystr \<times> pystr) list" where
  "parse_qsl unquote qs = concat (map (qs_member unquote) (split_on 38 qs))"

text \<open>\<open>d.setdefault(k, v)\<close> for every pair: the first value of a key stays.\<close>

definition setdefault :: "pystr \<times> pystr \<Rightarrow> (pystr \<times> pystr) list \<Rightarrow> (pystr \<times> pystr) list" where
  "setdefault kv d = (if fst kv \<in> dkeys d then d else d @ [kv])"

definition first_values :: "(pystr \<times> pystr) list \<Rightarrow> (pystr \<times> pystr) list" where
  "first_values pairs = fold setdefault pairs []"

record listener =
  ls_callback_path :: pystr
  ls_captured :: "(pystr \<times> pystr) list option"
  ls_done :: bool

text \<open>A request: its target, and how writing the answer to it ends.\<close>

record callback =
  cb_target :: pystr
  cb_written :: "unit res"

definition do_GET_redirect :: "(pystr \<Rightarrow> pystr) \<Rightarrow> (pystr \<Rightarrow> url_split res) \<Rightarrow> callback \<Rightarrow> (listener, int) pm" where
  "do_GET_redirect unquote urlsplit rq =
     pbind (plift (urlsplit (cb_target rq))) (\<lambda>parts L.
     if up_path parts \<noteq> ls_callback_path L then pbind (plift (cb_written rq)) (\<lambda>_. preturn 404) L
     else pbind (plift (cb_written rq)) (\<lambda>_ L. (Inr 200, L\<lparr>ls_done := True\<rparr>))
       (L\<lparr>ls_captured := Some (first_values (parse_qsl unquote (up_query parts)))\<rparr>))"

text \<open>The server handles one request after the other, and survives what a handler raises.\<close>

definition serve :: "(pystr \<Rightarrow> pystr) \<Rightarrow> (pystr \<Rightarrow> url_split res) \<Rightarrow> callback list \<Rightarrow> listener \<Rightarrow> listener" where
  "serve unquote urlsplit rqs L = fold (\<lambda>rq L. snd (do_GET_redirect unquote urlsplit rq L)) rqs L"

subsection \<open>The flow\<close>

text \<open>\<open>ipaddress.ip_address(host).is_loopback\<close>; \<open>None\<close> stands for \<open>ValueError\<close>.\<close>

definition is_loopback :: "(pystr \<Rightarrow> bool option) \<Rightarrow> pystr \<Rightarrow> bool" where
  "is_loopback ip_loopback host \<longleftrightarrow> host = lit ''localhost'' \<or> ip_loopback host = Some True"

record ('u, 's) loopback = "('u, 's) oauth_flow" +
  lf_sha :: "bytes \<Rightarrow> bytes"
  lf_token_bytes :: "('s, bytes) pm"
  lf_ip_loopback :: "pystr \<Rightarrow> bool option"
  lf_bind :: "('s, int) pm"
  lf_on_redirect_uri :: "pystr \<Rightarrow> ('s, unit) pm"
  lf_open :: "pystr \<Rightarrow> ('s, unit) pm"
  lf_wait :: "('s, callback list) pm"
  lf_close :: "('s, unit) pm"
  lf_unquote :: "pystr \<Rightarrow> pystr"
  lf_urlsplit :: "pystr \<Rightarrow> url_split res"

definition new_flow :: "('u, 's) loopback \<Rightarrow> unit res" where
  "new_flow F =
     rbind (rguard (eg_allow (of_egress F) = set oauth_allow_hosts) (Py ValueError)) (\<lambda>_.
     rguard (is_loopback (lf_ip_loopback F) (of_host F)) (Py ValueError))"

text \<open>The listener on the port the system chose.\<close>

definition new_listener :: "('u, 's) loopback \<Rightarrow> ('s, int) pm" where
  "new_listener F = (if is_loopback (lf_ip_loopback F) (of_host F) then lf_bind F else praise (Py ValueError))"

definition redirect_of :: "pystr \<Rightarrow> int \<Rightarrow> pystr \<Rightarrow> pystr" where
  "redirect_of host port path = lit ''http://'' @ host @ [58] @ dec_int port @ path"

text \<open>\<open>try: m finally: close\<close>.\<close>

definition pfinally :: "('s, 'a) pm \<Rightarrow> ('s, unit) pm \<Rightarrow> ('s, 'a) pm" where
  "pfinally m close s = (case m s of (r, t) \<Rightarrow> (case close t of (Inl e, u) \<Rightarrow> (Inl e, u) | (Inr _, u) \<Rightarrow> (r, u)))"

text \<open>The body of the \<open>try\<close>, on the requests the listener gets until the waiting thread reads what was captured.\<close>

definition flow_callback :: "('u, 's) loopback \<Rightarrow> ('s, (pystr \<times> pystr) list) pm" where
  "flow_callback F = pbind (lf_wait F) (\<lambda>rqs.
     let L = serve (lf_unquote F) (lf_urlsplit F) rqs \<lparr>ls_callback_path = of_callback_path F, ls_captured = None, ls_done = False\<rparr>
     in if \<not> ls_done L then praise (OAuth OAuthTimeoutError)
        else preturn (case ls_captured L of None \<Rightarrow> [] | Some d \<Rightarrow> d))"

definition flow_body :: "('u, 's) loopback \<Rightarrow> pkce_pair \<Rightarrow> pystr \<Rightarrow> int \<Rightarrow> ('s, token_result) pm" where
  "flow_body F pkce state port =
     (let redirect_uri = redirect_of (of_host F) port (of_callback_path F) in
      pbind (lf_on_redirect_uri F redirect_uri) (\<lambda>_.
      pbind (plift (authorization_request_init (eg_urlsplit (of_egress F)) (of_client_id F) redirect_uri state
        (pk_challenge pkce) (of_scopes F))) (\<lambda>request.
      pbind (plift (build_authorization_url request (of_auth_endpoint F))) (\<lambda>auth_url.
      pbind (lf_open F auth_url) (\<lambda>_.
      pbind (flow_callback F) (\<lambda>captured.
      pbind (plift (extract_authorization_code captured state)) (\<lambda>code.
      exchange_code (oauth_flow.truncate F) code (pk_verifier pkce) redirect_uri)))))))"

definition loopback_run :: "('u, 's) loopback \<Rightarrow> ('s, token_result) pm" where
  "loopback_run F =
     pbind (generate_pkce_pair (lf_sha F) (lf_token_bytes F)) (\<lambda>pkce.
     pbind (generate_state (lf_token_bytes F)) (\<lambda>state.
     pbind (new_listener F) (\<lambda>port.
     pfinally (flow_body F pkce state port) (lf_close F))))"

subsection \<open>What is captured\<close>

lemma dkeys_append [simp]: "dkeys (a @ b) = dkeys a \<union> dkeys b"
  by (auto simp: dkeys_def)

lemma setdefault_map_of: "map_of (setdefault kv d) k = (case map_of d k of None \<Rightarrow> if k = fst kv then Some (snd kv) else None | Some v \<Rightarrow> Some v)"
proof (cases "fst kv \<in> dkeys d")
  case True
  then have "map_of d (fst kv) \<noteq> None" by (simp add: map_of_None_dkeys)
  with True show ?thesis by (auto simp: setdefault_def split: option.splits)
next
  case False
  then have "map_of d (fst kv) = None" by (simp add: map_of_None_dkeys)
  with False show ?thesis by (cases kv) (auto simp: setdefault_def map_of_append map_add_def split: option.splits)
qed

lemma fold_setdefault_map_of:
  "map_of (fold setdefault pairs d) k = (case map_of d k of None \<Rightarrow> map_of pairs k | Some v \<Rightarrow> Some v)"
proof (induction pairs arbitrary: d)
  case (Cons kv pairs)
  show ?case
    by (cases kv) (simp add: Cons.IH setdefault_map_of split: option.splits)
qed (simp split: option.splits)

lemma first_values_map_of [simp]: "map_of (first_values pairs) = map_of pairs"
  by (rule ext) (simp add: first_values_def fold_setdefault_map_of)

lemma first_values_distinct: "distinct (map fst (first_values pairs))"
proof -
  have "distinct (map fst d) \<Longrightarrow> distinct (map fst (fold setdefault pairs d))" for d
    by (induction pairs arbitrary: d) (auto simp: setdefault_def dkeys_def)
  then show ?thesis by (simp add: first_values_def)
qed

text \<open>The query of a request to the callback path.\<close>

definition callback_pairs :: "('u, 's) loopback \<Rightarrow> callback \<Rightarrow> (pystr \<times> pystr) list option" where
  "callback_pairs F rq = (case lf_urlsplit F (cb_target rq) of
     Inl _ \<Rightarrow> None
   | Inr parts \<Rightarrow> if up_path parts = of_callback_path F then Some (parse_qsl (lf_unquote F) (up_query parts)) else None)"

lemma do_GET_redirect_state:
  assumes "ls_callback_path L = of_callback_path F"
  shows "snd (do_GET_redirect (lf_unquote F) (lf_urlsplit F) rq L) = (case callback_pairs F rq of
     None \<Rightarrow> L
   | Some pairs \<Rightarrow> L\<lparr>ls_captured := Some (first_values pairs), ls_done := ls_done L \<or> \<not> isl (cb_written rq)\<rparr>)"
  using assms by (cases "cb_written rq"; cases "lf_urlsplit F (cb_target rq)")
    (auto simp: do_GET_redirect_def callback_pairs_def pm_simps)

lemma serve_captured:
  "ls_callback_path L = of_callback_path F \<Longrightarrow>
   ls_captured (serve (lf_unquote F) (lf_urlsplit F) rqs L) = Some d \<Longrightarrow>
   ls_captured L = Some d \<or> (\<exists>rq \<in> set rqs. \<exists>pairs. callback_pairs F rq = Some pairs \<and> d = first_values pairs)"
proof (induction rqs arbitrary: L)
  case (Cons rq rqs)
  let ?M = "snd (do_GET_redirect (lf_unquote F) (lf_urlsplit F) rq L)"
  have M: "ls_callback_path ?M = of_callback_path F"
    using Cons.prems(1) do_GET_redirect_state [OF Cons.prems(1), of rq] by (simp split: option.splits)
  have "ls_captured (serve (lf_unquote F) (lf_urlsplit F) rqs ?M) = Some d" using Cons.prems(2) by (simp add: serve_def)
  from Cons.IH [OF M this] show ?case
    using do_GET_redirect_state [OF Cons.prems(1), of rq] by (cases "callback_pairs F rq") auto
qed (simp add: serve_def)

lemma flow_callback_from:
  assumes "flow_callback F s = (Inr captured, t)"
  obtains rqs where "lf_wait F s = (Inr rqs, t)"
    "captured = [] \<or> (\<exists>rq \<in> set rqs. \<exists>pairs. callback_pairs F rq = Some pairs \<and> captured = first_values pairs)"
proof -
  let ?L = "\<lparr>ls_callback_path = of_callback_path F, ls_captured = None, ls_done = False\<rparr>"
  from assms obtain rqs where r: "lf_wait F s = (Inr rqs, t)"
    "captured = (case ls_captured (serve (lf_unquote F) (lf_urlsplit F) rqs ?L) of None \<Rightarrow> [] | Some d \<Rightarrow> d)"
    by (auto simp: flow_callback_def Let_def pm_inv split: if_splits)
  show thesis
  proof (rule that [OF r(1)])
    show "captured = [] \<or> (\<exists>rq \<in> set rqs. \<exists>pairs. callback_pairs F rq = Some pairs \<and> captured = first_values pairs)"
      using serve_captured [of ?L F rqs] r(2) by (cases "ls_captured (serve (lf_unquote F) (lf_urlsplit F) rqs ?L)") auto
  qed
qed

lemma extract_Inr:
  "extract_authorization_code params state = Inr code \<Longrightarrow>
     state \<noteq> [] \<and> map_of params (lit ''state'') = Some state \<and> map_of params (lit ''code'') = Some code \<and> code \<noteq> [] \<and>
     \<not> given (map_of params (lit ''error''))"
  by (auto simp: extract_authorization_code_def state_matches_def compare_digest_def pm_inv split: if_splits option.splits)

subsection \<open>What leaves the machine\<close>

definition exchange_form :: "('u, 's, 'z) oauth_flow_scheme \<Rightarrow> pystr \<Rightarrow> pystr \<Rightarrow> pystr \<Rightarrow> (pystr \<times> pystr) list" where
  "exchange_form F code verifier redirect_uri = with_secret (of_client_secret F)
     [(lit ''grant_type'', lit ''authorization_code''), (lit ''code'', code), (lit ''redirect_uri'', redirect_uri),
      (lit ''client_id'', of_client_id F), (lit ''code_verifier'', verifier)]"

lemma exchange_wire:
  fixes F :: "('u, 'k outbound) oauth_flow"
  assumes "of_egress F = oauth_client urlsplit" "keeps ob_wire (of_now F)" "exchange_code F code v ru s = (r, t)"
  shows "ob_wire t = ob_wire s \<and> (\<exists>e. r = Inl e) \<or>
    (\<exists>b reply. urlencode (exchange_form F code v ru) = Inr b \<and> match_to_dollar verifier_text v \<and>
       ob_wire t = ob_wire s @ [(post_request (of_token_endpoint F) form_headers b, reply)] \<and>
       (\<forall>res. r = Inr res \<longrightarrow> (\<exists>st body. reply = Inr (st, body) \<and> 200 \<le> st \<and> st < 300)))"
proof (cases "build_token_exchange_request (eg_urlsplit (of_egress F)) code v (of_client_id F) ru (of_client_secret F) (of_token_endpoint F)")
  case (Inl e)
  with assms(3) show ?thesis by (auto simp: exchange_code_def)
next
  case (Inr rq)
  then have rq: "rq = \<lparr>fr_endpoint = of_token_endpoint F, fr_body = exchange_form F code v ru\<rparr>" "match_to_dollar verifier_text v"
    by (auto simp: build_token_exchange_request_def validate_code_verifier_def exchange_form_def pm_inv)
  obtain q u where q: "post_form (of_egress F) rq s = (q, u)" by fastforce
  have tr: "eg_transport (of_egress F) = wire_transport" using assms(1) by (simp add: oauth_client_transport)
  have c: "(case q of Inl e \<Rightarrow> (Inl e, u) | Inr resp \<Rightarrow> exchange_answer F resp u) = (r, t)"
    using assms(3) Inr q by (cases q) (simp_all add: exchange_code_def pbind_def)
  have "keeps ob_wire (exchange_answer F resp)" for resp
    using assms(2) unfolding exchange_answer_def by (simp add: keeps_pbind keeps_pure)
  with c have k: "ob_wire t = ob_wire u" by (cases q) (auto dest: keepsD)
  from q show ?thesis
  proof (cases rule: post_form_cases)
    case (raised b host e)
    have "ob_wire u = ob_wire s @ [(post_request (fr_endpoint rq) form_headers b, Inl e)]"
      using wire_transport_wire raised(3) tr by metis
    with raised(1,4) k c rq show ?thesis by auto
  next
    case (answered b host st body)
    have "ok_status st" if "r = Inr res" for res
      using c that answered(4) by (cases "ok_status st") (auto simp: exchange_answer_def pm_inv)
    moreover have "ob_wire u = ob_wire s @ [(post_request (fr_endpoint rq) form_headers b, Inr (st, body))]"
      using wire_transport_wire answered(3) tr by metis
    ultimately show ?thesis using answered(1) k rq by (auto simp: ok_status_def)
  qed (use c k in auto)
qed

text \<open>The methods of the flow that are not posts.\<close>

definition quiet_flow :: "('u, 'k outbound) loopback \<Rightarrow> bool" where
  "quiet_flow F \<longleftrightarrow> keeps ob_wire (lf_token_bytes F) \<and> keeps ob_wire (lf_bind F) \<and> (\<forall>u. keeps ob_wire (lf_on_redirect_uri F u)) \<and>
     (\<forall>u. keeps ob_wire (lf_open F u)) \<and> keeps ob_wire (lf_wait F) \<and> keeps ob_wire (lf_close F) \<and> keeps ob_wire (of_now F)"

text \<open>A step that sends nothing: either the whole call ended here, with nothing sent, or it went on.\<close>

lemma quiet_step:
  assumes "keeps ob_wire m" "pbind m g s = (r, t)" "ob_wire s = wire" "\<not> (ob_wire t = wire \<and> (\<exists>e. r = Inl e))"
  obtains a u where "m s = (Inr a, u)" "ob_wire u = wire" "g a u = (r, t)"
proof (cases "m s")
  case (Pair q u)
  with assms keepsD [OF assms(1) Pair] that show thesis by (cases q) (auto simp: pbind_def)
qed

lemma quiet_keeps:
  assumes "quiet_flow F"
  shows "keeps ob_wire (lf_token_bytes F)" "keeps ob_wire (lf_bind F)" "keeps ob_wire (lf_on_redirect_uri F u)"
    "keeps ob_wire (lf_open F u)" "keeps ob_wire (lf_close F)" "keeps ob_wire (of_now F)" "keeps ob_wire (flow_callback F)"
  using assms unfolding quiet_flow_def flow_callback_def Let_def by (simp_all add: keeps_pbind keeps_pure)

text \<open>What a flow that reached the token endpoint has gone through.\<close>

definition consented ::
  "('u, 'k outbound) loopback \<Rightarrow> pkce_pair \<Rightarrow> pystr \<Rightarrow> int \<Rightarrow> pystr \<Rightarrow> 'k outbound \<Rightarrow> bool" where
  "consented F pkce state port code s \<longleftrightarrow>
     validate_loopback_redirect (eg_urlsplit (of_egress F)) (redirect_of (of_host F) port (of_callback_path F)) = Inr () \<and>
     of_scopes F = set v1_allowed_scopes \<and>
     (\<exists>rqs t. lf_wait F s = (Inr rqs, t) \<and> (\<exists>rq \<in> set rqs. \<exists>pairs. callback_pairs F rq = Some pairs \<and>
        map_of pairs (lit ''state'') = Some state \<and> map_of pairs (lit ''code'') = Some code \<and>
        \<not> given (map_of pairs (lit ''error''))))"

lemma flow_body_wire:
  fixes F :: "('u, 'k outbound) loopback"
  assumes "of_egress F = oauth_client urlsplit" "quiet_flow F" "flow_body F pkce state port s = (r, t)"
  shows "ob_wire t = ob_wire s \<and> (\<exists>e. r = Inl e) \<or>
    (\<exists>u code b reply. consented F pkce state port code u \<and>
       urlencode (exchange_form F code (pk_verifier pkce) (redirect_of (of_host F) port (of_callback_path F))) = Inr b \<and>
       ob_wire t = ob_wire s @ [(post_request (of_token_endpoint F) form_headers b, reply)] \<and>
       (\<forall>res. r = Inr res \<longrightarrow> (\<exists>st body. reply = Inr (st, body) \<and> 200 \<le> st \<and> st < 300)))"
    (is "?quiet \<or> ?posted")
proof (cases ?quiet)
  case False
  let ?ru = "redirect_of (of_host F) port (of_callback_path F)" and ?T = "oauth_flow.truncate F"
  note k = quiet_keeps [OF assms(2)] and p = keeps_pure(3)
  from quiet_step [OF k(3) assms(3) [unfolded flow_body_def Let_def] refl False] obtain x s1 where 1: "ob_wire s1 = ob_wire s"
    "pbind (plift (authorization_request_init (eg_urlsplit (of_egress F)) (of_client_id F) ?ru state (pk_challenge pkce) (of_scopes F)))
      (\<lambda>request. pbind (plift (build_authorization_url request (of_auth_endpoint F))) (\<lambda>auth_url.
      pbind (lf_open F auth_url) (\<lambda>_. pbind (flow_callback F) (\<lambda>captured.
      pbind (plift (extract_authorization_code captured state)) (\<lambda>code. exchange_code ?T code (pk_verifier pkce) ?ru))))) s1 = (r, t)" .
  from quiet_step [OF p 1(2,1) False] obtain rq s2 where 2: "ob_wire s2 = ob_wire s"
    "plift (authorization_request_init (eg_urlsplit (of_egress F)) (of_client_id F) ?ru state (pk_challenge pkce) (of_scopes F)) s1 = (Inr rq, s2)"
    "pbind (plift (build_authorization_url rq (of_auth_endpoint F))) (\<lambda>auth_url.
      pbind (lf_open F auth_url) (\<lambda>_. pbind (flow_callback F) (\<lambda>captured.
      pbind (plift (extract_authorization_code captured state)) (\<lambda>code. exchange_code ?T code (pk_verifier pkce) ?ru)))) s2 = (r, t)" .
  from quiet_step [OF p 2(3,1) False] obtain url s3 where 3: "ob_wire s3 = ob_wire s"
    "pbind (lf_open F url) (\<lambda>_. pbind (flow_callback F) (\<lambda>captured.
      pbind (plift (extract_authorization_code captured state)) (\<lambda>code. exchange_code ?T code (pk_verifier pkce) ?ru))) s3 = (r, t)" .
  from quiet_step [OF k(4) 3(2,1) False] obtain y s4 where 4: "ob_wire s4 = ob_wire s"
    "pbind (flow_callback F) (\<lambda>captured. pbind (plift (extract_authorization_code captured state))
      (\<lambda>code. exchange_code ?T code (pk_verifier pkce) ?ru)) s4 = (r, t)" .
  from quiet_step [OF k(7) 4(2,1) False] obtain captured s5 where 5: "ob_wire s5 = ob_wire s" "flow_callback F s4 = (Inr captured, s5)"
    "pbind (plift (extract_authorization_code captured state)) (\<lambda>code. exchange_code ?T code (pk_verifier pkce) ?ru) s5 = (r, t)" .
  from quiet_step [OF p 5(3,1) False] obtain code s6 where 6: "ob_wire s6 = ob_wire s"
    "plift (extract_authorization_code captured state) s5 = (Inr code, s6)" "exchange_code ?T code (pk_verifier pkce) ?ru s6 = (r, t)" .
  obtain rqs where rqs: "lf_wait F s4 = (Inr rqs, s5)"
    "captured = [] \<or> (\<exists>rq \<in> set rqs. \<exists>pairs. callback_pairs F rq = Some pairs \<and> captured = first_values pairs)"
    using flow_callback_from [OF 5(2)] .
  have "extract_authorization_code captured state = Inr code" using 6(2) by (simp add: plift_def)
  from extract_Inr [OF this] rqs(2) have "\<exists>rq \<in> set rqs. \<exists>pairs. callback_pairs F rq = Some pairs \<and>
      map_of pairs (lit ''state'') = Some state \<and> map_of pairs (lit ''code'') = Some code \<and> \<not> given (map_of pairs (lit ''error''))"
    by fastforce
  moreover have "validate_loopback_redirect (eg_urlsplit (of_egress F)) ?ru = Inr ()" "of_scopes F = set v1_allowed_scopes"
    using 2(2) by (auto simp: authorization_request_init_def pm_inv validate_scopes_Inr)
  ultimately have c: "consented F pkce state port code s4" using rqs(1) unfolding consented_def by blast
  have T: "of_egress ?T = oauth_client urlsplit" "keeps ob_wire (of_now ?T)" "of_token_endpoint ?T = of_token_endpoint F"
    "exchange_form ?T code (pk_verifier pkce) ?ru = exchange_form F code (pk_verifier pkce) ?ru"
    using assms(1) k(6) by (simp_all add: oauth_flow.defs exchange_form_def)
  have "\<exists>b reply. urlencode (exchange_form F code (pk_verifier pkce) ?ru) = Inr b \<and>
      ob_wire t = ob_wire s @ [(post_request (of_token_endpoint F) form_headers b, reply)] \<and>
      (\<forall>res. r = Inr res \<longrightarrow> (\<exists>st body. reply = Inr (st, body) \<and> 200 \<le> st \<and> st < 300))"
    using exchange_wire [OF T(1,2) 6(3)] False unfolding T(3,4) 6(1) by metis
  with c have ?posted by metis
  then show ?thesis ..
qed simp

subsection \<open>Properties\<close>

text \<open>
  C13. What leaves the machine in a consent flow.  Whatever local program talks to the listener, whatever the browser,
  the random source and the network do: a flow sends nothing and returns no tokens, or it sends one form to the token
  endpoint.  Then the listener was bound to a loopback address, the redirect is a loopback URL with that port, the sending
  scope alone was asked for, and some request to the callback path carried the issued state as its first state together
  with the code that is sent, and no provider error; the verifier that is sent is the one this run generated.
\<close>

theorem consent_confined:
  fixes F :: "('u, 'k outbound) loopback"
  assumes "of_egress F = oauth_client urlsplit" "quiet_flow F" "loopback_run F s = (r, t)"
  shows "ob_wire t = ob_wire s \<and> (\<exists>e. r = Inl e) \<or>
    (\<exists>pkce state port code u u1 u2 u3 v b reply.
       generate_pkce_pair (lf_sha F) (lf_token_bytes F) s = (Inr pkce, u1) \<and>
       generate_state (lf_token_bytes F) u1 = (Inr state, u2) \<and>
       is_loopback (lf_ip_loopback F) (of_host F) \<and> lf_bind F u2 = (Inr port, u3) \<and>
       consented F pkce state port code v \<and>
       urlencode (exchange_form F code (pk_verifier pkce) (redirect_of (of_host F) port (of_callback_path F))) = Inr b \<and>
       ob_wire t = ob_wire s @ [(post_request (of_token_endpoint F) form_headers b, reply)] \<and>
       (\<forall>res. r = Inr res \<longrightarrow> (\<exists>st body. reply = Inr (st, body) \<and> 200 \<le> st \<and> st < 300)))"
    (is "?quiet \<or> ?posted")
proof (cases ?quiet)
  case False
  note k = quiet_keeps [OF assms(2)]
  have kb: "keeps ob_wire (new_listener F)" using k(2) by (simp add: new_listener_def keeps_pure)
  have kp: "keeps ob_wire (generate_pkce_pair (lf_sha F) (lf_token_bytes F))" "keeps ob_wire (generate_state (lf_token_bytes F))"
    using k(1) by (simp_all add: generate_pkce_pair_def generate_code_verifier_def generate_state_def keeps_pbind keeps_pure)
  from quiet_step [OF kp(1) assms(3) [unfolded loopback_run_def] refl False] obtain pkce u1 where 1: "ob_wire u1 = ob_wire s"
    "generate_pkce_pair (lf_sha F) (lf_token_bytes F) s = (Inr pkce, u1)"
    "pbind (generate_state (lf_token_bytes F)) (\<lambda>state. pbind (new_listener F)
      (\<lambda>port. pfinally (flow_body F pkce state port) (lf_close F))) u1 = (r, t)" .
  from quiet_step [OF kp(2) 1(3,1) False] obtain state u2 where 2: "ob_wire u2 = ob_wire s"
    "generate_state (lf_token_bytes F) u1 = (Inr state, u2)"
    "pbind (new_listener F) (\<lambda>port. pfinally (flow_body F pkce state port) (lf_close F)) u2 = (r, t)" .
  from quiet_step [OF kb 2(3,1) False] obtain port u3 where 3: "ob_wire u3 = ob_wire s"
    "new_listener F u2 = (Inr port, u3)" "pfinally (flow_body F pkce state port) (lf_close F) u3 = (r, t)" .
  obtain q v where q: "flow_body F pkce state port u3 = (q, v)" by fastforce
  obtain x z where x: "lf_close F v = (x, z)" by fastforce
  have z: "z = t" "\<And>res. r = Inr res \<Longrightarrow> q = Inr res" "(\<exists>e. q = Inl e) \<Longrightarrow> (\<exists>e. r = Inl e)"
    using 3(3) q x by (auto simp: pfinally_def split: sum.splits)
  have w: "ob_wire t = ob_wire v" using keepsD [OF k(5) x] z(1) by simp
  from flow_body_wire [OF assms(1,2) q] False w 3(1) z(3) obtain c code b reply where f: "consented F pkce state port code c"
    "urlencode (exchange_form F code (pk_verifier pkce) (redirect_of (of_host F) port (of_callback_path F))) = Inr b"
    "ob_wire v = ob_wire u3 @ [(post_request (of_token_endpoint F) form_headers b, reply)]"
    "\<And>res. q = Inr res \<Longrightarrow> \<exists>st body. reply = Inr (st, body) \<and> 200 \<le> st \<and> st < 300" by metis
  moreover have "is_loopback (lf_ip_loopback F) (of_host F)" "lf_bind F u2 = (Inr port, u3)"
    using 3(2) by (auto simp: new_listener_def split: if_splits)
  ultimately have ?posted using 1(2) 2(2) w 3(1) z(2) by metis
  then show ?thesis ..
qed simp

text \<open>A listener that gets a request for an icon, and then the callback of this run with a second, forged code.\<close>

definition consent_split :: "pystr \<Rightarrow> url_parts res" where
  "consent_split u = Inr \<lparr>up_scheme = (if take 5 u = lit ''http:'' then lit ''http'' else lit ''https''), up_username = None,
     up_password = None, up_hostname = Some (if take 5 u = lit ''http:'' then lit ''127.0.0.1'' else lit ''oauth2.googleapis.com''),
     up_port = Inr (Some 8080)\<rparr>"

definition path_split :: "pystr \<Rightarrow> url_split res" where
  "path_split target = Inr \<lparr>up_scheme = [], up_username = None, up_password = None, up_hostname = None, up_port = Inr None,
     up_netloc = [], up_path = takeWhile (\<lambda>c. c \<noteq> 63) target, up_query = tl (dropWhile (\<lambda>c. c \<noteq> 63) target)\<rparr>"

definition sample_state :: pystr where
  "sample_state = b64url_nopad (replicate 32 1)"

definition sample_loopback :: "(unit, unit outbound) loopback" where
  "sample_loopback = \<lparr>of_client_id = lit ''c'', of_client_secret = None, of_egress = oauth_client consent_split,
     of_scopes = set v1_allowed_scopes, of_host = lit ''127.0.0.1'', of_callback_path = lit ''/cb'', of_auth_endpoint = lit ''https://a'',
     of_token_endpoint = default_token_endpoint, of_now = read_clock,
     of_loads = \<lambda>_. Inr (PDict [(lit ''access_token'', PStr (lit ''a''))]),
     lf_sha = \<lambda>_. replicate 32 2, lf_token_bytes = preturn (replicate 32 1), lf_ip_loopback = \<lambda>_. Some True,
     lf_bind = preturn 8080, lf_on_redirect_uri = \<lambda>_. preturn (), lf_open = \<lambda>_. preturn (),
     lf_wait = preturn [\<lparr>cb_target = lit ''/favicon.ico'', cb_written = Inr ()\<rparr>,
       \<lparr>cb_target = lit ''/cb?state='' @ sample_state @ lit ''&code=x&code=y'', cb_written = Inr ()\<rparr>],
     lf_close = preturn (), lf_unquote = \<lambda>s. s, lf_urlsplit = path_split\<rparr>"

definition sample_outbound :: "unit outbound" where
  "sample_outbound = \<lparr>ob_wire = [], ob_replies = [Inr (200, [])], ob_clock = \<lambda>_. 7, ob_tokens = toy_tokens\<rparr>"

lemma sample_quiet: "quiet_flow sample_loopback" "of_egress sample_loopback = oauth_client consent_split"
  by (simp_all add: quiet_flow_def sample_loopback_def keeps_pure wire_keep)


lemma sample_loopback_runs: "\<exists>result t. loopback_run sample_loopback sample_outbound = (Inr result, t)"
proof -
  let ?F = sample_loopback and ?ru = "redirect_of (lit ''127.0.0.1'') 8080 (lit ''/cb'')" and ?c = "b64url_nopad (replicate 32 2)"
  let ?rq = "\<lparr>or_client_id = lit ''c'', or_redirect_uri = ?ru, or_state = sample_state, or_code_challenge = ?c,
    or_scopes = set v1_allowed_scopes\<rparr>"
  have "validate_code_verifier sample_state = Inr ()" by code_simp
  then have c: "code_challenge (lf_sha ?F) sample_state = Inr ?c" by (simp add: code_challenge_def sample_loopback_def)
  have tb: "lf_token_bytes ?F = preturn (replicate 32 1)" by (simp add: sample_loopback_def)
  have pkce: "generate_pkce_pair (lf_sha ?F) (lf_token_bytes ?F) = preturn \<lparr>pk_verifier = sample_state, pk_challenge = ?c,
      pk_method = code_challenge_method\<rparr>"
    unfolding generate_pkce_pair_def generate_code_verifier_def tb pbind_preturn sample_state_def [symmetric] c pbind_plift_Inr ..
  have state: "generate_state (lf_token_bytes ?F) = preturn sample_state"
    unfolding generate_state_def tb pbind_preturn sample_state_def ..
  have rq: "authorization_request_init consent_split (lit ''c'') ?ru sample_state ?c (set v1_allowed_scopes) = Inr ?rq"
    by code_simp
  have "\<not> isl (build_authorization_url ?rq (lit ''https://a''))" by code_simp
  then obtain url where url: "build_authorization_url ?rq (lit ''https://a'') = Inr url"
    by (cases "build_authorization_url ?rq (lit ''https://a'')") simp_all
  have L: "serve (lf_unquote ?F) (lf_urlsplit ?F) (case lf_wait ?F sample_outbound of (Inr rqs, _) \<Rightarrow> rqs | _ \<Rightarrow> [])
      \<lparr>ls_callback_path = lit ''/cb'', ls_captured = None, ls_done = False\<rparr> = \<lparr>ls_callback_path = lit ''/cb'',
        ls_captured = Some [(lit ''state'', sample_state), (lit ''code'', lit ''x'')], ls_done = True\<rparr>" by code_simp
  then have cb: "flow_callback ?F sample_outbound = (Inr [(lit ''state'', sample_state), (lit ''code'', lit ''x'')], sample_outbound)"
    by (simp add: flow_callback_def pbind_def sample_loopback_def)
  have code: "extract_authorization_code [(lit ''state'', sample_state), (lit ''code'', lit ''x'')] sample_state = Inr (lit ''x'')"
    by code_simp
  have "\<not> isl (fst (exchange_code (oauth_flow.truncate ?F) (lit ''x'') sample_state ?ru sample_outbound))" by code_simp
  then obtain result t where x: "exchange_code (oauth_flow.truncate ?F) (lit ''x'') sample_state ?ru sample_outbound = (Inr result, t)"
    by (cases "exchange_code (oauth_flow.truncate ?F) (lit ''x'') sample_state ?ru sample_outbound";
        cases "fst (exchange_code (oauth_flow.truncate ?F) (lit ''x'') sample_state ?ru sample_outbound)") auto
  have f: "of_host ?F = lit ''127.0.0.1''" "of_callback_path ?F = lit ''/cb''" "lf_bind ?F = preturn 8080" "of_client_id ?F = lit ''c''"
    "eg_urlsplit (of_egress ?F) = consent_split" "of_scopes ?F = set v1_allowed_scopes" "of_auth_endpoint ?F = lit ''https://a''"
    "lf_on_redirect_uri ?F = (\<lambda>_. preturn ())" "lf_open ?F = (\<lambda>_. preturn ())" "lf_close ?F = preturn ()"
    "is_loopback (lf_ip_loopback ?F) (lit ''127.0.0.1'')"
    by (simp_all add: sample_loopback_def oauth_client_def egress_client_def is_loopback_def)
  have "flow_body ?F \<lparr>pk_verifier = sample_state, pk_challenge = ?c, pk_method = code_challenge_method\<rparr> sample_state 8080 sample_outbound
      = (Inr result, t)"
    by (simp add: flow_body_def f rq url pbind_returns [of "flow_callback ?F" sample_outbound, OF cb] code x)
  then have "loopback_run ?F sample_outbound = (Inr result, t)"
    by (simp add: loopback_run_def pkce state new_listener_def f pfinally_def)
  then show ?thesis by blast
qed

theorem consent_confined_witness:
  "\<exists>t u b reply. ob_wire t = [(post_request default_token_endpoint form_headers b, reply)] \<and>
     fst (loopback_run sample_loopback sample_outbound) = Inr u \<and> snd (loopback_run sample_loopback sample_outbound) = t"
proof -
  obtain result t where r: "loopback_run sample_loopback sample_outbound = (Inr result, t)" using sample_loopback_runs by blast
  have "\<exists>b reply. ob_wire t = ob_wire sample_outbound @ [(post_request (of_token_endpoint sample_loopback) form_headers b, reply)]"
    using consent_confined [OF sample_quiet(2,1) r] by (metis Inl_Inr_False)
  then obtain b reply where "ob_wire t = [(post_request default_token_endpoint form_headers b, reply)]"
    by (auto simp: sample_outbound_def sample_loopback_def)
  with r show ?thesis by (intro exI [of _ t] exI [of _ result] exI [of _ b] exI [of _ reply]) simp
qed

end
