(* ===== verification/Client_Bundle.thy ===== *)
theory Client_Bundle
  imports Loopback_Flow
begin

text \<open>
  \<open>gateway/bundle.py\<close>, the reader of an operator's client file in \<open>gateway/authorize.py\<close> and the deep link of
  \<open>gateway/trigger.py\<close>: which client an authorization runs with, and what can start one.  Reading a file is a method of the
  state, SHA-256 and \<open>json.loads\<close> of decoded bytes are parameters.
\<close>

subsection \<open>The client in a file\<close>

text \<open>The desktop shape or a bare object; the two readers differ in the exception they raise.\<close>

definition installed :: "pyval \<Rightarrow> pyval" where
  "installed data = (case data of
     PDict d \<Rightarrow> (case dget d (lit ''installed'') of PDict e \<Rightarrow> PDict e | _ \<Rightarrow> data)
   | _ \<Rightarrow> data)"

definition client_of :: "exn \<Rightarrow> pyval \<Rightarrow> (pystr \<times> pystr option) res" where
  "client_of missing data = (case installed data of
     PDict d \<Rightarrow> (case dget d (lit ''client_id'') of
         PStr client_id \<Rightarrow> Inr (client_id, as_str (dget d (lit ''client_secret'')))
       | _ \<Rightarrow> Inl missing)
   | _ \<Rightarrow> Inl missing)"

definition read_client_credentials :: "('s, pyval) pm \<Rightarrow> ('s, pystr \<times> pystr option) pm" where
  "read_client_credentials load = pbind load (\<lambda>data. plift (client_of (Py ValueError) data))"

subsection \<open>The pinned bundle\<close>

text \<open>
  \<open>_validate_expected\<close>.  Only ASCII letters have a lower case among the hexadecimal digits, so a pin with any other
  character is refused whatever \<open>lower\<close> makes of it.
\<close>

definition validate_expected :: "pystr option \<Rightarrow> pystr res" where
  "validate_expected expected = (case expected of
     None \<Rightarrow> Inl (Gw BundleError)
   | Some s \<Rightarrow>
       let pin = lower_ascii (py_strip s) in
       if length pin \<noteq> 64 \<or> \<not> list_all hex_char pin then Inl (Gw BundleError)
       else if pin = replicate 64 48 then Inl (Gw BundleError)
       else Inr pin)"

definition parse_verified_client :: "(bytes \<Rightarrow> pyval res) \<Rightarrow> bytes \<Rightarrow> (pystr \<times> pystr option) res" where
  "parse_verified_client loads raw =
     rbind (rcatch (loads raw) (\<lambda>e. Inl (if is_value_error e then Gw BundleError else e))) (client_of (Gw BundleError))"

definition load_bundled_client ::
  "(bytes \<Rightarrow> pystr) \<Rightarrow> (bytes \<Rightarrow> pyval res) \<Rightarrow> ('s, bytes) pm \<Rightarrow> pystr option \<Rightarrow> ('s, pystr \<times> pystr option) pm" where
  "load_bundled_client sha loads read expected =
     pbind (plift (validate_expected expected)) (\<lambda>pin.
     ptry read (\<lambda>e. praise (if is_os_error e then Gw BundleError else e)) (\<lambda>raw.
     pbind (plift (compare_digest (sha raw) pin)) (\<lambda>same.
     if \<not> same then praise (Gw BundleError) else plift (parse_verified_client loads raw))))"

text \<open>\<open>EXPECTED_CLIENT_SHA256\<close>.\<close>

definition expected_client_sha256 :: "pystr option" where
  "expected_client_sha256 = None"

subsection \<open>The deep link\<close>

definition is_authorize_uri :: "(pystr \<Rightarrow> url_split res) \<Rightarrow> pyval \<Rightarrow> bool res" where
  "is_authorize_uri urlsplit uri = (case uri of
     PStr s \<Rightarrow> (case urlsplit s of
         Inl e \<Rightarrow> (if is_value_error e then Inr False else Inl e)
       | Inr parts \<Rightarrow>
           let action = (if up_netloc parts \<noteq> [] then up_netloc parts else dropWhile (\<lambda>c. c = 47) (up_path parts))
           in Inr (up_scheme parts = lit ''puffo'' \<and> action = lit ''authorize''))
   | _ \<Rightarrow> Inr False)"

definition handle_authorize_trigger ::
  "(pystr \<Rightarrow> url_split res) \<Rightarrow> pyval \<Rightarrow> ('s, bool) pm \<Rightarrow> ('s, 'a) pm \<Rightarrow> ('s, bool) pm" where
  "handle_authorize_trigger urlsplit uri confirm authorize =
     pbind (plift (is_authorize_uri urlsplit uri)) (\<lambda>ok.
     if \<not> ok then praise (Gw TriggerError)
     else pbind confirm (\<lambda>yes.
       if \<not> yes then preturn False else pbind authorize (\<lambda>_. preturn True)))"

subsection \<open>The button\<close>

record local_config =
  lc_data_root :: pystr
  lc_client_bundle :: pystr
  lc_expected_sha256 :: pystr

text \<open>
  \<open>load_local_config\<close>, over what \<open>json.load\<close> of the file gives; \<open>client_path\<close> is \<open>paths.client_bundle\<close>.
\<close>

definition nonempty_str :: "pyval \<Rightarrow> pystr res" where
  "nonempty_str v = (case v of
     PStr s \<Rightarrow> (if s = [] then Inl (Gw LocalConnectConfigError) else Inr s)
   | _ \<Rightarrow> Inl (Gw LocalConnectConfigError))"

definition load_local_config :: "(pystr \<Rightarrow> pystr) \<Rightarrow> ('s, pyval) pm \<Rightarrow> ('s, local_config) pm" where
  "load_local_config client_path load =
     ptry load (\<lambda>e. praise (if is_os_error e \<or> is_value_error e then Gw LocalConnectConfigError else e)) (\<lambda>raw. plift (
     case raw of
       PDict d \<Rightarrow>
         rbind (nonempty_str (dget d (lit ''data_root''))) (\<lambda>data_root.
         rbind (nonempty_str (dget d (lit ''expected_sha256''))) (\<lambda>pin.
         rbind (if dget d (lit ''client_bundle'') = PNone then Inr (client_path data_root)
             else nonempty_str (dget d (lit ''client_bundle''))) (\<lambda>bundle.
         Inr \<lparr>lc_data_root = data_root, lc_client_bundle = bundle, lc_expected_sha256 = pin\<rparr>)))
     | _ \<Rightarrow> Inl (Gw LocalConnectConfigError)))"

text \<open>\<open>build_authorize_callback\<close> and \<open>connect_once\<close>, over the loader and the authorizer.\<close>

definition build_authorize_callback ::
  "local_config \<Rightarrow> (pystr \<Rightarrow> pystr option \<Rightarrow> ('s, pystr \<times> pystr option) pm) \<Rightarrow>
   (pystr \<Rightarrow> pystr \<Rightarrow> pystr option \<Rightarrow> ('s, 'a) pm) \<Rightarrow> ('s, 'a) pm" where
  "build_authorize_callback config loader authorizer =
     pbind (loader (lc_client_bundle config) (Some (lc_expected_sha256 config))) (\<lambda>(client_id, client_secret).
     authorizer (lc_data_root config) client_id client_secret)"

definition connect_once ::
  "local_config \<Rightarrow> ('s, bool) pm \<Rightarrow> (pystr \<Rightarrow> pystr option \<Rightarrow> ('s, pystr \<times> pystr option) pm) \<Rightarrow>
   (pystr \<Rightarrow> pystr \<Rightarrow> pystr option \<Rightarrow> ('s, 'a) pm) \<Rightarrow> ('s, 'a option) pm" where
  "connect_once config confirm loader authorizer = pbind confirm (\<lambda>yes.
     if \<not> yes then preturn None
     else pbind (build_authorize_callback config loader authorizer) (\<lambda>summary. preturn (Some summary)))"

subsection \<open>Loading\<close>

lemma validate_expected_Inr:
  "validate_expected expected = Inr pin \<longleftrightarrow>
     (\<exists>s. expected = Some s \<and> pin = lower_ascii (py_strip s)) \<and> length pin = 64 \<and> list_all hex_char pin \<and> pin \<noteq> replicate 64 48"
  by (auto simp: validate_expected_def Let_def split: option.splits if_splits)

lemma validate_expected_Inl: "validate_expected expected = Inl e \<Longrightarrow> e = Gw BundleError"
  by (auto simp: validate_expected_def Let_def split: option.splits if_splits)

lemma hex_ascii: "list_all hex_char s \<Longrightarrow> ascii s"
  by (auto simp: ascii_def list_all_iff hex_char_def)

lemma load_bundled_cases:
  assumes "hex_digest sha" "load_bundled_client sha loads read expected s = (r, t)"
  obtains (unpinned) "\<And>pin. validate_expected expected \<noteq> Inr pin" "r = Inl (Gw BundleError)" "t = s"
  | (unread) pin e where "validate_expected expected = Inr pin" "read s = (Inl e, t)"
      "r = Inl (if is_os_error e then Gw BundleError else e)"
  | (mismatch) pin raw where "validate_expected expected = Inr pin" "read s = (Inr raw, t)" "sha raw \<noteq> pin" "r = Inl (Gw BundleError)"
  | (verified) raw where "validate_expected expected = Inr (sha raw)" "read s = (Inr raw, t)" "r = parse_verified_client loads raw"
proof (cases "validate_expected expected")
  case (Inl e)
  with assms(2) validate_expected_Inl show thesis by (intro unpinned) (auto simp: load_bundled_client_def)
next
  case (Inr pin)
  obtain q u where q: "read s = (q, u)" by fastforce
  show thesis
  proof (cases q)
    case (Inl e)
    with assms(2) Inr q show thesis by (intro unread) (auto simp: load_bundled_client_def ptry_def)
  next
    case (Inr raw)
    have "compare_digest (sha raw) pin = Inr (sha raw = pin)"
      using hex_ascii [OF hex_digestD(2) [OF assms(1)]] hex_ascii \<open>validate_expected expected = Inr pin\<close>
      by (simp add: compare_digest_def validate_expected_Inr)
    with assms(2) \<open>validate_expected expected = Inr pin\<close> q Inr show thesis
      by (cases "sha raw = pin") (auto simp: load_bundled_client_def ptry_def plift_def intro: mismatch verified)
  qed
qed

lemma load_bundled_returns:
  assumes "hex_digest sha"
  shows "load_bundled_client sha loads read expected s = (Inr client, t) \<longleftrightarrow>
    (\<exists>raw. validate_expected expected = Inr (sha raw) \<and> read s = (Inr raw, t) \<and> parse_verified_client loads raw = Inr client)"
proof
  assume "load_bundled_client sha loads read expected s = (Inr client, t)"
  with assms show "\<exists>raw. validate_expected expected = Inr (sha raw) \<and> read s = (Inr raw, t) \<and> parse_verified_client loads raw = Inr client"
    by (cases rule: load_bundled_cases) auto
next
  assume "\<exists>raw. validate_expected expected = Inr (sha raw) \<and> read s = (Inr raw, t) \<and> parse_verified_client loads raw = Inr client"
  then obtain raw where r: "validate_expected expected = Inr (sha raw)" "read s = (Inr raw, t)" "parse_verified_client loads raw = Inr client"
    by blast
  moreover have "compare_digest (sha raw) (sha raw) = Inr True"
    using hex_ascii [OF hex_digestD(2) [OF assms]] by (simp add: compare_digest_def)
  ultimately show "load_bundled_client sha loads read expected s = (Inr client, t)"
    by (simp add: load_bundled_client_def ptry_def plift_def)
qed

subsection \<open>Properties\<close>

text \<open>
  Only the pinned bytes.  Whatever the file system answers, the client of the bundle comes back exactly when the pin is
  64 hexadecimal digits other than all zeros, the file was read once, its bytes have that digest, and these same bytes
  hold the client; the bytes another run accepts under the pin are the same, unless SHA-256 collides.  Without a usable pin
  nothing is read, and the pin of this build is not set.
\<close>

theorem bundle_pinned:
  assumes "hex_digest sha"
  shows "(load_bundled_client sha loads read expected s = (Inr client, t) \<longleftrightarrow>
      (\<exists>raw. validate_expected expected = Inr (sha raw) \<and> sha raw \<noteq> replicate 64 48 \<and> read s = (Inr raw, t) \<and>
         parse_verified_client loads raw = Inr client)) \<and>
    (\<forall>raw raw'. validate_expected expected = Inr (sha raw) \<and> validate_expected expected = Inr (sha raw') \<longrightarrow>
       raw = raw' \<or> (\<exists>a b. a \<noteq> b \<and> sha a = sha b)) \<and>
    ((\<forall>pin. validate_expected expected \<noteq> Inr pin) \<longrightarrow> load_bundled_client sha loads read expected s = (Inl (Gw BundleError), s)) \<and>
    load_bundled_client sha loads read expected_client_sha256 s = (Inl (Gw BundleError), s)"
proof (intro conjI allI impI)
  show "load_bundled_client sha loads read expected s = (Inr client, t) \<longleftrightarrow>
      (\<exists>raw. validate_expected expected = Inr (sha raw) \<and> sha raw \<noteq> replicate 64 48 \<and> read s = (Inr raw, t) \<and>
         parse_verified_client loads raw = Inr client)"
    unfolding load_bundled_returns [OF assms] by (auto simp: validate_expected_Inr)
next
  fix raw raw'
  assume "validate_expected expected = Inr (sha raw) \<and> validate_expected expected = Inr (sha raw')"
  then have "sha raw = sha raw'" by (metis sum.inject(2))
  then show "raw = raw' \<or> (\<exists>a b. a \<noteq> b \<and> sha a = sha b)" by blast
next
  assume "\<forall>pin. validate_expected expected \<noteq> Inr pin"
  then show "load_bundled_client sha loads read expected s = (Inl (Gw BundleError), s)"
    by (cases "validate_expected expected") (auto simp: load_bundled_client_def dest: validate_expected_Inl)
qed (simp add: load_bundled_client_def validate_expected_def expected_client_sha256_def)

definition fix_sha :: "bytes \<Rightarrow> pystr" where
  "fix_sha b = replicate 64 (if b = [1] then 49 else 50)"

lemma fix_bundle:
  "hex_digest fix_sha" "validate_expected (Some (32 # replicate 64 49)) = Inr (fix_sha [1])" "fix_sha [1] \<noteq> replicate 64 48"
  "parse_verified_client (\<lambda>_. Inr (PDict [(lit ''client_id'', PStr (lit ''c''))])) [1] = Inr (lit ''c'', None)"
proof -
  show "hex_digest fix_sha" by (simp add: hex_digest_def fix_sha_def hex_char_def list_all_iff)
  show "validate_expected (Some (32 # replicate 64 49)) = Inr (fix_sha [1])" by code_simp
qed (simp_all add: fix_sha_def parse_verified_client_def client_of_def installed_def dget_def)

theorem bundle_pinned_witness:
  "load_bundled_client fix_sha (\<lambda>_. Inr (PDict [(lit ''client_id'', PStr (lit ''c''))])) (preturn [1])
     (Some (32 # replicate 64 49)) () = (Inr (lit ''c'', None), ())"
  using bundle_pinned [OF fix_bundle(1), of "\<lambda>_. Inr (PDict [(lit ''client_id'', PStr (lit ''c''))])" "preturn [1]"
      "Some (32 # replicate 64 49)" "()" "(lit ''c'', None)" "()"] fix_bundle(2-4) by auto

end
