(* ===== verification/Authorize.thy ===== *)
theory Authorize
  imports Client_Bundle
begin

text \<open>
  \<open>gateway/authorize.py\<close>: run the consent flow once and seal what it returns, and the two ways to get there, the command
  and the button of \<open>gateway/local_connect.py\<close>.  The state is the outside of \<open>Token_Refresh\<close>.
\<close>

subsection \<open>The key\<close>

definition ensure_dek :: "('k, bytes) pm \<Rightarrow> ('k, unit) pm option \<Rightarrow> ('k, unit) pm" where
  "ensure_dek get_dek provision =
     ptry get_dek
       (\<lambda>e. if e = Key KeyUnavailableError
          then (case provision of None \<Rightarrow> praise (Key KeyUnavailableError) | Some provide \<Rightarrow> provide)
          else praise e)
       (\<lambda>_. preturn ())"

subsection \<open>Authorizing\<close>

text \<open>
  \<open>run_authorize\<close> on a token database that is open; opening it after the consent and closing it are in
  \<open>authorize_command\<close> of \<open>Store_Files\<close>.
\<close>

text \<open>The flow of a client, the store it is sealed in, and how a missing key is provisioned.\<close>

record 'k authorizer =
  au_flow :: "pystr \<Rightarrow> pystr option \<Rightarrow> ('k outbound, token_result) pm"
  au_store :: "'k token_store"
  au_provision :: "('k, unit) pm option"

definition default_flow :: "('u, 'k outbound) loopback \<Rightarrow> pystr \<Rightarrow> pystr option \<Rightarrow> ('k outbound, token_result) pm" where
  "default_flow F client_id client_secret =
     (let G = F\<lparr>of_client_id := client_id, of_client_secret := client_secret\<rparr>
      in pbind (plift (new_flow G)) (\<lambda>_. loopback_run G))"

definition authorized_fields :: "token_result \<Rightarrow> int \<Rightarrow> pystr \<Rightarrow> pystr option \<Rightarrow> token_fields" where
  "authorized_fields result issued_at client_id client_secret =
     \<lparr>tf_access_token = tr_access_token result, tf_refresh_token = tr_refresh_token result, tf_issued_at = PInt issued_at,
      tf_expires_at = expiry issued_at (tr_expires_in result), tf_client_id = PStr client_id,
      tf_client_secret = (case client_secret of None \<Rightarrow> PNone | Some x \<Rightarrow> PStr x), tf_scope = tr_scope result,
      tf_write_origin = lit ''authorize''\<rparr>"

record authorize_summary =
  as_scope :: pyval
  as_expires_in :: "int option"
  as_has_refresh_token :: bool

definition lift_tokens :: "('k token_env, 'a) pm \<Rightarrow> ('k outbound, 'a) pm" where
  "lift_tokens = lift_pm ob_tokens put_tokens"

definition run_authorize :: "'k authorizer \<Rightarrow> pystr \<Rightarrow> pystr option \<Rightarrow> ('k outbound, authorize_summary) pm" where
  "run_authorize A client_id client_secret =
     pbind (au_flow A client_id client_secret) (\<lambda>result.
     pbind (case tr_received_at result of Some n \<Rightarrow> preturn n | None \<Rightarrow> read_clock) (\<lambda>issued_at.
     pbind (lift_tokens (lift_pm te_keys put_keys (ensure_dek (ci_get_dek (ts_cipher (au_store A))) (au_provision A)))) (\<lambda>_.
     pbind (lift_tokens (tokens_store (au_store A) (authorized_fields result issued_at client_id client_secret))) (\<lambda>_.
     preturn \<lparr>as_scope = tr_scope result, as_expires_in = tr_expires_in result,
       as_has_refresh_token = (tr_refresh_token result \<noteq> PNone)\<rparr>))))"

subsection \<open>The command\<close>

text \<open>Where the client comes from, and the exit code.\<close>

datatype 's client_source = ClientFile "('s, pyval) pm" | Bundled "('s, bytes) pm"

definition authorize_client ::
  "(bytes \<Rightarrow> pystr) \<Rightarrow> (bytes \<Rightarrow> pyval res) \<Rightarrow> 's client_source \<Rightarrow> ('s, (pystr \<times> pystr option) option) pm" where
  "authorize_client sha loads source = (case source of
     Bundled read \<Rightarrow> ptry (load_bundled_client sha loads read expected_client_sha256)
       (\<lambda>e. if e = Gw BundleError \<or> is_os_error e \<or> is_value_error e then preturn None else praise e) (\<lambda>c. preturn (Some c))
   | ClientFile load \<Rightarrow> ptry (read_client_credentials load)
       (\<lambda>e. if is_os_error e \<or> is_value_error e then preturn None else praise e) (\<lambda>c. preturn (Some c)))"

definition authorize_failed :: "exn \<Rightarrow> ('s, int) pm" where
  "authorize_failed e =
     (if e = Key KeyMaterialError \<or> e = Key KeyUnavailableError then preturn 3
      else case e of Py (SystemExit n) \<Rightarrow> praise e | _ \<Rightarrow> preturn 1)"

definition authorize_main ::
  "(bytes \<Rightarrow> pystr) \<Rightarrow> (bytes \<Rightarrow> pyval res) \<Rightarrow> 'k authorizer \<Rightarrow> 'k outbound client_source \<Rightarrow> ('k outbound, int) pm" where
  "authorize_main sha loads A source = pbind (authorize_client sha loads source) (\<lambda>client. case client of
     None \<Rightarrow> preturn 2
   | Some (client_id, client_secret) \<Rightarrow>
       ptry (run_authorize A client_id client_secret) authorize_failed (\<lambda>_. preturn 0))"

subsection \<open>The button and the deep link\<close>

text \<open>\<open>connect_once\<close> on the bundled client of the configuration and the real authorizer.\<close>

definition bundled_authorize ::
  "(bytes \<Rightarrow> pystr) \<Rightarrow> (bytes \<Rightarrow> pyval res) \<Rightarrow> (pystr \<Rightarrow> ('k outbound, bytes) pm) \<Rightarrow> 'k authorizer \<Rightarrow> local_config \<Rightarrow>
   ('k outbound, authorize_summary) pm" where
  "bundled_authorize sha loads read_file A config =
     build_authorize_callback config (\<lambda>path. load_bundled_client sha loads (read_file path)) (\<lambda>root. run_authorize A)"

definition button ::
  "(bytes \<Rightarrow> pystr) \<Rightarrow> (bytes \<Rightarrow> pyval res) \<Rightarrow> (pystr \<Rightarrow> ('k outbound, bytes) pm) \<Rightarrow> 'k authorizer \<Rightarrow> local_config \<Rightarrow>
   ('k outbound, bool) pm \<Rightarrow> ('k outbound, authorize_summary option) pm" where
  "button sha loads read_file A config confirm =
     connect_once config confirm (\<lambda>path. load_bundled_client sha loads (read_file path)) (\<lambda>root. run_authorize A)"

subsection \<open>What a run does\<close>

lemma lift_tokens_wire: "keeps ob_wire (lift_tokens m)"
  unfolding lift_tokens_def by (rule wire_keep)

lemma lift_tokens_step: "lift_tokens m s = (r, t) \<longleftrightarrow> (\<exists>v. m (ob_tokens s) = (r, v) \<and> t = put_tokens v s)"
  by (auto simp: lift_tokens_def lift_pm_def split: prod.splits)

lemma put_tokens_tokens [simp]: "ob_tokens (put_tokens v s) = v" "ob_wire (put_tokens v s) = ob_wire s"
  "ob_replies (put_tokens v s) = ob_replies s" "ob_clock (put_tokens v s) = ob_clock s"
  by (simp_all add: put_tokens_def)

lemma run_authorize_Inr:
  assumes "run_authorize A cid secret s = (Inr summary, t)"
  obtains result u issued_at x where "au_flow A cid secret s = (Inr result, u)"
    "issued_at = (case tr_received_at result of Some n \<Rightarrow> n | None \<Rightarrow> ob_clock u 0)"
    "ensure_dek (ci_get_dek (ts_cipher (au_store A))) (au_provision A) (te_keys (ob_tokens u)) = (Inr (), x)"
    "tokens_store (au_store A) (authorized_fields result issued_at cid secret) ((ob_tokens u)\<lparr>te_keys := x\<rparr>) = (Inr (), ob_tokens t)"
    "ob_wire t = ob_wire u"
proof -
  from assms obtain result u issued_at v w z where r: "au_flow A cid secret s = (Inr result, u)"
    "(case tr_received_at result of Some n \<Rightarrow> preturn n | None \<Rightarrow> read_clock) u = (Inr issued_at, v)"
    "lift_tokens (lift_pm te_keys put_keys (ensure_dek (ci_get_dek (ts_cipher (au_store A))) (au_provision A))) v = (Inr (), w)"
    "lift_tokens (tokens_store (au_store A) (authorized_fields result issued_at cid secret)) w = (Inr (), t)"
    by (auto simp: run_authorize_def pm_inv)
  from r(2) have v: "issued_at = (case tr_received_at result of Some n \<Rightarrow> n | None \<Rightarrow> ob_clock u 0)"
    "ob_tokens v = ob_tokens u" "ob_wire v = ob_wire u"
    by (auto simp: read_clock_def preturn_def split: option.splits)
  from r(3) obtain x where x: "ensure_dek (ci_get_dek (ts_cipher (au_store A))) (au_provision A) (te_keys (ob_tokens u)) = (Inr (), x)"
    "w = put_tokens ((ob_tokens u)\<lparr>te_keys := x\<rparr>) v"
    using v(2) by (auto simp: lift_tokens_step lift_pm_def put_keys_def split: prod.splits)
  from r(4) x(2) have "tokens_store (au_store A) (authorized_fields result issued_at cid secret) ((ob_tokens u)\<lparr>te_keys := x\<rparr>)
      = (Inr (), ob_tokens t)" "ob_wire t = ob_wire u"
    using v(3) by (auto simp: lift_tokens_step)
  with that r(1) v(1) x(1) show thesis by blast
qed

lemma bundled_authorize_wire:
  assumes "hex_digest sha" "keeps ob_wire (read_file (lc_client_bundle config))"
    and "bundled_authorize sha loads read_file A config s = (r, t)" "ob_wire t \<noteq> ob_wire s"
  obtains v raw cid secret where "read_file (lc_client_bundle config) s = (Inr raw, v)"
    "validate_expected (Some (lc_expected_sha256 config)) = Inr (sha raw)" "parse_verified_client loads raw = Inr (cid, secret)"
    "run_authorize A cid secret v = (r, t)"
proof -
  obtain q v where q: "load_bundled_client sha loads (read_file (lc_client_bundle config)) (Some (lc_expected_sha256 config)) s = (q, v)"
    by fastforce
  with assms(3) have c: "(case q of Inl e \<Rightarrow> (Inl e, v) | Inr c \<Rightarrow> run_authorize A (fst c) (snd c) v) = (r, t)"
    by (cases q) (auto simp: bundled_authorize_def build_authorize_callback_def pbind_def case_prod_beta)
  from assms(1) q show thesis
  proof (cases rule: load_bundled_cases)
    case (verified raw)
    then have w: "ob_wire v = ob_wire s" using keepsD [OF assms(2)] by blast
    show thesis
    proof (cases q)
      case (Inl e)
      with c w assms(4) show thesis by simp
    next
      case (Inr client)
      then have p: "parse_verified_client loads raw = Inr (fst client, snd client)" using verified(3) by simp
      moreover have "run_authorize A (fst client) (snd client) v = (r, t)" using c Inr by simp
      ultimately show thesis using verified(1,2) by (intro that [of raw v "fst client" "snd client"])
    qed
  qed (use c assms(4) keepsD [OF assms(2)] in auto)
qed

lemma run_seals:
  assumes "au_flow A cid secret u = (Inr result, v)" "tr_received_at result = Some n" "vault_ready (au_store A) (ob_tokens v)"
    and "f = authorized_fields result n cid secret" "codec_ok (au_store A) (token_blob f)"
  obtains x summary where "run_authorize A cid secret u = (Inr summary, put_tokens x v)"
    "tokens_open (au_store A) x = (Inr (token_blob f), x)"
proof -
  have o: "tf_write_origin f \<in> set write_origins" "py_eq (tf_issued_at f) (tf_issued_at f)"
    using assms(4) by (simp_all add: authorized_fields_def write_origins_def)
  from tokens_store_opens [OF assms(3,5) o] obtain x where
    x: "tokens_store (au_store A) f (ob_tokens v) = (Inr (), x)" "tokens_open (au_store A) x = (Inr (token_blob f), x)" by metis
  from assms(3) obtain key where "steady_key (ts_cipher (au_store A)) key" by (auto simp: vault_ready_def)
  then have dek: "ensure_dek (ci_get_dek (ts_cipher (au_store A))) (au_provision A) k = (Inr (), k)" for k
    by (simp add: ensure_dek_def ptry_def steady_key_def)
  have "lift_tokens (lift_pm te_keys put_keys (ensure_dek (ci_get_dek (ts_cipher (au_store A))) (au_provision A))) v = (Inr (), v)"
    by (simp add: lift_tokens_step lift_pm_def dek put_keys_def put_tokens_def)
  then have "run_authorize A cid secret u = (Inr \<lparr>as_scope = tr_scope result, as_expires_in = tr_expires_in result,
      as_has_refresh_token = (tr_refresh_token result \<noteq> PNone)\<rparr>, put_tokens x v)"
    using assms(1,2,4) x(1) by (simp add: run_authorize_def pbind_returns lift_tokens_step)
  with that x(2) show thesis by blast
qed

lemma authorize_connected:
  assumes "authorize_client sha loads source s = (Inr (Some (cid, secret)), u)" "au_flow A cid secret u = (Inr result, v)"
    and "tr_received_at result = Some n" "vault_ready (au_store A) (ob_tokens v)"
    and "f = authorized_fields result n cid secret" "codec_ok (au_store A) (token_blob f)"
  shows "\<exists>t. authorize_main sha loads A source s = (Inr 0, t) \<and> ob_wire t = ob_wire v \<and>
    token_record (au_store A) (ob_tokens t) = (Inr (token_blob f), ob_tokens t) \<and>
    (\<forall>P m. tp_store P = au_store A \<and> tr_expires_in result = Some m \<and> ob_clock t 0 < n + m - tp_skew P \<longrightarrow>
      (\<exists>w. access_token P t = (Inr (tr_access_token result), w) \<and> ob_wire w = ob_wire t))"
proof -
  from run_seals [OF assms(2-6)] obtain x summary where x: "run_authorize A cid secret u = (Inr summary, put_tokens x v)"
    "tokens_open (au_store A) x = (Inr (token_blob f), x)" .
  then have "authorize_main sha loads A source s = (Inr 0, put_tokens x v)"
    using assms(1) by (simp add: authorize_main_def pbind_returns ptry_def)
  moreover have "\<exists>w. access_token P (put_tokens x v) = (Inr (tr_access_token result), w) \<and> ob_wire w = ob_wire v"
    if "tp_store P = au_store A" "tr_expires_in result = Some m" "ob_clock v 0 < n + m - tp_skew P" for P :: "('u, 'a) token_provider" and m
    using that x(2) assms(5)
    by (simp add: access_token_def pbind_def lift_pm_def put_tokens_def token_record_def blob_dget authorized_fields_def
        expiry_def read_clock_def plift_def access_token_of_def)
  ultimately show ?thesis using x(2) by (intro exI [of _ "put_tokens x v"]) (auto simp: token_record_def)
qed

subsection \<open>A concrete authorization\<close>

definition sample_result :: token_result where
  "sample_result = \<lparr>tr_access_token = lit ''a'', tr_refresh_token = PStr (lit ''r''), tr_expires_in = Some 3600, tr_scope = PNone,
     tr_token_type = PNone, tr_received_at = Some 7\<rparr>"

definition sample_fields :: token_fields where
  "sample_fields = authorized_fields sample_result 7 (lit ''c'') None"

definition sample_vault :: "unit token_store" where
  "sample_vault = toy_vault\<lparr>ts_loads := \<lambda>_. Inr (PDict (token_blob sample_fields))\<rparr>"

text \<open>A flow that exchanges a code and returns these tokens.\<close>

definition sample_authorizer :: "unit authorizer" where
  "sample_authorizer = \<lparr>au_flow = \<lambda>_ _ s. (Inr sample_result, snd (wire_transport (post_request default_token_endpoint [] []) s)),
     au_store = sample_vault, au_provision = None\<rparr>"

definition sample_client :: "unit outbound client_source" where
  "sample_client = ClientFile (preturn (PDict [(lit ''client_id'', PStr (lit ''c''))]))"

lemma sample_authorization:
  "authorize_client fix_sha loads sample_client s = (Inr (Some (lit ''c'', None)), s)"
  "au_flow sample_authorizer c x sample_outbound = (Inr sample_result,
     sample_outbound\<lparr>ob_wire := [(post_request default_token_endpoint [] [], Inr (200, []))], ob_replies := []\<rparr>)"
  "tr_received_at sample_result = Some 7" "vault_ready (au_store sample_authorizer) toy_tokens"
  "codec_ok (au_store sample_authorizer) (token_blob sample_fields)"
  using toy_vault_ready(1)
  by (simp_all add: authorize_client_def sample_client_def read_client_credentials_def client_of_def installed_def dget_def ptry_def
      sample_authorizer_def wire_transport_def sample_outbound_def sample_result_def sample_vault_def vault_ready_def toy_vault_def
      codec_ok_def is_bytes_def plift_def)

lemma sample_authorization_run:
  "\<exists>t. authorize_main fix_sha loads sample_authorizer sample_client sample_outbound = (Inr 0, t) \<and>
     length (ob_wire t) = 1 \<and> token_record sample_vault (ob_tokens t) = (Inr (token_blob sample_fields), ob_tokens t)"
proof -
  have v: "vault_ready (au_store sample_authorizer) (ob_tokens (sample_outbound\<lparr>ob_wire := [(post_request default_token_endpoint [] [],
      Inr (200, []))], ob_replies := []\<rparr>))"
    using sample_authorization(4) by (simp add: sample_outbound_def)
  from authorize_connected [OF sample_authorization(1,2,3) v sample_fields_def sample_authorization(5), of loads]
  show ?thesis by (auto simp: sample_authorizer_def)
qed

definition sample_local_config :: local_config where
  "sample_local_config = \<lparr>lc_data_root = [], lc_client_bundle = [], lc_expected_sha256 = 32 # replicate 64 49\<rparr>"

lemma sample_button:
  "\<exists>r t. button fix_sha (\<lambda>_. Inr (PDict [(lit ''client_id'', PStr (lit ''c''))])) (\<lambda>_. preturn [1]) sample_authorizer sample_local_config
     (preturn True) sample_outbound = (r, t) \<and> ob_wire t \<noteq> [] \<and> ob_wire t \<noteq> ob_wire sample_outbound"
proof -
  let ?l = "\<lambda>_. Inr (PDict [(lit ''client_id'', PStr (lit ''c''))])"
  have l: "load_bundled_client fix_sha ?l (preturn [1]) (Some (32 # replicate 64 49)) sample_outbound = (Inr (lit ''c'', None), sample_outbound)"
    using fix_bundle hex_ascii [OF hex_digestD(2) [OF fix_bundle(1)]]
    by (simp add: load_bundled_client_def ptry_def compare_digest_def plift_def)
  have v: "vault_ready (au_store sample_authorizer) (ob_tokens (sample_outbound\<lparr>ob_wire := [(post_request default_token_endpoint [] [],
      Inr (200, []))], ob_replies := []\<rparr>))"
    using sample_authorization(4) by (simp add: sample_outbound_def)
  from run_seals [OF sample_authorization(2,3) v sample_fields_def sample_authorization(5)] obtain x summary where
    "run_authorize sample_authorizer (lit ''c'') None sample_outbound = (Inr summary, put_tokens x
      (sample_outbound\<lparr>ob_wire := [(post_request default_token_endpoint [] [], Inr (200, []))], ob_replies := []\<rparr>))" by metis
  with l show ?thesis
    by (simp add: button_def connect_once_def build_authorize_callback_def sample_local_config_def pbind_def) (simp add: sample_outbound_def)
qed

text \<open>The same authorization with a keychain that cannot be reached.\<close>

definition locked_authorizer :: "unit authorizer" where
  "locked_authorizer = sample_authorizer\<lparr>au_store := sample_vault\<lparr>ts_cipher := toy_cipher\<lparr>ci_get_dek :=
     praise (Key KeyBackendUnavailableError)\<rparr>\<rparr>\<rparr>"

subsection \<open>Properties\<close>

text \<open>What a request that left the machine rests on.\<close>

definition released ::
  "(bytes \<Rightarrow> pystr) \<Rightarrow> (bytes \<Rightarrow> pyval res) \<Rightarrow> (pystr \<Rightarrow> ('k outbound, bytes) pm) \<Rightarrow> 'k authorizer \<Rightarrow> local_config \<Rightarrow>
   ('k outbound, bool) pm \<Rightarrow> 'k outbound \<Rightarrow> 'k outbound \<Rightarrow> bool" where
  "released sha loads read_file A config confirm s t \<longleftrightarrow> (\<exists>u v raw cid secret q.
     confirm s = (Inr True, u) \<and> read_file (lc_client_bundle config) u = (Inr raw, v) \<and>
     validate_expected (Some (lc_expected_sha256 config)) = Inr (sha raw) \<and>
     parse_verified_client loads raw = Inr (cid, secret) \<and> run_authorize A cid secret v = (q, t))"

lemma confirmed_authorize:
  assumes "hex_digest sha" "keeps ob_wire confirm" "keeps ob_wire (read_file (lc_client_bundle config))"
    and "confirm s = (Inr True, u)" "bundled_authorize sha loads read_file A config u = (q, t)" "ob_wire t \<noteq> ob_wire s"
  shows "released sha loads read_file A config confirm s t"
proof -
  have "ob_wire t \<noteq> ob_wire u" using assms(6) keepsD [OF assms(2,4)] by simp
  from bundled_authorize_wire [OF assms(1,3,5) this] assms(4) show ?thesis unfolding released_def by metis
qed

text \<open>
  C5. Nothing without the confirmation.  Neither the button nor any deep link makes a request leave the machine unless the
  confirmation returned yes, the configured file was then read, and its bytes have the pinned digest: the flow runs with the
  client of those bytes, whatever the link says.  A declined confirmation ends it, and a text that is no authorize link does
  not even ask.
\<close>

theorem connect_gated:
  assumes "hex_digest sha" "keeps ob_wire confirm" "keeps ob_wire (read_file (lc_client_bundle config))"
    and "button sha loads read_file A config confirm s = (r, t)"
    and "handle_authorize_trigger split uri confirm (bundled_authorize sha loads read_file A config) s = (r', t')"
  shows "(ob_wire t \<noteq> ob_wire s \<longrightarrow> released sha loads read_file A config confirm s t) \<and>
    (ob_wire t' \<noteq> ob_wire s \<longrightarrow> released sha loads read_file A config confirm s t' \<and> is_authorize_uri split uri = Inr True) \<and>
    (\<forall>u. confirm s = (Inr False, u) \<longrightarrow> r = Inr None \<and> t = u \<and> (r' = Inr False \<and> t' = u \<or> (\<exists>e. r' = Inl e) \<and> t' = s)) \<and>
    (is_authorize_uri split uri \<noteq> Inr True \<longrightarrow> (\<exists>e. r' = Inl e) \<and> t' = s)"
proof -
  have b: "button sha loads read_file A config confirm = pbind confirm (\<lambda>yes. if \<not> yes then preturn None
      else pbind (bundled_authorize sha loads read_file A config) (\<lambda>summary. preturn (Some summary)))"
    unfolding button_def connect_once_def bundled_authorize_def ..
  have "released sha loads read_file A config confirm s t" if w: "ob_wire t \<noteq> ob_wire s"
  proof (cases "confirm s")
    case (Pair c u)
    show ?thesis
    proof (cases "c = Inr True")
      case True
      with Pair assms(4) b obtain q where "bundled_authorize sha loads read_file A config u = (q, t)"
        by (auto simp: pbind_def split: prod.splits sum.splits)
      with True Pair confirmed_authorize [of sha confirm read_file config s u, OF assms(1,2,3)] w show ?thesis by blast
    next
      case False
      with Pair assms(4) b keepsD [OF assms(2) Pair] w show ?thesis
        by (cases c) (auto simp: pbind_def)
    qed
  qed
  moreover have "is_authorize_uri split uri = Inr True \<and> released sha loads read_file A config confirm s t'" if w: "ob_wire t' \<noteq> ob_wire s"
  proof (cases "confirm s")
    case (Pair c u)
    have uri: "is_authorize_uri split uri = Inr True"
      using assms(5) w by (cases "is_authorize_uri split uri") (auto simp: handle_authorize_trigger_def split: if_splits)
    show ?thesis
    proof (cases "c = Inr True")
      case True
      with Pair assms(5) uri obtain q where "bundled_authorize sha loads read_file A config u = (q, t')"
        by (auto simp: handle_authorize_trigger_def pbind_def split: prod.splits sum.splits)
      with True Pair confirmed_authorize [of sha confirm read_file config s u, OF assms(1,2,3)] w uri show ?thesis by blast
    next
      case False
      with Pair assms(5) uri keepsD [OF assms(2) Pair] w show ?thesis
        by (cases c) (auto simp: handle_authorize_trigger_def pbind_def)
    qed
  qed
  moreover have "r = Inr None \<and> t = u" if "confirm s = (Inr False, u)" for u
    using that assms(4) b by (simp add: pbind_def)
  moreover have "(\<exists>e. r' = Inl e) \<and> t' = s" if "is_authorize_uri split uri \<noteq> Inr True"
  proof (cases "is_authorize_uri split uri")
    case (Inl e)
    then have "handle_authorize_trigger split uri confirm (bundled_authorize sha loads read_file A config) s = (Inl e, s)"
      by (simp add: handle_authorize_trigger_def)
    with assms(5) show ?thesis by (metis Pair_inject)
  next
    case (Inr ok)
    with that assms(5) show ?thesis by (auto simp: handle_authorize_trigger_def)
  qed
  moreover have "r' = Inr False \<and> t' = u" if "is_authorize_uri split uri = Inr True" "confirm s = (Inr False, u)" for u
    using that assms(5) by (simp add: handle_authorize_trigger_def pbind_def)
  ultimately show ?thesis by blast
qed

theorem connect_gated_witness:
  "\<exists>t. ob_wire t \<noteq> [] \<and> released fix_sha (\<lambda>_. Inr (PDict [(lit ''client_id'', PStr (lit ''c''))])) (\<lambda>_. preturn [1])
     sample_authorizer sample_local_config (preturn True) sample_outbound t"
proof -
  let ?l = "\<lambda>_. Inr (PDict [(lit ''client_id'', PStr (lit ''c''))])"
  obtain r t where b: "button fix_sha ?l (\<lambda>_. preturn [1]) sample_authorizer sample_local_config (preturn True) sample_outbound = (r, t)"
    "ob_wire t \<noteq> []" "ob_wire t \<noteq> ob_wire sample_outbound" using sample_button by blast
  obtain r' t' where "handle_authorize_trigger path_split PNone (preturn True)
      (bundled_authorize fix_sha ?l (\<lambda>_. preturn [1]) sample_authorizer sample_local_config) sample_outbound = (r', t')" by fastforce
  from connect_gated [OF fix_bundle(1) keeps_pure(1) keeps_pure(1) b(1) this] b(2,3) show ?thesis by (intro exI [of _ t]) simp
qed

text \<open>
  C19. Exit code 0 means sealed.  Whatever fails, when the command exits with 0 the client came from its source, the flow
  returned tokens for it, and what stands in the row of the token is their record sealed under a key of the provider; no
  other row changed, and nothing was sent after the flow.
\<close>

theorem authorize_exit_zero:
  assumes "authorize_main sha loads A source s = (Inr 0, t)" "clean (te_kv (ob_tokens s))"
    and "keeps (\<lambda>s. te_kv (ob_tokens s)) (authorize_client sha loads source)"
    and "\<And>c x. keeps (\<lambda>s. te_kv (ob_tokens s)) (au_flow A c x)"
  shows "\<exists>cid secret u result v issued_at f blob sealed k k'.
    authorize_client sha loads source s = (Inr (Some (cid, secret)), u) \<and> au_flow A cid secret u = (Inr result, v) \<and>
    issued_at = (case tr_received_at result of Some n \<Rightarrow> n | None \<Rightarrow> ob_clock v 0) \<and>
    f = authorized_fields result issued_at cid secret \<and> ts_dumps (au_store A) (token_blob f) = Inr blob \<and>
    aead_seal (ts_cipher (au_store A)) blob token_type 1 k = (Inr sealed, k') \<and>
    token_rows (ob_tokens t) = (token_rows (ob_tokens s))(token_key \<mapsto> with_provenance (sealed_to_dict sealed) f) \<and>
    ob_wire t = ob_wire v"
proof -
  have no0: "authorize_failed e x \<noteq> (Inr 0, y)" for e and x y :: "'a outbound"
    by (auto simp: authorize_failed_def preturn_def praise_def split: exn.split py_exn.split)
  from assms(1) obtain c u where c: "authorize_client sha loads source s = (Inr c, u)"
    "(case c of None \<Rightarrow> preturn 2 | Some (cid, secret) \<Rightarrow> ptry (run_authorize A cid secret) authorize_failed (\<lambda>_. preturn 0)) u = (Inr 0, t)"
    by (auto simp: authorize_main_def pm_inv)
  then obtain cid secret where cid: "c = Some (cid, secret)" by (cases c) auto
  with c(2) no0 obtain summary where "run_authorize A cid secret u = (Inr summary, t)"
    by (auto simp: ptry_Inr_iff)
  then obtain result v issued_at x where r: "au_flow A cid secret u = (Inr result, v)"
    "issued_at = (case tr_received_at result of Some n \<Rightarrow> n | None \<Rightarrow> ob_clock v 0)"
    "tokens_store (au_store A) (authorized_fields result issued_at cid secret) ((ob_tokens v)\<lparr>te_keys := x\<rparr>) = (Inr (), ob_tokens t)"
    "ob_wire t = ob_wire v" by (rule run_authorize_Inr)
  let ?f = "authorized_fields result issued_at cid secret"
  have kv: "te_kv (ob_tokens v) = te_kv (ob_tokens s)"
    using keepsD [OF assms(3) c(1)] keepsD [OF assms(4) r(1)] by simp
  from r(3) obtain blob sealed y z where b: "ts_dumps (au_store A) (token_blob ?f) = Inr blob"
    "aead_seal (ts_cipher (au_store A)) blob token_type 1 x = (Inr sealed, y)"
    "kv_put tokens_kv token_key (with_provenance (sealed_to_dict sealed) ?f) z = (Inr (), ob_tokens t)"
    "z = put_keys y ((ob_tokens v)\<lparr>te_keys := x\<rparr>)"
    by (auto simp: tokens_store_def pm_inv lift_pm_iff split: if_splits)
  have "clean (te_kv z)" using assms(2) kv b(4) by (simp add: put_keys_def)
  from tkdb.put_atomic [OF this b(3)] have "token_rows (ob_tokens t) = (token_rows z)(token_key \<mapsto> with_provenance (sealed_to_dict sealed) ?f)"
    by simp
  moreover have "token_rows z = token_rows (ob_tokens s)" using kv b(4) by (simp add: put_keys_def token_rows_def)
  ultimately show ?thesis using c(1) cid r b(1,2) by metis
qed

theorem authorize_exit_zero_witness:
  "\<exists>t blob sealed k k'. authorize_main fix_sha (\<lambda>_. Inl (Py ValueError)) sample_authorizer sample_client sample_outbound = (Inr 0, t) \<and>
     aead_seal toy_cipher blob token_type 1 k = (Inr sealed, k') \<and>
     token_rows (ob_tokens t) token_key = Some (with_provenance (sealed_to_dict sealed) sample_fields)"
proof -
  obtain t where t: "authorize_main fix_sha (\<lambda>_. Inl (Py ValueError)) sample_authorizer sample_client sample_outbound = (Inr 0, t)"
    using sample_authorization_run by blast
  have c: "clean (te_kv (ob_tokens sample_outbound))" using toy_tokens_ok(2) by (simp add: sample_outbound_def)
  have k: "keeps (\<lambda>s. te_kv (ob_tokens s)) (authorize_client fix_sha (\<lambda>_. Inl (Py ValueError)) sample_client)"
    by (simp add: keeps_def sample_authorization(1))
  have f: "keeps (\<lambda>s. te_kv (ob_tokens s)) (au_flow sample_authorizer c x)" for c x
    by (auto simp: keeps_def sample_authorizer_def wire_transport_def split: list.splits)
  have a: "cid = lit ''c'' \<and> secret = None \<and> u = sample_outbound"
    if "authorize_client fix_sha (\<lambda>_. Inl (Py ValueError)) sample_client sample_outbound = (Inr (Some (cid, secret)), u)" for cid secret u
    using that by (simp add: sample_authorization(1))
  from authorize_exit_zero [OF t c k f] obtain cid secret u result v issued_at f blob sealed k k' where x:
    "authorize_client fix_sha (\<lambda>_. Inl (Py ValueError)) sample_client sample_outbound = (Inr (Some (cid, secret)), u)"
    "au_flow sample_authorizer cid secret u = (Inr result, v)"
    "issued_at = (case tr_received_at result of Some n \<Rightarrow> n | None \<Rightarrow> ob_clock v 0)" "f = authorized_fields result issued_at cid secret"
    "aead_seal (ts_cipher (au_store sample_authorizer)) blob token_type 1 k = (Inr sealed, k')"
    "token_rows (ob_tokens t) = (token_rows (ob_tokens sample_outbound))(token_key \<mapsto> with_provenance (sealed_to_dict sealed) f)"
    by metis
  from a [OF x(1)] x(2-4) have "f = sample_fields"
    by (simp add: sample_authorization(2,3) sample_fields_def)
  moreover have "ts_cipher (au_store sample_authorizer) = toy_cipher" by (simp add: sample_authorizer_def sample_vault_def toy_vault_def)
  ultimately show ?thesis using t x(5,6) by auto
qed

text \<open>
  A connection that serves the next send.  With the client read, tokens returned by the flow and storage, key and codec
  in order the command exits with 0, the record opens to what the flow returned with the client beside it, and until the
  skew before its expiry the token provider of the send path hands out this access token without a request.
\<close>

theorem authorize_connects:
  assumes "authorize_client sha loads source s = (Inr (Some (cid, secret)), u)" "au_flow A cid secret u = (Inr result, v)"
    and "tr_received_at result = Some n" "vault_ready (au_store A) (ob_tokens v)"
    and "f = authorized_fields result n cid secret" "codec_ok (au_store A) (token_blob f)"
  shows "\<exists>t. authorize_main sha loads A source s = (Inr 0, t) \<and> ob_wire t = ob_wire v \<and>
    token_record (au_store A) (ob_tokens t) = (Inr (token_blob f), ob_tokens t) \<and>
    (\<forall>P m. tp_store P = au_store A \<and> tr_expires_in result = Some m \<and> ob_clock t 0 < n + m - tp_skew P \<longrightarrow>
      (\<exists>w. access_token P t = (Inr (tr_access_token result), w) \<and> ob_wire w = ob_wire t))"
  using assms by (rule authorize_connected)

theorem authorize_connects_witness:
  "\<exists>t. authorize_main fix_sha (\<lambda>_. Inl (Py ValueError)) sample_authorizer sample_client sample_outbound = (Inr 0, t) \<and>
     token_record sample_vault (ob_tokens t) = (Inr (token_blob sample_fields), ob_tokens t)"
proof -
  have v: "vault_ready (au_store sample_authorizer) (ob_tokens (sample_outbound\<lparr>ob_wire := [(post_request default_token_endpoint [] [],
      Inr (200, []))], ob_replies := []\<rparr>))"
    using sample_authorization(4) by (simp add: sample_outbound_def)
  from authorize_connects [OF sample_authorization(1,2,3) v sample_fields_def sample_authorization(5), of "\<lambda>_. Inl (Py ValueError)"]
  show ?thesis by (auto simp: sample_authorizer_def)
qed

text \<open>
  A locked keychain is found out after the consent.  The key is asked for when the flow has returned its tokens: with
  a keychain that cannot be reached the command exits with 1, not with the 3 of a keychain error, the tokens are dropped, and
  nothing is stored although the grant stands at the provider.
\<close>

theorem locked_keychain_drops_tokens:
  assumes "authorize_client sha loads source s = (Inr (Some (cid, secret)), u)" "au_flow A cid secret u = (Inr result, v)"
    and "ci_get_dek (ts_cipher (au_store A)) (te_keys (ob_tokens v)) = (Inl (Key KeyBackendUnavailableError), k)"
  shows "\<exists>t. authorize_main sha loads A source s = (Inr 1, t) \<and> ob_wire t = ob_wire v \<and>
    token_rows (ob_tokens t) = token_rows (ob_tokens v)"
proof -
  have "ensure_dek (ci_get_dek (ts_cipher (au_store A))) (au_provision A) (te_keys (ob_tokens v)) =
      (Inl (Key KeyBackendUnavailableError), k)"
    using assms(3) by (simp add: ensure_dek_def ptry_def)
  then have l: "lift_tokens (lift_pm te_keys put_keys (ensure_dek (ci_get_dek (ts_cipher (au_store A))) (au_provision A))) y =
      (Inl (Key KeyBackendUnavailableError), put_tokens (put_keys k (ob_tokens v)) y)" if "ob_tokens y = ob_tokens v" for y
    using that by (simp add: lift_tokens_step lift_pm_def)
  obtain y issued_at where y: "(case tr_received_at result of Some n \<Rightarrow> preturn n | None \<Rightarrow> read_clock) v = (Inr issued_at, y)"
    "ob_tokens y = ob_tokens v" "ob_wire y = ob_wire v"
    by (cases "tr_received_at result") (auto simp: read_clock_def)
  have "run_authorize A cid secret u = (Inl (Key KeyBackendUnavailableError), put_tokens (put_keys k (ob_tokens v)) y)"
    using assms(2) y(1) l [OF y(2)] by (simp add: run_authorize_def pbind_def)
  then have "authorize_main sha loads A source s = (Inr 1, put_tokens (put_keys k (ob_tokens v)) y)"
    using assms(1) by (simp add: authorize_main_def pbind_returns ptry_def authorize_failed_def)
  then show ?thesis using y(3) by (auto simp: put_keys_def token_rows_def)
qed

theorem locked_keychain_drops_tokens_witness:
  "\<exists>t. authorize_main fix_sha (\<lambda>_. Inl (Py ValueError)) locked_authorizer sample_client sample_outbound = (Inr 1, t) \<and>
     length (ob_wire t) = 1"
proof -
  have "au_flow locked_authorizer (lit ''c'') None sample_outbound = (Inr sample_result,
     sample_outbound\<lparr>ob_wire := [(post_request default_token_endpoint [] [], Inr (200, []))], ob_replies := []\<rparr>)"
    using sample_authorization(2) by (simp add: locked_authorizer_def)
  moreover have "ci_get_dek (ts_cipher (au_store locked_authorizer)) k = (Inl (Key KeyBackendUnavailableError), k)" for k
    by (simp add: locked_authorizer_def)
  ultimately show ?thesis
    using locked_keychain_drops_tokens [OF sample_authorization(1) [of "\<lambda>_. Inl (Py ValueError)" sample_outbound], of locked_authorizer]
    by force
qed


definition plain_keyring :: "pystr option keyring" where
  "plain_keyring = \<lparr>kr_get_password = \<lambda>s. (Inr s, s), kr_set_password = \<lambda>x s. (Inr (), Some x)\<rparr>"


end
