(* ===== verification/Supervisor.thy ===== *)
theory Supervisor
  imports Proposal_Api
begin

text \<open>
  \<open>gateway/supervisor.py\<close>: the closed set of start, health and stop over child processes.  The operating system is part
  of the state: the children that are alive, what each child to be spawned will do, how each stop and each probe will go.  A
  child may also end by itself at any time.  \<open>json.loads\<close>, \<open>int\<close> and the bearers minted are parameters.
\<close>

subsection \<open>Processes\<close>

text \<open>
  A spawn that fails, or a child with the line it hands over before the deadline (none, when it is late or its output
  ended), whether it is alive then, and whether a kill ends it within the wait.
\<close>

datatype spawn = SpawnFails exn | Spawned "pystr option" bool bool

text \<open>A stop: whether the child ends on \<open>terminate\<close>, and if not, on \<open>kill\<close>.\<close>

type_synonym ending = "bool \<times> bool"

record sup_state =
  su_proc :: "nat option"
  su_port :: "int option"
  su_bearer :: "pystr option"
  su_live :: "nat list"
  su_next :: nat
  su_minted :: nat
  su_spawned :: "(pystr list \<times> pystr) list"
  su_spawns :: "spawn list"
  su_endings :: "ending list"
  su_probes :: "unit res list"

record sup_config =
  sc_data_root :: pystr
  sc_host :: pystr
  sc_message_id_domain :: "pystr option"
  sc_python :: pystr
  sc_bearer :: "nat \<Rightarrow> pystr"
  sc_loads :: "pystr \<Rightarrow> pyval res"
  sc_int :: "pyval \<Rightarrow> int res"

definition su_alive :: "sup_state \<Rightarrow> bool" where
  "su_alive s = (case su_proc s of None \<Rightarrow> False | Some p \<Rightarrow> p \<in> set (su_live s))"

subsection \<open>Operations\<close>

record descriptor =
  de_pid :: nat
  de_port :: "int option"
  de_bearer :: "pystr option"

definition descriptor_of :: "nat \<Rightarrow> sup_state \<Rightarrow> descriptor" where
  "descriptor_of p s = \<lparr>de_pid = p, de_port = su_port s, de_bearer = su_bearer s\<rparr>"

definition sup_argv :: "sup_config \<Rightarrow> pystr list" where
  "sup_argv C =
     [sc_python C, lit ''-m'', lit ''gateway.entrypoint'', lit ''--data-root'', sc_data_root C, lit ''--host'', sc_host C] @
     (case sc_message_id_domain C of
        None \<Rightarrow> []
      | Some d \<Rightarrow> if d = [] then [] else [lit ''--message-id-domain'', d])"

definition ready_port :: "sup_config \<Rightarrow> pystr \<Rightarrow> int res" where
  "ready_port C line = rbind (sc_loads C line) (\<lambda>v. rbind (subscript v (lit ''port'')) (sc_int C))"

text \<open>\<open>except (ValueError, KeyError, TypeError)\<close>.\<close>

definition malformed :: "exn \<Rightarrow> bool" where
  "malformed e \<longleftrightarrow> is_value_error e \<or> e = Py KeyError \<or> e = Py TypeError"

text \<open>\<open>_kill_quietly\<close>: what it raises is swallowed.\<close>

definition kill_quietly :: "nat \<Rightarrow> bool \<Rightarrow> sup_state \<Rightarrow> sup_state" where
  "kill_quietly p reaped s = (if reaped then s\<lparr>su_live := removeAll p (su_live s)\<rparr> else s)"

text \<open>\<open>_read_ready_line\<close> and \<open>_await_ready\<close>.\<close>

definition ready_line :: "pystr option \<Rightarrow> pystr option" where
  "ready_line line = (case line of None \<Rightarrow> None | Some l \<Rightarrow> if l = [] then None else Some (py_strip l))"

definition await_ready :: "sup_config \<Rightarrow> nat \<Rightarrow> pystr option \<Rightarrow> bool \<Rightarrow> (sup_state, int) pm" where
  "await_ready C p line reaped s = (case ready_line line of
     None \<Rightarrow> (Inl (Gw SupervisorError), kill_quietly p reaped s)
   | Some l \<Rightarrow> (case ready_port C l of
       Inr port \<Rightarrow> (Inr port, s)
     | Inl e \<Rightarrow> if malformed e then (Inl (Gw SupervisorError), kill_quietly p reaped s) else (Inl e, s)))"

text \<open>\<open>popen\<close>: the child with its line and its end, or the exception.\<close>

definition popen :: "sup_config \<Rightarrow> pystr \<Rightarrow> (sup_state, nat \<times> pystr option \<times> bool) pm" where
  "popen C bearer s = (case su_spawns s of
     [] \<Rightarrow> (Inl (Py OSError), s)
   | SpawnFails e # rest \<Rightarrow> (Inl e, s\<lparr>su_spawns := rest\<rparr>)
   | Spawned line alive reaped # rest \<Rightarrow>
       (Inr (su_next s, line, reaped),
        s\<lparr>su_spawns := rest, su_next := Suc (su_next s), su_spawned := su_spawned s @ [(sup_argv C, bearer)],
          su_live := (if alive then su_next s # su_live s else su_live s)\<rparr>))"

definition mint :: "sup_config \<Rightarrow> (sup_state, pystr) pm" where
  "mint C s = (Inr (sc_bearer C (su_minted s)), s\<lparr>su_minted := Suc (su_minted s)\<rparr>)"

definition sup_start :: "sup_config \<Rightarrow> (sup_state, descriptor) pm" where
  "sup_start C s =
     (if su_alive s then (Inr (descriptor_of (the (su_proc s)) s), s)
      else pbind (mint C) (\<lambda>bearer.
        pbind (popen C bearer) (\<lambda>(p, line, reaped).
        pbind (await_ready C p line reaped) (\<lambda>port s.
          let t = s\<lparr>su_proc := Some p, su_port := Some port, su_bearer := Some bearer\<rparr> in (Inr (descriptor_of p t), t)))) s)"

record health_report =
  he_running :: bool
  he_listening :: bool
  he_pid :: "nat option"
  he_port :: "int option"

text \<open>\<open>_tcp_open\<close>: the connection attempt, its \<open>OSError\<close>s answered.\<close>

definition tcp_open :: "(sup_state, bool) pm" where
  "tcp_open s = (case su_probes s of
     [] \<Rightarrow> (Inr False, s)
   | Inr u # rest \<Rightarrow> (Inr True, s\<lparr>su_probes := rest\<rparr>)
   | Inl e # rest \<Rightarrow> (if e = Py OSError then Inr False else Inl e, s\<lparr>su_probes := rest\<rparr>))"

definition sup_health :: "(sup_state, health_report) pm" where
  "sup_health s =
     pbind (if su_alive s \<and> su_port s \<noteq> None then tcp_open else preturn False) (\<lambda>listening s'.
       (Inr \<lparr>he_running = su_alive s, he_listening = listening, he_pid = su_proc s, he_port = su_port s\<rparr>, s')) s"

definition next_ending :: "sup_state \<Rightarrow> ending \<times> sup_state" where
  "next_ending s = (case su_endings s of [] \<Rightarrow> ((True, True), s) | e # rest \<Rightarrow> (e, s\<lparr>su_endings := rest\<rparr>))"

definition forget :: "sup_state \<Rightarrow> sup_state" where
  "forget s = s\<lparr>su_proc := None, su_port := None, su_bearer := None\<rparr>"

definition sup_stop :: "(sup_state, unit) pm" where
  "sup_stop s =
     (if \<not> su_alive s then (Inr (), forget s)
      else case next_ending s of ((graceful, reaped), t) \<Rightarrow>
        if graceful \<or> reaped
        then (Inr (), forget (t\<lparr>su_live := removeAll (the (su_proc s)) (su_live t)\<rparr>))
        else (Inl (Py TimeoutExpired), t))"

subsection \<open>Steps\<close>

text \<open>The calls of the owner, in any order, and the end of a child.\<close>

inductive sup_step :: "sup_config \<Rightarrow> sup_state \<Rightarrow> sup_state \<Rightarrow> bool" for C where
  start: "sup_start C s = (r, t) \<Longrightarrow> sup_step C s t"
| health: "sup_health s = (h, t) \<Longrightarrow> sup_step C s t"
| stop: "sup_stop s = (u, t) \<Longrightarrow> sup_step C s t"
| exit: "sup_step C s (s\<lparr>su_live := removeAll p (su_live s)\<rparr>)"

inductive_cases sup_stepE: "sup_step C s t"

inductive sup_reach :: "sup_config \<Rightarrow> sup_state \<Rightarrow> sup_state \<Rightarrow> bool" for C s where
  here: "sup_reach C s s"
| more: "sup_reach C s t \<Longrightarrow> sup_step C t u \<Longrightarrow> sup_reach C s u"

definition sup_fresh :: "sup_state \<Rightarrow> bool" where
  "sup_fresh s \<longleftrightarrow> su_proc s = None \<and> su_port s = None \<and> su_bearer s = None \<and> su_live s = [] \<and> su_next s = 0 \<and>
     su_minted s = 0 \<and> su_spawned s = []"

text \<open>Every child that will be killed ends.\<close>

fun killable :: "spawn \<Rightarrow> bool" where
  "killable (SpawnFails e) = True"
| "killable (Spawned line alive reaped) = reaped"

definition kills_work :: "sup_state \<Rightarrow> bool" where
  "kills_work s \<longleftrightarrow> list_all killable (su_spawns s)"

text \<open>
  What holds in between: process identifiers are used once, the fields are set together, and the bearer of the child in
  charge is the one it was spawned with.
\<close>

definition sup_inv :: "sup_config \<Rightarrow> sup_state \<Rightarrow> bool" where
  "sup_inv C s \<longleftrightarrow> distinct (su_live s) \<and> (\<forall>p \<in> set (su_live s). p < su_next s) \<and> su_next s = length (su_spawned s) \<and>
     (\<forall>x \<in> set (su_spawned s). fst x = sup_argv C \<and> snd x \<in> range (sc_bearer C)) \<and>
     (case su_proc s of
        None \<Rightarrow> su_port s = None \<and> su_bearer s = None
      | Some p \<Rightarrow> p < su_next s \<and> su_port s \<noteq> None \<and> su_bearer s = Some (snd (su_spawned s ! p)))"

text \<open>The state once a child has been spawned.\<close>

definition born :: "sup_config \<Rightarrow> bool \<Rightarrow> spawn list \<Rightarrow> sup_state \<Rightarrow> sup_state" where
  "born C alive rest s = s\<lparr>su_minted := Suc (su_minted s), su_spawns := rest, su_next := Suc (su_next s),
     su_spawned := su_spawned s @ [(sup_argv C, sc_bearer C (su_minted s))],
     su_live := (if alive then su_next s # su_live s else su_live s)\<rparr>"

definition charge :: "nat \<Rightarrow> int \<Rightarrow> pystr \<Rightarrow> sup_state \<Rightarrow> sup_state" where
  "charge p port bearer s = s\<lparr>su_proc := Some p, su_port := Some port, su_bearer := Some bearer\<rparr>"

lemma kill_quietly_simps [simp]:
  "su_proc (kill_quietly p b s) = su_proc s" "su_port (kill_quietly p b s) = su_port s" "su_bearer (kill_quietly p b s) = su_bearer s"
  "su_next (kill_quietly p b s) = su_next s" "su_spawned (kill_quietly p b s) = su_spawned s"
  "su_spawns (kill_quietly p b s) = su_spawns s"
  "su_live (kill_quietly p b s) = (if b then removeAll p (su_live s) else su_live s)"
  by (simp_all add: kill_quietly_def)

lemma aliveE:
  assumes "su_alive s"
  obtains p where "su_proc s = Some p" "p \<in> set (su_live s)"
  using assms by (cases "su_proc s") (simp_all add: su_alive_def)

lemma start_alive: "su_alive s \<Longrightarrow> sup_start C s = (Inr (descriptor_of (the (su_proc s)) s), s)"
  by (simp add: sup_start_def)

lemma start_unspawned:
  assumes "\<not> su_alive s" "\<forall>line alive reaped rest. su_spawns s \<noteq> Spawned line alive reaped # rest"
  shows "\<exists>e. sup_start C s = (Inl e, s\<lparr>su_minted := Suc (su_minted s), su_spawns := tl (su_spawns s)\<rparr>)"
proof (cases "su_spawns s")
  case Nil
  then have "tl (su_spawns s) = su_spawns s" by simp
  with Nil assms(1) show ?thesis by (simp add: sup_start_def mint_def popen_def pbind_def)
next
  case (Cons x rest)
  with assms(2) obtain e where "x = SpawnFails e" by (cases x) auto
  with Cons assms(1) show ?thesis by (simp add: sup_start_def mint_def popen_def pbind_def)
qed

lemma start_spawned:
  assumes "\<not> su_alive s" "su_spawns s = Spawned line alive reaped # rest"
  shows "sup_start C s = (case await_ready C (su_next s) line reaped (born C alive rest s) of
      (Inl e, u) \<Rightarrow> (Inl e, u)
    | (Inr port, u) \<Rightarrow> (let t = charge (su_next s) port (sc_bearer C (su_minted s)) u in (Inr (descriptor_of (su_next s) t), t)))"
  using assms by (cases alive) (simp_all add: sup_start_def mint_def popen_def pbind_def born_def charge_def split: prod.split sum.split)

text \<open>How a start of a supervisor without a live child ends.\<close>

lemma start_cases:
  assumes "sup_start C s = (r, t)"
  obtains (reuse) p where "su_proc s = Some p" "p \<in> set (su_live s)" "r = Inr (descriptor_of p s)" "t = s"
  | (unspawned) e where "\<not> su_alive s" "r = Inl e" "t = s\<lparr>su_minted := Suc (su_minted s), su_spawns := tl (su_spawns s)\<rparr>"
  | (killed) line alive reaped rest where "\<not> su_alive s" "su_spawns s = Spawned line alive reaped # rest"
      "r = Inl (Gw SupervisorError)" "t = kill_quietly (su_next s) reaped (born C alive rest s)"
  | (orphaned) line alive reaped rest l e where "\<not> su_alive s" "su_spawns s = Spawned line alive reaped # rest"
      "ready_line line = Some l" "ready_port C l = Inl e" "\<not> malformed e" "r = Inl e" "t = born C alive rest s"
  | (ready) line alive reaped rest l port where "\<not> su_alive s" "su_spawns s = Spawned line alive reaped # rest"
      "ready_line line = Some l" "ready_port C l = Inr port" "r = Inr (descriptor_of (su_next s) t)"
      "t = charge (su_next s) port (sc_bearer C (su_minted s)) (born C alive rest s)"
proof (cases "su_alive s")
  case True
  then obtain p where p: "su_proc s = Some p" "p \<in> set (su_live s)" by (rule aliveE)
  from start_alive [OF True, of C] p(1) have "sup_start C s = (Inr (descriptor_of p s), s)" by simp
  with assms have "r = Inr (descriptor_of p s)" "t = s" by (metis Pair_inject)+
  with reuse [OF p] show thesis by blast
next
  case False
  show thesis
  proof (cases "\<exists>line alive reaped rest. su_spawns s = Spawned line alive reaped # rest")
    case None: False
    with start_unspawned [OF False] obtain e where
      "sup_start C s = (Inl e, s\<lparr>su_minted := Suc (su_minted s), su_spawns := tl (su_spawns s)\<rparr>)" by blast
    with assms have "r = Inl e" "t = s\<lparr>su_minted := Suc (su_minted s), su_spawns := tl (su_spawns s)\<rparr>" by simp_all
    with unspawned [OF False] show thesis by blast
  next
    case True
    then obtain line alive reaped rest where sp: "su_spawns s = Spawned line alive reaped # rest" by blast
    note st = start_spawned [OF False sp, of C]
    show thesis
    proof (cases "ready_line line")
      case None
      with st have "sup_start C s = (Inl (Gw SupervisorError), kill_quietly (su_next s) reaped (born C alive rest s))"
        by (simp add: await_ready_def)
      with assms have "r = Inl (Gw SupervisorError)" "t = kill_quietly (su_next s) reaped (born C alive rest s)" by simp_all
      with killed [OF False sp] show thesis by blast
    next
      case (Some l)
      show thesis
      proof (cases "ready_port C l")
        case (Inl e)
        show thesis
        proof (cases "malformed e")
          case True
          with st Some Inl have "sup_start C s = (Inl (Gw SupervisorError), kill_quietly (su_next s) reaped (born C alive rest s))"
            by (simp add: await_ready_def)
          with assms have "r = Inl (Gw SupervisorError)" "t = kill_quietly (su_next s) reaped (born C alive rest s)" by simp_all
          with killed [OF False sp] show thesis by blast
        next
          case m: False
          with st Some Inl have "sup_start C s = (Inl e, born C alive rest s)" by (simp add: await_ready_def)
          with assms have "r = Inl e" "t = born C alive rest s" by simp_all
          with orphaned [OF False sp Some Inl m] show thesis by blast
        qed
      next
        case (Inr port)
        let ?c = "charge (su_next s) port (sc_bearer C (su_minted s)) (born C alive rest s)"
        from st Some Inr have "sup_start C s = (Inr (descriptor_of (su_next s) ?c), ?c)" by (simp add: await_ready_def Let_def)
        with assms have "r = Inr (descriptor_of (su_next s) t)" "t = ?c" by (metis Pair_inject)+
        with ready [OF False sp Some Inr] show thesis by blast
      qed
    qed
  qed
qed

lemma born_inv: "sup_inv C s \<Longrightarrow> sup_inv C (born C alive rest s)"
  by (cases "su_proc s") (auto simp: sup_inv_def born_def nth_append)

lemma start_inv:
  assumes "sup_inv C s" "sup_start C s = (r, t)"
  shows "sup_inv C t"
  using assms(2)
proof (cases rule: start_cases)
  case reuse
  with assms(1) show ?thesis by simp
next
  case (unspawned e)
  with assms(1) show ?thesis by (cases "su_proc s") (auto simp: sup_inv_def)
next
  case (killed line alive reaped rest)
  with born_inv [OF assms(1), of alive rest] show ?thesis
    by (cases "su_proc s") (auto simp: sup_inv_def born_def distinct_removeAll)
next
  case (orphaned line alive reaped rest l e)
  with born_inv [OF assms(1)] show ?thesis by simp
next
  case (ready line alive reaped rest l port)
  with assms(1) show ?thesis by (cases "su_proc s") (auto simp: sup_inv_def charge_def born_def)
qed

lemma probes_same: "su_probes s = x \<Longrightarrow> s\<lparr>su_probes := x\<rparr> = s"
  by (cases s) simp

lemma endings_same: "su_endings s = x \<Longrightarrow> s\<lparr>su_endings := x\<rparr> = s"
  by (cases s) simp

lemma tcp_open_cases:
  obtains r rest where "tcp_open s = (r, s\<lparr>su_probes := rest\<rparr>)"
proof (cases "su_probes s")
  case Nil
  then have "tcp_open s = (Inr False, s)" by (simp add: tcp_open_def)
  with that [of "Inr False" "[]"] probes_same [OF Nil] show thesis by metis
next
  case (Cons x rest)
  then have "\<exists>r. tcp_open s = (r, s\<lparr>su_probes := rest\<rparr>)" by (cases x) (simp_all add: tcp_open_def)
  with that show thesis by blast
qed

lemma health_cases:
  assumes "sup_health s = (h, t)"
  obtains rest where "t = s\<lparr>su_probes := rest\<rparr>"
    "\<forall>rep. h = Inr rep \<longrightarrow> he_running rep = su_alive s \<and> he_port rep = su_port s \<and> he_pid rep = su_proc s \<and>
      (he_listening rep \<longrightarrow> su_alive s)"
proof (cases "su_alive s \<and> su_port s \<noteq> None")
  case True
  obtain r rest where o: "tcp_open s = (r, s\<lparr>su_probes := rest\<rparr>)" by (rule tcp_open_cases)
  show thesis
  proof (rule that [of rest])
    from assms True o show "t = s\<lparr>su_probes := rest\<rparr>" by (cases r) (auto simp: sup_health_def pbind_def)
    from assms True o show "\<forall>rep. h = Inr rep \<longrightarrow> he_running rep = su_alive s \<and> he_port rep = su_port s \<and> he_pid rep = su_proc s \<and>
        (he_listening rep \<longrightarrow> su_alive s)" by (cases r) (auto simp: sup_health_def pbind_def)
  qed
next
  case False
  with assms have h: "t = s" "h = Inr \<lparr>he_running = su_alive s, he_listening = False, he_pid = su_proc s, he_port = su_port s\<rparr>"
    by (auto simp: sup_health_def pbind_def preturn_def split: if_splits)
  show thesis
    by (rule that [of "su_probes s"]) (simp_all add: h probes_same)
qed

lemma stop_cases:
  assumes "sup_stop s = (r, t)"
  obtains (idle) "\<not> su_alive s" "r = Inr ()" "t = forget s"
  | (ended) p rest where "su_proc s = Some p" "p \<in> set (su_live s)" "r = Inr ()"
      "t = forget (s\<lparr>su_endings := rest, su_live := removeAll p (su_live s)\<rparr>)"
  | (stuck) rest where "su_alive s" "r = Inl (Py TimeoutExpired)" "t = s\<lparr>su_endings := rest\<rparr>"
proof (cases "su_alive s")
  case False
  with assms idle show thesis by (simp add: sup_stop_def)
next
  case True
  then obtain p where p: "su_proc s = Some p" "p \<in> set (su_live s)" by (rule aliveE)
  obtain g k rest where n: "next_ending s = ((g, k), s\<lparr>su_endings := rest\<rparr>)"
  proof (cases "su_endings s")
    case Nil
    then have "next_ending s = ((True, True), s\<lparr>su_endings := []\<rparr>)" by (simp add: next_ending_def endings_same)
    with that show thesis by blast
  next
    case (Cons e rest)
    with that show thesis by (cases e) (simp add: next_ending_def)
  qed
  show thesis
  proof (cases "g \<or> k")
    case go: True
    from assms True p n go have "r = Inr ()" "t = forget (s\<lparr>su_endings := rest, su_live := removeAll p (su_live s)\<rparr>)"
      by (auto simp: sup_stop_def)
    with ended [OF p] show thesis .
  next
    case False
    with True n have "sup_stop s = (Inl (Py TimeoutExpired), s\<lparr>su_endings := rest\<rparr>)" by (simp add: sup_stop_def)
    with assms have "r = Inl (Py TimeoutExpired)" "t = s\<lparr>su_endings := rest\<rparr>" by simp_all
    with stuck [OF True] show thesis by blast
  qed
qed

lemma stop_inv: "sup_inv C s \<Longrightarrow> sup_stop s = (r, t) \<Longrightarrow> sup_inv C t"
  by (erule stop_cases; cases "su_proc s") (auto simp: sup_inv_def forget_def distinct_removeAll)

lemma step_inv: "sup_step C s t \<Longrightarrow> sup_inv C s \<Longrightarrow> sup_inv C t"
proof (induction rule: sup_step.induct)
  case (start s r t)
  then show ?case by (metis start_inv)
next
  case (health s h t)
  from health(1) obtain rest where "t = s\<lparr>su_probes := rest\<rparr>" by (rule health_cases)
  with health(2) show ?case by (cases "su_proc s") (auto simp: sup_inv_def)
next
  case (stop s u t)
  then show ?case by (metis stop_inv)
next
  case (exit s p)
  then show ?case by (cases "su_proc s") (auto simp: sup_inv_def distinct_removeAll)
qed

lemma reach_inv: "sup_reach C s t \<Longrightarrow> sup_fresh s \<Longrightarrow> sup_inv C t"
proof (induction rule: sup_reach.induct)
  case here
  then show ?case by (simp add: sup_inv_def sup_fresh_def)
next
  case (more t u)
  then show ?case using step_inv by blast
qed

subsection \<open>One gateway at a time\<close>

text \<open>
  Nothing is left running beside the child in charge, when kills succeed and every ready line that is not accepted is
  refused as malformed.
\<close>

definition tracked :: "sup_state \<Rightarrow> bool" where
  "tracked s \<longleftrightarrow> set (su_live s) \<subseteq> set_option (su_proc s) \<and> kills_work s"

lemma dead_none: "\<not> su_alive s \<Longrightarrow> tracked s \<Longrightarrow> su_live s = []"
  by (cases "su_proc s"; cases "su_live s") (auto simp: tracked_def su_alive_def)

lemma start_tracked:
  assumes "tracked s" "sup_start C s = (r, t)" "\<forall>l e. ready_port C l = Inl e \<longrightarrow> malformed e"
  shows "tracked t"
  using assms(2)
proof (cases rule: start_cases)
  case reuse
  with assms(1) show ?thesis by simp
next
  case (unspawned e)
  have "list_all killable (tl (su_spawns s))"
    using assms(1) by (cases "su_spawns s") (simp_all add: tracked_def kills_work_def)
  with unspawned(3) assms(1) show ?thesis by (simp add: tracked_def kills_work_def)
next
  case (killed line alive reaped rest)
  with dead_none [OF killed(1) assms(1)] assms(1) show ?thesis
    by (auto simp: tracked_def kills_work_def born_def)
next
  case (orphaned line alive reaped rest l e)
  with assms(3) show ?thesis by blast
next
  case (ready line alive reaped rest l port)
  with dead_none [OF ready(1) assms(1)] assms(1) show ?thesis
    by (auto simp: tracked_def kills_work_def born_def charge_def)
qed

lemma step_tracked:
  assumes "sup_step C s t" "tracked s" "\<forall>l e. ready_port C l = Inl e \<longrightarrow> malformed e"
  shows "tracked t"
  using assms(1)
proof (cases rule: sup_step.cases)
  case (start r)
  with assms(2,3) show ?thesis by (metis start_tracked)
next
  case (health h)
  then obtain rest where "t = s\<lparr>su_probes := rest\<rparr>" by (rule health_cases)
  with assms(2) show ?thesis by (simp add: tracked_def kills_work_def)
next
  case (stop u)
  then show ?thesis
  proof (cases rule: stop_cases)
    case idle
    with dead_none [OF idle(1) assms(2)] assms(2) show ?thesis by (simp add: tracked_def kills_work_def forget_def)
  next
    case (ended p rest)
    with assms(2) show ?thesis by (auto simp: tracked_def kills_work_def forget_def)
  next
    case (stuck rest)
    with assms(2) show ?thesis by (simp add: tracked_def kills_work_def)
  qed
next
  case (exit p)
  with assms(2) show ?thesis by (auto simp: tracked_def kills_work_def)
qed

lemma reach_tracked:
  "sup_reach C s t \<Longrightarrow> tracked s \<Longrightarrow> \<forall>l e. ready_port C l = Inl e \<longrightarrow> malformed e \<Longrightarrow> tracked t"
proof (induction rule: sup_reach.induct)
  case here
  then show ?case by simp
next
  case (more t u)
  then show ?case using step_tracked by blast
qed

text \<open>
  C14. Whatever the order of starts, health checks, stops and exits of children, at most one gateway runs, it is the one the
  supervisor holds, and its bearer is one it minted and gave to that child alone in the environment; no argument of any
  child is a bearer's place.  It needs kills to succeed and the ready line's port to fail in no other way than the three
  kinds the code catches.
\<close>

theorem single_gateway:
  assumes "sup_fresh s" "kills_work s" "\<forall>l e. ready_port C l = Inl e \<longrightarrow> malformed e" "sup_reach C s t"
  shows "length (su_live t) \<le> 1 \<and>
    (\<forall>p \<in> set (su_live t). su_proc t = Some p \<and> p < length (su_spawned t) \<and> su_bearer t = Some (snd (su_spawned t ! p))) \<and>
    (\<forall>(argv, bearer) \<in> set (su_spawned t). argv = sup_argv C \<and> bearer \<in> range (sc_bearer C))"
proof -
  from assms(1,2) have "tracked s" by (simp add: tracked_def sup_fresh_def)
  from reach_tracked [OF assms(4) this assms(3)] have tr: "set (su_live t) \<subseteq> set_option (su_proc t)" by (simp add: tracked_def)
  from reach_inv [OF assms(4,1)] have inv: "sup_inv C t" .
  have "card (set (su_live t)) \<le> card (set_option (su_proc t))" using tr by (intro card_mono) auto
  also have "\<dots> \<le> 1" by (cases "su_proc t") simp_all
  finally have "length (su_live t) \<le> 1" using inv by (simp add: sup_inv_def distinct_card)
  moreover have "\<forall>p \<in> set (su_live t). su_proc t = Some p \<and> p < length (su_spawned t) \<and> su_bearer t = Some (snd (su_spawned t ! p))"
    using tr inv by (cases "su_proc t") (auto simp: sup_inv_def)
  moreover have "\<forall>(argv, bearer) \<in> set (su_spawned t). argv = sup_argv C \<and> bearer \<in> range (sc_bearer C)"
    using inv by (auto simp: sup_inv_def)
  ultimately show ?thesis by blast
qed

definition sample_sup :: "pyval res \<Rightarrow> spawn list \<Rightarrow> sup_config \<times> sup_state" where
  "sample_sup port spawns =
     (\<lparr>sc_data_root = lit ''/data'', sc_host = lit ''127.0.0.1'', sc_message_id_domain = None, sc_python = lit ''python'',
       sc_bearer = (\<lambda>n. lit ''bearer''), sc_loads = (\<lambda>l. rbind port (\<lambda>v. Inr (PDict [(lit ''port'', v)]))),
       sc_int = (\<lambda>v. case v of PInt n \<Rightarrow> Inr n | PFloat f \<Rightarrow> Inl (Py OverflowError) | _ \<Rightarrow> Inl (Py ValueError))\<rparr>,
      \<lparr>su_proc = None, su_port = None, su_bearer = None, su_live = [], su_next = 0, su_minted = 0, su_spawned = [],
       su_spawns = spawns, su_endings = [], su_probes = []\<rparr>)"

theorem single_gateway_witness:
  defines "CS \<equiv> sample_sup (Inr (PInt 8080)) [Spawned (Some (lit ''{}'')) True True]"
  shows "length (su_live (snd (sup_start (fst CS) (snd CS)))) \<le> 1 \<and> su_live (snd (sup_start (fst CS) (snd CS))) = [0]"
proof -
  have f: "sup_fresh (snd CS)" "kills_work (snd CS)" by (simp_all add: CS_def sample_sup_def sup_fresh_def kills_work_def)
  have m: "\<forall>l e. ready_port (fst CS) l = Inl e \<longrightarrow> malformed e"
    by (simp add: CS_def sample_sup_def ready_port_def subscript_def dindex_def)
  have "sup_reach (fst CS) (snd CS) (snd (sup_start (fst CS) (snd CS)))"
    by (metis sup_reach.here sup_reach.more sup_step.start prod.collapse)
  from single_gateway [OF f m this] have "length (su_live (snd (sup_start (fst CS) (snd CS)))) \<le> 1" by blast
  moreover have "su_live (snd (sup_start (fst CS) (snd CS))) = [0]" unfolding CS_def by code_simp
  ultimately show ?thesis by blast
qed

text \<open>
  A port that is no finite number escapes the handler of the ready line: the start fails with an error of its own, the
  child stays alive, no stop can reach it, and the next start runs a second gateway beside it.
\<close>

theorem orphaned_gateway:
  assumes "sup_fresh s" "su_spawns s = [Spawned (Some l) True True, Spawned (Some l') True True]" "l \<noteq> []" "l' \<noteq> []"
    and "ready_port C (py_strip l) = Inl (Py OverflowError)" "ready_port C (py_strip l') = Inr port"
  shows "\<exists>t u d. sup_start C s = (Inl (Py OverflowError), t) \<and> sup_stop t = (Inr (), t) \<and> su_live t = [0] \<and>
    sup_start C t = (Inr d, u) \<and> su_live u = [1, 0] \<and> su_proc u = Some 1"
proof (intro exI conjI)
  let ?t = "born C True [Spawned (Some l') True True] s"
  let ?u = "charge 1 port (sc_bearer C 1) (born C True [] ?t)"
  from assms(1) have s: "su_proc s = None" "su_port s = None" "su_bearer s = None" "su_live s = []" "su_next s = 0" "su_minted s = 0"
    by (simp_all add: sup_fresh_def)
  then have a: "\<not> su_alive s" and a': "\<not> su_alive ?t" by (simp_all add: su_alive_def born_def)
  have m: "\<not> malformed (Py OverflowError)" by (simp add: malformed_def is_value_error_def)
  show "sup_start C s = (Inl (Py OverflowError), ?t)"
    using start_spawned [OF a assms(2), of C] assms(3,5) m by (simp add: await_ready_def ready_line_def)
  have "forget ?t = ?t" by (cases s) (use s in \<open>simp add: forget_def born_def\<close>)
  with a' show "sup_stop ?t = (Inr (), ?t)" by (simp add: sup_stop_def)
  show "su_live ?t = [0]" using s by (simp add: born_def)
  have t: "su_spawns ?t = Spawned (Some l') True True # []" "su_next ?t = 1" "su_minted ?t = 1" using s by (simp_all add: born_def)
  show "sup_start C ?t = (Inr (descriptor_of 1 ?u), ?u)"
    using start_spawned [OF a' t(1), of C] t(2,3) assms(4,6) by (simp add: await_ready_def ready_line_def Let_def)
  show "su_live ?u = [1, 0]" "su_proc ?u = Some 1" using s by (simp_all add: born_def charge_def)
qed

definition odd_ports :: "sup_config \<Rightarrow> sup_config" where
  "odd_ports C = C\<lparr>sc_loads := (\<lambda>l. Inr (PDict [(lit ''port'', if l = lit ''inf'' then PFloat NonFinite else PInt 8080)]))\<rparr>"

theorem orphaned_gateway_witness:
  defines "C \<equiv> odd_ports (fst (sample_sup (Inr PNone) []))"
    and "s \<equiv> snd (sample_sup (Inr PNone) [Spawned (Some (lit ''inf'')) True True, Spawned (Some (lit ''{}'')) True True])"
  shows "\<exists>t u d. sup_start C s = (Inl (Py OverflowError), t) \<and> sup_stop t = (Inr (), t) \<and> su_live t = [0] \<and>
    sup_start C t = (Inr d, u) \<and> su_live u = [1, 0] \<and> su_proc u = Some 1"
proof (rule orphaned_gateway [of s "lit ''inf''" "lit ''{}''" C 8080])
  show "sup_fresh s" by (simp add: s_def sample_sup_def sup_fresh_def)
  show "su_spawns s = [Spawned (Some (lit ''inf'')) True True, Spawned (Some (lit ''{}'')) True True]"
    by (simp add: s_def sample_sup_def)
  show "lit ''inf'' \<noteq> []" "lit ''{}'' \<noteq> []" by code_simp+
  show "ready_port C (py_strip (lit ''inf'')) = Inl (Py OverflowError)" unfolding C_def by code_simp
  show "ready_port C (py_strip (lit ''{}'')) = Inr 8080" unfolding C_def by code_simp
qed

text \<open>
  A stop that returns leaves nothing in charge: the next health report says the gateway is not running and has neither
  pid nor port, a second stop changes nothing, and, where nothing was left beside the child in charge, no gateway is alive.
  A stop fails only when the child survives both signals, and then it keeps its hold on it.
\<close>

theorem stop_ends:
  assumes "sup_inv C s" "sup_stop s = (r, t)"
  shows "case r of
      Inr _ \<Rightarrow> sup_health t = (Inr \<lparr>he_running = False, he_listening = False, he_pid = None, he_port = None\<rparr>, t) \<and>
        sup_stop t = (Inr (), t) \<and> set_option (su_proc s) \<inter> set (su_live t) = {} \<and> (tracked s \<longrightarrow> su_live t = [])
    | Inl e \<Rightarrow> e = Py TimeoutExpired \<and> su_alive s \<and> su_alive t \<and> su_proc t = su_proc s"
proof -
  have dead: "sup_health (forget u) = (Inr \<lparr>he_running = False, he_listening = False, he_pid = None, he_port = None\<rparr>, forget u) \<and>
      sup_stop (forget u) = (Inr (), forget u)" for u
    by (simp add: forget_def su_alive_def sup_health_def sup_stop_def pbind_def preturn_def)
  from assms(2) show ?thesis
  proof (cases rule: stop_cases)
    case idle
    have "tracked s \<Longrightarrow> su_live t = []" using dead_none [OF idle(1)] idle(3) by (simp add: forget_def)
    moreover have "set_option (su_proc s) \<inter> set (su_live t) = {}"
      using idle by (cases "su_proc s") (simp_all add: su_alive_def forget_def)
    ultimately show ?thesis using dead [of s] idle(2,3) by simp
  next
    case (ended p rest)
    have "tracked s \<Longrightarrow> su_live t = []"
      using ended by (cases "su_live t") (auto simp: tracked_def forget_def removeAll_filter_not_eq filter_eq_Cons_iff)
    moreover have "set_option (su_proc s) \<inter> set (su_live t) = {}" using ended by (simp add: forget_def)
    ultimately show ?thesis using dead ended(3,4) by simp
  next
    case (stuck rest)
    then show ?thesis by (cases "su_proc s") (simp_all add: su_alive_def)
  qed
qed

definition one_child :: "sup_config \<times> sup_state" where
  "one_child = sample_sup (Inr (PInt 8080)) [Spawned (Some (lit ''{}'')) True True]"

theorem stop_ends_witness:
  "fst (sup_health (snd (sup_stop (snd (sup_start (fst one_child) (snd one_child)))))) =
     Inr \<lparr>he_running = False, he_listening = False, he_pid = None, he_port = None\<rparr>"
proof -
  let ?t = "snd (sup_start (fst one_child) (snd one_child))"
  have "sup_fresh (snd one_child)" by (simp add: one_child_def sample_sup_def sup_fresh_def)
  moreover have "sup_reach (fst one_child) (snd one_child) ?t"
    by (metis sup_reach.here sup_reach.more sup_step.start prod.collapse)
  ultimately have inv: "sup_inv (fst one_child) ?t" by (rule reach_inv [rotated])
  have "fst (sup_stop ?t) = Inr ()" by code_simp
  then have "sup_stop ?t = (Inr (), snd (sup_stop ?t))" by (simp add: prod_eq_iff)
  from stop_ends [OF inv this] show ?thesis by simp
qed

text \<open>
  Starting is idempotent: while the child lives, a start hands back the descriptor of the first, mints and spawns nothing
  and changes nothing.
\<close>

theorem start_idempotent:
  assumes "\<not> su_alive s" "sup_start C s = (Inr d, t)" "su_alive t"
  shows "sup_start C t = (Inr d, t) \<and> su_port t = de_port d \<and> de_bearer d = Some (snd (last (su_spawned t))) \<and>
    length (su_spawned t) = Suc (length (su_spawned s))"
  using assms(2)
proof (cases rule: start_cases)
  case (ready line alive reaped rest l port)
  then have d: "d = descriptor_of (su_next s) t" and p: "su_proc t = Some (su_next s)" by (simp_all add: charge_def)
  from start_alive [OF assms(3), of C] d p have "sup_start C t = (Inr d, t)" by simp
  moreover have "su_port t = de_port d" using d by (simp add: descriptor_of_def)
  moreover have "de_bearer d = Some (snd (last (su_spawned t)))" "length (su_spawned t) = Suc (length (su_spawned s))"
    using d ready(6) by (simp_all add: descriptor_of_def charge_def born_def)
  ultimately show ?thesis by blast
next
  case (reuse p)
  with assms(1) show ?thesis by (simp add: su_alive_def)
qed auto

theorem start_idempotent_witness:
  "\<exists>d t. sup_start (fst one_child) (snd one_child) = (Inr d, t) \<and> sup_start (fst one_child) t = (Inr d, t)"
proof -
  obtain d t where r: "sup_start (fst one_child) (snd one_child) = (Inr d, t)" "su_alive t"
  proof -
    have "\<not> isl (fst (sup_start (fst one_child) (snd one_child)))" "su_alive (snd (sup_start (fst one_child) (snd one_child)))"
      by code_simp+
    with that show thesis by (cases "sup_start (fst one_child) (snd one_child)"; cases "fst (sup_start (fst one_child) (snd one_child))") auto
  qed
  have "\<not> su_alive (snd one_child)" by (simp add: one_child_def sample_sup_def su_alive_def)
  from start_idempotent [OF this r] r(1) show ?thesis by blast
qed

end
