(* ===== verification/Gmail_Sender.thy ===== *)
theory Gmail_Sender
  imports Token_Refresh Proposal_Api "HOL-Library.Sublist"
begin

text \<open>
  \<open>gateway/gmail_sender.py\<close> and \<open>gateway/send_cli.py\<close>: the concrete sender of the state machine and the command that
  confirms and sends one proposal.  The sender acts on the payload store and the outside of \<open>Token_Refresh\<close>.  The
  standard library's \<open>EmailMessage\<close>, the hash of the provider's identifiers and \<open>json.loads\<close> are parameters.
\<close>

subsection \<open>The message\<close>

text \<open>\<open>EmailMessage()\<close>, \<open>m[name] = value\<close>, \<open>set_content\<close> and \<open>as_bytes\<close>; a header with a line break makes the second raise.\<close>

record 'm email =
  em_new :: 'm
  em_set :: "pystr \<Rightarrow> pyval \<Rightarrow> 'm \<Rightarrow> 'm res"
  em_set_content :: "pyval \<Rightarrow> 'm \<Rightarrow> 'm res"
  em_as_bytes :: "'m \<Rightarrow> bytes res"

text \<open>\<open>", ".join(v)\<close>.\<close>

definition as_text :: "pyval \<Rightarrow> pystr res" where
  "as_text v = (case v of PStr s \<Rightarrow> Inr s | _ \<Rightarrow> Inl (Py TypeError))"

definition join_comma :: "pyval \<Rightarrow> pyval res" where
  "join_comma v = rmap (\<lambda>xs. PStr (join (lit '', '') xs)) (case v of
     PList xs \<Rightarrow> traverse as_text xs
   | PTuple xs \<Rightarrow> traverse as_text xs
   | PStr s \<Rightarrow> Inr (map (\<lambda>c. [c]) s)
   | PDict d \<Rightarrow> Inr (map fst d)
   | _ \<Rightarrow> Inl (Py TypeError))"

definition add_copies :: "'m email \<Rightarrow> dict \<Rightarrow> pystr \<Rightarrow> pystr \<Rightarrow> 'm \<Rightarrow> 'm res" where
  "add_copies M canonical key name m =
     rbind (dindex canonical key) (\<lambda>v.
     if \<not> truthy v then Inr m else rbind (join_comma v) (\<lambda>s. em_set M name s m))"

definition build_raw_message :: "'m email \<Rightarrow> dict \<Rightarrow> bytes res" where
  "build_raw_message M canonical =
     rbind (dindex canonical (lit ''to'')) (\<lambda>to.
     rbind (join_comma to) (\<lambda>to.
     rbind (em_set M (lit ''To'') to (em_new M)) (\<lambda>m.
     rbind (add_copies M canonical (lit ''cc'') (lit ''Cc'') m) (\<lambda>m.
     rbind (add_copies M canonical (lit ''bcc'') (lit ''Bcc'') m) (\<lambda>m.
     rbind (dindex canonical (lit ''subject'')) (\<lambda>subject.
     rbind (em_set M (lit ''Subject'') subject m) (\<lambda>m.
     rbind (if truthy (dget canonical (lit ''message_id''))
       then em_set M (lit ''Message-ID'') (dget canonical (lit ''message_id'')) m else Inr m) (\<lambda>m.
     rbind (dindex canonical (lit ''body'')) (\<lambda>body.
     rbind (subscript body (lit ''content'')) (\<lambda>content.
     rbind (em_set_content M content m) (em_as_bytes M)))))))))))"

definition raw_b64 :: "bytes \<Rightarrow> pystr" where
  "raw_b64 raw = map urlsafe (b64encode raw)"

text \<open>\<open>json.dumps({"raw": s})\<close>; nothing in base64 is escaped.\<close>

definition raw_json :: "bytes \<Rightarrow> bytes" where
  \<open>raw_json raw = lit ''{"raw": "'' @ raw_b64 raw @ lit ''"}''\<close>

subsection \<open>The sender\<close>

definition gmail_host :: pystr where
  "gmail_host = lit ''gmail.googleapis.com''"

definition gmail_send_url :: pystr where
  "gmail_send_url = lit ''https://gmail.googleapis.com/gmail/v1/users/me/messages/send''"

definition gmail_client :: "'u url_splitter \<Rightarrow> ('u, 'k outbound) egress" where
  "gmail_client urlsplit = egress_client urlsplit {gmail_host} wire_transport"

record ('u, 'k, 'm) gmail_sender =
  gs_client :: "('u, 'k outbound) egress"
  gs_tokens :: "('u, 'k) token_provider"
  gs_url :: pystr
  gs_email :: "'m email"
  gs_sha256_hex :: "bytes \<Rightarrow> pystr"
  gs_loads :: "bytes \<Rightarrow> pyval res"

type_synonym 'k send_state = "kv_rows sqlite \<times> 'k outbound"

definition put_fst :: "'a \<Rightarrow> 'a \<times> 'b \<Rightarrow> 'a \<times> 'b" where
  "put_fst a s = (a, snd s)"

definition put_snd :: "'b \<Rightarrow> 'a \<times> 'b \<Rightarrow> 'a \<times> 'b" where
  "put_snd b s = (fst s, b)"

text \<open>\<open>service.load_payload\<close> as the payload provider.\<close>

definition frozen_payload :: "pystr \<Rightarrow> (kv_rows sqlite, dict) pm" where
  "frozen_payload pid = pbind (kv_get sqlite_kv pid) (\<lambda>raw. case raw of
     None \<Rightarrow> praise (Store (ProposalNotFoundError pid)) | Some d \<Rightarrow> preturn d)"

definition refused :: "string \<Rightarrow> pystr list \<Rightarrow> send_result" where
  "refused code hosts = \<lparr>sr_kind = REJECTED, sr_message_id_sha256 = None, sr_thread_id_sha256 = None,
     sr_error_code = Some (lit code), sr_egress_hosts = hosts\<rparr>"

definition unclear :: "string \<Rightarrow> pystr list \<Rightarrow> send_result" where
  "unclear code hosts = (refused code hosts)\<lparr>sr_kind := INDETERMINATE\<rparr>"

text \<open>\<open>_parse_ids\<close> and \<open>_sha256_hex(...) if ... else None\<close>.\<close>

definition parse_ids :: "(bytes \<Rightarrow> pyval res) \<Rightarrow> bytes \<Rightarrow> (pystr option \<times> pystr option) res" where
  "parse_ids loads body =
     rcatch (rmap (\<lambda>data. case data of
         PDict d \<Rightarrow> (as_str (dget d (lit ''id'')), as_str (dget d (lit ''threadId'')))
       | _ \<Rightarrow> (None, None)) (loads body))
       (\<lambda>e. if is_value_error e then Inr (None, None) else Inl e)"

definition sha_of :: "(bytes \<Rightarrow> pystr) \<Rightarrow> pystr option \<Rightarrow> pystr option res" where
  "sha_of sha x = (if given x then rmap (\<lambda>b. Some (sha b)) (encode_utf8 (the x)) else Inr None)"

text \<open>
  A reply the sender can read: \<open>json.loads\<close> rejects it, or returns a value whose \<open>id\<close> and \<open>threadId\<close>, where they are texts,
  have a UTF-8 encoding (\<open>\ud800\<close> in a JSON text is a lone surrogate, which has none).
\<close>

definition reply_readable :: "(bytes \<Rightarrow> pyval res) \<Rightarrow> bytes \<Rightarrow> bool" where
  "reply_readable loads b \<longleftrightarrow> (case loads b of
     Inl e \<Rightarrow> is_value_error e
   | Inr (PDict d) \<Rightarrow> list_all (\<lambda>k. case dget d (lit k) of PStr s \<Rightarrow> encodable s | _ \<Rightarrow> True) [''id'', ''threadId'']
   | Inr _ \<Rightarrow> True)"

definition send_classify :: "('u, 'k, 'm) gmail_sender \<Rightarrow> http_response \<Rightarrow> send_result res" where
  "send_classify G resp =
     (if ok_status (hr_status resp) then
        rbind (parse_ids (gs_loads G) (hr_body resp)) (\<lambda>(mid, tid).
        rbind (sha_of (gs_sha256_hex G) mid) (\<lambda>m.
        rbind (sha_of (gs_sha256_hex G) tid) (\<lambda>t.
        Inr \<lparr>sr_kind = ACCEPTED, sr_message_id_sha256 = m, sr_thread_id_sha256 = t, sr_error_code = None,
          sr_egress_hosts = [hr_host resp]\<rparr>)))
      else if 400 \<le> hr_status resp \<and> hr_status resp < 500
      then Inr ((refused ''rejected_'' [hr_host resp])\<lparr>sr_error_code := Some (lit ''rejected_'' @ dec_int (hr_status resp))\<rparr>)
      else Inr ((unclear ''server_'' [hr_host resp])\<lparr>sr_error_code := Some (lit ''server_'' @ dec_int (hr_status resp))\<rparr>))"

definition send_failure :: "exn \<Rightarrow> send_result res" where
  "send_failure e = (case e of
     Gw (EgressBlockedError host) \<Rightarrow> Inr (refused ''egress_blocked'' (if host = [] then [] else [host]))
   | _ \<Rightarrow> if e = Py TimeoutError then Inr (unclear ''TIMEOUT'' [gmail_host])
       else if is_os_error e then Inr (unclear ''TRANSPORT'' [gmail_host]) else Inl e)"

definition mail_headers :: "pystr \<Rightarrow> (pystr \<times> pystr) list" where
  "mail_headers token =
     [(lit ''Authorization'', lit ''Bearer '' @ token), (lit ''Content-Type'', lit ''application/json'')]"

text \<open>The part of the call after the policy check.\<close>

definition post_mail :: "('u, 'k, 'm) gmail_sender \<Rightarrow> bytes \<Rightarrow> ('k outbound, send_result) pm" where
  "post_mail G raw =
     ptry (access_token (gs_tokens G))
       (\<lambda>e. if is_oauth_error e then preturn (refused ''authorization_required'' []) else praise e)
       (\<lambda>token.
          ptry (egress_post (gs_client G) (gs_url G) (mail_headers token) (raw_json raw))
            (\<lambda>e. plift (send_failure e)) (\<lambda>resp. plift (send_classify G resp)))"

definition gmail_send :: "('u, 'k, 'm) gmail_sender \<Rightarrow> pystr \<Rightarrow> ('k send_state, send_result) pm" where
  "gmail_send G pid =
     pbind (lift_pm fst put_fst (frozen_payload pid)) (\<lambda>canonical.
     case enforce_v1_send_policy canonical of
       Inl e \<Rightarrow> (if e = Canon AttachmentsNotSupportedError \<or> is_payload_schema_error e
           then preturn (refused ''policy_blocked'' []) else praise e)
     | Inr _ \<Rightarrow> pbind (plift (build_raw_message (gs_email G) canonical)) (\<lambda>raw.
         lift_pm snd put_snd (post_mail G raw)))"

subsection \<open>The send command\<close>

text \<open>\<open>run_send\<close>: the confirm dispatcher over the four stores; the sender's token provider and the machine share the clock.\<close>

definition outside_clock :: "('k outbound world, int) pm" where
  "outside_clock w = (case read_clock (w_env w) of (r, e) \<Rightarrow> (r, w\<lparr>w_env := e\<rparr>))"

definition gateway_sender ::
  "'u url_splitter \<Rightarrow> 'k token_store \<Rightarrow> 'm email \<Rightarrow> (bytes \<Rightarrow> pystr) \<Rightarrow> ('u, 'k, 'm) gmail_sender" where
  "gateway_sender urlsplit T M sha =
     \<lparr>gs_client = gmail_client urlsplit, gs_tokens = \<lparr>tp_store = T, tp_client = oauth_client urlsplit, tp_skew = 60\<rparr>,
      gs_url = gmail_send_url, gs_email = M, gs_sha256_hex = sha, gs_loads = ts_loads T\<rparr>"

definition run_send ::
  "'u url_splitter \<Rightarrow> 'k token_store \<Rightarrow> 'm email \<Rightarrow> (bytes \<Rightarrow> pystr) \<Rightarrow> pystr \<Rightarrow> ('k outbound world, pystr) pm" where
  "run_send urlsplit T M sha pid =
     confirm_and_dispatch (gateway_fsm (gmail_send (gateway_sender urlsplit T M sha)) CONFIRM_THEN_SEND) outside_clock pid"

text \<open>The exit code of \<open>main\<close>.\<close>

definition send_exit :: "pystr res \<Rightarrow> int" where
  "send_exit r = (case r of
     Inr status \<Rightarrow> (if status = lit ''sent'' then 0 else 7)
   | Inl e \<Rightarrow> (case e of
       Store (ProposalNotFoundError _) \<Rightarrow> 4
     | Store (ProposalExpiredError _) \<Rightarrow> 5
     | Fsm IllegalTransitionError \<Rightarrow> 6
     | Fsm AlreadySettledError \<Rightarrow> 6
     | Fsm NoAutoRetryError \<Rightarrow> 6
     | _ \<Rightarrow> 1))"

subsection \<open>The mails of a call\<close>

definition mail_request :: "pystr \<Rightarrow> bytes \<Rightarrow> http_request" where
  "mail_request token raw = post_request gmail_send_url (mail_headers token) (raw_json raw)"

definition mails :: "(http_request \<times> (int \<times> bytes) res) list \<Rightarrow> (http_request \<times> (int \<times> bytes) res) list" where
  "mails wire = filter (\<lambda>x. hq_url (fst x) = gmail_send_url) wire"

lemma mails_append [simp]: "mails (xs @ ys) = mails xs @ mails ys" "mails [] = []"
  by (simp_all add: mails_def)

lemma mails_request: "mails [(mail_request token raw, reply)] = [(mail_request token raw, reply)]"
  "mails [(post_request default_token_endpoint headers b, reply)] = []"
  by (simp_all add: mails_def mail_request_def post_request_def gmail_send_url_def default_token_endpoint_def)

lemma gateway_sender_simps [simp]:
  "gs_client (gateway_sender urlsplit T M sha) = gmail_client urlsplit"
  "gs_tokens (gateway_sender urlsplit T M sha) = \<lparr>tp_store = T, tp_client = oauth_client urlsplit, tp_skew = 60\<rparr>"
  "gs_url (gateway_sender urlsplit T M sha) = gmail_send_url"
  "gs_email (gateway_sender urlsplit T M sha) = M"
  by (simp_all add: gateway_sender_def)

lemma access_token_mails:
  assumes "access_token P s = (r, t)" "tp_client P = oauth_client urlsplit"
  shows "mails (ob_wire t) = mails (ob_wire s)"
  using access_token_wire [OF assms] by (auto simp: mails_request)

lemma send_failure_kind: "send_failure e = Inr res \<Longrightarrow> sr_kind res \<noteq> ACCEPTED"
  by (cases e; auto simp: send_failure_def unclear_def refused_def split: gw_exn.splits if_splits)

lemma send_classify_kind:
  "send_classify G resp = Inr res \<Longrightarrow>
     (sr_kind res = ACCEPTED \<longleftrightarrow> ok_status (hr_status resp)) \<and>
     (sr_kind res = REJECTED \<longleftrightarrow> 400 \<le> hr_status resp \<and> hr_status resp < 500)"
  by (auto simp: send_classify_def unclear_def refused_def pm_inv ok_status_def split: if_splits prod.splits)

lemma readable_ids:
  assumes "reply_readable loads b"
  obtains i j m n where "parse_ids loads b = Inr (i, j)" "sha_of sha i = Inr m" "sha_of sha j = Inr n"
proof -
  have ok: "\<exists>m. sha_of sha (as_str v) = Inr m" if "case v of PStr s \<Rightarrow> encodable s | _ \<Rightarrow> True" for v
    using that encode_utf8_Inr [THEN iffD2, OF conjI [OF _ refl]] by (cases v) (auto simp: sha_of_def given_def)
  have none: "sha_of sha None = Inr None" by (simp add: sha_of_def given_def)
  show thesis
  proof (cases "loads b")
    case (Inl e)
    with assms have "parse_ids loads b = Inr (None, None)" by (simp add: reply_readable_def parse_ids_def)
    then show ?thesis by (rule that [OF _ none none])
  next
    case (Inr v)
    show ?thesis
    proof (cases "\<exists>d. v = PDict d")
      case True
      then obtain d where d: "v = PDict d" by blast
      with Inr assms ok [of "dget d (lit ''id'')"] ok [of "dget d (lit ''threadId'')"] obtain m n where
        "sha_of sha (as_str (dget d (lit ''id''))) = Inr m" "sha_of sha (as_str (dget d (lit ''threadId''))) = Inr n"
        by (auto simp: reply_readable_def)
      with that show ?thesis by (simp add: parse_ids_def Inr d)
    next
      case False
      with Inr have "parse_ids loads b = Inr (None, None)" by (cases v) (simp_all add: parse_ids_def)
      then show ?thesis by (rule that [OF _ none none])
    qed
  qed
qed

lemma readable_accepted:
  assumes "reply_readable (gs_loads G) b" "200 \<le> st" "st < 300"
  obtains res where "send_classify G \<lparr>hr_status = st, hr_body = b, hr_host = host\<rparr> = Inr res" "sr_kind res = ACCEPTED"
  by (rule readable_ids [OF assms(1), of "gs_sha256_hex G"]) (use assms(2,3) that in \<open>simp add: send_classify_def ok_status_def\<close>)

text \<open>
  What the sender does with the answer to its mail.
\<close>

definition mail_outcome :: "('u, 'k, 'm) gmail_sender \<Rightarrow> (int \<times> bytes) res \<Rightarrow> send_result res" where
  "mail_outcome G reply = (case reply of
     Inl e \<Rightarrow> send_failure e
   | Inr (st, b) \<Rightarrow> send_classify G \<lparr>hr_status = st, hr_body = b, hr_host = gmail_host\<rparr>)"

lemma gmail_admitted: "admitted (gmail_client urlsplit) url host \<Longrightarrow> host = gmail_host"
  by (auto simp: admitted_def gmail_client_def egress_client_def gmail_host_def lower_ascii_def lit_def)

lemma post_mail_wire:
  assumes "post_mail (gateway_sender urlsplit T M sha) raw s = (r, t)"
  shows "mails (ob_wire t) = mails (ob_wire s) \<and> (\<forall>res. r = Inr res \<longrightarrow> sr_kind res \<noteq> ACCEPTED) \<or>
    (\<exists>token reply. mails (ob_wire t) = mails (ob_wire s) @ [(mail_request token raw, reply)] \<and>
       r = mail_outcome (gateway_sender urlsplit T M sha) reply)"
proof -
  let ?G = "gateway_sender urlsplit T M sha"
  obtain q u where q: "access_token (gs_tokens ?G) s = (q, u)" by fastforce
  have m: "mails (ob_wire u) = mails (ob_wire s)" by (rule access_token_mails [OF q]) simp
  show ?thesis
  proof (cases q)
    case (Inl e)
    with assms q m show ?thesis by (auto simp: post_mail_def ptry_def refused_def split: if_splits)
  next
    case (Inr token)
    obtain x v where x: "egress_post (gs_client ?G) gmail_send_url (mail_headers token) (raw_json raw) u = (x, v)" by fastforce
    with assms q Inr have r: "r = (case x of Inl e \<Rightarrow> send_failure e | Inr resp \<Rightarrow> send_classify ?G resp)" "t = v"
      by (auto simp: post_mail_def ptry_def plift_def split: sum.splits)
    from x show ?thesis
    proof (cases rule: egress_post_cases)
      case (refused e)
      with r m show ?thesis by (auto dest: send_failure_kind)
    next
      case (raised host e)
      then have "ob_wire v = ob_wire u @ [(mail_request token raw, Inl e)]"
        using wire_transport_wire [of "mail_request token raw" u "Inl e" v]
        by (simp add: gmail_client_def egress_client_def mail_request_def)
      with raised r m show ?thesis by (auto simp: mails_request mail_outcome_def)
    next
      case (answered host st b)
      then have "ob_wire v = ob_wire u @ [(mail_request token raw, Inr (st, b))]"
        using wire_transport_wire [of "mail_request token raw" u "Inr (st, b)" v]
        by (simp add: gmail_client_def egress_client_def mail_request_def)
      with answered gmail_admitted r m show ?thesis by (auto simp: mails_request mail_outcome_def)
    qed
  qed
qed

lemma mail_outcome_kind:
  "mail_outcome G reply = Inr res \<Longrightarrow> sr_kind res = ACCEPTED \<longleftrightarrow> (\<exists>st b. reply = Inr (st, b) \<and> 200 \<le> st \<and> st < 300)"
  by (auto simp: mail_outcome_def ok_status_def dest: send_failure_kind send_classify_kind split: sum.splits prod.splits)

lemma frozen_payload_step:
  assumes "clean pl" "frozen_payload pid pl = (r, pl')"
  shows "clean pl' \<and> map_of (sq_committed pl') = map_of (sq_committed pl) \<and>
    (\<forall>c. r = Inr c \<longrightarrow> map_of (sq_committed pl) pid = Some c)"
proof -
  obtain q u where q: "kv_get sqlite_kv pid pl = (q, u)" by fastforce
  from sqlite.get_atomic [OF assms(1) q] assms(2) q show ?thesis
    by (cases q) (auto simp: frozen_payload_def pbind_def split: option.splits)
qed

text \<open>One call of the sender: at most one mail, of the stored payload, and its outcome.\<close>

lemma gmail_send_step:
  fixes T :: "'k token_store"
  assumes "clean pl" "gmail_send (gateway_sender urlsplit T M sha) pid (pl, e) = (r, pl', e')"
  shows "clean pl' \<and> map_of (sq_committed pl') = map_of (sq_committed pl) \<and>
    (mails (ob_wire e') = mails (ob_wire e) \<and> (\<forall>res. r = Inr res \<longrightarrow> sr_kind res \<noteq> ACCEPTED) \<or>
     (\<exists>c raw token reply. map_of (sq_committed pl) pid = Some c \<and> enforce_v1_send_policy c = Inr () \<and>
        build_raw_message M c = Inr raw \<and> mails (ob_wire e') = mails (ob_wire e) @ [(mail_request token raw, reply)] \<and>
        r = mail_outcome (gateway_sender urlsplit T M sha) reply))"
proof -
  let ?G = "gateway_sender urlsplit T M sha"
  obtain q u where q: "frozen_payload pid pl = (q, u)" by fastforce
  note f = frozen_payload_step [OF assms(1) q]
  show ?thesis
  proof (cases q)
    case (Inl x)
    with assms(2) q f show ?thesis by (auto simp: gmail_send_def pbind_def lift_pm_def put_fst_def)
  next
    case (Inr c)
    show ?thesis
    proof (cases "enforce_v1_send_policy c")
      case (Inl x)
      with assms(2) q f \<open>q = Inr c\<close> show ?thesis
        by (auto simp: gmail_send_def pbind_def lift_pm_def put_fst_def refused_def split: if_splits)
    next
      case (Inr y)
      show ?thesis
      proof (cases "build_raw_message M c")
        case (Inl x)
        with assms(2) q f \<open>q = Inr c\<close> Inr show ?thesis by (auto simp: gmail_send_def pbind_def lift_pm_def put_fst_def plift_def)
      next
        case (Inr raw)
        obtain x v where x: "post_mail ?G raw e = (x, v)" by fastforce
        with assms(2) q \<open>q = Inr c\<close> \<open>enforce_v1_send_policy c = Inr y\<close> Inr have "r = x" "pl' = u" "e' = v"
          by (auto simp: gmail_send_def pbind_def lift_pm_def put_fst_def put_snd_def plift_def)
        with post_mail_wire [OF x] f \<open>q = Inr c\<close> \<open>enforce_v1_send_policy c = Inr y\<close> Inr show ?thesis by auto
      qed
    qed
  qed
qed

subsection \<open>The mails of a run\<close>

text \<open>What every call keeps, whether it returns or raises.\<close>

definition stable :: "('s \<Rightarrow> bool) \<Rightarrow> ('s, 'a) pm \<Rightarrow> bool" where
  "stable I m \<longleftrightarrow> (\<forall>s r t. I s \<longrightarrow> m s = (r, t) \<longrightarrow> I t)"

lemma stableD: "stable I m \<Longrightarrow> I s \<Longrightarrow> m s = (r, t) \<Longrightarrow> I t"
  by (simp add: stable_def)

lemma stableI: "(\<And>s. I s \<Longrightarrow> I (snd (m s))) \<Longrightarrow> stable I m"
  by (force simp: stable_def)

lemma stable_snd: "stable I m \<Longrightarrow> I s \<Longrightarrow> I (snd (m s))"
  by (cases "m s") (simp add: stable_def)

lemma stable_ptry: "stable I m \<Longrightarrow> (\<And>e. stable I (h e)) \<Longrightarrow> (\<And>a. stable I (f a)) \<Longrightarrow> stable I (ptry m h f)"
proof (rule stableI)
  fix s assume m: "stable I m" "\<And>e. stable I (h e)" "\<And>a. stable I (f a)" "I s"
  obtain q u where q: "m s = (q, u)" by (cases "m s")
  with stableD [OF m(1,4)] have "I u" by blast
  with m(2,3) q show "I (snd (ptry m h f s))" by (cases q) (simp_all add: ptry_def stable_snd)
qed

lemma stable_pure: "stable I (preturn a)" "stable I (praise e)" "stable I (plift r)"
  by (auto simp: stable_def preturn_def praise_def plift_def)

lemma stable_pbind: "stable I m \<Longrightarrow> (\<And>a. stable I (f a)) \<Longrightarrow> stable I (pbind m f)"
proof -
  have e: "pbind m f = ptry m praise f" by (rule ext) (simp add: pbind_def ptry_def praise_def split: prod.splits sum.splits)
  show "stable I m \<Longrightarrow> (\<And>a. stable I (f a)) \<Longrightarrow> stable I (pbind m f)"
    unfolding e by (rule stable_ptry [OF _ stable_pure(2)])
qed

lemma stable_keeps: "keeps f m \<Longrightarrow> (\<And>s. I s = J (f s)) \<Longrightarrow> stable I m"
  by (auto simp: stable_def keeps_def)

text \<open>The requests to Gmail come from calls of the sender, in their order, and each renders the stored payload of its proposal.\<close>

definition genuine :: "'m email \<Rightarrow> (pystr \<Rightarrow> dict option) \<Rightarrow> pystr \<times> http_request \<times> (int \<times> bytes) res \<Rightarrow> bool" where
  "genuine M payloads = (\<lambda>(pid, rq, reply). \<exists>c raw token. payloads pid = Some c \<and> enforce_v1_send_policy c = Inr () \<and>
     build_raw_message M c = Inr raw \<and> rq = mail_request token raw)"

definition mail_inv :: "'m email \<Rightarrow> (pystr \<Rightarrow> dict option) \<Rightarrow> 'k outbound world \<Rightarrow> bool" where
  "mail_inv M payloads w \<longleftrightarrow> clean (w_payloads w) \<and> payload_rows w = payloads \<and>
     (\<exists>ms. mails (ob_wire (w_env w)) = map snd ms \<and> subseq (map fst ms) (rev (w_sent w)) \<and> list_all (genuine M payloads) ms)"

definition outside :: "'e world \<Rightarrow> kv_rows sqlite \<times> 'e \<times> pystr list" where
  "outside w = (w_payloads w, w_env w, w_sent w)"

lemma mail_inv_outside: "mail_inv M payloads w = (case outside w of (pl, e, sent) \<Rightarrow>
     clean pl \<and> map_of (sq_committed pl) = payloads \<and>
     (\<exists>ms. mails (ob_wire e) = map snd ms \<and> subseq (map fst ms) (rev sent) \<and> list_all (genuine M payloads) ms))"
  by (simp add: mail_inv_def outside_def payload_rows_def)

lemma store_outside [keeps_intro]:
  "keeps outside (kv_get proposals_db k)" "keeps outside (kv_put proposals_db k v)" "keeps outside (kv_claim proposals_db k v)"
  "keeps outside (kv_delete proposals_db k)" "keeps outside (log_append audit_db e)"
  by (auto simp: keeps_def outside_def proposals_db_def audit_db_def lift_pm_iff put_proposals_def put_audit_def)

lemma confirm_outside [keeps_intro]: "keeps outside (fsm_confirm (gateway_fsm send mode) pid actor now reach)"
  by (auto simp: fsm_confirm_def ps_get_live_def ps_get_def ps_is_live_def ps_set_status_def ledger_record_def
      intro!: keeps_intro split: option.splits sum.splits)

lemma expire_outside [keeps_intro]: "keeps outside (fsm_expire (gateway_fsm send mode) pid now)"
  by (auto simp: fsm_expire_def ps_get_def ps_set_status_def ledger_record_def
      intro!: keeps_intro split: option.splits sum.splits)

lemma settle_outside [keeps_intro]:
  "keeps outside (fsm_settle_unknown (gateway_fsm send mode) pid now code hosts)"
  "keeps outside (fsm_settle (gateway_fsm send mode) pid now result)"
  by (auto simp: fsm_settle_def fsm_settle_unknown_def ps_get_def ps_set_status_def ledger_record_def
      intro!: keeps_intro split: option.splits sum.splits send_result_kind.splits)

lemma create_outside [keeps_intro]: "keeps outside (ps_create proposals_db p)"
  by (auto simp: ps_create_def ps_claim_def intro!: keeps_intro split: option.splits)

lemma stable_outside: "keeps outside m \<Longrightarrow> stable (mail_inv M payloads) m"
  by (auto simp: stable_def keeps_def mail_inv_outside)

lemma mail_inv_sender:
  "stable (mail_inv M payloads) (world_sender (gmail_send (gateway_sender urlsplit T M sha)) pid)"
proof -
  have "mail_inv M payloads t"
    if w: "mail_inv M payloads w" and t: "world_sender (gmail_send (gateway_sender urlsplit T M sha)) pid w = (r, t)" for w r t
  proof -
    from t obtain pl e where s: "gmail_send (gateway_sender urlsplit T M sha) pid (w_payloads w, w_env w) = (r, pl, e)"
      "t = w\<lparr>w_payloads := pl, w_env := e, w_sent := pid # w_sent w\<rparr>"
      by (auto simp: world_sender_def split: prod.splits)
    from w obtain ms where ms: "mails (ob_wire (w_env w)) = map snd ms" "subseq (map fst ms) (rev (w_sent w))"
      "list_all (genuine M payloads) ms" "clean (w_payloads w)" "payload_rows w = payloads"
      unfolding mail_inv_def by blast
    note g = gmail_send_step [OF ms(4) s(1)]
    have rows: "clean (w_payloads t)" "payload_rows t = payloads"
      using g s(2) ms(5) by (simp_all add: payload_rows_def)
    consider (none) "mails (ob_wire e) = mails (ob_wire (w_env w))"
      | (mail) c raw token reply where "payloads pid = Some c" "enforce_v1_send_policy c = Inr ()"
          "build_raw_message M c = Inr raw" "mails (ob_wire e) = mails (ob_wire (w_env w)) @ [(mail_request token raw, reply)]"
      using g ms(5) unfolding payload_rows_def by blast
    then show ?thesis
    proof cases
      case none
      with ms s(2) rows have "mails (ob_wire (w_env t)) = map snd ms \<and> subseq (map fst ms) (rev (w_sent t)) \<and>
        list_all (genuine M payloads) ms" by (simp add: list_emb_prefix)
      with rows show ?thesis unfolding mail_inv_def by blast
    next
      case (mail c raw token reply)
      let ?ms = "ms @ [(pid, mail_request token raw, reply)]"
      have "mails (ob_wire (w_env t)) = map snd ?ms \<and> subseq (map fst ?ms) (rev (w_sent t)) \<and>
        list_all (genuine M payloads) ?ms"
        using ms mail s(2) by (auto simp: genuine_def intro: list_emb_append_mono)
      with rows show ?thesis unfolding mail_inv_def by blast
    qed
  qed
  then show ?thesis by (auto simp: stable_def)
qed

lemma stable_leaves:
  "stable (mail_inv M payloads) (kv_get proposals_db k)" "stable (mail_inv M payloads) (log_append audit_db e)"
  "stable (mail_inv M payloads) (fsm_settle_unknown (gateway_fsm send mode) pid now code hosts)"
  "stable (mail_inv M payloads) (fsm_settle (gateway_fsm send mode) pid now result)"
  by (rule stable_outside, rule store_outside settle_outside)+

lemma mail_inv_dispatch:
  "stable (mail_inv M payloads) (fsm_dispatch (gateway_fsm (gmail_send (gateway_sender urlsplit T M sha)) mode) pid now)"
  by (auto simp: fsm_dispatch_def ledger_record_def ps_get_def intro!: stable_pbind stable_ptry stable_pure mail_inv_sender
      stable_leaves split: option.splits sum.splits)

lemma mail_inv_confirm_dispatch:
  assumes "stable (mail_inv M payloads) clock"
  shows "stable (mail_inv M payloads)
    (confirm_and_dispatch (gateway_fsm (gmail_send (gateway_sender urlsplit T M sha)) mode) clock pid)"
  unfolding confirm_and_dispatch_def
  by (intro stable_pbind stable_pure assms mail_inv_dispatch stable_outside confirm_outside)

lemma mail_inv_do:
  "mail_inv M payloads w \<Longrightarrow>
     mail_inv M payloads (fsm_do (gateway_fsm (gmail_send (gateway_sender urlsplit T M sha)) mode) x w)"
proof -
  assume w: "mail_inv M payloads w"
  have i: "mail_inv M payloads (ignore m w)" if "stable (mail_inv M payloads) m" for m :: "('b outbound world, 'x) pm"
    using stableD [OF that w] by (cases "m w") (simp add: ignore_def)
  show ?thesis
  proof (cases x)
    case (FCreate p)
    show ?thesis unfolding FCreate fsm_do.simps
      by (rule i) (simp add: stable_outside create_outside)
  next
    case (FConfirm pid actor now reach)
    show ?thesis unfolding FConfirm fsm_do.simps by (rule i [OF stable_outside [OF confirm_outside]])
  next
    case (FConfirmDispatch pid now)
    show ?thesis unfolding FConfirmDispatch fsm_do.simps by (rule i [OF mail_inv_confirm_dispatch [OF stable_pure(1)]])
  next
    case (FExpire pid now)
    show ?thesis unfolding FExpire fsm_do.simps by (rule i [OF stable_outside [OF expire_outside]])
  next
    case (FDispatch pid now)
    show ?thesis unfolding FDispatch fsm_do.simps by (rule i [OF mail_inv_dispatch])
  qed
qed

lemma mail_inv_run:
  "mail_inv M payloads w \<Longrightarrow>
     mail_inv M payloads (fsm_run (gateway_fsm (gmail_send (gateway_sender urlsplit T M sha)) mode) ops w)"
  by (induction ops arbitrary: w) (simp_all add: fsm_run_def mail_inv_do)

subsection \<open>The dispatch and its sender\<close>

lemma settle_status:
  "fsm_settle F pid now res s = (Inr st, t) \<Longrightarrow> st = outcome_status (Inr res)"
  "fsm_settle_unknown F pid now code hosts s = (Inr st, t) \<Longrightarrow> st = OUTCOME_UNKNOWN"
  by (auto simp: fsm_settle_def fsm_settle_unknown_def pm_inv split: send_result_kind.splits)

lemma outside_eq: "outside t = outside w \<longleftrightarrow> w_payloads t = w_payloads w \<and> w_env t = w_env w \<and> w_sent t = w_sent w"
  by (simp add: outside_def)

lemma dispatch_sender:
  assumes "fsm_dispatch (gateway_fsm send mode) pid now w = (Inr st, t)"
  obtains r pl e where "send pid (w_payloads w, w_env w) = (r, pl, e)" "w_env t = e" "w_payloads t = pl"
    "w_sent t = pid # w_sent w" "st = outcome_status r"
proof -
  let ?F = "gateway_fsm send mode"
  from assms obtain p u where p: "ps_get proposals_db pid w = (Inr p, u)" "p_status p = CONFIRMED"
    by (auto simp: fsm_dispatch_def pbind_Inr_iff split: if_splits)
  have "keeps outside (ps_get proposals_db pid)"
    by (auto simp: ps_get_def intro!: keeps_intro split: option.splits)
  from keepsD [OF this p(1)] have u: "outside u = outside w" .
  let ?ev = "(audit_event0 SEND_ATTEMPTED now pid)\<lparr>ae_payload_digest := Some (p_payload_digest p)\<rparr>"
  from assms p obtain v where v: "ledger_record audit_db ?ev u = (Inr (), v)"
    "ptry (world_sender send pid) (\<lambda>_. fsm_settle_unknown ?F pid now (Some (lit ''sender_raised'')) []) (fsm_settle ?F pid now) v = (Inr st, t)"
    by (auto simp: fsm_dispatch_def pbind_def split: prod.splits sum.splits)
  have "keeps outside (ledger_record audit_db ?ev)" by (auto simp: ledger_record_def intro!: keeps_intro split: sum.splits)
  from keepsD [OF this v(1)] u have ov: "outside v = outside w" by simp
  obtain r pl e where s: "send pid (w_payloads w, w_env w) = (r, pl, e)" by (metis prod.exhaust)
  let ?x = "v\<lparr>w_payloads := pl, w_env := e, w_sent := pid # w_sent v\<rparr>"
  have "world_sender send pid v = (r, ?x)" using s ov by (simp add: world_sender_def outside_eq)
  with v(2) have c: "(case r of Inl _ \<Rightarrow> fsm_settle_unknown ?F pid now (Some (lit ''sender_raised'')) [] ?x
      | Inr res \<Rightarrow> fsm_settle ?F pid now res ?x) = (Inr st, t)"
    by (simp add: ptry_def split: sum.splits)
  have "outside t = outside ?x \<and> st = outcome_status r"
    using c keepsD [OF settle_outside(1)] keepsD [OF settle_outside(2)] settle_status
    by (cases r) auto
  with s ov that show thesis by (simp add: outside_eq)
qed

lemma confirm_dispatch_sender:
  assumes "confirm_and_dispatch (gateway_fsm send mode) clock pid w = (Inr status, t)"
  obtains now u v st r pl e where "clock w = (Inr now, u)" "outside v = outside u" "send pid (w_payloads v, w_env v) = (r, pl, e)"
    "w_env t = e" "w_payloads t = pl" "w_sent t = pid # w_sent u" "status = status_value (outcome_status r)"
proof -
  from assms obtain now u v st where c: "clock w = (Inr now, u)" "fsm_confirm (gateway_fsm send mode) pid HUMAN now None u = (Inr (), v)"
    "fsm_dispatch (gateway_fsm send mode) pid now v = (Inr st, t)" "status = status_value st"
    by (auto simp: confirm_and_dispatch_def pbind_Inr_iff)
  have o: "outside v = outside u" using keepsD [OF confirm_outside c(2)] .
  from c(3) obtain r pl e where "send pid (w_payloads v, w_env v) = (r, pl, e)" "w_env t = e" "w_payloads t = pl"
    "w_sent t = pid # w_sent v" "st = outcome_status r" by (rule dispatch_sender)
  with c o that show thesis by (simp add: outside_eq)
qed

lemma outside_clock_step: "outside_clock w = (Inr (ob_clock (w_env w) 0), w\<lparr>w_env := snd (read_clock (w_env w))\<rparr>)"
  by (simp add: outside_clock_def read_clock_def)

lemma clock_wire [simp]: "ob_wire (snd (read_clock e)) = ob_wire e" "ob_tokens (snd (read_clock e)) = ob_tokens e"
  "ob_replies (snd (read_clock e)) = ob_replies e"
  by (simp_all add: read_clock_def)

lemma count_once_distinct: "(\<And>x. count_list xs x \<le> 1) \<Longrightarrow> distinct xs"
proof (induction xs)
  case (Cons a xs)
  from Cons.prems [of a] have "a \<notin> set xs" by (simp add: count_list_0_iff)
  moreover have "count_list xs x \<le> 1" for x using Cons.prems [of x] by (auto split: if_splits)
  ultimately show ?case using Cons.IH by simp
qed simp

lemma subseq_distinct: "subseq xs ys \<Longrightarrow> distinct ys \<Longrightarrow> distinct xs"
  by (auto simp: subseq_conv_nths intro: distinct_nthsI)

lemma subseq_set: "subseq xs ys \<Longrightarrow> set xs \<subseteq> set ys"
  by (auto simp: subseq_conv_nths dest: in_set_nthsD)

text \<open>A run of the command in a world without storage failures, up to the outcome of its post.\<close>

lemma run_send_healthy:
  fixes w :: "'k outbound world"
  assumes "world_healthy w" "proposal_rows w pid = Some (proposal_to_dict p)" "p_status p = PENDING"
    and "0 \<le> ob_clock (w_env w) 0" "ob_clock (w_env w) 0 < p_expires_at p"
    and "payload_rows w pid = Some c" "enforce_v1_send_policy c = Inr ()" "build_raw_message M c = Inr raw"
    and "post_mail (gateway_sender urlsplit T M sha) raw (snd (read_clock (w_env w))) = (r, e)"
  obtains t where "run_send urlsplit T M sha pid w = (Inr (status_value (outcome_status r)), t)" "w_env t = e"
    "w_sent t = pid # w_sent w" "proposal_rows t = (proposal_rows w)(pid \<mapsto> proposal_to_dict (p\<lparr>p_status := outcome_status r\<rparr>))"
proof -
  let ?send = "gmail_send (gateway_sender urlsplit T M sha)" and ?now = "ob_clock (w_env w) 0"
  let ?u = "w\<lparr>w_env := snd (read_clock (w_env w))\<rparr>"
  have hu: "world_healthy ?u" "proposal_rows ?u pid = Some (proposal_to_dict p)"
    using assms(1,2) by (simp_all add: world_healthy_def proposal_rows_def)
  from healthy_confirm [OF hu(1) assms(4) hu(2) assms(3,5)] obtain v where
    v: "fsm_confirm (gateway_fsm ?send CONFIRM_THEN_SEND) pid HUMAN ?now None ?u = (Inr (), v)" "world_healthy v"
      "proposal_rows v = (proposal_rows ?u)(pid \<mapsto> proposal_to_dict (p\<lparr>p_status := CONFIRMED\<rparr>))" by blast
  have o: "outside v = outside ?u" using keepsD [OF confirm_outside v(1)] .
  have "healthy (w_payloads v)" using v(2) by (simp add: world_healthy_def)
  moreover have "map_of (sq_committed (w_payloads v)) pid = Some c"
    using assms(6) o by (simp add: outside_eq payload_rows_def)
  ultimately have "frozen_payload pid (w_payloads v) = (Inr c, w_payloads v)"
    by (simp add: frozen_payload_def pbind_def sqlite.get_live)
  then have s: "?send pid (w_payloads v, w_env v) = (r, w_payloads v, e)"
    using assms(7-9) o by (simp add: gmail_send_def pbind_def lift_pm_def put_fst_def put_snd_def plift_def outside_eq)
  have pv: "proposal_rows v pid = Some (proposal_to_dict (p\<lparr>p_status := CONFIRMED\<rparr>))" using v(3) by simp
  from healthy_dispatch [of v ?now pid "p\<lparr>p_status := CONFIRMED\<rparr>" ?send r "w_payloads v" e CONFIRM_THEN_SEND, OF v(2) assms(4) pv s]
  obtain t where t: "fsm_dispatch (gateway_fsm ?send CONFIRM_THEN_SEND) pid ?now v = (Inr (outcome_status r), t)"
    "proposal_rows t = (proposal_rows v)(pid \<mapsto> proposal_to_dict (p\<lparr>p_status := outcome_status r\<rparr>))" by auto
  from dispatch_sender [OF t(1)] s have e: "w_env t = e" "w_sent t = pid # w_sent v" by auto
  have "run_send urlsplit T M sha pid w = (Inr (status_value (outcome_status r)), t)"
    using v(1) t(1) by (simp add: run_send_def confirm_and_dispatch_def pbind_def outside_clock_step)
  moreover have "proposal_rows t = (proposal_rows w)(pid \<mapsto> proposal_to_dict (p\<lparr>p_status := outcome_status r\<rparr>))"
    using t(2) v(3) by (simp add: proposal_rows_def)
  ultimately show thesis using that e o by (simp add: outside_eq)
qed

text \<open>A run of the command with everything in order.\<close>

lemma run_send_delivers:
  fixes w :: "'k outbound world" and urlsplit :: "'u url_splitter"
  assumes "world_healthy w" "proposal_rows w pid = Some (proposal_to_dict p)" "p_status p = PENDING"
    and "0 \<le> ob_clock (w_env w) 0" "ob_clock (w_env w) 0 < p_expires_at p"
    and "payload_rows w pid = Some c" "enforce_v1_send_policy c = Inr ()" "build_raw_message M c = Inr raw"
    and "token_record T (ob_tokens (w_env w)) = (Inr d, v)" "access_token_of d = Inr a"
    and "dget d (lit ''expires_at'') = PInt ex" "ob_clock (w_env w) 1 < ex - 60"
    and "admitted (gmail_client urlsplit :: ('u, 'k outbound) egress) gmail_send_url gmail_host"
    and "ob_replies (w_env w) = Inr (st, b) # rest" "200 \<le> st" "st < 300" "reply_readable (ts_loads T) b"
  shows "\<exists>t. run_send urlsplit T M sha pid w = (Inr (lit ''sent''), t) \<and> send_exit (Inr (lit ''sent'')) = 0 \<and>
    ob_wire (w_env t) = ob_wire (w_env w) @ [(mail_request a raw, Inr (st, b))] \<and>
    status_at (proposal_rows t) pid = Some SENT \<and> w_sent t = pid # w_sent w"
proof -
  let ?G = "gateway_sender urlsplit T M sha" and ?e = "snd (read_clock (w_env w))"
  let ?f = "snd (read_clock (put_tokens v ?e))"
  have a: "access_token (gs_tokens ?G) ?e = (Inr a, ?f)"
    using assms(9-12) by (simp add: access_token_def pbind_def lift_pm_def read_clock_def put_tokens_def plift_def)
  let ?g = "?f\<lparr>ob_wire := ob_wire ?f @ [(mail_request a raw, Inr (st, b))], ob_replies := rest\<rparr>"
  have "egress_post (gmail_client urlsplit) gmail_send_url (mail_headers a) (raw_json raw) ?f =
      (Inr \<lparr>hr_status = st, hr_body = b, hr_host = gmail_host\<rparr>, ?g)"
    using egress_post_admitted [OF assms(13), of "mail_headers a" "raw_json raw" ?f] assms(14)
    by (simp add: gmail_client_def egress_client_def wire_transport_def mail_request_def put_tokens_def)
  moreover obtain res where res: "send_classify ?G \<lparr>hr_status = st, hr_body = b, hr_host = gmail_host\<rparr> = Inr res" "sr_kind res = ACCEPTED"
    by (rule readable_accepted [of ?G b st gmail_host]) (use assms(15-17) in \<open>simp_all add: gateway_sender_def\<close>)
  ultimately have "post_mail ?G raw ?e = (Inr res, ?g)"
    using a by (simp add: post_mail_def ptry_def plift_def)
  from run_send_healthy [OF assms(1-8) this] obtain t where t: "run_send urlsplit T M sha pid w = (Inr (lit ''sent''), t)"
    "w_env t = ?g" "w_sent t = pid # w_sent w" "proposal_rows t = (proposal_rows w)(pid \<mapsto> proposal_to_dict (p\<lparr>p_status := SENT\<rparr>))"
    using res(2) by auto
  moreover have "ob_wire ?g = ob_wire (w_env w) @ [(mail_request a raw, Inr (st, b))]" by (simp add: put_tokens_def)
  ultimately show ?thesis by (auto simp: send_exit_def)
qed

subsection \<open>A concrete mail\<close>

text \<open>A message as its header lines and its text; a line break in a header raises.\<close>

definition line_email :: "bytes email" where
  "line_email = \<lparr>em_new = [],
     em_set = \<lambda>name v m. (case v of
         PStr s \<Rightarrow> if 10 \<in> set s \<or> 13 \<in> set s then Inl (Py ValueError) else Inr (m @ name @ [58] @ s @ [10])
       | _ \<Rightarrow> Inl (Py TypeError)),
     em_set_content = \<lambda>v m. (case v of PStr s \<Rightarrow> Inr (m @ [10] @ s) | _ \<Rightarrow> Inl (Py TypeError)), em_as_bytes = Inr\<rparr>"

definition mail_codec :: "unit token_store" where
  "mail_codec = \<lparr>ts_cipher = toy_cipher, ts_dumps = \<lambda>_. Inr [2],
     ts_loads = \<lambda>p. Inr (PDict (if p = [2] then token_blob new_fields
       else [(lit ''id'', PStr (lit ''m1'')), (lit ''threadId'', PStr (lit ''t1''))]))\<rparr>"

definition gmail_split :: "pystr \<Rightarrow> url_parts res" where
  "gmail_split u = Inr \<lparr>up_scheme = lit ''https'', up_username = None, up_password = None, up_hostname = Some gmail_host,
     up_port = Inr None\<rparr>"

definition mail_world :: "unit token_env \<Rightarrow> unit outbound world" where
  "mail_world v =
    \<lparr>w_proposals = (empty_sqlite [])\<lparr>sq_committed := [(lit ''p1'', proposal_to_dict sample_proposal)]\<rparr>,
     w_payloads = (empty_sqlite [])\<lparr>sq_committed := [(lit ''p1'', sample_canonical)]\<rparr>,
     w_audit = \<lparr>sq_committed = [], sq_pending = None, sq_broken = False, sq_faults = []\<rparr>, w_sent = [],
     w_env = \<lparr>ob_wire = [], ob_replies = [Inr (200, [3])], ob_clock = \<lambda>_. 12, ob_tokens = v\<rparr>\<rparr>"

lemma mail_world_facts:
  "world_healthy (mail_world v)" "clean (w_proposals (mail_world v))" "clean (w_payloads (mail_world v))"
  "clean (w_audit (mail_world v))" "proposal_rows (mail_world v) (lit ''p1'') = Some (proposal_to_dict sample_proposal)"
  "payload_rows (mail_world v) (lit ''p1'') = Some sample_canonical" "w_sent (mail_world v) = []"
  "w_env (mail_world v) = \<lparr>ob_wire = [], ob_replies = [Inr (200, [3])], ob_clock = \<lambda>_. 12, ob_tokens = v\<rparr>"
  by (simp_all add: mail_world_def world_healthy_def healthy_def clean_def empty_sqlite_def proposal_rows_def payload_rows_def)

lemma mail_world_faithful: "faithful (\<lambda>_. lit ''d'') (mail_world v)"
proof -
  have "jcs_ok (PDict sample_canonical)" by code_simp
  then obtain b where "canonicalize (PDict sample_canonical) = Inr b"
    using canonicalize_ok_iff by blast
  then have d: "digest (\<lambda>_. lit ''d'') (PDict sample_canonical) = Inr (lit ''d'')" by (simp add: digest_def)
  have "payload_rows (mail_world v) pid = Some sample_canonical \<and> p_payload_digest p = lit ''d''"
    if "proposal_rows (mail_world v) pid = Some (proposal_to_dict p)" for pid p
  proof -
    from that have "pid = lit ''p1''" "proposal_to_dict p = proposal_to_dict sample_proposal"
      by (auto simp: mail_world_def proposal_rows_def split: if_splits)
    then have "p = sample_proposal" by (metis from_dict_to_dict sum.inject(2))
    with \<open>pid = lit ''p1''\<close> show ?thesis by (simp add: mail_world_facts sample_proposal_def)
  qed
  with d show ?thesis unfolding faithful_def by metis
qed

lemma sample_mail:
  "enforce_v1_send_policy sample_canonical = Inr ()" "\<exists>raw. build_raw_message line_email sample_canonical = Inr raw"
proof -
  show "enforce_v1_send_policy sample_canonical = Inr ()" by code_simp
  have "(case build_raw_message line_email sample_canonical of Inr _ \<Rightarrow> True | Inl _ \<Rightarrow> False)" by code_simp
  then show "\<exists>raw. build_raw_message line_email sample_canonical = Inr raw" by (auto split: sum.splits)
qed

lemma mail_reply: "reply_readable (ts_loads mail_codec) [3]"
  by (simp add: reply_readable_def mail_codec_def dget_def lit_def encodable_def surrogate_def)

lemma mail_codec_filled:
  obtains v where "token_record mail_codec v = (Inr (token_blob new_fields), v)"
proof -
  have "vault_ready mail_codec toy_tokens" using toy_vault_ready(1) by (simp add: vault_ready_def toy_vault_def mail_codec_def)
  moreover have "codec_ok mail_codec (token_blob new_fields)" by (simp add: codec_ok_def mail_codec_def is_bytes_def)
  moreover have "tf_write_origin new_fields \<in> set write_origins" "py_eq (tf_issued_at new_fields) (tf_issued_at new_fields)"
    by (simp_all add: new_fields_def refreshed_fields_def write_origins_def)
  ultimately obtain v where "tokens_open mail_codec v = (Inr (token_blob new_fields), v)"
    using tokens_store_opens by blast
  then show thesis using that by (simp add: token_record_def)
qed

lemma gmail_split_admitted: "admitted (gmail_client gmail_split :: (unit, unit outbound) egress) gmail_send_url gmail_host"
  by (simp add: admitted_def gmail_client_def egress_client_def gmail_split_def gmail_host_def lower_ascii_def lit_def)

lemma new_fields_token: "access_token_of (token_blob new_fields) = Inr (lit ''new'')"
  "dget (token_blob new_fields) (lit ''expires_at'') = PInt 3700"
  by (simp_all add: access_token_of_def blob_dget new_fields_def refreshed_fields_def)

lemma sample_run_send:
  "\<exists>v t. run_send gmail_split mail_codec line_email id (lit ''p1'') (mail_world v) = (Inr (lit ''sent''), t)"
proof -
  obtain raw where raw: "build_raw_message line_email sample_canonical = Inr raw" using sample_mail(2) by blast
  obtain v where v: "token_record mail_codec v = (Inr (token_blob new_fields), v)" using mail_codec_filled .
  have "\<exists>t. run_send gmail_split mail_codec line_email id (lit ''p1'') (mail_world v) = (Inr (lit ''sent''), t) \<and>
     send_exit (Inr (lit ''sent'')) = 0 \<and>
     ob_wire (w_env t) = ob_wire (w_env (mail_world v)) @ [(mail_request (lit ''new'') raw, Inr (200, [3]))] \<and>
     status_at (proposal_rows t) (lit ''p1'') = Some SENT \<and> w_sent t = lit ''p1'' # w_sent (mail_world v)"
    by (rule run_send_delivers [of "mail_world v" _ sample_proposal sample_canonical line_email raw mail_codec "token_blob new_fields" v
          _ 3700 gmail_split 200 "[3]" "[]"])
      (use raw v sample_mail(1) new_fields_token gmail_split_admitted in \<open>simp_all add: mail_world_facts sample_proposal_def mail_reply\<close>)
  then show ?thesis by blast
qed

text \<open>No token was ever stored.\<close>

lemma no_token: "token_record mail_codec toy_tokens = (Inl (Key KeyUnavailableError), toy_tokens)"
proof -
  have "kv_get tokens_kv token_key toy_tokens = (Inr None, toy_tokens)"
    using tkdb.get_live [OF toy_tokens_ok(1)] by (simp add: toy_tokens_def token_rows_def empty_sqlite_def)
  then show ?thesis by (simp add: token_record_def tokens_open_def pm_simps)
qed

subsection \<open>Properties\<close>



text \<open>
  C18. Exit code 0 means sent.  Whatever fails, when the send command exits with 0 the sender was called for the proposal, the
  last exchange with Gmail is a mail that renders its frozen payload, and Gmail answered it with 2xx.
\<close>

theorem send_exit_zero:
  assumes "clean (w_payloads w)" "run_send urlsplit T M sha pid w = (r, t)" "send_exit r = 0"
  shows "w_sent t = pid # w_sent w \<and>
    (\<exists>c raw token st b. payload_rows w pid = Some c \<and> enforce_v1_send_policy c = Inr () \<and> build_raw_message M c = Inr raw \<and>
       mails (ob_wire (w_env t)) = mails (ob_wire (w_env w)) @ [(mail_request token raw, Inr (st, b))] \<and> 200 \<le> st \<and> st < 300)"
proof -
  let ?send = "gmail_send (gateway_sender urlsplit T M sha)"
  from assms(3) have r: "r = Inr (lit ''sent'')"
    by (auto simp: send_exit_def split: sum.splits if_splits exn.splits store_exn.splits fsm_exn.splits)
  from assms(2) [unfolded run_send_def r] obtain now u v st q pl e where c: "outside_clock w = (Inr now, u)"
    "outside v = outside u" "?send pid (w_payloads v, w_env v) = (q, pl, e)" "w_env t = e" "w_payloads t = pl"
    "w_sent t = pid # w_sent u" "lit ''sent'' = status_value (outcome_status q)"
    by (rule confirm_dispatch_sender)
  from c(1) have u: "w_payloads u = w_payloads w" "w_sent u = w_sent w" "ob_wire (w_env u) = ob_wire (w_env w)"
    by (auto simp: outside_clock_step)
  have "outcome_status q = SENT" using c(7) by (cases "outcome_status q") simp_all
  then obtain res where q: "q = Inr res" "sr_kind res = ACCEPTED"
    by (cases q) (auto split: send_result_kind.splits)
  have "clean (w_payloads v)" using assms(1) c(2) u by (simp add: outside_eq)
  from gmail_send_step [OF this c(3)] q obtain k raw token reply where
    m: "map_of (sq_committed (w_payloads v)) pid = Some k" "enforce_v1_send_policy k = Inr ()" "build_raw_message M k = Inr raw"
    "mails (ob_wire e) = mails (ob_wire (w_env v)) @ [(mail_request token raw, reply)]"
    "Inr res = mail_outcome (gateway_sender urlsplit T M sha) reply" by auto
  from mail_outcome_kind [OF m(5) [symmetric]] q(2) obtain st b where "reply = Inr (st, b)" "200 \<le> st" "st < 300" by blast
  with m c u show ?thesis by (auto simp: outside_eq payload_rows_def)
qed

theorem send_exit_zero_witness:
  "\<exists>v t raw token st b. run_send gmail_split mail_codec line_email id (lit ''p1'') (mail_world v) = (Inr (lit ''sent''), t) \<and>
     build_raw_message line_email sample_canonical = Inr raw \<and>
     mails (ob_wire (w_env t)) = [(mail_request token raw, Inr (st, b))] \<and> w_sent t = [lit ''p1'']"
proof -
  obtain v t where t: "run_send gmail_split mail_codec line_email id (lit ''p1'') (mail_world v) = (Inr (lit ''sent''), t)"
    using sample_run_send by blast
  have "send_exit (Inr (lit ''sent'')) = 0" by (simp add: send_exit_def)
  from send_exit_zero [OF mail_world_facts(3) t this] t show ?thesis
    by (simp add: mail_world_facts mails_def) blast
qed

text \<open>
  A missing token or a locked keychain is recorded as an unknown outcome.  When reading the token raises anything but
  an OAuth error the sender raises, the machine takes the exception for a fault of its wiring and settles the proposal
  as OUTCOME_UNKNOWN: nothing has left the machine, yet the proposal is settled for good and the exit code is 7.
\<close>

theorem keychain_outage_unknown:
  assumes "world_healthy w" "proposal_rows w pid = Some (proposal_to_dict p)" "p_status p = PENDING"
    and "0 \<le> ob_clock (w_env w) 0" "ob_clock (w_env w) 0 < p_expires_at p"
    and "payload_rows w pid = Some c" "enforce_v1_send_policy c = Inr ()" "build_raw_message M c = Inr raw"
    and "token_record T (ob_tokens (w_env w)) = (Inl e, v)" "\<not> is_oauth_error e"
  shows "\<exists>t. run_send urlsplit T M sha pid w = (Inr (lit ''outcome_unknown''), t) \<and>
    send_exit (Inr (lit ''outcome_unknown'')) = 7 \<and> ob_wire (w_env t) = ob_wire (w_env w) \<and>
    status_at (proposal_rows t) pid = Some OUTCOME_UNKNOWN \<and> w_sent t = pid # w_sent w"
proof -
  let ?e = "snd (read_clock (w_env w))"
  have "access_token (gs_tokens (gateway_sender urlsplit T M sha)) ?e = (Inl e, put_tokens v ?e)"
    using assms(9) by (simp add: access_token_def pbind_def lift_pm_def)
  then have "post_mail (gateway_sender urlsplit T M sha) raw ?e = (Inl e, put_tokens v ?e)"
    using assms(10) by (simp add: post_mail_def ptry_def)
  from run_send_healthy [OF assms(1-8) this] obtain t where
    t: "run_send urlsplit T M sha pid w = (Inr (status_value (outcome_status (Inl e))), t)" "w_env t = put_tokens v ?e"
    "w_sent t = pid # w_sent w" "proposal_rows t = (proposal_rows w)(pid \<mapsto> proposal_to_dict (p\<lparr>p_status := OUTCOME_UNKNOWN\<rparr>))"
    by auto
  moreover have "ob_wire (put_tokens v ?e) = ob_wire (w_env w)" by (simp add: put_tokens_def)
  ultimately show ?thesis by (auto simp: send_exit_def)
qed

theorem keychain_outage_unknown_witness:
  "\<exists>t. run_send gmail_split mail_codec line_email id (lit ''p1'') (mail_world toy_tokens) = (Inr (lit ''outcome_unknown''), t) \<and>
     ob_wire (w_env t) = [] \<and> status_at (proposal_rows t) (lit ''p1'') = Some OUTCOME_UNKNOWN"
proof -
  obtain raw where raw: "build_raw_message line_email sample_canonical = Inr raw" using sample_mail(2) by blast
  have "\<exists>t. run_send gmail_split mail_codec line_email id (lit ''p1'') (mail_world toy_tokens) = (Inr (lit ''outcome_unknown''), t) \<and>
    send_exit (Inr (lit ''outcome_unknown'')) = 7 \<and> ob_wire (w_env t) = ob_wire (w_env (mail_world toy_tokens)) \<and>
    status_at (proposal_rows t) (lit ''p1'') = Some OUTCOME_UNKNOWN \<and> w_sent t = lit ''p1'' # w_sent (mail_world toy_tokens)"
    by (rule keychain_outage_unknown [of "mail_world toy_tokens" _ sample_proposal sample_canonical line_email raw mail_codec
          "Key KeyUnavailableError" toy_tokens gmail_split id])
      (use raw sample_mail(1) no_token in \<open>simp_all add: mail_world_facts sample_proposal_def is_oauth_error_def\<close>)
  then show ?thesis by (auto simp: mail_world_facts)
qed

text \<open>
  With everything in order the command sends.  A pending proposal that has not expired, a frozen payload that renders, a sealed
  token with more than the skew left and a 2xx of Gmail that the sender can read: the exit code is 0, the mail is the only thing on the wire, and the
  proposal is SENT.
\<close>

theorem send_delivers:
  fixes w :: "'k outbound world" and urlsplit :: "'u url_splitter"
  assumes "world_healthy w" "proposal_rows w pid = Some (proposal_to_dict p)" "p_status p = PENDING"
    and "0 \<le> ob_clock (w_env w) 0" "ob_clock (w_env w) 0 < p_expires_at p"
    and "payload_rows w pid = Some c" "enforce_v1_send_policy c = Inr ()" "build_raw_message M c = Inr raw"
    and "token_record T (ob_tokens (w_env w)) = (Inr d, v)" "access_token_of d = Inr a"
    and "dget d (lit ''expires_at'') = PInt ex" "ob_clock (w_env w) 1 < ex - 60"
    and "admitted (gmail_client urlsplit :: ('u, 'k outbound) egress) gmail_send_url gmail_host"
    and "ob_replies (w_env w) = Inr (st, b) # rest" "200 \<le> st" "st < 300" "reply_readable (ts_loads T) b"
  shows "\<exists>t. run_send urlsplit T M sha pid w = (Inr (lit ''sent''), t) \<and> send_exit (Inr (lit ''sent'')) = 0 \<and>
    ob_wire (w_env t) = ob_wire (w_env w) @ [(mail_request a raw, Inr (st, b))] \<and>
    status_at (proposal_rows t) pid = Some SENT \<and> w_sent t = pid # w_sent w"
  using assms by (rule run_send_delivers)

theorem send_delivers_witness:
  "\<exists>v t raw. run_send gmail_split mail_codec line_email id (lit ''p1'') (mail_world v) = (Inr (lit ''sent''), t) \<and>
     build_raw_message line_email sample_canonical = Inr raw \<and>
     ob_wire (w_env t) = [(mail_request (lit ''new'') raw, Inr (200, [3]))] \<and>
     status_at (proposal_rows t) (lit ''p1'') = Some SENT"
proof -
  obtain raw where raw: "build_raw_message line_email sample_canonical = Inr raw" using sample_mail(2) by blast
  obtain v where v: "token_record mail_codec v = (Inr (token_blob new_fields), v)" using mail_codec_filled .
  have "\<exists>t. run_send gmail_split mail_codec line_email id (lit ''p1'') (mail_world v) = (Inr (lit ''sent''), t) \<and>
     send_exit (Inr (lit ''sent'')) = 0 \<and>
     ob_wire (w_env t) = ob_wire (w_env (mail_world v)) @ [(mail_request (lit ''new'') raw, Inr (200, [3]))] \<and>
     status_at (proposal_rows t) (lit ''p1'') = Some SENT \<and> w_sent t = lit ''p1'' # w_sent (mail_world v)"
    by (rule send_delivers [of "mail_world v" _ sample_proposal sample_canonical line_email raw mail_codec "token_blob new_fields" v
          _ 3700 gmail_split 200 "[3]" "[]"])
      (use raw v sample_mail(1) new_fields_token gmail_split_admitted in \<open>simp_all add: mail_world_facts sample_proposal_def mail_reply\<close>)
  with raw show ?thesis by (auto simp: mail_world_facts)
qed

end
