(* ===== verification/Json_Text.thy ===== *)
theory Json_Text
  imports Jcs
begin

text \<open>
  What \<open>json.dumps\<close> writes and \<open>json.loads\<close> reads back, for the flat objects the program itself prints: members whose key
  is printable ASCII without a quote or a backslash, and whose value is such a text or a safe integer.  \<open>json_inverts\<close> is
  the documented law between the two functions, over all such objects; \<open>flat_loads\<close> is a parser that has it.
\<close>

definition plain_text :: "pystr \<Rightarrow> bool" where
  "plain_text s \<longleftrightarrow> list_all (\<lambda>c. 32 \<le> c \<and> c < 127 \<and> c \<noteq> 34 \<and> c \<noteq> 92) s"

definition plain_leaf :: "pyval \<Rightarrow> bool" where
  "plain_leaf v \<longleftrightarrow> (case v of PStr s \<Rightarrow> plain_text s | PInt n \<Rightarrow> \<bar>n\<bar> \<le> max_safe_integer | _ \<Rightarrow> False)"

definition plain_object :: "dict \<Rightarrow> bool" where
  "plain_object d \<longleftrightarrow> d \<noteq> [] \<and> distinct (map fst d) \<and> list_all (\<lambda>(k, v). plain_text k \<and> plain_leaf v) d"

subsection \<open>Printing\<close>

definition json_string :: "pystr \<Rightarrow> pystr" where
  "json_string s = 34 # s @ [34]"

definition json_leaf :: "pyval \<Rightarrow> pystr" where
  "json_leaf v = (case v of PStr s \<Rightarrow> json_string s | PInt n \<Rightarrow> dec_int n | _ \<Rightarrow> [])"

definition json_member :: "pystr \<times> pyval \<Rightarrow> pystr" where
  "json_member m = json_string (fst m) @ lit '': '' @ json_leaf (snd m)"

fun json_members :: "dict \<Rightarrow> pystr" where
  "json_members [] = []"
| "json_members (m # ms) = json_member m @ (if ms = [] then [] else lit '', '' @ json_members ms)"

definition json_object :: "dict \<Rightarrow> pystr" where
  "json_object d = 123 # json_members d @ [125]"

definition json_inverts :: "(pystr \<Rightarrow> pyval res) \<Rightarrow> bool" where
  "json_inverts loads \<longleftrightarrow> (\<forall>d. plain_object d \<longrightarrow> loads (json_object d) = Inr (PDict d))"

subsection \<open>A parser\<close>

definition read_text :: "pystr \<Rightarrow> (pystr \<times> pystr) option" where
  "read_text s = (case s of
     q # r \<Rightarrow> if q = 34 \<and> 34 \<in> set r then Some (takeWhile (\<lambda>c. c \<noteq> 34) r, tl (dropWhile (\<lambda>c. c \<noteq> 34) r)) else None
   | [] \<Rightarrow> None)"

definition read_number :: "pystr \<Rightarrow> int \<times> pystr" where
  "read_number s = (case s of
     m # r \<Rightarrow> if m = 45 then (- int (digits_value (takeWhile is_digit r)), dropWhile is_digit r)
       else (int (digits_value (takeWhile is_digit s)), dropWhile is_digit s)
   | [] \<Rightarrow> (0, []))"

definition read_leaf :: "pystr \<Rightarrow> (pyval \<times> pystr) option" where
  "read_leaf s = (case read_text s of Some (t, r) \<Rightarrow> Some (PStr t, r) | None \<Rightarrow> (case read_number s of (n, r) \<Rightarrow> Some (PInt n, r)))"

definition read_member :: "pystr \<Rightarrow> ((pystr \<times> pyval) \<times> pystr) option" where
  "read_member s = (case read_text s of None \<Rightarrow> None
   | Some (k, r) \<Rightarrow> if take 2 r = lit '': '' then map_option (\<lambda>(v, t). ((k, v), t)) (read_leaf (drop 2 r)) else None)"

primrec read_members :: "nat \<Rightarrow> pystr \<Rightarrow> (dict \<times> pystr) option" where
  "read_members 0 s = None"
| "read_members (Suc n) s = (case read_member s of None \<Rightarrow> None
   | Some (m, r) \<Rightarrow> if take 2 r = lit '', '' then map_option (\<lambda>(ms, t). (m # ms, t)) (read_members n (drop 2 r)) else Some ([m], r))"

definition flat_loads :: "pystr \<Rightarrow> pyval res" where
  "flat_loads s = (case s of [] \<Rightarrow> Inl (Py ValueError)
   | c # r \<Rightarrow> (case read_members (length r) r of
       Some (d, [e]) \<Rightarrow> if c = 123 \<and> e = 125 then Inr (PDict d) else Inl (Py ValueError)
     | _ \<Rightarrow> Inl (Py ValueError)))"

lemma read_string: "plain_text s \<Longrightarrow> read_text (json_string s @ r) = Some (s, r)"
  by (auto simp: plain_text_def read_text_def json_string_def list_all_iff takeWhile_append dropWhile_append)

lemma read_digits:
  assumes "delimited r"
  shows "takeWhile is_digit (dec_nat n @ r) = dec_nat n" "dropWhile is_digit (dec_nat n @ r) = r"
  using takeWhile_digits [OF dec_nat_digits assms, of n] takeWhile_dropWhile_id [of is_digit "dec_nat n @ r"] by simp_all

lemma dec_nat_head: "hd (dec_nat n @ r) \<noteq> 45" "hd (dec_nat n @ r) \<noteq> 34"
  using dec_nat_digits [of n] by (cases "dec_nat n"; force simp: is_digit_def)+

lemma read_dec_int:
  assumes "delimited r"
  shows "read_number (dec_int n @ r) = (n, r)"
proof (cases "n < 0")
  case True
  then show ?thesis by (simp add: read_number_def dec_int_def read_digits [OF assms])
next
  case False
  obtain c s where c: "dec_nat (nat n) @ r = c # s" by (cases "dec_nat (nat n) @ r") simp_all
  with dec_nat_head(1) [of "nat n" r] have "c \<noteq> 45" by simp
  with False show ?thesis using read_digits [OF assms, of "nat n"] by (simp add: read_number_def dec_int_def c)
qed

lemma no_text: "read_text (dec_int n @ r) = None"
proof -
  obtain c s where c: "dec_int n @ r = c # s" by (cases "dec_int n @ r") (simp_all add: dec_int_def split: if_splits)
  have "c \<noteq> 34"
  proof (cases "n < 0")
    case False
    with c have "hd (dec_nat (nat n) @ r) = c" by (simp add: dec_int_def)
    with dec_nat_head(2) [of "nat n" r] show ?thesis by simp
  qed (use c in \<open>auto simp: dec_int_def\<close>)
  then show ?thesis by (simp add: read_text_def c)
qed

lemma read_json_leaf: "plain_leaf v \<Longrightarrow> delimited r \<Longrightarrow> read_leaf (json_leaf v @ r) = Some (v, r)"
  by (cases v) (simp_all add: plain_leaf_def json_leaf_def read_leaf_def read_string no_text read_dec_int)

lemma read_json_member:
  "plain_text (fst m) \<Longrightarrow> plain_leaf (snd m) \<Longrightarrow> delimited r \<Longrightarrow> read_member (json_member m @ r) = Some (m, r)"
  by (simp add: read_member_def json_member_def read_string read_json_leaf lit_def)

lemma read_json_members:
  assumes "ms \<noteq> []" "list_all (\<lambda>(k, v). plain_text k \<and> plain_leaf v) ms" "length ms \<le> n" "take 2 r \<noteq> lit '', ''" "delimited r"
  shows "read_members n (json_members ms @ r) = Some (ms, r)"
  using assms
proof (induction ms arbitrary: n)
  case (Cons m ms)
  then obtain k where n: "n = Suc k" "length ms \<le> k" by (cases n) auto
  show ?case
  proof (cases "ms = []")
    case True
    with Cons.prems n show ?thesis by (simp add: read_json_member case_prod_beta)
  next
    case False
    have d: "delimited (lit '', '' @ x)" for x by (simp add: delimited_def lit_def is_digit_def)
    have "read_members k (json_members ms @ r) = Some (ms, r)"
      using Cons.IH [OF False _ n(2)] Cons.prems by simp
    with False Cons.prems n d [of "json_members ms @ r"] show ?thesis
      by (simp add: read_json_member case_prod_beta lit_def)
  qed
qed simp

lemma members_length: "length ms \<le> length (json_members ms)"
  by (induction ms) (auto simp: json_member_def json_string_def)

lemma flat_loads_inverts: "json_inverts flat_loads"
proof -
  have "flat_loads (json_object d) = Inr (PDict d)" if "plain_object d" for d
  proof -
    have "read_members (length (json_members d @ [125])) (json_members d @ [125]) = Some (d, [125])"
      by (rule read_json_members) (use that members_length [of d] in \<open>simp_all add: plain_object_def lit_def delimited_def is_digit_def\<close>)
    then show ?thesis by (simp add: flat_loads_def json_object_def)
  qed
  then show ?thesis by (simp add: json_inverts_def)
qed

end
