(* ===== verification/Entry_Points.thy ===== *)
theory Entry_Points
  imports Authorize Supervisor Gmail_Sender Json_Text
begin

text \<open>
  The processes an operator or the supervisor runs: \<open>gateway/entrypoint.py\<close> (the summoned gateway),
  \<open>gateway/seed_proposal.py\<close>, the dispatch of \<open>gateway/__main__.py\<close>, \<open>gateway/message_id.py\<close>, the click and the
  command of \<open>gateway/local_connect.py\<close>, and \<open>authz/sanitize.py\<close>.  The arguments come
  parsed (\<open>argparse\<close>); \<open>time.time\<close>, \<open>uuid4\<close> and \<open>make_msgid\<close> are methods of the environment.
\<close>

record 'e stdlib =
  en_time :: "('e, int) pm"
  en_uuid_hex :: "('e, pystr) pm"
  en_make_msgid :: "pystr \<Rightarrow> ('e, pystr) pm"

subsection \<open>The summoned gateway\<close>

definition generate_message_id :: "'e stdlib \<Rightarrow> pystr \<Rightarrow> ('e, pystr) pm" where
  "generate_message_id E domain = (if domain = [] then praise (Py ValueError) else en_make_msgid E domain)"

definition message_id_factory :: "'e stdlib \<Rightarrow> pystr option \<Rightarrow> ('e, pyval) pm option" where
  "message_id_factory E domain = (case domain of
     None \<Rightarrow> None
   | Some d \<Rightarrow> if d = [] then None else Some (pbind (generate_message_id E d) (\<lambda>m. preturn (PStr m))))"

definition build_server ::
  "'e stdlib \<Rightarrow> pystr \<Rightarrow> int \<Rightarrow> pystr option \<Rightarrow> (pystr \<Rightarrow> pystr res) \<Rightarrow> (bytes \<Rightarrow> pyval res) \<Rightarrow> 'e world server" where
  "build_server E bearer ttl domain urlsplit loads =
     \<lparr>srv_service = gateway_service (en_time E) ttl (en_uuid_hex E) (message_id_factory E domain) True,
      srv_bearer = bearer, srv_confirm = None, srv_split = urlsplit, srv_loads = loads\<rparr>"

text \<open>The ready line, as \<open>json.dumps\<close> writes it.\<close>

definition ready_text :: "int \<Rightarrow> pystr" where
  "ready_text port = json_object [(lit ''status'', PStr (lit ''ready'')), (lit ''port'', PInt port)] @ [10]"

text \<open>
  \<open>serve_forever\<close> until the shutdown: an exception of a handler ends its request without a response.  The requests are
  served one after the other here; the server gives each a thread, which is the subject of \<open>Concurrent_Server\<close>.
\<close>

fun serve_forever ::
  "(bytes \<Rightarrow> pystr) \<Rightarrow> 's server \<Rightarrow> request list \<Rightarrow> 's \<Rightarrow> response option list \<times> 's" where
  "serve_forever H V [] w = ([], w)"
| "serve_forever H V (rq # rqs) w = (case handle H V rq w of (r, t) \<Rightarrow>
     case serve_forever H V rqs t of (rs, u) \<Rightarrow> ((case r of Inl e \<Rightarrow> None | Inr a \<Rightarrow> Some a) # rs, u))"

record entry_args =
  ea_ttl_seconds :: int
  ea_message_id_domain :: "pystr option"

text \<open>The exit code, what goes to standard output, and the responses.\<close>

definition entrypoint_main ::
  "(bytes \<Rightarrow> pystr) \<Rightarrow> 'e stdlib \<Rightarrow> (pystr \<Rightarrow> pystr res) \<Rightarrow> (bytes \<Rightarrow> pyval res) \<Rightarrow> entry_args \<Rightarrow> pystr option \<Rightarrow> int \<Rightarrow>
   request list \<Rightarrow> 'e world \<Rightarrow> (int \<times> pystr \<times> response option list) \<times> 'e world" where
  "entrypoint_main H E urlsplit loads A bearer port rqs w =
     (if bearer = None \<or> bearer = Some [] then ((2, [], []), w)
      else case serve_forever H
          (build_server E (the bearer) (ea_ttl_seconds A) (ea_message_id_domain A) urlsplit loads) rqs w of
        (rs, t) \<Rightarrow> ((0, ready_text port, rs), t))"

subsection \<open>Seeding a proposal\<close>

record seed_args =
  sa_account_handle :: pystr
  sa_to :: "pystr list"
  sa_subject :: pystr
  sa_body :: pystr
  sa_cc :: "pystr list"
  sa_bcc :: "pystr list"
  sa_ttl_seconds :: int

definition params_from_args :: "seed_args \<Rightarrow> dict" where
  "params_from_args A =
     [(lit ''account_handle'', PStr (sa_account_handle A)), (lit ''to'', PList (List.map PStr (sa_to A))),
      (lit ''subject'', PStr (sa_subject A)),
      (lit ''body'', PDict [(lit ''format'', PStr (lit ''text'')), (lit ''content'', PStr (sa_body A))])] @
     (if sa_cc A = [] then [] else [(lit ''cc'', PList (List.map PStr (sa_cc A)))]) @
     (if sa_bcc A = [] then [] else [(lit ''bcc'', PList (List.map PStr (sa_bcc A)))])"

definition run_seed :: "(bytes \<Rightarrow> pystr) \<Rightarrow> 'e stdlib \<Rightarrow> dict \<Rightarrow> int \<Rightarrow> ('e world, dict) pm" where
  "run_seed H E params ttl = propose H (gateway_service (en_time E) ttl (en_uuid_hex E) None False) params"

text \<open>The exit code, and the identifiers printed on success.\<close>

definition seed_exit :: "exn \<Rightarrow> int" where
  "seed_exit e = (if e = Canon AttachmentsNotSupportedError \<or> is_payload_schema_error e \<or> is_value_error e then 2 else 1)"

definition seed_main :: "(bytes \<Rightarrow> pystr) \<Rightarrow> 'e stdlib \<Rightarrow> seed_args \<Rightarrow> ('e world, int \<times> dict option) pm" where
  "seed_main H E A =
     ptry (run_seed H E (params_from_args A) (sa_ttl_seconds A))
       (\<lambda>e. case e of Py (SystemExit n) \<Rightarrow> praise e | _ \<Rightarrow> preturn (seed_exit e, None))
       (\<lambda>result. preturn (0, Some result))"

subsection \<open>The operator's command\<close>

definition gateway_main ::
  "(pystr list \<Rightarrow> ('s, int) pm) \<Rightarrow> (pystr list \<Rightarrow> ('s, int) pm) \<Rightarrow> pystr list \<Rightarrow> ('s, int) pm" where
  "gateway_main authorize send argv = (case argv of
     [] \<Rightarrow> preturn 2
   | verb # rest \<Rightarrow>
       if verb = lit ''authorize'' then authorize rest else if verb = lit ''send'' then send rest else preturn 2)"

text \<open>\<open>main\<close> of \<open>gateway/send_cli.py\<close>, and the two verbs on one data root, each with its parsed arguments.\<close>

definition send_main ::
  "'u url_splitter \<Rightarrow> 'k token_store \<Rightarrow> 'm email \<Rightarrow> (bytes \<Rightarrow> pystr) \<Rightarrow> pystr \<Rightarrow> ('k outbound world, int) pm" where
  "send_main urlsplit T M sha pid w = (case run_send urlsplit T M sha pid w of (r, t) \<Rightarrow> (Inr (send_exit r), t))"

definition operator_command ::
  "(bytes \<Rightarrow> pystr) \<Rightarrow> (bytes \<Rightarrow> pyval res) \<Rightarrow> 'k authorizer \<Rightarrow> 'k outbound client_source \<Rightarrow> 'u url_splitter \<Rightarrow> 'm email \<Rightarrow>
   pystr \<Rightarrow> pystr list \<Rightarrow> ('k outbound world, int) pm" where
  "operator_command sha loads A source urlsplit M pid =
     gateway_main (\<lambda>_. env_pm (authorize_main sha loads A source)) (\<lambda>_. send_main urlsplit (au_store A) M sha pid)"

subsection \<open>The window\<close>

text \<open>\<open>_on_click\<close>: the status line it leaves.  The button is enabled again whatever happens.\<close>

definition click_status :: "exn + 'a option \<Rightarrow> pystr res" where
  "click_status r = (case r of
     Inr None \<Rightarrow> Inr (lit ''Cancelled - no browser opened, nothing sealed.'')
   | Inr (Some summary) \<Rightarrow> Inr (lit ''Connected. Token sealed locally.'')
   | Inl e \<Rightarrow>
       if e = Gw BundleError then Inr (lit ''Failed: the bundled client did not verify.'')
       else if is_oauth_error e then Inr (lit ''Failed during Google consent.'')
       else case e of Py (SystemExit n) \<Rightarrow> Inl e | _ \<Rightarrow> Inr (lit ''Failed.''))"

definition on_click ::
  "(bytes \<Rightarrow> pystr) \<Rightarrow> (bytes \<Rightarrow> pyval res) \<Rightarrow> (pystr \<Rightarrow> ('k outbound, bytes) pm) \<Rightarrow> 'k authorizer \<Rightarrow> local_config \<Rightarrow>
   ('k outbound, bool) pm \<Rightarrow> ('k outbound, pystr) pm" where
  "on_click sha loads read_file A config confirm s =
     (case button sha loads read_file A config confirm s of (r, t) \<Rightarrow> (click_status r, t))"

text \<open>The command, for the window that runs on the configuration.\<close>

definition local_connect_main ::
  "(pystr \<Rightarrow> pystr) \<Rightarrow> ('s, pyval) pm \<Rightarrow> (local_config \<Rightarrow> ('s, unit) pm) \<Rightarrow> ('s, int) pm" where
  "local_connect_main client_path load run_gui =
     ptry (load_local_config client_path load)
       (\<lambda>e. if e = Gw LocalConnectConfigError then preturn 2 else praise e)
       (\<lambda>config. pbind (run_gui config) (\<lambda>_. preturn 0))"

subsection \<open>Sanitized errors\<close>

text \<open>\<open>_SAFE_CODE.match\<close>: a letter and at most 39 letters, digits or underscores, all lower case ASCII.\<close>

definition safe_code :: "pystr \<Rightarrow> bool" where
  "safe_code code = (case code of
     [] \<Rightarrow> False
   | c # rest \<Rightarrow> 97 \<le> c \<and> c \<le> 122 \<and> length rest \<le> 39 \<and>
       list_all (\<lambda>d. 97 \<le> d \<and> d \<le> 122 \<or> is_digit d \<or> d = 95) rest)"

definition sanitize_error :: "pystr \<Rightarrow> pystr option \<Rightarrow> pystr" where
  "sanitize_error type_name code = (case code of
     Some c \<Rightarrow> if safe_code c then type_name @ lit '':'' @ c else type_name
   | None \<Rightarrow> type_name)"

text \<open>Whatever the code is, what follows the type name is short and has no room for a token.\<close>

lemma sanitize_confined:
  "\<exists>x. sanitize_error type_name code = type_name @ x \<and> length x \<le> 41 \<and>
     (\<forall>c \<in> set x. 97 \<le> c \<and> c \<le> 122 \<or> is_digit c \<or> c = 95 \<or> c = 58)"
  by (auto simp: sanitize_error_def safe_code_def list_all_iff lit_def split: option.splits list.splits)

subsection \<open>What the summoned gateway cannot do\<close>

lemma world_frames [keeps_intro]:
  "keeps w_sent (kv_get payloads_db k)" "keeps w_sent (kv_put payloads_db k v)" "keeps w_sent (kv_delete payloads_db k)"
  "keeps w_sent (kv_claim proposals_db k v)" "keeps w_sent (kv_delete proposals_db k)"
  "keeps w_audit (kv_get payloads_db k)" "keeps w_audit (kv_put payloads_db k v)" "keeps w_audit (kv_delete payloads_db k)"
  "keeps w_audit (kv_get proposals_db k)" "keeps w_audit (kv_put proposals_db k v)"
  "keeps w_audit (kv_claim proposals_db k v)" "keeps w_audit (kv_delete proposals_db k)"
  "keeps w_payloads (kv_get proposals_db k)" "keeps w_payloads (kv_put proposals_db k v)"
  "keeps w_payloads (kv_claim proposals_db k v)" "keeps w_payloads (kv_delete proposals_db k)" "keeps w_payloads (env_pm m)"
  "keeps w_sent (env_pm m)" "keeps w_audit (env_pm m)" "keeps w_sent (kv_get proposals_db k)" "keeps w_sent (kv_put proposals_db k v)"
  by (auto simp: keeps_def payloads_db_def proposals_db_def env_pm_def lift_pm_iff put_payloads_def put_proposals_def split: prod.splits)

text \<open>A method over the proposals, the payloads and the environment keeps whatever these keep.\<close>

lemma create_keeps [keeps_intro]:
  "(\<And>k. keeps f (kv_get B k)) \<Longrightarrow> (\<And>k v. keeps f (kv_put B k v)) \<Longrightarrow> (\<And>k v. keeps f (kv_claim B k v)) \<Longrightarrow>
   (\<And>k. keeps f (kv_delete B k)) \<Longrightarrow> keeps f (ps_create B p)"
  by (auto simp: ps_create_def ps_claim_def intro!: keeps_intro split: option.splits)

lemma find_keeps [keeps_intro]: "(\<And>k. keeps f (kv_get B k)) \<Longrightarrow> keeps f (ps_find_by_idempotency B key)"
  by (auto simp: ps_find_by_idempotency_def ps_get_def intro!: keeps_intro split: option.splits)

lemma prepare_keeps [keeps_intro]: "keeps f idf \<Longrightarrow> keeps f (prepare_email H params now ttl idf m)"
  by (auto simp: prepare_email_def intro!: keeps_intro)

lemma freeze_keeps [keeps_intro]:
  assumes "\<And>k. keeps f (kv_get (svc_proposals S) k)" "\<And>k v. keeps f (kv_put (svc_proposals S) k v)"
    and "\<And>k v. keeps f (kv_claim (svc_proposals S) k v)" "\<And>k. keeps f (kv_delete (svc_proposals S) k)"
    and "\<And>k v. keeps f (kv_put (svc_payloads S) k v)" "\<And>k. keeps f (kv_delete (svc_payloads S) k)"
  shows "keeps f (svc_freeze H S key now result canonical)"
  unfolding svc_freeze_def by (auto intro!: keeps_intro assms split: option.splits)

lemma propose_keeps [keeps_intro]:
  assumes "\<And>k. keeps f (kv_get (svc_proposals S) k)" "\<And>k v. keeps f (kv_put (svc_proposals S) k v)"
    and "\<And>k v. keeps f (kv_claim (svc_proposals S) k v)" "\<And>k. keeps f (kv_delete (svc_proposals S) k)"
    and "\<And>k v. keeps f (kv_put (svc_payloads S) k v)" "\<And>k. keeps f (kv_delete (svc_payloads S) k)"
    and "keeps f (svc_now S)" "keeps f (svc_id_factory S)" "\<And>m. svc_message_id_factory S = Some m \<Longrightarrow> keeps f m"
  shows "keeps f (propose H S params)"
  unfolding propose_def svc_new_def by (auto intro!: keeps_intro assms split: option.splits)

lemma server_keeps:
  assumes "\<And>params. keeps f (propose H (srv_service V) params)" "\<And>pid. keeps f (get_status (srv_service V) pid)" "srv_confirm V = None"
  shows "keeps f (handle H V rq)"
proof -
  have "keeps f (handle_propose H V body)" for body
    unfolding handle_propose_def by (auto intro!: keeps_intro assms(1) split: option.splits list.splits sum.splits pyval.splits)
  moreover have "keeps f (handle_status V pid)" for pid
    unfolding handle_status_def by (auto intro!: keeps_intro assms(2) split: exn.splits store_exn.splits)
  ultimately show ?thesis using assms(3)
    by (auto simp: handle_def do_POST_def do_GET_def Let_def intro!: keeps_intro split: option.splits)
qed

lemma summoned_frame:
  "keeps w_sent (handle H (build_server E b ttl domain split loads) rq)"
  "keeps w_audit (handle H (build_server E b ttl domain split loads) rq)"
proof -
  let ?S = "gateway_service (en_time E) ttl (en_uuid_hex E) (message_id_factory E domain) True"
  have S: "srv_service (build_server E b ttl domain split loads) = ?S" "srv_confirm (build_server E b ttl domain split loads) = None"
    by (simp_all add: build_server_def)
  have "keeps w_sent (get_status ?S pid)" "keeps w_audit (get_status ?S pid)" for pid
    by (auto simp: get_status_def ps_get_def intro!: keeps_intro split: option.splits)
  moreover have "keeps w_sent (propose H ?S params)" "keeps w_audit (propose H ?S params)" for params
    by (rule propose_keeps; auto intro!: keeps_intro)+
  ultimately show "keeps w_sent (handle H (build_server E b ttl domain split loads) rq)"
    "keeps w_audit (handle H (build_server E b ttl domain split loads) rq)"
    by (auto intro!: server_keeps simp: S)
qed

text \<open>Every frozen payload carries a Message-ID.\<close>

definition identified :: "'e world \<Rightarrow> bool" where
  "identified w \<longleftrightarrow> clean (w_payloads w) \<and>
     (\<forall>pid c. payload_rows w pid = Some c \<longrightarrow> truthy (dget c (lit ''message_id'')))"

lemma identified_payloads: "w_payloads t = w_payloads w \<Longrightarrow> identified t = identified w"
  by (simp add: identified_def payload_rows_def)

lemma stable_identified: "keeps w_payloads m \<Longrightarrow> stable identified m"
  by (auto simp: stable_def keeps_def dest: identified_payloads)

lemma stable_plift_bind: "(\<And>a. r = Inr a \<Longrightarrow> stable I (f a)) \<Longrightarrow> stable I (pbind (plift r) f)"
  by (cases r) (auto simp: stable_def plift_def pbind_def praise_def preturn_def)

lemma stable_put: "truthy (dget c (lit ''message_id'')) \<Longrightarrow> stable identified (kv_put payloads_db pid c)"
  unfolding stable_def
proof (intro allI impI)
  fix w r t assume c: "truthy (dget c (lit ''message_id''))" and w: "identified w" "kv_put payloads_db pid c w = (r, t)"
  from w(1) have "clean (w_payloads w)" by (simp add: identified_def)
  from payload_put_step [OF this w(2)] c w(1) show "identified t"
    by (auto simp: identified_def split: sum.splits if_splits)
qed

lemma stable_delete: "stable identified (kv_delete payloads_db pid)"
  unfolding stable_def
proof (intro allI impI)
  fix w r t assume w: "identified w" "kv_delete payloads_db pid w = (r, t)"
  from w(1) have "clean (w_payloads w)" by (simp add: identified_def)
  from payload_delete_step [OF this w(2)] w(1) show "identified t"
    by (auto simp: identified_def split: sum.splits if_splits)
qed

lemma build_message_id: "build_canonical_payload p m = Inr c \<Longrightarrow> truthy m \<Longrightarrow> truthy (dget c (lit ''message_id''))"
  using build_shape [of p m c] by (auto simp: canonical_shape_def canonical_dict_def dget_def lit_def)

lemma proposals_identified:
  "stable identified (ps_create proposals_db p)" "stable identified (ps_find_by_idempotency proposals_db k)"
  by (auto intro!: stable_identified keeps_intro)

lemma freeze_identified:
  assumes "truthy (dget c (lit ''message_id''))"
  shows "stable identified (svc_freeze H (gateway_service clock ttl idf midf q) key now x c)"
  unfolding svc_freeze_def gateway_service_simps
  by (intro stable_plift_bind)
    (auto intro!: stable_pbind stable_ptry stable_pure stable_put [OF assms] stable_delete proposals_identified split: option.splits)

lemma new_identified: "stable identified (svc_new H (gateway_service clock ttl idf midf True) params key)"
proof -
  let ?S = "gateway_service clock ttl idf midf True"
  have build: "stable identified (pbind (plift (build_canonical_payload (PDict params) m)) (svc_freeze H ?S key now x))"
    if "truthy m" for m now x
    by (rule stable_plift_bind) (rule freeze_identified, rule build_message_id [OF _ that])
  have frame: "stable identified (prepare_email H (PDict params) now ttl (env_pm idf) m)" for now m
    by (intro stable_identified keeps_intro)
  have rest: "stable identified (if True \<and> \<not> truthy m then praise (Canon MessageIdNotConfiguredError)
      else pbind (prepare_email H (PDict params) now ttl (env_pm idf) m) (\<lambda>x.
        pbind (plift (build_canonical_payload (PDict params) m)) (svc_freeze H ?S key now x)))" for now m
    by (cases "truthy m") (simp_all add: stable_pure stable_pbind frame build)
  have "stable identified (case svc_message_id_factory ?S of None \<Rightarrow> preturn PNone | Some f \<Rightarrow> f)"
    by (cases midf) (simp_all add: stable_pure stable_identified keeps_intro)
  moreover have "stable identified (svc_now ?S)" by (simp add: stable_identified keeps_intro)
  ultimately show ?thesis
    unfolding svc_new_def gateway_service_simps(4-7) using rest by (intro stable_pbind) simp_all
qed

lemma propose_identified: "stable identified (propose H (gateway_service clock ttl idf midf True) params)"
  unfolding propose_def
  by (auto intro!: stable_pbind stable_pure new_identified proposals_identified split: option.splits)

text \<open>The handler, for any kept invariant of the two service calls it makes.\<close>

lemma server_stable:
  assumes "\<And>params. stable I (propose H (srv_service V) params)" "\<And>pid. stable I (get_status (srv_service V) pid)"
    and "srv_confirm V = None"
  shows "stable I (handle H V rq)"
proof -
  have "stable I (handle_propose H V body)" for body
    unfolding handle_propose_def
    by (auto intro!: stable_ptry stable_pure assms(1) split: option.splits list.splits sum.splits pyval.splits)
  moreover have "stable I (handle_status V pid)" for pid
    unfolding handle_status_def by (auto intro!: stable_ptry stable_pure assms(2) split: exn.splits store_exn.splits)
  ultimately show ?thesis using assms(3)
    by (auto simp: handle_def do_POST_def do_GET_def Let_def intro!: stable_pbind stable_pure split: option.splits)
qed

lemma serve_stable:
  assumes "\<And>rq. stable I (handle H V rq)" "serve_forever H V rqs w = (rs, t)" "I w"
  shows "I t \<and> length rs = length rqs"
  using assms(2,3)
proof (induction rqs arbitrary: rs w)
  case (Cons rq rqs)
  obtain r u where h: "handle H V rq w = (r, u)" by (cases "handle H V rq w")
  with Cons.prems(1) obtain qs where s: "serve_forever H V rqs u = (qs, t)" "length rs = Suc (length qs)"
    by (auto split: prod.splits)
  from stableD [OF assms(1) Cons.prems(2) h] Cons.IH [OF s(1)] s(2) show ?case by simp
qed simp

text \<open>Without a domain nothing is ever created.\<close>

definition rows_are :: "(pystr \<Rightarrow> dict option) \<Rightarrow> (pystr \<Rightarrow> dict option) \<Rightarrow> 'e world \<Rightarrow> bool" where
  "rows_are ps ys w \<longleftrightarrow> clean (w_proposals w) \<and> proposal_rows w = ps \<and> payload_rows w = ys"

lemma status_rows: "stable (rows_are ps ys) (get_status (gateway_service clock ttl idf midf q) pid)"
  unfolding stable_def
proof (intro allI impI)
  fix w r t assume w: "rows_are ps ys w" "get_status (gateway_service clock ttl idf midf q) pid w = (r, t)"
  then obtain g where g: "ps_get proposals_db pid w = (g, t)"
    by (auto simp: get_status_def pbind_def preturn_def split: prod.splits sum.splits)
  from w(1) have "clean (w_proposals w)" by (simp add: rows_are_def)
  from pdb.get_step [OF this g] have "clean (w_proposals t) \<and> proposal_rows t = proposal_rows w" by blast
  moreover have "w_payloads t = w_payloads w"
  proof -
    have "keeps w_payloads (ps_get proposals_db pid)" by (auto simp: ps_get_def intro!: keeps_intro split: option.splits)
    from keepsD [OF this g] show ?thesis .
  qed
  ultimately show "rows_are ps ys t" using w(1) by (simp add: rows_are_def payload_rows_def)
qed

lemma undomained_rows:
  assumes "message_id_factory E domain = None"
  shows "stable (rows_are ps ys) (handle H (build_server E b ttl domain split loads) rq)"
proof (rule server_stable)
  fix params
  have "propose H (srv_service (build_server E b ttl domain split loads)) params = praise (Canon MessageIdNotConfiguredError)"
    using assms by (simp add: build_server_def propose_def)
  then show "stable (rows_are ps ys) (propose H (srv_service (build_server E b ttl domain split loads)) params)"
    by (simp add: stable_pure)
qed (simp_all add: build_server_def status_rows)

text \<open>
  C7. The summoned gateway, whatever requests reach it, in whatever order and under whatever storage failures: it never calls a
  sender and never writes an audit row, it answers or drops each request once, and every payload it freezes carries a
  Message-ID.  Started without a domain it creates nothing at all, and started without a bearer it serves nothing, prints
  nothing and exits with 2.
\<close>

theorem summoned_gateway:
  assumes "identified w" "entrypoint_main H E split loads A bearer port rqs w = ((code, out, rs), t)"
  shows "w_sent t = w_sent w \<and> w_audit t = w_audit w \<and> identified t \<and>
    (if bearer = None \<or> bearer = Some [] then code = 2 \<and> out = [] \<and> rs = [] \<and> t = w
     else code = 0 \<and> out = ready_text port \<and> length rs = length rqs) \<and>
    (ea_message_id_domain A \<in> {None, Some []} \<and> clean (w_proposals w) \<longrightarrow>
       proposal_rows t = proposal_rows w \<and> payload_rows t = payload_rows w)"
proof (cases "bearer = None \<or> bearer = Some []")
  case True
  with assms show ?thesis by (auto simp: entrypoint_main_def)
next
  case False
  let ?V = "build_server E (the bearer) (ea_ttl_seconds A) (ea_message_id_domain A) split loads"
  from False assms(2) have s: "serve_forever H ?V rqs w = (rs, t)" "code = 0" "out = ready_text port"
    by (auto simp: entrypoint_main_def split: prod.splits)
  have "stable identified (get_status (srv_service ?V) pid)" for pid
    by (rule stable_identified) (auto simp: build_server_def get_status_def ps_get_def intro!: keeps_intro split: option.splits)
  then have "stable identified (handle H ?V rq)" for rq
    by (rule server_stable [rotated]) (simp_all add: build_server_def propose_identified)
  from serve_stable [OF this s(1) assms(1)] have 1: "identified t" "length rs = length rqs" by simp_all
  have "stable (\<lambda>u. w_sent u = w_sent w \<and> w_audit u = w_audit w) (handle H ?V rq)" for rq
    using summoned_frame [of H E "the bearer" "ea_ttl_seconds A" "ea_message_id_domain A" split loads rq]
    by (auto simp: stable_def keeps_def)
  from serve_stable [OF this s(1)] have 2: "w_sent t = w_sent w" "w_audit t = w_audit w" by simp_all
  have 3: "proposal_rows t = proposal_rows w \<and> payload_rows t = payload_rows w"
    if "ea_message_id_domain A \<in> {None, Some []}" "clean (w_proposals w)"
  proof -
    from that(1) have "message_id_factory E (ea_message_id_domain A) = None" by (auto simp: message_id_factory_def)
    from serve_stable [OF undomained_rows [OF this] s(1), of "proposal_rows w" "payload_rows w"] that(2)
    show ?thesis by (simp add: rows_are_def)
  qed
  from 1 2 3 s(2,3) False show ?thesis by simp
qed

definition sample_stdlib :: "'e stdlib" where
  "sample_stdlib = \<lparr>en_time = preturn 5, en_uuid_hex = preturn (lit ''p7''), en_make_msgid = \<lambda>d. preturn (lit ''<m@'' @ d @ lit ''>'')\<rparr>"

definition seed_request :: request where
  "seed_request = \<lparr>rq_method = lit ''POST'', rq_target = lit ''/proposal'', rq_authorization = Some (lit ''Bearer secret''),
     rq_content_length = Some (lit ''1''), rq_stream = [1]\<rparr>"

theorem summoned_gateway_witness:
  "\<exists>(w :: unit world) rs t. entrypoint_main (\<lambda>b. lit ''h'') sample_stdlib Inr (\<lambda>_. Inr (PDict sample_prepare))
       \<lparr>ea_ttl_seconds = 10, ea_message_id_domain = Some (lit ''d'')\<rparr> (Some (lit ''secret'')) 80
       [seed_request, sample_request ''GET'' ''/proposal/p7'' (Some (lit ''Bearer secret''))] w = ((0, ready_text 80, rs), t) \<and>
     identified t \<and> w_sent t = w_sent w \<and> payload_rows t (lit ''p7'') \<noteq> None \<and> length rs = 2"
proof -
  let ?run = "entrypoint_main (\<lambda>b. lit ''h'') sample_stdlib Inr (\<lambda>_. Inr (PDict sample_prepare))
       \<lparr>ea_ttl_seconds = 10, ea_message_id_domain = Some (lit ''d'')\<rparr> (Some (lit ''secret'')) 80
       [seed_request, sample_request ''GET'' ''/proposal/p7'' (Some (lit ''Bearer secret''))] (empty_world [] [])"
  have w: "identified (empty_world [] [])"
    by (simp add: identified_def empty_world_def empty_sqlite_def clean_def payload_rows_def)
  obtain code out rs t where run: "?run = ((code, out, rs), t)" by (cases ?run) auto
  from summoned_gateway [OF w run] have s: "identified t" "w_sent t = w_sent (empty_world [] [])" "code = 0" "out = ready_text 80"
    "length rs = 2" by (simp_all add: lit_def)
  have "payload_rows (snd ?run) (lit ''p7'') \<noteq> None" by code_simp
  with s run show ?thesis by (intro exI [of _ "empty_world [] []"] exI [of _ rs] exI [of _ t]) simp
qed

lemma ready_text_plain:
  assumes "json_inverts loads" "0 \<le> port" "port \<le> 65535"
  shows "loads (butlast (ready_text port)) = Inr (PDict [(lit ''status'', PStr (lit ''ready'')), (lit ''port'', PInt port)])"
proof -
  have "plain_object [(lit ''status'', PStr (lit ''ready'')), (lit ''port'', PInt port)]"
    using assms(2,3) by (simp add: plain_object_def plain_text_def plain_leaf_def max_safe_integer_def lit_def)
  then show ?thesis using assms(1) by (simp add: json_inverts_def ready_text_def)
qed

text \<open>
  C39. The handshake: a supervisor whose child is the entrypoint, started with the bearer the supervisor minted and listening on
  \<open>port\<close>, takes that port from the ready line the child prints, holds the child that lives and hands out the bearer of that
  child.  Of \<open>json\<close> only the documented law is used: \<open>loads\<close> reads back every flat object of printable ASCII texts and safe
  integers that \<open>dumps\<close> writes; of \<open>int\<close>, that it keeps an integer.
\<close>

theorem handshake:
  assumes "\<not> su_alive s" "su_spawns s = Spawned (Some line) True reaped # rest"
    and "sc_bearer C (su_minted s) \<noteq> []" "0 \<le> port" "port \<le> 65535"
    and "entrypoint_main H E split loads A (Some (sc_bearer C (su_minted s))) port rqs w = ((code, line, rs), t)"
    and "json_inverts (sc_loads C)" "\<forall>n. sc_int C (PInt n) = Inr n"
  shows "\<exists>d u. sup_start C s = (Inr d, u) \<and> code = 0 \<and> de_port d = Some port \<and> de_bearer d = Some (sc_bearer C (su_minted s)) \<and>
    last (su_spawned u) = (sup_argv C, sc_bearer C (su_minted s)) \<and> su_alive u"
proof -
  from assms(3,6) have line: "line = ready_text port" and code: "code = 0"
    by (auto simp: entrypoint_main_def split: prod.splits)
  have "py_strip (ready_text port) = butlast (ready_text port)"
    by (simp add: ready_text_def json_object_def lit_def py_strip_def py_space_def butlast_append)
  then have "ready_line (Some line) = Some (butlast (ready_text port))"
    by (simp add: line ready_line_def) (simp add: ready_text_def)
  moreover have "ready_port C (butlast (ready_text port)) = Inr port"
    using ready_text_plain [OF assms(7,4,5)] assms(8) by (simp add: ready_port_def subscript_def dindex_def lit_def)
  ultimately have "await_ready C (su_next s) (Some line) reaped u = (Inr port, u)" for u
    by (simp add: await_ready_def)
  with start_spawned [OF assms(1,2), of C] code show ?thesis
    by (simp add: Let_def descriptor_of_def charge_def born_def su_alive_def)
qed

definition handshake_config :: sup_config where
  "handshake_config = (fst one_child)\<lparr>sc_loads := flat_loads\<rparr>"

theorem handshake_witness:
  "\<exists>d u. sup_start handshake_config ((snd one_child)\<lparr>su_spawns := [Spawned (Some (ready_text 80)) True True]\<rparr>) = (Inr d, u) \<and>
     de_port d = Some 80 \<and> su_alive u"
proof -
  let ?s = "(snd one_child)\<lparr>su_spawns := [Spawned (Some (ready_text 80)) True True]\<rparr>" and ?C = "handshake_config"
  let ?run = "entrypoint_main (\<lambda>b. lit ''h'') sample_stdlib Inr (\<lambda>_. Inr (PDict sample_prepare))
    \<lparr>ea_ttl_seconds = 10, ea_message_id_domain = None\<rparr> (Some (sc_bearer ?C (su_minted ?s))) 80 [] (empty_world [] [])"
  have c: "\<not> su_alive ?s" "sc_bearer ?C (su_minted ?s) \<noteq> []" "json_inverts (sc_loads ?C)" "\<forall>n. sc_int ?C (PInt n) = Inr n"
    by (simp_all add: one_child_def sample_sup_def su_alive_def handshake_config_def lit_def flat_loads_inverts)
  have "?run = ((0, ready_text 80, []), empty_world [] [])" using c(2) by (simp add: entrypoint_main_def)
  moreover have "su_spawns ?s = Spawned (Some (ready_text 80)) True True # []" by simp
  moreover have "(0 :: int) \<le> 80" "(80 :: int) \<le> 65535" by simp_all
  ultimately show ?thesis using handshake [OF c(1) _ c(2) _ _ _ c(3,4)] by blast
qed

subsection \<open>What seeding freezes\<close>

lemma freeze_returns:
  assumes "stores_ok H w" "\<not> index_key (per_proposal_id x)"
    and "svc_freeze H (gateway_service clock ttl idf midf q) None now x c w = (Inr ids, t)"
  shows "ids = identifiers (per_proposal_id x) (per_payload_digest x) (per_expires_at x) \<and>
    proposal_rows t (per_proposal_id x) = Some (proposal_to_dict
      \<lparr>p_proposal_id = per_proposal_id x, p_payload_digest = per_payload_digest x, p_expires_at = per_expires_at x,
       p_created_at = now, p_status = PENDING, p_idempotency_key = None\<rparr>) \<and>
    payload_rows t (per_proposal_id x) = Some c \<and> digest H (PDict c) = Inr (per_payload_digest x)"
proof -
  let ?p = "\<lparr>p_proposal_id = per_proposal_id x, p_payload_digest = per_payload_digest x, p_expires_at = per_expires_at x,
       p_created_at = now, p_status = PENDING, p_idempotency_key = None\<rparr>"
  from assms(3) have h: "digest H (PDict c) = Inr (per_payload_digest x)"
    by (auto simp: svc_freeze_def pm_simps split: sum.splits if_splits)
  obtain y u where y: "kv_put payloads_db (per_proposal_id x) c w = (y, u)" by fastforce
  from assms(1) have cl: "clean (w_payloads w)" by (simp add: stores_ok_def)
  note ys = payload_put_step [OF cl y]
  from assms(3) h y have y': "y = Inr ()" by (cases y) (simp_all add: svc_freeze_def pbind_raises pbind_returns)
  obtain g v where g: "ps_create proposals_db ?p u = (g, v)" by fastforce
  have clu: "clean (w_proposals u)" using assms(1) ys by (simp add: stores_ok_def)
  obtain z where z: "g = Inr z"
    using assms(3) h y y' g by (cases g) (auto simp: svc_freeze_def pbind_def ptry_def praise_def split: if_splits prod.splits sum.splits)
  with pdb.create_step [OF clu g] have "g = Inr ?p" by (auto simp: Let_def)
  with assms(3) h y y' g have r: "g = Inr ?p" "ids = identifiers (per_proposal_id x) (per_payload_digest x) (per_expires_at x)" "t = v"
    by (simp_all add: svc_freeze_def pbind_returns ptry_def)
  from pdb.create_step [OF clu g] r(1) have "proposal_rows v (per_proposal_id x) = Some (proposal_to_dict ?p)"
    by (auto simp: Let_def)
  moreover have "payload_rows v (per_proposal_id x) = Some c"
    using ys y' create_world_frame [OF g] by (simp add: payload_rows_def)
  ultimately show ?thesis using r h by simp
qed

lemma seed_main_shown:
  "seed_main H E A w = (Inr (code, Some ids), t) \<longleftrightarrow> code = 0 \<and> run_seed H E (params_from_args A) (sa_ttl_seconds A) w = (Inr ids, t)"
  by (auto simp: seed_main_def ptry_def preturn_def praise_def split: prod.splits sum.splits exn.splits py_exn.splits)

lemma params_no_key: "idempotency_key_of (params_from_args A) = Inr None"
  by (simp add: idempotency_key_of_def params_from_args_def dget_def lit_def)

lemma seed_returns:
  assumes "stores_ok H w" "\<forall>e pid e'. en_uuid_hex E e = (Inr pid, e') \<longrightarrow> \<not> index_key pid"
    and "run_seed H E (params_from_args A) ttl w = (Inr ids, t)"
  shows "\<exists>p c. ids = proposal_identifiers p \<and> proposal_rows t (p_proposal_id p) = Some (proposal_to_dict p) \<and>
    p_status p = PENDING \<and> p_idempotency_key p = None \<and> 0 \<le> p_created_at p \<and> p_expires_at p = p_created_at p + ttl \<and> 0 < ttl \<and>
    payload_rows t (p_proposal_id p) = Some c \<and> digest H (PDict c) = Inr (p_payload_digest p) \<and>
    build_canonical_payload (PDict (params_from_args A)) PNone = Inr c \<and> enforce_v1_send_policy c = Inr ()"
proof -
  let ?S = "gateway_service (en_time E) ttl (en_uuid_hex E) None False"
  from assms(3) have "svc_new H ?S (params_from_args A) None w = (Inr ids, t)"
    by (simp add: run_seed_def propose_def params_no_key)
  then obtain now u x v c where n: "env_pm (en_time E) w = (Inr now, u)"
    "prepare_email H (PDict (params_from_args A)) now ttl (env_pm (en_uuid_hex E)) PNone u = (Inr x, v)"
    "build_canonical_payload (PDict (params_from_args A)) PNone = Inr c" "svc_freeze H ?S None now x c v = (Inr ids, t)"
    by (auto simp: svc_new_def pm_inv plift_def preturn_def)
  from n(2) have x: "0 \<le> now" "0 < ttl" "per_expires_at x = now + ttl" by (auto simp: prepare_email_ok_iff)
  from env_step [OF n(1)] prepare_step [OF n(2)] have s: "same_stores w v" "\<exists>e e'. en_uuid_hex E e = (Inr (per_proposal_id x), e')"
    using same_stores_trans by blast+
  from s(2) assms(2) have nk: "\<not> index_key (per_proposal_id x)" by blast
  from s(1) assms(1) have ok: "stores_ok H v" using stores_ok_same by blast
  let ?p = "\<lparr>p_proposal_id = per_proposal_id x, p_payload_digest = per_payload_digest x, p_expires_at = per_expires_at x,
       p_created_at = now, p_status = PENDING, p_idempotency_key = None\<rparr>"
  have "enforce_v1_send_policy c = Inr ()" using n(2,3) by (auto simp: prepare_email_ok_iff)
  with freeze_returns [OF ok nk n(4)] n(3) x show ?thesis
    by (intro exI [of _ ?p] exI [of _ c]) (simp add: proposal_identifiers_def)
qed

text \<open>
  Seeding exits with 0 exactly when it printed the identifiers of a pending proposal; that proposal and the payload its digest
  commits to are then in the stores the send command reads, but the payload has no Message-ID, so a seeded proposal is one the
  summoned gateway would have refused. 
\<close>

theorem seed_exit_zero:
  assumes "stores_ok H w" "\<forall>e pid e'. en_uuid_hex E e = (Inr pid, e') \<longrightarrow> \<not> index_key pid"
    and "seed_main H E A w = (Inr (code, shown), t)"
  shows "(code = 0 \<longleftrightarrow> shown \<noteq> None) \<and> code \<in> {0, 1, 2} \<and>
    (\<forall>ids. shown = Some ids \<longrightarrow> (\<exists>p c. ids = proposal_identifiers p \<and> p_status p = PENDING \<and>
       proposal_rows t (p_proposal_id p) = Some (proposal_to_dict p) \<and> payload_rows t (p_proposal_id p) = Some c \<and>
       digest H (PDict c) = Inr (p_payload_digest p) \<and> map_of c (lit ''message_id'') = None \<and> \<not> identified t))"
proof -
  obtain r u where r: "run_seed H E (params_from_args A) (sa_ttl_seconds A) w = (r, u)" by fastforce
  show ?thesis
  proof (cases r)
    case (Inl e)
    with assms(3) r have "shown = None" "code = seed_exit e"
      by (auto simp: seed_main_def ptry_def preturn_def praise_def split: exn.splits py_exn.splits)
    then show ?thesis by (simp add: seed_exit_def)
  next
    case (Inr ids)
    with assms(3) r have s: "shown = Some ids" "code = 0" "t = u" by (auto simp: seed_main_def ptry_def preturn_def)
    from seed_returns [OF assms(1,2) r [unfolded Inr]] obtain p c where p: "ids = proposal_identifiers p"
      "proposal_rows u (p_proposal_id p) = Some (proposal_to_dict p)" "p_status p = PENDING" "payload_rows u (p_proposal_id p) = Some c"
      "digest H (PDict c) = Inr (p_payload_digest p)" "build_canonical_payload (PDict (params_from_args A)) PNone = Inr c" by metis
    from build_shape [OF p(6)] have m: "map_of c (lit ''message_id'') = None"
      by (auto simp: canonical_shape_def canonical_dict_def lit_def)
    then have "\<not> truthy (dget c (lit ''message_id''))" by (simp add: dget_def)
    with p(4) have "\<not> identified u" unfolding identified_def by blast
    with p m s show ?thesis by auto
  qed
qed

definition sample_seed :: seed_args where
  "sample_seed = \<lparr>sa_account_handle = lit ''a'', sa_to = [lit ''b@c''], sa_subject = lit ''s'', sa_body = lit ''t'', sa_cc = [], sa_bcc = [],
     sa_ttl_seconds = 10\<rparr>"

theorem seed_exit_zero_witness:
  "\<exists>ids t. seed_main (\<lambda>b. lit ''h'') sample_stdlib sample_seed (empty_world [] []) = (Inr (0, Some ids), t) \<and> \<not> identified t"
proof -
  let ?run = "seed_main (\<lambda>b. lit ''h'') sample_stdlib sample_seed (empty_world [] [])"
  have "map_sum (\<lambda>e. ()) fst (fst ?run) = Inr 0" by code_simp
  then obtain shown t where run: "?run = (Inr (0, shown), t)" by (cases ?run; cases "fst ?run") auto
  have "\<forall>e pid e'. en_uuid_hex sample_stdlib e = (Inr pid, e') \<longrightarrow> \<not> index_key pid"
    by (auto simp: sample_stdlib_def preturn_def index_key_def idem_index_key_def lit_def)
  from seed_exit_zero [OF empty_world_ok this run] run show ?thesis by auto
qed

definition seed_canonical :: "seed_args \<Rightarrow> dict" where
  "seed_canonical A = canonical_dict (sa_account_handle A) (PList (List.map PStr (sa_to A))) (PList (List.map PStr (sa_cc A)))
     (PList (List.map PStr (sa_bcc A))) (sa_subject A) (lit ''text'') (sa_body A) [] PNone"

text \<open>The canonical payload of the operator's arguments.\<close>

lemma seed_build: "build_canonical_payload (PDict (params_from_args A)) PNone = Inr (seed_canonical A)"
proof -
  have s: "str_list (PList (List.map PStr xs)) = Inr (PList (List.map PStr xs))" for xs
    by (simp add: str_list_def rguard_def)
  show ?thesis
    unfolding build_canonical_payload_def seed_canonical_def params_from_args_def
    by (simp add: s require_dict_def reject_unknown_def rguard_def check_message_id_def require_def require_str_def optional_str_list_def
        attachment_list_def dget_def top_level_allowed_def body_keys_def )
qed

lemma seed_policy: "enforce_v1_send_policy (seed_canonical A) = Inr ()"
  by (simp add: seed_canonical_def enforce_canonical rguard_def)

text \<open>Every text of the arguments has a UTF-8 encoding.\<close>

definition seed_encodable :: "seed_args \<Rightarrow> bool" where
  "seed_encodable A \<longleftrightarrow> encodable (sa_account_handle A) \<and> encodable (sa_subject A) \<and> encodable (sa_body A) \<and>
     list_all encodable (sa_to A @ sa_cc A @ sa_bcc A)"

lemma seed_jcs: "seed_encodable A \<Longrightarrow> jcs_ok (PDict (seed_canonical A))"
  by (simp add: seed_encodable_def seed_canonical_def canonical_dict_def list_all_iff)

text \<open>Seeding in order: with both stores healthy, a fresh id and a positive time to live the command exits with 0.\<close>

lemma seed_healthy:
  assumes w: "world_healthy w" "proposal_rows w pid = None" and A: "seed_encodable A" "0 < sa_ttl_seconds A"
    and e: "en_time E (w_env w) = (Inr now, e1)" "en_uuid_hex E e1 = (Inr pid, e2)" "0 \<le> now"
  obtains h t where "digest H (PDict (seed_canonical A)) = Inr h"
    "seed_main H E A w = (Inr (0, Some (identifiers pid h (now + sa_ttl_seconds A))), t)"
    "world_healthy t" "w_env t = e2" "w_sent t = w_sent w" "w_audit t = w_audit w"
    "payload_rows t pid = Some (seed_canonical A)"
    "proposal_rows t pid = Some (proposal_to_dict \<lparr>p_proposal_id = pid, p_payload_digest = h,
       p_expires_at = now + sa_ttl_seconds A, p_created_at = now, p_status = PENDING, p_idempotency_key = None\<rparr>)"
proof -
  let ?S = "gateway_service (en_time E) (sa_ttl_seconds A) (en_uuid_hex E) None False" and ?c = "seed_canonical A"
  let ?v = "w\<lparr>w_env := e2\<rparr>"
  obtain h where h: "digest H (PDict ?c) = Inr h"
    using canonicalize_ok_iff [THEN iffD2, OF seed_jcs [OF A(1)]] by (auto simp: digest_def)
  let ?p = "\<lparr>p_proposal_id = pid, p_payload_digest = h, p_expires_at = now + sa_ttl_seconds A, p_created_at = now, p_status = PENDING,
       p_idempotency_key = None\<rparr>"
  have hv: "healthy (w_payloads ?v)" "healthy (w_proposals ?v)" using w(1) by (simp_all add: world_healthy_def)
  obtain u where u: "kv_put payloads_db pid ?c ?v = (Inr (), u)" "healthy (w_payloads u)"
    "payload_rows u = (payload_rows ?v)(pid \<mapsto> ?c)" by (rule pldb.put_returns [OF hv(1)])
  then have us: "w_proposals u = w_proposals w" "w_env u = e2" "w_sent u = w_sent w" "w_audit u = w_audit w"
    by (auto simp: payloads_db_def lift_pm_iff put_payloads_def)
  have hu: "healthy (w_proposals u)" "proposal_rows u (p_proposal_id ?p) = None"
    using us(1) hv(2) w(2) by (simp_all add: proposal_rows_def)
  obtain t where t: "ps_create proposals_db ?p u = (Inr ?p, t)" "healthy (w_proposals t)"
    "proposal_rows t pid = Some (proposal_to_dict ?p)"
    by (rule pdb.create_returns [OF hu(1) _ _ hu(2)]) (use e(3) A(2) in auto)
  have ts: "w_payloads t = w_payloads u" "w_env t = w_env u" "w_sent t = w_sent u" "w_audit t = w_audit u"
    using t(1) by (auto simp: ps_create_world lift_proposals_iff)
  have n: "env_pm (en_time E) w = (Inr now, w\<lparr>w_env := e1\<rparr>)" "env_pm (en_uuid_hex E) (w\<lparr>w_env := e1\<rparr>) = (Inr pid, ?v)"
    using e by (simp_all add: env_pm_def)
  have "prepare_email H (PDict (params_from_args A)) now (sa_ttl_seconds A) (env_pm (en_uuid_hex E)) PNone (w\<lparr>w_env := e1\<rparr>) =
      (Inr \<lparr>per_proposal_id = pid, per_payload_digest = h, per_expires_at = now + sa_ttl_seconds A\<rparr>, ?v)"
    unfolding prepare_email_ok_iff using e(3) A(2) seed_build seed_policy h n(2) by simp
  then have "svc_new H ?S (params_from_args A) None w = (Inr (identifiers pid h (now + sa_ttl_seconds A)), t)"
    using n(1) h u(1) t(1) seed_build [of A]
    by (simp add: svc_new_def svc_freeze_def pbind_returns ptry_def preturn_def plift_def)
  then have "seed_main H E A w = (Inr (0, Some (identifiers pid h (now + sa_ttl_seconds A))), t)"
    unfolding seed_main_shown by (simp add: run_seed_def propose_def params_no_key pbind_def plift_def)
  moreover have "world_healthy t" using t(2) u(2) ts us w(1) by (simp add: world_healthy_def)
  moreover have "payload_rows t pid = Some ?c" using ts(1) u(3) by (simp add: payload_rows_def)
  ultimately show thesis using that h t(3) ts us by simp
qed

text \<open>
  The operator's command: an unknown verb runs neither of the two and exits with 2; the arguments after the verb reach the one
  that is named.
\<close>

lemma gateway_main_verbs:
  "gateway_main authorize send (lit ''authorize'' # rest) = authorize rest"
  "gateway_main authorize send (lit ''send'' # rest) = send rest"
  "\<lbrakk>argv = [] \<or> List.hd argv \<notin> {lit ''authorize'', lit ''send''}\<rbrakk> \<Longrightarrow> gateway_main authorize send argv s = (Inr 2, s)"
  by (auto simp: gateway_main_def lit_def preturn_def split: list.splits)

lemma bundled_returns:
  assumes "hex_digest sha"
  shows "bundled_authorize sha loads read_file A config u = (Inr summary, t) \<longleftrightarrow>
    (\<exists>v raw cid secret. read_file (lc_client_bundle config) u = (Inr raw, v) \<and>
       validate_expected (Some (lc_expected_sha256 config)) = Inr (sha raw) \<and> parse_verified_client loads raw = Inr (cid, secret) \<and>
       run_authorize A cid secret v = (Inr summary, t))"
  by (auto simp: bundled_authorize_def build_authorize_callback_def pbind_Inr_iff load_bundled_returns [OF assms] case_prod_beta)

lemma button_returns:
  "button sha loads read_file A config confirm s = (Inr (Some summary), t) \<longleftrightarrow>
     (\<exists>u. confirm s = (Inr True, u) \<and> bundled_authorize sha loads read_file A config u = (Inr summary, t))"
  "button sha loads read_file A config confirm s = (Inr None, t) \<longleftrightarrow> confirm s = (Inr False, t)"
  by (auto simp: button_def bundled_authorize_def connect_once_def pbind_Inr_iff preturn_def split: if_splits)

lemma click_status_cases:
  "click_status r = Inr (lit ''Connected. Token sealed locally.'') \<longleftrightarrow> (\<exists>summary. r = Inr (Some summary))"
  "click_status r = Inr (lit ''Cancelled - no browser opened, nothing sealed.'') \<longleftrightarrow> r = Inr None"
  "click_status r = Inl e \<longrightarrow> (\<exists>n. e = Py (SystemExit n))"
  by (auto simp: click_status_def lit_def split: sum.splits option.splits exn.splits py_exn.splits if_splits)

text \<open>
  The status line is true.  A click that says connected had the confirmation, the pinned bytes of the configured file and
  an authorization that returned; one that says cancelled changed nothing beyond asking; every other line stands for an
  exception, and the window survives all of them but a \<open>SystemExit\<close>.
\<close>

theorem click_honest:
  assumes "hex_digest sha" "on_click sha loads read_file A config confirm s = (r, t)"
  shows "(r = Inr (lit ''Connected. Token sealed locally.'') \<longleftrightarrow>
      (\<exists>u v raw cid secret summary. confirm s = (Inr True, u) \<and> read_file (lc_client_bundle config) u = (Inr raw, v) \<and>
         validate_expected (Some (lc_expected_sha256 config)) = Inr (sha raw) \<and> parse_verified_client loads raw = Inr (cid, secret) \<and>
         run_authorize A cid secret v = (Inr summary, t))) \<and>
    (r = Inr (lit ''Cancelled - no browser opened, nothing sealed.'') \<longleftrightarrow> confirm s = (Inr False, t)) \<and>
    (\<forall>e. r = Inl e \<longrightarrow> (\<exists>n. e = Py (SystemExit n)))"
proof -
  obtain q where q: "button sha loads read_file A config confirm s = (q, t)" "r = click_status q"
    using assms(2) by (auto simp: on_click_def split: prod.splits)
  have "(\<exists>summary. q = Inr (Some summary)) \<longleftrightarrow>
      (\<exists>u summary. confirm s = (Inr True, u) \<and> bundled_authorize sha loads read_file A config u = (Inr summary, t))"
    using q(1) button_returns(1) [of sha loads read_file A config confirm s _ t] by (metis Pair_inject)
  moreover have "q = Inr None \<longleftrightarrow> confirm s = (Inr False, t)"
    using q(1) button_returns(2) [of sha loads read_file A config confirm s t] by (metis Pair_inject)
  ultimately show ?thesis
    unfolding q(2) click_status_cases(1,2) bundled_returns [OF assms(1)] using click_status_cases(3) [of q] by blast
qed

theorem click_honest_witness:
  "\<exists>t. on_click fix_sha (\<lambda>_. Inr (PDict [(lit ''client_id'', PStr (lit ''c''))])) (\<lambda>_. preturn [1]) sample_authorizer
     sample_local_config (preturn True) sample_outbound = (Inr (lit ''Connected. Token sealed locally.''), t)"
proof -
  let ?l = "\<lambda>_. Inr (PDict [(lit ''client_id'', PStr (lit ''c''))])"
  have v: "vault_ready (au_store sample_authorizer) (ob_tokens (sample_outbound\<lparr>ob_wire := [(post_request default_token_endpoint [] [],
      Inr (200, []))], ob_replies := []\<rparr>))"
    using sample_authorization(4) by (simp add: sample_outbound_def)
  from run_seals [OF sample_authorization(2,3) v sample_fields_def sample_authorization(5)] obtain summary t where
    a: "run_authorize sample_authorizer (lit ''c'') None sample_outbound = (Inr summary, t)" by metis
  then have b: "bundled_authorize fix_sha ?l (\<lambda>_. preturn [1]) sample_authorizer sample_local_config sample_outbound = (Inr summary, t)"
    unfolding bundled_returns [OF fix_bundle(1)] using fix_bundle(2,4)
    by - (rule exI [of _ sample_outbound], rule exI [of _ "[1]"], rule exI [of _ "lit ''c''"], rule exI [of _ None],
      simp add: sample_local_config_def preturn_def)
  then have "button fix_sha ?l (\<lambda>_. preturn [1]) sample_authorizer sample_local_config (preturn True) sample_outbound = (Inr (Some summary), t)"
    by (simp add: button_returns preturn_def)
  then obtain r where r: "on_click fix_sha ?l (\<lambda>_. preturn [1]) sample_authorizer sample_local_config (preturn True) sample_outbound = (r, t)"
    by (simp add: on_click_def)
  have "\<exists>u v raw cid secret summary. (preturn True :: (unit outbound, bool) pm) sample_outbound = (Inr True, u) \<and>
      (preturn [1] :: (unit outbound, bytes) pm) u = (Inr raw, v) \<and>
      validate_expected (Some (lc_expected_sha256 sample_local_config)) = Inr (fix_sha raw) \<and>
      parse_verified_client ?l raw = Inr (cid, secret) \<and> run_authorize sample_authorizer cid secret v = (Inr summary, t)"
    using b unfolding bundled_returns [OF fix_bundle(1)] by (auto simp: preturn_def)
  with click_honest [OF fix_bundle(1) r] have "r = Inr (lit ''Connected. Token sealed locally.'')" by blast
  with r show ?thesis by blast
qed

end
