(* ===== verification/Concurrent_Server.thy ===== *)
theory Concurrent_Server
  imports Concurrent_Propose Entry_Points
begin

text \<open>
  The summoned gateway as it runs: \<open>ProposalServer\<close> of \<open>gateway/proposal_api.py\<close> answers every request on a
  thread of its own.  The handler is a thread over the accesses of \<open>Concurrent_Propose\<close>; what it does with the
  request itself touches nothing shared.  The theorems are those of the sequential gateway for every
  interleaving.
\<close>

definition get_status_t :: "'s proposal_service \<Rightarrow> pystr \<Rightarrow> ('s, dict) thr" where
  "get_status_t S pid = tbind (ps_get_t (svc_proposals S) pid) (\<lambda>p. Ret (Inr
     [(lit ''proposal_id'', PStr (p_proposal_id p)), (lit ''status'', PStr (status_value (p_status p))),
      (lit ''payload_digest'', PStr (p_payload_digest p)), (lit ''expires_at'', PInt (p_expires_at p)),
      (lit ''created_at'', PInt (p_created_at p))]))"

definition handle_propose_t ::
  "(bytes \<Rightarrow> pystr) \<Rightarrow> 's server \<Rightarrow> bytes option \<Rightarrow> ('s, response) thr" where
  "handle_propose_t H V body = (case body of
     None \<Rightarrow> Ret (Inr (error_response 400 ''invalid_request''))
   | Some [] \<Rightarrow> Ret (Inr (error_response 400 ''invalid_request''))
   | Some b \<Rightarrow> (case srv_loads V b of
       Inl e \<Rightarrow> (if is_value_error e then Ret (Inr (error_response 400 ''invalid_request'')) else Ret (Inl e))
     | Inr (PDict params) \<Rightarrow>
         ttry (propose_t H (srv_service V) params)
           (\<lambda>e. if e = Canon AttachmentsNotSupportedError
             then Ret (Inr (error_response 400 ''attachments_not_supported_in_v1''))
             else if is_payload_schema_error e \<or> is_value_error e
             then Ret (Inr (error_response 400 ''invalid_payload'')) else Ret (Inl e))
           (\<lambda>result. Ret (Inr (json_response 200 result)))
     | Inr _ \<Rightarrow> Ret (Inr (error_response 400 ''invalid_request''))))"

definition handle_status_t :: "'s server \<Rightarrow> pystr \<Rightarrow> ('s, response) thr" where
  "handle_status_t V pid =
     ttry (get_status_t (srv_service V) pid)
       (\<lambda>e. case e of Store (ProposalNotFoundError _) \<Rightarrow> Ret (Inr uniform_404) | _ \<Rightarrow> Ret (Inl e))
       (\<lambda>result. Ret (Inr (json_response 200 result)))"

text \<open>
  A confirm route, where one is mounted, is a single access here, though its confirmation and its dispatch make many: what the
  theorems say of interleavings is therefore stated for servers that mount none, as the summoned gateway does.  The race of
  two confirmations is in \<open>Send_Fsm\<close>.
\<close>

definition do_POST_t :: "(bytes \<Rightarrow> pystr) \<Rightarrow> 's server \<Rightarrow> request \<Rightarrow> ('s, response) thr" where
  "do_POST_t H V rq =
     (let body = read_request_body rq in
      tbind (Ret (srv_split V (rq_target rq))) (\<lambda>path.
      tbind (Ret (authed (srv_bearer V) rq)) (\<lambda>ok.
      if \<not> ok then Ret (Inr uniform_404)
      else if path = lit ''/proposal'' then handle_propose_t H V body
      else (case (confirm_id_from_path path, srv_confirm V) of
        (Some cid, Some confirm) \<Rightarrow> atomic (handle_confirm confirm cid)
      | _ \<Rightarrow> Ret (Inr uniform_404)))))"

definition do_GET_t :: "'s server \<Rightarrow> request \<Rightarrow> ('s, response) thr" where
  "do_GET_t V rq =
     tbind (Ret (srv_split V (rq_target rq))) (\<lambda>path.
     tbind (Ret (authed (srv_bearer V) rq)) (\<lambda>ok.
     case proposal_id_from_path path of
       Some pid \<Rightarrow> (if ok then handle_status_t V pid else Ret (Inr uniform_404))
     | None \<Rightarrow> Ret (Inr uniform_404)))"

definition handle_t :: "(bytes \<Rightarrow> pystr) \<Rightarrow> 's server \<Rightarrow> request \<Rightarrow> ('s, response) thr" where
  "handle_t H V rq =
     (if rq_method rq = lit ''POST'' then do_POST_t H V rq
      else if rq_method rq = lit ''GET'' then do_GET_t V rq
      else Ret (Inr uniform_404))"

subsection \<open>Run alone, and bounded\<close>

text \<open>A request that is served alone makes the same changes and gets the same response as in the sequential model.\<close>

lemma run_handle: "run (handle_t H V rq) = handle H V rq"
proof -
  have status: "run (handle_status_t V pid) = handle_status V pid" for pid
  proof (rule ext)
    fix s show "run (handle_status_t V pid) s = handle_status V pid s"
      by (simp add: handle_status_t_def handle_status_def get_status_t_def get_status_def run_get ptry_def Ret_plift
          plift_def preturn_def praise_def split: prod.split sum.split exn.split store_exn.split)
  qed
  have proposing: "run (handle_propose_t H V body) = handle_propose H V body" for body
  proof (rule ext)
    fix s show "run (handle_propose_t H V body) s = handle_propose H V body s"
      by (simp add: handle_propose_t_def handle_propose_def run_propose ptry_def Ret_plift
          plift_def preturn_def praise_def split: prod.split sum.split option.split list.split pyval.split)
  qed
  show ?thesis
    by (simp add: handle_t_def handle_def do_POST_t_def do_POST_def do_GET_t_def do_GET_def Let_def status proposing run_case Ret_plift
        cong: if_cong option.case_cong)
qed

lemma capped_handle: "capped (handle_t H V rq) 13"
proof -
  have "capped (handle_status_t V pid) 13" for pid
  proof -
    have "capped (get_status_t (srv_service V) pid) (Suc 0 + 0)"
      unfolding get_status_t_def by (rule capped_tbind [OF capped_get]) simp
    then have "capped (handle_status_t V pid) (Suc 0 + 0 + 0)"
      unfolding handle_status_t_def by (rule capped_ttry) (simp_all split: exn.split store_exn.split)
    then show ?thesis by (rule capped_mono) simp
  qed
  moreover have "capped (handle_propose_t H V body) 13" for body
  proof -
    have "capped (ttry (propose_t H (srv_service V) params)
           (\<lambda>e. if e = Canon AttachmentsNotSupportedError
             then Ret (Inr (error_response 400 ''attachments_not_supported_in_v1''))
             else if is_payload_schema_error e \<or> is_value_error e
             then Ret (Inr (error_response 400 ''invalid_payload'')) else Ret (Inl e))
           (\<lambda>result. Ret (Inr (json_response 200 result)))) (13 + 0)" for params
      by (rule capped_ttry [OF capped_propose]) simp_all
    then show ?thesis
      by (simp add: handle_propose_t_def split: option.split list.split sum.split pyval.split)
  qed
  moreover have "capped (atomic m) 13" for m :: "('s, response) pm"
    by (rule capped_mono [OF capped_atomic]) simp
  ultimately show ?thesis
    by (auto simp: handle_t_def do_POST_t_def do_GET_t_def Let_def intro!: capped_Ret_bind split: option.split)
qed

subsection \<open>What the gateway's requests leave alone\<close>

lemma handle_tkeeps:
  assumes "\<And>params. tkeeps f (propose_t H (srv_service V) params)" "\<And>k. keeps f (kv_get (svc_proposals (srv_service V)) k)"
    and "srv_confirm V = None"
  shows "tkeeps f (handle_t H V rq)"
proof -
  have "tkeeps f (handle_propose_t H V body)" for body
    unfolding handle_propose_t_def by (auto intro!: keeps_intro assms(1) split: option.splits list.splits sum.splits pyval.splits)
  moreover have "tkeeps f (handle_status_t V pid)" for pid
    unfolding handle_status_t_def get_status_t_def ps_get_t_def
    by (auto intro!: keeps_intro assms(2) split: option.splits exn.splits store_exn.splits)
  ultimately show ?thesis using assms(3)
    by (auto simp: handle_t_def do_POST_t_def do_GET_t_def Let_def intro!: keeps_intro split: option.splits)
qed

lemma propose_tkeeps:
  assumes "\<And>k. keeps f (kv_get (svc_proposals S) k)" "\<And>k v. keeps f (kv_put (svc_proposals S) k v)"
    and "\<And>k v. keeps f (kv_claim (svc_proposals S) k v)" "\<And>k. keeps f (kv_delete (svc_proposals S) k)"
    and "\<And>k v. keeps f (kv_put (svc_payloads S) k v)" "\<And>k. keeps f (kv_delete (svc_payloads S) k)"
    and "keeps f (svc_now S)" "\<And>params now m. keeps f (prepare_email H params now (svc_ttl S) (svc_id_factory S) m)"
    and "\<And>m. svc_message_id_factory S = Some m \<Longrightarrow> keeps f m"
  shows "tkeeps f (propose_t H S params)"
proof -
  have find: "tkeeps f (ps_find_by_idempotency_t (svc_proposals S) k)" for k
    unfolding ps_find_by_idempotency_t_def ps_get_t_def by (auto intro!: keeps_intro assms split: option.splits)
  have create: "tkeeps f (ps_create_t (svc_proposals S) p)" for p
    unfolding ps_create_t_def ps_claim_t_def by (auto intro!: keeps_intro assms split: option.splits)
  have lost: "tkeeps f (svc_lost_t S key pid e)" for key pid e
    unfolding svc_lost_t_def by (auto intro!: keeps_intro assms find split: option.splits)
  show ?thesis
    unfolding propose_t_def svc_new_t_def svc_freeze_t_def
    by (auto intro!: keeps_intro assms find create lost split: option.splits)
qed

lemma gateway_tkeeps:
  "tkeeps w_sent (handle_t H (build_server E b ttl domain split loads) rq)"
  "tkeeps w_audit (handle_t H (build_server E b ttl domain split loads) rq)"
proof -
  let ?S = "gateway_service (en_time E) ttl (en_uuid_hex E) (message_id_factory E domain) True"
  have S: "srv_service (build_server E b ttl domain split loads) = ?S" "srv_confirm (build_server E b ttl domain split loads) = None"
    by (simp_all add: build_server_def)
  have env: "keeps w_sent (env_pm m)" "keeps w_audit (env_pm m)" for m :: "('a, 'x) pm"
    by (auto simp: keeps_def env_pm_def split: prod.splits)
  have "tkeeps w_sent (propose_t H ?S params)" "tkeeps w_audit (propose_t H ?S params)" for params
    by (rule propose_tkeeps; auto intro!: keeps_intro simp: prepare_email_def)+
  then show "tkeeps w_sent (handle_t H (build_server E b ttl domain split loads) rq)"
    "tkeeps w_audit (handle_t H (build_server E b ttl domain split loads) rq)"
    by (auto intro!: handle_tkeeps keeps_intro simp: S)
qed

subsection \<open>What the gateway's requests guarantee\<close>

text \<open>The idempotency key of an authorized proposal request.\<close>

definition asked_key :: "'s server \<Rightarrow> request \<Rightarrow> pystr option" where
  "asked_key V rq =
     (if rq_method rq = lit ''POST'' \<and> srv_split V (rq_target rq) = Inr (lit ''/proposal'') \<and> authed (srv_bearer V) rq = Inr True
      then case read_request_body rq of
          Some (x # xs) \<Rightarrow> (case srv_loads V (x # xs) of
            Inr (PDict params) \<Rightarrow> (case dget params (lit ''idempotency_key'') of PStr k \<Rightarrow> Some k | _ \<Rightarrow> None)
          | _ \<Rightarrow> None)
        | _ \<Rightarrow> None
      else None)"

definition served_well :: "pystr option \<Rightarrow> response res \<Rightarrow> pystr option \<Rightarrow> 'e world \<Rightarrow> bool" where
  "served_well key r c w \<longleftrightarrow> (\<forall>k x. key = Some k \<and> r = Inr x \<and> rs_status x = 200 \<longrightarrow>
     (\<exists>p. bound_to w k p \<and> rs_body x = proposal_identifiers p))"

lemma served_well_stable: "req.steady M H (served_well key r)"
  unfolding served_well_def by (rule req_stableI) (metis bound_to_stable)

lemma served_well_none [simp]: "served_well None r c w"
  by (simp add: served_well_def)

lemma triple_served_error: "req.triple M H P (Ret (Inl e)) (served_well key)"
  by (rule req.triple_Ret) (simp_all add: served_well_stable, simp add: served_well_def)

lemma triple_refused: "rs_status x \<noteq> 200 \<Longrightarrow> req.triple M H P (Ret (Inr x)) (served_well key)"
  by (rule req.triple_Ret) (simp_all add: served_well_stable, simp add: served_well_def)

lemma error_status [simp]: "rs_status (error_response st code) = st" "rs_status uniform_404 = 404" "rs_status (json_response st d) = st"
  by (simp_all add: error_response_def json_response_def uniform_404_def)

lemma triple_handle_propose:
  fixes V :: "'e world server"
  assumes src: "id_source M clock idf midf" and V: "srv_service V = gateway_service clock ttl idf midf q"
    and key: "\<And>x xs params. body = Some (x # xs) \<Longrightarrow> srv_loads V (x # xs) = Inr (PDict params) \<Longrightarrow> key \<noteq> None \<Longrightarrow>
      idempotency_key_of params = Inr key"
  shows "req.triple M H (\<lambda>c w. c = None) (handle_propose_t H V body) (served_well key)"
proof -
  have go: "req.triple M H (\<lambda>c w. c = None) (ttry (propose_t H (srv_service V) params)
           (\<lambda>e. if e = Canon AttachmentsNotSupportedError
             then Ret (Inr (error_response 400 ''attachments_not_supported_in_v1''))
             else if is_payload_schema_error e \<or> is_value_error e
             then Ret (Inr (error_response 400 ''invalid_payload'')) else Ret (Inl e))
           (\<lambda>result. Ret (Inr (json_response 200 result)))) (served_well key)"
    if "body = Some (x # xs)" "srv_loads V (x # xs) = Inr (PDict params)" for x xs params
    unfolding V
  proof (rule req.triple_ttry [OF triple_propose [OF src]])
    fix e
    show "req.triple M H (\<lambda>c w. \<forall>key. idempotency_key_of params = Inr key \<longrightarrow> answered key (Inl e) c w)
      (if e = Canon AttachmentsNotSupportedError
             then Ret (Inr (error_response 400 ''attachments_not_supported_in_v1''))
             else if is_payload_schema_error e \<or> is_value_error e
             then Ret (Inr (error_response 400 ''invalid_payload'')) else Ret (Inl e)) (served_well key)"
      by (intro req.triple_if triple_refused triple_served_error) simp_all
  next
    fix d
    show "req.triple M H (\<lambda>c w. \<forall>key. idempotency_key_of params = Inr key \<longrightarrow> answered key (Inr d) c w)
      (Ret (Inr (json_response 200 d))) (served_well key)"
    proof (rule req.triple_Ret)
      fix c and w :: "'e world"
      assume a: "\<forall>key. idempotency_key_of params = Inr key \<longrightarrow> answered key (Inr d) c w"
      show "served_well key (Inr (json_response 200 d)) c w"
      proof (cases key)
        case (Some k)
        with key [OF that] have "idempotency_key_of params = Inr (Some k)" by simp
        with a have "answered (Some k) (Inr d) c w" by blast
        then obtain p where p: "bound_to w k p" "d = proposal_identifiers p" unfolding answered_def by blast
        then have "\<exists>p. bound_to w k p \<and> rs_body (json_response 200 d) = proposal_identifiers p"
          by (intro exI [of _ p]) (simp add: json_response_def)
        with Some show ?thesis by (simp add: served_well_def)
      qed simp
    qed (rule served_well_stable)
  qed
  show ?thesis
  proof (cases body)
    case None
    then show ?thesis by (simp add: handle_propose_t_def triple_refused)
  next
    case (Some b)
    show ?thesis
    proof (cases b)
      case Nil
      with Some show ?thesis by (simp add: handle_propose_t_def triple_refused)
    next
      case (Cons x xs)
      note b = Some [unfolded Cons]
      have bad: "req.triple M H (\<lambda>c w. c = None) (Ret (Inr (error_response 400 ''invalid_request''))) (served_well key)"
        by (rule triple_refused) simp
      show ?thesis
      proof (cases "srv_loads V (x # xs)")
        case (Inl e)
        have "req.triple M H (\<lambda>c w. c = None) (if is_value_error e then Ret (Inr (error_response 400 ''invalid_request''))
            else Ret (Inl e)) (served_well key)"
          by (intro req.triple_if bad triple_served_error)
        with b Inl show ?thesis by (simp add: handle_propose_t_def)
      next
        case (Inr v)
        show ?thesis
        proof (cases "\<exists>params. v = PDict params")
          case True
          then obtain params where "v = PDict params" by blast
          with go [OF b] b Inr show ?thesis by (simp add: handle_propose_t_def)
        next
          case False
          with b Inr bad show ?thesis by (cases v) (simp_all add: handle_propose_t_def)
        qed
      qed
    qed
  qed
qed

text \<open>A read of the status changes no row.\<close>

lemma triple_handle_status:
  assumes "srv_service V = gateway_service clock ttl idf midf q"
  shows "req.triple M H (\<lambda>c w. c = None) (handle_status_t V pid) (served_well None)"
proof -
  have ret: "req.triple M H P (Ret r) (served_well None)" for P and r :: "response res"
    by (rule req.triple_Ret) (simp_all add: served_well_stable)
  have any: "req.triple M H P (Ret r) (\<lambda>r c w. True)" for P and r :: "'b res"
    by (rule req.triple_Ret) (simp_all add: req_stableI)
  have get: "req.triple M H (\<lambda>c w. c = None) (ps_get_t proposals_db pid) (\<lambda>r c w. True)"
    unfolding ps_get_t_def
  proof (rule req.triple_access [where M = "\<lambda>r c w. True"])
    fix c w r t
    assume "req_ok H M c w" "kv_get proposals_db pid w = (r, t)"
    from get_access(1,2) [OF this] show "\<exists>c'. req_ok H M c' t \<and> req_guar M c w c' t \<and> True" by blast
  next
    show "req.triple M H (\<lambda>c w. True) (case raw of None \<Rightarrow> Ret (Inl (Store (ProposalNotFoundError pid)))
      | Some d \<Rightarrow> Ret (proposal_from_dict d)) (\<lambda>r c w. True)" for raw
      by (cases raw) (auto intro: req.triple_Ret req_stableI)
  qed (auto intro!: req_stableI)
  have status: "req.triple M H (\<lambda>c w. c = None) (get_status_t (srv_service V) pid) (\<lambda>r c w. True)"
    unfolding get_status_t_def assms gateway_service_simps
    by (rule req.triple_tbind [OF get]) (auto intro!: req.triple_Ret req_stableI)
  show ?thesis
    unfolding handle_status_t_def
    by (rule req.triple_ttry [OF status]) (auto intro!: ret split: exn.split store_exn.split)
qed

lemma asked_key_params:
  assumes "asked_key V rq = Some k" "read_request_body rq = Some (x # xs)" "srv_loads V (x # xs) = Inr (PDict params)"
  shows "idempotency_key_of params = Inr (Some k)"
  using assms by (auto simp: asked_key_def idempotency_key_of_def split: if_splits pyval.splits)

lemma triple_handle:
  fixes V :: "'e world server"
  assumes src: "id_source M clock idf midf" and V: "srv_service V = gateway_service clock ttl idf midf q" "srv_confirm V = None"
  shows "req.triple M H (\<lambda>c w. c = None) (handle_t H V rq) (served_well (asked_key V rq))"
proof -
  have refused: "req.triple M H P (Ret (Inr uniform_404)) (served_well key)" for P key
    by (rule triple_refused) simp
  show ?thesis
  proof (cases "rq_method rq = lit ''POST''")
    case True
    have propose: "req.triple M H (\<lambda>c w. c = None) (handle_propose_t H V (read_request_body rq)) (served_well (asked_key V rq))"
      by (rule triple_handle_propose [OF src V(1)]) (use asked_key_params in fastforce)
    have "req.triple M H (\<lambda>c w. c = None) (do_POST_t H V rq) (served_well (asked_key V rq))"
      unfolding do_POST_t_def Let_def V(2)
      by (intro req.triple_pure req.triple_if refused propose triple_served_error) (simp add: refused split: option.split)
    with True show ?thesis by (simp add: handle_t_def)
  next
    case False
    then have none: "asked_key V rq = None" by (simp add: asked_key_def)
    have "req.triple M H (\<lambda>c w. c = None) (do_GET_t V rq) (served_well None)"
      unfolding do_GET_t_def
      by (intro req.triple_pure triple_served_error)
        (auto intro: refused triple_handle_status [OF V(1)] split: option.split)
    with False none refused show ?thesis by (simp add: handle_t_def)
  qed
qed

subsection \<open>Properties\<close>

text \<open>The requests a gateway serves at the same time, each a thread.\<close>

definition serve_pool :: "(bytes \<Rightarrow> pystr) \<Rightarrow> 's server \<Rightarrow> request list \<Rightarrow> 's \<Rightarrow> ('s, response) pool" where
  "serve_pool H V rqs w = (map (handle_t H V) rqs, w)"

text \<open>Two requests with one key that race: both look the key up before either claims it.\<close>

definition race_uuid :: "(nat, pystr) pm" where
  "race_uuid n = (Inr (replicate (Suc n) 112), Suc n)"

definition race_minted :: "nat \<Rightarrow> pystr set" where
  "race_minted n = (\<lambda>k. replicate (Suc k) 112) ` {..<n}"

definition race_stdlib :: "nat stdlib" where
  "race_stdlib = \<lparr>en_time = preturn 5, en_uuid_hex = race_uuid, en_make_msgid = \<lambda>d. preturn (lit ''<m@'' @ d @ lit ''>'')\<rparr>"

definition race_server :: "nat world server" where
  "race_server = build_server race_stdlib (lit ''secret'') 10 (Some (lit ''d'')) Inr (\<lambda>_. Inr (PDict sample_prepare))"

definition race_world :: "nat world" where
  "race_world = \<lparr>w_proposals = empty_sqlite [], w_payloads = empty_sqlite [],
     w_audit = \<lparr>sq_committed = [], sq_pending = None, sq_broken = False, sq_faults = []\<rparr>, w_sent = [], w_env = 0\<rparr>"

definition race_pool :: "(nat world, response) pool" where
  "race_pool = serve_pool (\<lambda>b. lit ''h'') race_server [seed_request, seed_request] race_world"

definition race_end :: "(nat world, response) pool" where
  "race_end = pool_run (concat (replicate 13 [0, 1])) race_pool"

lemma race_results:
  "map (result_of race_end) [0, 1] =
     [Some (Inr (json_response 200 (identifiers (lit ''p'') (lit ''h'') 15))),
      Some (Inr (json_response 200 (identifiers (lit ''p'') (lit ''h'') 15)))]"
  by code_simp

lemma race_asked: "asked_key race_server seed_request = Some (lit ''k'')"
  by code_simp

lemma race_ok:
  "stores_ok H race_world" "only_minted M race_world"
  "id_source race_minted (en_time race_stdlib) (en_uuid_hex race_stdlib) (message_id_factory race_stdlib (Some d))"
proof -
  show "stores_ok H race_world" "only_minted M race_world"
    by (simp_all add: stores_ok_def race_world_def empty_sqlite_def clean_def faithful_def index_inv_def
        only_minted_def proposal_rows_def payload_rows_def)
  have "replicate (Suc e) 112 \<notin> race_minted e" for e
    by (auto simp: race_minted_def simp del: replicate.simps)
  moreover have "\<not> index_key (replicate (Suc e) 112)" for e
    by (simp add: index_key_def idem_index_key_def lit_def)
  ultimately show "id_source race_minted (en_time race_stdlib) (en_uuid_hex race_stdlib) (message_id_factory race_stdlib (Some d))"
    unfolding id_source_def race_stdlib_def race_uuid_def
    by (auto simp: race_minted_def lessThan_Suc message_id_factory_def generate_message_id_def pbind_def
        simp del: replicate.simps split: if_splits)
qed

text \<open>
  No request runs forever: where no confirm route is mounted, \<open>n\<close> requests served at the same time make at most \<open>13 * n\<close>
  accesses to the stores, the clock and the factories, whatever the schedule and whatever these return.
\<close>

lemma serving_terminates:
  assumes "srv_confirm V = None" "pool_steps tr (serve_pool H V rqs s) d"
  shows "length tr \<le> 13 * length rqs"
proof -
  have "length tr \<le> 13 * length (map (handle_t H V) rqs)"
    by (rule pool_bounded [OF assms(2) [unfolded serve_pool_def]]) (auto intro: capped_handle)
  then show ?thesis by simp
qed

lemma pool_initially:
  fixes V :: "'e world server"
  assumes "stores_ok H w" "only_minted M w" "id_source M clock idf midf"
    and "srv_service V = gateway_service clock ttl idf midf q" "srv_confirm V = None"
  shows "req.pool_ok M H (map (\<lambda>rq. served_well (asked_key V rq)) rqs) (serve_pool H V rqs w)"
  unfolding serve_pool_def
proof (rule req.pool_ok_init [where P = "\<lambda>c w. c = None" and ?c0.0 = None])
  show "req_ok H M None w" using assms(1,2) by (simp add: req_ok_def)
  fix i assume "i < length (map (handle_t H V) rqs)"
  then have i: "i < length rqs" by simp
  show "req.triple M H (\<lambda>c w. c = None) (map (handle_t H V) rqs ! i) (map (\<lambda>rq. served_well (asked_key V rq)) rqs ! i)"
    unfolding nth_map [OF i] by (rule triple_handle [OF assms(3-5)])
qed (simp_all add: req_apart_def)

lemma pool_answer:
  fixes V :: "'e world server"
  assumes ok: "req.pool_ok M H (map (\<lambda>rq. served_well (asked_key V rq)) rqs) d"
    and "result_of d i = Some (Inr x)" "rs_status x = 200" "asked_key V (rqs ! i) = Some k"
  shows "\<exists>p. bound_to (snd d) k p \<and> rs_body x = proposal_identifiers p"
proof -
  have i: "i < length rqs"
    using ok assms(2) by (auto simp: req.pool_ok_def result_of_def split: if_splits)
  from req.pool_ok_result [OF ok assms(2)]
  obtain c where "served_well (asked_key V (rqs ! i)) (Inr x) c (snd d)"
    unfolding nth_map [OF i] by blast
  with assms(3,4) show ?thesis unfolding served_well_def by blast
qed

lemma pool_stores:
  fixes V :: "'e world server"
  assumes "req.pool_ok M H Qs d" "pool_steps tr c d" "stores_ok H (snd c)"
  shows "stores_ok H (snd d)"
proof (cases "fst c = []")
  case True
  obtain ps s where c: "c = (ps, s)" by fastforce
  from pool_bounded [OF assms(2) [unfolded c], of 0] True c have "tr = []" by simp
  with assms(2,3) show ?thesis by (auto elim: pool_steps.cases)
next
  case False
  with assms(1) pool_steps_length [OF assms(2)] show ?thesis
    unfolding req.pool_ok_def req_ok_def by auto
qed

text \<open>
  C6. The summoned gateway under concurrency.  Let any requests be served at the same time, in any interleaving of their
  accesses and with any storage failures, by a gateway whose ids are never given out twice.  At every moment the
  stores are faithful, no sender was called and no audit row written; and any two authorized proposal requests
  with idempotency keys that were answered with 200 got the same body exactly when their keys are the same, which is the
  identifiers of a stored proposal that carries the key.
\<close>

theorem concurrent_gateway:
  assumes "stores_ok H w" and "only_minted M w"
    and "id_source M (en_time E) (en_uuid_hex E) (message_id_factory E domain)"
    and "V = build_server E bearer ttl domain split loads"
    and "pool_steps tr (serve_pool H V rqs w) d"
  shows "stores_ok H (snd d) \<and> w_sent (snd d) = w_sent w \<and> w_audit (snd d) = w_audit w \<and>
    (\<forall>i j k l x y. result_of d i = Some (Inr x) \<and> result_of d j = Some (Inr y) \<and> rs_status x = 200 \<and> rs_status y = 200 \<and>
       asked_key V (rqs ! i) = Some k \<and> asked_key V (rqs ! j) = Some l \<longrightarrow>
       (rs_body x = rs_body y) = (k = l) \<and> (\<exists>p. bound_to (snd d) k p \<and> rs_body x = proposal_identifiers p))"
proof -
  have V: "srv_service V = gateway_service (en_time E) ttl (en_uuid_hex E) (message_id_factory E domain) True"
    "srv_confirm V = None" using assms(4) by (simp_all add: build_server_def)
  have ok: "req.pool_ok M H (map (\<lambda>rq. served_well (asked_key V rq)) rqs) d"
    by (rule req.pool_ok_steps [OF assms(5) pool_initially [OF assms(1-3) V]])
  have "stores_ok H (snd d)"
    by (rule pool_stores [OF ok assms(5)]) (simp add: serve_pool_def assms(1))
  moreover have threads: "\<exists>rq. p = handle_t H V rq" if "p \<in> set (fst (serve_pool H V rqs w))" for p
    using that by (auto simp: serve_pool_def)
  have "w_sent (snd d) = w_sent (snd (serve_pool H V rqs w))" "w_audit (snd d) = w_audit (snd (serve_pool H V rqs w))"
    using pool_keeps [OF assms(5), of w_sent] pool_keeps [OF assms(5), of w_audit] threads gateway_tkeeps
    unfolding assms(4) by metis+
  then have "w_sent (snd d) = w_sent w" "w_audit (snd d) = w_audit w"
    by (simp_all add: serve_pool_def)
  moreover have "(rs_body x = rs_body y) = (k = l) \<and> (\<exists>p. bound_to (snd d) k p \<and> rs_body x = proposal_identifiers p)"
    if "result_of d i = Some (Inr x) \<and> result_of d j = Some (Inr y) \<and> rs_status x = 200 \<and> rs_status y = 200 \<and>
       asked_key V (rqs ! i) = Some k \<and> asked_key V (rqs ! j) = Some l" for i j k l x y
  proof -
    from pool_answer [OF ok] that obtain p where p: "bound_to (snd d) k p" "rs_body x = proposal_identifiers p" by blast
    from pool_answer [OF ok] that obtain r where r: "bound_to (snd d) l r" "rs_body y = proposal_identifiers r" by blast
    from p r bound_to_inj [OF p(1) r(1)] show ?thesis by auto
  qed
  ultimately show ?thesis by blast
qed

theorem concurrent_gateway_witness:
  "result_of race_end 0 = Some (Inr (json_response 200 (identifiers (lit ''p'') (lit ''h'') 15))) \<and>
   result_of race_end 1 = result_of race_end 0 \<and> stores_ok (\<lambda>b. lit ''h'') (snd race_end) \<and> w_sent (snd race_end) = [] \<and>
   (\<exists>p. bound_to (snd race_end) (lit ''k'') p \<and> proposal_identifiers p = identifiers (lit ''p'') (lit ''h'') 15)"
proof -
  obtain tr where tr: "pool_steps tr race_pool race_end"
    using pool_run_steps unfolding race_end_def by blast
  note all = concurrent_gateway [OF race_ok race_server_def tr [unfolded race_pool_def]]
  have r: "result_of race_end 0 = Some (Inr (json_response 200 (identifiers (lit ''p'') (lit ''h'') 15)))"
    "result_of race_end 1 = result_of race_end 0"
    using race_results by simp_all
  have "asked_key race_server ([seed_request, seed_request] ! 0) = Some (lit ''k'')" by (simp add: race_asked)
  with all r(1) have "\<exists>p. bound_to (snd race_end) (lit ''k'') p \<and>
      rs_body (json_response 200 (identifiers (lit ''p'') (lit ''h'') 15)) = proposal_identifiers p"
    using error_status(3) by blast
  then have "\<exists>p. bound_to (snd race_end) (lit ''k'') p \<and> proposal_identifiers p = identifiers (lit ''p'') (lit ''h'') 15"
    by (simp add: json_response_def) metis
  moreover have "w_sent race_world = []" by (simp add: race_world_def)
  ultimately show ?thesis using all r by simp
qed

end
