(* ===== verification/Store_Files.thy ===== *)
theory Store_Files
  imports Entry_Points
begin

text \<open>
  The files of the gateway: the layout of \<open>gateway/paths.py\<close>, opening and closing in
  \<open>gateway/persistence.py\<close>, and the commands of \<open>gateway/send_cli.py\<close>,
  \<open>gateway/seed_proposal.py\<close> and \<open>gateway/entrypoint.py\<close> as they open their stores, work on them and
  close them again.  What a file system grants when it is asked for durability is a
  parameter (\<open>filesystem\<close>); which handles are open and which library calls will
  fail is part of the state (\<open>host\<close>).  The theories of the stores start where the opening ends.
\<close>

subsection \<open>The layout\<close>

text \<open>\<open>str(Path(root) / ...)\<close> on a POSIX system: empty and \<open>.\<close> components vanish, two leading slashes stay two.\<close>

definition path_names :: "pystr \<Rightarrow> pystr list" where
  "path_names s = filter (\<lambda>p. p \<noteq> [] \<and> p \<noteq> [46]) (split_on 47 s)"

definition path_anchor :: "pystr \<Rightarrow> pystr" where
  "path_anchor s = (if take 2 s = [47, 47] \<and> take 3 s \<noteq> [47, 47, 47] then [47, 47] else if take 1 s = [47] then [47] else [])"

definition path_under :: "pystr \<Rightarrow> pystr list \<Rightarrow> pystr" where
  "path_under base names = path_anchor base @ join [47] (path_names base @ names)"

definition proposals_path :: "pystr \<Rightarrow> pystr" where
  "proposals_path base = path_under base [lit ''proposals'', lit ''proposals.db'']"

definition payloads_path :: "pystr \<Rightarrow> pystr" where
  "payloads_path base = path_under base [lit ''proposals'', lit ''payloads.db'']"

definition audit_path :: "pystr \<Rightarrow> pystr" where
  "audit_path base = path_under base [lit ''audit'', lit ''audit.db'']"

definition token_path :: "pystr \<Rightarrow> pystr" where
  "token_path base = path_under base [lit ''token'', lit ''token.db'']"

definition client_bundle_path :: "pystr \<Rightarrow> pystr" where
  "client_bundle_path base = path_under base [lit ''client'', lit ''client.json'']"

subsection \<open>Opening and closing\<close>

text \<open>What \<open>PRAGMA journal_mode=WAL\<close> answers for a file, and what \<open>PRAGMA synchronous\<close> then reads back.\<close>

record filesystem =
  fs_journal :: "pystr \<Rightarrow> pystr"
  fs_synchronous :: "pystr \<Rightarrow> int"

record 'w host =
  ho_world :: 'w
  ho_open :: "pystr list"
  ho_faults :: "bool list"

text \<open>A call of the library: it raises when the schedule says so.\<close>

definition host_call :: "exn \<Rightarrow> ('w host, unit) pm" where
  "host_call e s = (case ho_faults s of
     [] \<Rightarrow> (Inr (), s)
   | b # bs \<Rightarrow> ((if b then Inl e else Inr ()), s\<lparr>ho_faults := bs\<rparr>))"

definition handle_opened :: "pystr \<Rightarrow> ('w host, unit) pm" where
  "handle_opened p s = (Inr (), s\<lparr>ho_open := p # ho_open s\<rparr>)"

definition conn_close :: "pystr \<Rightarrow> ('w host, unit) pm" where
  "conn_close p = pbind (host_call (Db OperationalError)) (\<lambda>_ s. (Inr (), s\<lparr>ho_open := remove1 p (ho_open s)\<rparr>))"

definition durable :: "filesystem \<Rightarrow> pystr \<Rightarrow> bool" where
  "durable F p \<longleftrightarrow> lower_ascii (fs_journal F p) = lit ''wal'' \<and> 2 \<le> fs_synchronous F p"

text \<open>\<open>_connect\<close>: the directory, the connection, three PRAGMA calls, and the check of what they read back.\<close>

definition sqlite_connect :: "filesystem \<Rightarrow> pystr \<Rightarrow> ('w host, unit) pm" where
  "sqlite_connect F p =
     pbind (host_call (Py OSError)) (\<lambda>_.
     pbind (host_call (Db OperationalError)) (\<lambda>_.
     pbind (handle_opened p) (\<lambda>_.
     pbind (host_call (Db OperationalError)) (\<lambda>_.
     pbind (host_call (Db OperationalError)) (\<lambda>_.
     pbind (host_call (Db OperationalError)) (\<lambda>_.
     if lower_ascii (fs_journal F p) \<noteq> lit ''wal'' \<or> fs_synchronous F p < 2
     then pbind (conn_close p) (\<lambda>_. praise (Py RuntimeError))
     else preturn ()))))))"

text \<open>A store: its file, and what a new connection to it does to the model's state of the store.\<close>

record 'w store_file =
  sf_path :: pystr
  sf_connected :: "'w \<Rightarrow> 'w"

text \<open>A new connection has no transaction and was not evicted; the committed rows are the file's.\<close>

definition fresh_connection :: "'r sqlite \<Rightarrow> 'r sqlite" where
  "fresh_connection s = s\<lparr>sq_pending := None, sq_broken := False\<rparr>"

text \<open>\<open>SqliteKV.__init__\<close> and \<open>SqliteAppendLog.__init__\<close>: connect, create the table if it is missing, commit.\<close>

definition store_init :: "filesystem \<Rightarrow> 'w store_file \<Rightarrow> ('w host, unit) pm" where
  "store_init F f =
     pbind (sqlite_connect F (sf_path f)) (\<lambda>_.
     pbind (host_call (Db OperationalError)) (\<lambda>_.
     pbind (host_call (Db OperationalError)) (\<lambda>_ s.
     (Inr (), s\<lparr>ho_world := sf_connected f (ho_world s)\<rparr>))))"

fun open_stores :: "filesystem \<Rightarrow> 'w store_file list \<Rightarrow> ('w host, unit) pm" where
  "open_stores F [] = preturn ()"
| "open_stores F (f # fs) = pbind (store_init F f) (\<lambda>_. open_stores F fs)"

text \<open>\<open>for backend in ...: backend.close()\<close>: a close that raises ends the loop.\<close>

fun close_stores :: "'w store_file list \<Rightarrow> ('w host, unit) pm" where
  "close_stores [] = preturn ()"
| "close_stores (f # fs) = pbind (conn_close (sf_path f)) (\<lambda>_. close_stores fs)"

text \<open>The stores are opened before the \<open>try\<close>, and closed in its \<open>finally\<close>.\<close>

definition with_stores :: "filesystem \<Rightarrow> 'w store_file list \<Rightarrow> ('w host, 'a) pm \<Rightarrow> ('w host, 'a) pm" where
  "with_stores F fs body = pbind (open_stores F fs) (\<lambda>_. pfinally body (close_stores fs))"

definition in_world :: "('w, 'a) pm \<Rightarrow> ('w host, 'a) pm" where
  "in_world m s = (case m (ho_world s) of (r, w) \<Rightarrow> (r, s\<lparr>ho_world := w\<rparr>))"

subsection \<open>The commands\<close>

definition proposals_file :: "pystr \<Rightarrow> 'e world store_file" where
  "proposals_file base = \<lparr>sf_path = proposals_path base,
     sf_connected = \<lambda>w. w\<lparr>w_proposals := fresh_connection (w_proposals w)\<rparr>\<rparr>"

definition payloads_file :: "pystr \<Rightarrow> 'e world store_file" where
  "payloads_file base = \<lparr>sf_path = payloads_path base,
     sf_connected = \<lambda>w. w\<lparr>w_payloads := fresh_connection (w_payloads w)\<rparr>\<rparr>"

definition audit_file :: "pystr \<Rightarrow> 'e world store_file" where
  "audit_file base = \<lparr>sf_path = audit_path base,
     sf_connected = \<lambda>w. w\<lparr>w_audit := fresh_connection (w_audit w)\<rparr>\<rparr>"

definition reconnect_tokens :: "'k outbound \<Rightarrow> 'k outbound" where
  "reconnect_tokens e = put_tokens (put_kv (fresh_connection (te_kv (ob_tokens e))) (ob_tokens e)) e"

definition token_file :: "pystr \<Rightarrow> 'k outbound world store_file" where
  "token_file base = \<lparr>sf_path = token_path base,
     sf_connected = \<lambda>w. w\<lparr>w_env := reconnect_tokens (w_env w)\<rparr>\<rparr>"

definition send_files :: "pystr \<Rightarrow> 'k outbound world store_file list" where
  "send_files base = [proposals_file base, payloads_file base, token_file base, audit_file base]"

definition send_command ::
  "filesystem \<Rightarrow> pystr \<Rightarrow> 'u url_splitter \<Rightarrow> 'k token_store \<Rightarrow> 'm email \<Rightarrow> (bytes \<Rightarrow> pystr) \<Rightarrow> pystr \<Rightarrow>
   ('k outbound world host, pystr) pm" where
  "send_command F base urlsplit T M sha pid =
     with_stores F (send_files base) (in_world (run_send urlsplit T M sha pid))"

definition proposal_files :: "pystr \<Rightarrow> 'e world store_file list" where
  "proposal_files base = [proposals_file base, payloads_file base]"

definition seed_command ::
  "filesystem \<Rightarrow> pystr \<Rightarrow> (bytes \<Rightarrow> pystr) \<Rightarrow> 'e stdlib \<Rightarrow> dict \<Rightarrow> int \<Rightarrow> ('e world host, dict) pm" where
  "seed_command F base H E params ttl = with_stores F (proposal_files base) (in_world (run_seed H E params ttl))"

text \<open>\<open>main\<close> of the entry point: \<open>build_server\<close> opens the stores and binds the socket, the ready line is written,
  and only then the \<open>try\<close> begins.  The socket is a handle as well.\<close>

definition socket_handle :: pystr where
  "socket_handle = lit ''socket''"

definition gateway_serve ::
  "(bytes \<Rightarrow> pystr) \<Rightarrow> 'e world server \<Rightarrow> int \<Rightarrow> request list \<Rightarrow> ('e world host, int \<times> pystr \<times> response option list) pm" where
  "gateway_serve H V port rqs s = (case serve_forever H V rqs (ho_world s) of
     (rs, w) \<Rightarrow> (Inr (0, ready_text port, rs), s\<lparr>ho_world := w\<rparr>))"

definition gateway_command ::
  "filesystem \<Rightarrow> pystr \<Rightarrow> (bytes \<Rightarrow> pystr) \<Rightarrow> 'e stdlib \<Rightarrow> (pystr \<Rightarrow> pystr res) \<Rightarrow> (bytes \<Rightarrow> pyval res) \<Rightarrow> entry_args \<Rightarrow>
   pystr option \<Rightarrow> int \<Rightarrow> request list \<Rightarrow> ('e world host, int \<times> pystr \<times> response option list) pm" where
  "gateway_command F base H E urlsplit loads A bearer port rqs =
     (if bearer = None \<or> bearer = Some [] then preturn (2, [], [])
      else pbind (open_stores F (proposal_files base)) (\<lambda>_.
        pbind (host_call (Py OSError)) (\<lambda>_.
        pbind (handle_opened socket_handle) (\<lambda>_.
        pbind (host_call (Py OSError)) (\<lambda>_.
        pfinally (gateway_serve H
            (build_server E (the bearer) (ea_ttl_seconds A) (ea_message_id_domain A) urlsplit loads) port rqs)
          (pbind (conn_close socket_handle) (\<lambda>_. close_stores (proposal_files base))))))))"

subsection \<open>The layout is unambiguous\<close>

lemma split_on_nonempty: "split_on c s \<noteq> []"
  by (cases s) (simp_all split: list.split)

lemma join_append: "xs \<noteq> [] \<Longrightarrow> ys \<noteq> [] \<Longrightarrow> join sep (xs @ ys) = join sep xs @ sep @ join sep ys"
proof (induction xs)
  case (Cons x xs)
  then show ?case by (cases xs; cases ys) simp_all
qed simp

lemma path_under_eq:
  assumes "a \<noteq> []" "b \<noteq> []"
  shows "path_under base a = path_under base b \<longleftrightarrow> join [47] a = join [47] b"
  using assms by (cases "path_names base = []") (simp_all add: path_under_def join_append)

lemmas path_defs = proposals_path_def payloads_path_def audit_path_def token_path_def client_bundle_path_def

lemma layout_distinct:
  "distinct [proposals_path base, payloads_path base, audit_path base, token_path base, client_bundle_path base]"
  by (simp add: path_defs path_under_eq) (simp add: lit_def)

lemma split_on_append: "split_on c (s @ [c]) = split_on c s @ [[]]"
  by (induction s) (simp_all add: split_on_nonempty split: list.split)

lemma path_names_slash: "path_names (s @ [47]) = path_names s" "path_names (46 # 47 # s) = path_names s"
  by (simp_all add: path_names_def split_on_append)

text \<open>Relative data roots that differ by a leading \<open>./\<close> or a trailing slash name the same files.\<close>

lemma path_under_spelling:
  assumes "take 1 base \<noteq> [47]"
  shows "path_under (lit ''./'' @ base) names = path_under base names"
    and "base \<noteq> [] \<Longrightarrow> path_under (base @ lit ''/'') names = path_under base names"
proof -
  have a: "path_anchor base = []"
    using assms by (cases base; cases "tl base") (auto simp: path_anchor_def)
  moreover have "path_anchor (46 # 47 # base) = []" by (simp add: path_anchor_def)
  ultimately show "path_under (lit ''./'' @ base) names = path_under base names"
    by (simp add: path_under_def lit_def path_names_slash)
  show "path_under (base @ lit ''/'') names = path_under base names" if "base \<noteq> []"
  proof -
    have "path_anchor (base @ [47]) = []"
      using assms that by (cases base; cases "tl base") (auto simp: path_anchor_def)
    with a show ?thesis by (simp add: path_under_def lit_def path_names_slash)
  qed
qed

text \<open>\<open>run_authorize\<close> opens the token database only to seal: the consent and the key come first.\<close>

definition token_db_file :: "pystr \<Rightarrow> 'k outbound store_file" where
  "token_db_file base = \<lparr>sf_path = token_path base, sf_connected = reconnect_tokens\<rparr>"

definition authorize_command ::
  "filesystem \<Rightarrow> pystr \<Rightarrow> 'k authorizer \<Rightarrow> pystr \<Rightarrow> pystr option \<Rightarrow> ('k outbound host, authorize_summary) pm" where
  "authorize_command F base A client_id client_secret =
     pbind (in_world (au_flow A client_id client_secret)) (\<lambda>result.
     pbind (in_world (case tr_received_at result of Some n \<Rightarrow> preturn n | None \<Rightarrow> read_clock)) (\<lambda>issued_at.
     pbind (in_world (lift_tokens (lift_pm te_keys put_keys
       (ensure_dek (ci_get_dek (ts_cipher (au_store A))) (au_provision A))))) (\<lambda>_.
     pbind (with_stores F [token_db_file base]
       (in_world (lift_tokens (tokens_store (au_store A) (authorized_fields result issued_at client_id client_secret))))) (\<lambda>_.
     preturn \<lparr>as_scope = tr_scope result, as_expires_in = tr_expires_in result,
       as_has_refresh_token = (tr_refresh_token result \<noteq> PNone)\<rparr>))))"

subsection \<open>Opening\<close>

lemma host_call_step:
  "host_call e s = (r, t) \<Longrightarrow> ho_world t = ho_world s \<and> ho_open t = ho_open s \<and> (r = Inr () \<or> r = Inl e)"
  by (auto simp: host_call_def split: list.splits if_splits)

lemma host_call_calm: "ho_faults s = [] \<Longrightarrow> host_call e s = (Inr (), s)"
  by (simp add: host_call_def)

lemma keeps_host_call: "keeps ho_world (host_call e)"
  by (auto simp: keeps_def dest: host_call_step)

lemma keeps_handles: "keeps ho_world (handle_opened p)" "keeps ho_world (conn_close p)"
  by (auto simp: keeps_def handle_opened_def conn_close_def pbind_def dest!: host_call_step split: prod.splits sum.splits)

lemma keeps_connect: "keeps ho_world (sqlite_connect F p)"
  unfolding sqlite_connect_def
  by (intro keeps_pbind keeps_host_call keeps_handles) (auto intro!: keeps_pbind keeps_handles simp: keeps_pure)

lemma keeps_part: "keeps g m \<Longrightarrow> keeps (\<lambda>s. c (g s)) m"
  unfolding keeps_def by metis

lemma connect_durable:
  assumes "sqlite_connect F p s = (Inr (), t)"
  shows "durable F p"
proof (rule ccontr)
  assume "\<not> durable F p"
  then have "lower_ascii (fs_journal F p) \<noteq> lit ''wal'' \<or> fs_synchronous F p < 2" by (auto simp: durable_def)
  with assms show False by (simp add: sqlite_connect_def pm_inv)
qed

text \<open>Whatever fails: nothing stored changes, and the opening returns only for durable files.\<close>

lemma open_stores_step:
  assumes "open_stores F fs s = (r, t)" "\<And>f w. f \<in> set fs \<Longrightarrow> c (sf_connected f w) = c w"
  shows "c (ho_world t) = c (ho_world s) \<and> (r = Inr () \<longrightarrow> (\<forall>f \<in> set fs. durable F (sf_path f)))"
  using assms
proof (induction fs arbitrary: s)
  case (Cons f fs)
  obtain q u where q: "store_init F f s = (q, u)" by fastforce
  have "keeps (\<lambda>s. c (ho_world s)) (store_init F f)"
    unfolding store_init_def
    by (intro keeps_pbind keeps_part [OF keeps_connect] keeps_part [OF keeps_host_call])
      (simp add: keeps_def Cons.prems(2))
  from keepsD [OF this q] have u: "c (ho_world u) = c (ho_world s)" .
  show ?case
  proof (cases q)
    case (Inl e)
    with Cons.prems(1) q u show ?thesis by (auto simp: pbind_raises)
  next
    case (Inr x)
    with Cons.prems(1) q have "open_stores F fs u = (r, t)" by (simp add: pbind_returns)
    from Cons.IH [OF this] Cons.prems(2) have "c (ho_world t) = c (ho_world u) \<and> (r = Inr () \<longrightarrow> (\<forall>f \<in> set fs. durable F (sf_path f)))"
      by simp
    moreover have "durable F (sf_path f)"
      using q Inr connect_durable by (auto simp: store_init_def pbind_def split: prod.splits sum.splits)
    ultimately show ?thesis using u by simp
  qed
qed simp

lemma with_stores_refused:
  assumes "with_stores F fs body s = (r, t)" "f \<in> set fs" "\<not> durable F (sf_path f)"
    and "\<And>f w. f \<in> set fs \<Longrightarrow> c (sf_connected f w) = c w"
  shows "(\<exists>e. r = Inl e) \<and> c (ho_world t) = c (ho_world s)"
proof -
  obtain q u where q: "open_stores F fs s = (q, u)" by fastforce
  from open_stores_step [OF q assms(4)] assms(2,3) have u: "c (ho_world u) = c (ho_world s)" "q \<noteq> Inr ()" by auto
  then obtain e where "q = Inl e" by (cases q) auto
  with assms(1) q u show ?thesis by (auto simp: with_stores_def pbind_raises)
qed

text \<open>Without failures of the library: the opening stops at the first file that is not durable.\<close>

definition stores_opened :: "'w store_file list \<Rightarrow> 'w host \<Rightarrow> 'w host" where
  "stores_opened fs s = s\<lparr>ho_open := rev (map sf_path fs) @ ho_open s, ho_world := fold sf_connected fs (ho_world s)\<rparr>"

lemma stores_opened_simps [simp]:
  "stores_opened [] s = s" "stores_opened fs (stores_opened [f] s) = stores_opened (f # fs) s"
  "ho_faults (stores_opened fs s) = ho_faults s" "ho_world (stores_opened fs s) = fold sf_connected fs (ho_world s)"
  by (simp_all add: stores_opened_def)

lemma store_init_calm:
  assumes "ho_faults s = []"
  shows "store_init F f s = (if durable F (sf_path f) then (Inr (), stores_opened [f] s) else (Inl (Py RuntimeError), s))"
  using assms
  by (auto simp: store_init_def sqlite_connect_def conn_close_def handle_opened_def pbind_def host_call_def durable_def
      stores_opened_def preturn_def praise_def)

lemma open_stores_calm:
  assumes "ho_faults s = []"
  shows "open_stores F fs s = (if \<forall>f \<in> set fs. durable F (sf_path f) then (Inr (), stores_opened fs s)
    else (Inl (Py RuntimeError), stores_opened (takeWhile (\<lambda>f. durable F (sf_path f)) fs) s))"
  using assms
proof (induction fs arbitrary: s)
  case (Cons f fs)
  then show ?case by (simp add: pbind_def store_init_calm)
qed simp

lemma close_stores_calm:
  assumes "ho_faults s = []" "distinct (map sf_path fs)" "ho_open s = rev (map sf_path fs) @ xs"
  shows "close_stores fs s = (Inr (), s\<lparr>ho_open := xs\<rparr>)"
  using assms
proof (induction fs arbitrary: s)
  case (Cons f fs)
  have "remove1 (sf_path f) (ho_open s) = rev (map sf_path fs) @ xs"
    using Cons.prems(2,3) by (simp add: remove1_append)
  moreover have "conn_close (sf_path f) s = (Inr (), s\<lparr>ho_open := remove1 (sf_path f) (ho_open s)\<rparr>)"
    using Cons.prems(1) by (simp add: conn_close_def pbind_def host_call_def)
  ultimately show ?case
    using Cons.IH [of "s\<lparr>ho_open := rev (map sf_path fs) @ xs\<rparr>"] Cons.prems by (simp add: pbind_def)
qed simp

lemma with_stores_calm:
  assumes "ho_faults s = []" "distinct (map sf_path fs)"
  shows "with_stores F fs (in_world m) s =
    (if \<forall>f \<in> set fs. durable F (sf_path f)
     then case m (fold sf_connected fs (ho_world s)) of (r, w) \<Rightarrow> (r, s\<lparr>ho_world := w\<rparr>)
     else (Inl (Py RuntimeError), stores_opened (takeWhile (\<lambda>f. durable F (sf_path f)) fs) s))"
proof (cases "\<forall>f \<in> set fs. durable F (sf_path f)")
  case True
  obtain r w where m: "m (fold sf_connected fs (ho_world s)) = (r, w)" by fastforce
  have "close_stores fs ((stores_opened fs s)\<lparr>ho_world := w\<rparr>) = (Inr (), s\<lparr>ho_world := w\<rparr>)"
    using close_stores_calm [of "(stores_opened fs s)\<lparr>ho_world := w\<rparr>" fs "ho_open s"] assms
    by (simp add: stores_opened_def)
  with True m show ?thesis
    using open_stores_calm [OF assms(1), of F fs]
    by (simp add: with_stores_def pbind_def pfinally_def in_world_def)
next
  case False
  then show ?thesis
    unfolding if_not_P [OF False] using open_stores_calm [OF assms(1), of F fs]
    by (simp only: with_stores_def pbind_raises if_False)
qed

text \<open>Authorizing opens the token database after the consent: where it is not durable, a run that would have succeeded raises
  after the same exchange with the provider, and what was granted is lost.\<close>

lemma late_open_drops_tokens:
  assumes "ho_faults s = []" "\<not> durable F (token_path base)"
    and "run_authorize A client_id client_secret (ho_world s) = (Inr summary, w)"
  shows "\<exists>t. authorize_command F base A client_id client_secret s = (Inl (Py RuntimeError), t) \<and>
    ho_open t = ho_open s \<and> ob_wire (ho_world t) = ob_wire w"
proof -
  from assms(3) obtain result u n v x where
    u: "au_flow A client_id client_secret (ho_world s) = (Inr result, u)"
    and v: "(case tr_received_at result of Some n \<Rightarrow> preturn n | None \<Rightarrow> read_clock) u = (Inr n, v)"
    and x: "lift_tokens (lift_pm te_keys put_keys (ensure_dek (ci_get_dek (ts_cipher (au_store A))) (au_provision A))) v = (Inr (), x)"
    and w: "lift_tokens (tokens_store (au_store A) (authorized_fields result n client_id client_secret)) x = (Inr (), w)"
    by (auto simp: run_authorize_def pm_inv)
  have "with_stores F [token_db_file base] (in_world (lift_tokens (tokens_store (au_store A)
      (authorized_fields result n client_id client_secret)))) (s\<lparr>ho_world := x\<rparr>) = (Inl (Py RuntimeError), s\<lparr>ho_world := x\<rparr>)"
    using assms(1,2) by (subst with_stores_calm) (simp_all add: token_db_file_def)
  then have "authorize_command F base A client_id client_secret s = (Inl (Py RuntimeError), s\<lparr>ho_world := x\<rparr>)"
    using u v x by (simp add: authorize_command_def pbind_def in_world_def)
  moreover have "ob_wire x = ob_wire w"
    using keepsD [OF lift_tokens_wire w] by simp
  ultimately show ?thesis by simp
qed

subsection \<open>Properties\<close>

text \<open>What the stores hold durably and what has left the machine.\<close>

definition contents :: "'e world \<Rightarrow> kv_rows \<times> kv_rows \<times> dict list \<times> pystr list" where
  "contents w = (sq_committed (w_proposals w), sq_committed (w_payloads w), sq_committed (w_audit w), w_sent w)"

definition outside_contents :: "'k outbound world \<Rightarrow> kv_rows \<times> 'k \<times> (http_request \<times> (int \<times> bytes) res) list" where
  "outside_contents w = (sq_committed (te_kv (ob_tokens (w_env w))), te_keys (ob_tokens (w_env w)), ob_wire (w_env w))"

lemma connected_contents:
  "contents (sf_connected (proposals_file base) w) = contents w"
  "contents (sf_connected (payloads_file base) w) = contents w"
  "contents (sf_connected (audit_file base) w) = contents w"
  "contents (sf_connected (token_file base) v) = contents v"
  by (simp_all add: contents_def proposals_file_def payloads_file_def audit_file_def token_file_def fresh_connection_def)

lemma connected_outside:
  "outside_contents (sf_connected (proposals_file base) w) = outside_contents w"
  "outside_contents (sf_connected (payloads_file base) w) = outside_contents w"
  "outside_contents (sf_connected (audit_file base) w) = outside_contents w"
  "outside_contents (sf_connected (token_file base) w) = outside_contents w"
  by (simp_all add: outside_contents_def proposals_file_def payloads_file_def audit_file_def token_file_def
      reconnect_tokens_def put_tokens_def put_kv_def fresh_connection_def)

lemma file_paths [simp]:
  "sf_path (proposals_file base) = proposals_path base" "sf_path (payloads_file base) = payloads_path base"
  "sf_path (audit_file base) = audit_path base" "sf_path (token_file base) = token_path base"
  by (simp_all add: proposals_file_def payloads_file_def audit_file_def token_file_def)

text \<open>A disk that grants WAL everywhere but where the audit ledger lies, such as a network mount.\<close>

definition sample_filesystem :: filesystem where
  "sample_filesystem = \<lparr>fs_journal = \<lambda>p. if p = lit ''d/audit/audit.db'' then lit ''delete'' else lit ''WAL'',
     fs_synchronous = \<lambda>_. 2\<rparr>"

definition sample_host :: "'w \<Rightarrow> 'w host" where
  "sample_host w = \<lparr>ho_world = w, ho_open = [], ho_faults = []\<rparr>"

lemma sample_paths:
  "proposals_path (lit ''d'') = lit ''d/proposals/proposals.db''" "payloads_path (lit ''d'') = lit ''d/proposals/payloads.db''"
  "token_path (lit ''d'') = lit ''d/token/token.db''" "audit_path (lit ''d'') = lit ''d/audit/audit.db''"
  by code_simp+

lemma sample_durable:
  "durable sample_filesystem (proposals_path (lit ''d''))" "durable sample_filesystem (payloads_path (lit ''d''))"
  "durable sample_filesystem (token_path (lit ''d''))" "\<not> durable sample_filesystem (audit_path (lit ''d''))"
  by code_simp+

text \<open>
  C28. Durability or nothing: when one of the four files of the send command cannot be opened in WAL mode with
  full synchronisation, the command raises, whatever else fails, before anything is confirmed, logged, refreshed
  or sent: no stored row, no key and no request on the wire changes.
\<close>

theorem send_durable_or_nothing:
  fixes s :: "'k outbound world host"
  assumes "send_command F base urlsplit T M sha pid s = (r, t)"
    and "p \<in> {proposals_path base, payloads_path base, token_path base, audit_path base}" and "\<not> durable F p"
  shows "(\<exists>e. r = Inl e) \<and> contents (ho_world t) = contents (ho_world s) \<and>
    outside_contents (ho_world t) = outside_contents (ho_world s)"
proof -
  have "p \<in> sf_path ` set (send_files base :: 'k outbound world store_file list)"
    using assms(2) by (simp add: send_files_def insert_commute)
  with assms(3) obtain f :: "'k outbound world store_file" where f: "f \<in> set (send_files base)" "\<not> durable F (sf_path f)"
    by blast
  note run = assms(1) [unfolded send_command_def]
  have c: "contents (sf_connected g w) = contents w" if "g \<in> set (send_files base)" for g and w :: "'k outbound world"
    using that unfolding send_files_def by (auto simp: connected_contents)
  have out: "outside_contents (sf_connected g w) = outside_contents w" if "g \<in> set (send_files base)" for g and w :: "'k outbound world"
    using that unfolding send_files_def by (auto simp: connected_outside)
  from with_stores_refused [OF run f c] with_stores_refused [OF run f out] show ?thesis by blast
qed

theorem send_durable_or_nothing_witness:
  "\<exists>v e t. send_command sample_filesystem (lit ''d'') gmail_split mail_codec line_email id (lit ''p1'')
       (sample_host (mail_world v)) = (Inl e, t) \<and> contents (ho_world t) = contents (mail_world v) \<and>
     outside_contents (ho_world t) = outside_contents (mail_world v)"
proof -
  obtain v :: "unit token_env" where True by simp
  obtain r t where t: "send_command sample_filesystem (lit ''d'') gmail_split mail_codec line_email id (lit ''p1'')
    (sample_host (mail_world v)) = (r, t)" by fastforce
  from send_durable_or_nothing [OF t _ sample_durable(4)] t show ?thesis
    by (auto simp: sample_host_def)
qed

text \<open>
  C29. The handles of the send command, when no call of the library fails: with four durable files it does what
  \<open>run_send\<close> does on freshly connected stores and leaves exactly the handles open that were open before, whether
  it returns or raises; otherwise it raises, and the files before the first one that is not durable stay open.
\<close>

theorem send_handles:
  fixes s :: "'k outbound world host"
  assumes "ho_faults s = []"
  shows "send_command F base urlsplit T M sha pid s =
    (if durable F (proposals_path base) \<and> durable F (payloads_path base) \<and> durable F (token_path base) \<and> durable F (audit_path base)
     then case run_send urlsplit T M sha pid (fold sf_connected (send_files base) (ho_world s)) of
       (r, w) \<Rightarrow> (r, s\<lparr>ho_world := w\<rparr>)
     else (Inl (Py RuntimeError), stores_opened (takeWhile (\<lambda>f. durable F (sf_path f)) (send_files base)) s))"
proof -
  have "distinct (map sf_path (send_files base :: 'k outbound world store_file list))"
    using layout_distinct [of base] by (auto simp: send_files_def)
  moreover have "(\<forall>f \<in> set (send_files base :: 'k outbound world store_file list). durable F (sf_path f)) =
      (durable F (proposals_path base) \<and> durable F (payloads_path base) \<and> durable F (token_path base) \<and> durable F (audit_path base))"
    by (simp add: send_files_def)
  ultimately show ?thesis
    using with_stores_calm [OF assms, of "send_files base" F "run_send urlsplit T M sha pid"] by (simp only: send_command_def)
qed

theorem send_handles_witness:
  "\<exists>v t. send_command sample_filesystem (lit ''d'') gmail_split mail_codec line_email id (lit ''p1'')
       (sample_host (mail_world v)) = (Inl (Py RuntimeError), t) \<and>
     ho_open t = [lit ''d/token/token.db'', lit ''d/proposals/payloads.db'', lit ''d/proposals/proposals.db'']"
proof -
  obtain v :: "unit token_env" where True by simp
  have "ho_faults (sample_host (mail_world v)) = []" by (simp add: sample_host_def)
  from send_handles [OF this, of sample_filesystem "lit ''d''" gmail_split mail_codec line_email id "lit ''p1''"]
  have "send_command sample_filesystem (lit ''d'') gmail_split mail_codec line_email id (lit ''p1'') (sample_host (mail_world v)) =
    (Inl (Py RuntimeError), stores_opened [proposals_file (lit ''d''), payloads_file (lit ''d''), token_file (lit ''d'')] (sample_host (mail_world v)))"
    by (simp add: sample_durable send_files_def)
  moreover have "ho_open (stores_opened [proposals_file (lit ''d''), payloads_file (lit ''d''), token_file (lit ''d'')] (sample_host (mail_world v))) =
    [lit ''d/token/token.db'', lit ''d/proposals/payloads.db'', lit ''d/proposals/proposals.db'']"
    by (simp add: stores_opened_def sample_host_def sample_paths)
  ultimately show ?thesis by blast
qed

text \<open>
  C30. The entry point on its files, when no call of the library fails: without a bearer it exits with 2 and opens nothing; with
  a bearer and two durable files it answers exactly as the model of the server on freshly connected stores, and closes the socket
  and both stores; with a file that is not durable it raises before it prints its ready line or answers a request, and the
  file opened before that one stays open.
\<close>

theorem gateway_files:
  assumes "ho_faults s = []"
  shows "gateway_command F base H E split loads A bearer port rqs s =
    (if bearer = None \<or> bearer = Some [] then (Inr (2, [], []), s)
     else if durable F (proposals_path base) \<and> durable F (payloads_path base)
     then case entrypoint_main H E split loads A bearer port rqs (fold sf_connected (proposal_files base) (ho_world s)) of
       (x, w) \<Rightarrow> (Inr x, s\<lparr>ho_world := w\<rparr>)
     else (Inl (Py RuntimeError), stores_opened (takeWhile (\<lambda>f. durable F (sf_path f)) (proposal_files base)) s))"
proof (cases "bearer = None \<or> bearer = Some []")
  case True
  then show ?thesis by (auto simp: gateway_command_def preturn_def)
next
  case bearer: False
  have all: "(\<forall>f \<in> set (proposal_files base). durable F (sf_path f)) \<longleftrightarrow> durable F (proposals_path base) \<and> durable F (payloads_path base)"
    by (simp add: proposal_files_def)
  note opened = open_stores_calm [OF assms(1), of F "proposal_files base", unfolded all]
  show ?thesis
  proof (cases "durable F (proposals_path base) \<and> durable F (payloads_path base)")
    case False
    then have "open_stores F (proposal_files base) s =
        (Inl (Py RuntimeError), stores_opened (takeWhile (\<lambda>f. durable F (sf_path f)) (proposal_files base)) s)"
      unfolding opened by simp
    with bearer False show ?thesis by (auto simp: gateway_command_def pbind_raises)
  next
    case True
    let ?V = "build_server E (the bearer) (ea_ttl_seconds A) (ea_message_id_domain A) split loads"
    let ?s = "(stores_opened (proposal_files base) s)\<lparr>ho_open := socket_handle # ho_open (stores_opened (proposal_files base) s)\<rparr>"
    obtain rs w where x: "serve_forever H ?V rqs (fold sf_connected (proposal_files base) (ho_world s)) = (rs, w)" by fastforce
    have o: "open_stores F (proposal_files base) s = (Inr (), stores_opened (proposal_files base) s)"
      using True unfolding opened by simp
    have d: "distinct (map sf_path (proposal_files base))"
      using layout_distinct [of base] by (simp add: proposal_files_def)
    have c: "close_stores (proposal_files base) ((stores_opened (proposal_files base) s)\<lparr>ho_world := w\<rparr>) = (Inr (), s\<lparr>ho_world := w\<rparr>)"
      using close_stores_calm [OF _ d, of "(stores_opened (proposal_files base) s)\<lparr>ho_world := w\<rparr>" "ho_open s"] assms(1)
      by (simp add: stores_opened_def)
    have serve: "gateway_serve H ?V port rqs ?s = (Inr (0, ready_text port, rs), ?s\<lparr>ho_world := w\<rparr>)"
      using x by (simp add: gateway_serve_def)
    have close: "conn_close socket_handle (?s\<lparr>ho_world := w\<rparr>) = (Inr (), (stores_opened (proposal_files base) s)\<lparr>ho_world := w\<rparr>)"
      using assms(1) by (simp add: conn_close_def pbind_def host_call_def stores_opened_def)
    show ?thesis
      using bearer True o serve close c assms(1) x
      by (auto simp: gateway_command_def entrypoint_main_def pbind_def host_call_calm handle_opened_def pfinally_def)
  qed
qed

text \<open>A disk that grants the payloads no full synchronisation.\<close>

definition slack_filesystem :: filesystem where
  "slack_filesystem = sample_filesystem\<lparr>fs_synchronous := \<lambda>p. if p = lit ''d/proposals/payloads.db'' then 1 else 2\<rparr>"

lemma slack_durable:
  "durable slack_filesystem (proposals_path (lit ''d''))" "\<not> durable slack_filesystem (payloads_path (lit ''d''))"
  by code_simp+

theorem gateway_files_witness:
  "(\<exists>rs (w :: unit world). gateway_command sample_filesystem (lit ''d'') (\<lambda>b. lit ''h'') sample_stdlib Inr (\<lambda>_. Inr (PDict sample_prepare))
       \<lparr>ea_ttl_seconds = 10, ea_message_id_domain = Some (lit ''d'')\<rparr> (Some (lit ''secret'')) 80 [seed_request]
       (sample_host (empty_world [] [])) = (Inr (0, ready_text 80, rs), sample_host w)) \<and>
   gateway_command slack_filesystem (lit ''d'') (\<lambda>b. lit ''h'') sample_stdlib Inr (\<lambda>_. Inr (PDict sample_prepare))
       \<lparr>ea_ttl_seconds = 10, ea_message_id_domain = Some (lit ''d'')\<rparr> (Some (lit ''secret'')) 80 [seed_request]
       (sample_host (empty_world [] [] :: unit world)) =
     (Inl (Py RuntimeError), stores_opened [proposals_file (lit ''d'')] (sample_host (empty_world [] [])))"
proof -
  have n: "ho_faults (sample_host (empty_world [] [] :: unit world)) = []" by (simp add: sample_host_def)
  have "\<exists>rs (w :: unit world). gateway_command sample_filesystem (lit ''d'') (\<lambda>b. lit ''h'') sample_stdlib Inr (\<lambda>_. Inr (PDict sample_prepare))
       \<lparr>ea_ttl_seconds = 10, ea_message_id_domain = Some (lit ''d'')\<rparr> (Some (lit ''secret'')) 80 [seed_request]
       (sample_host (empty_world [] [])) = (Inr (0, ready_text 80, rs), sample_host w)"
    unfolding gateway_files [OF n] using sample_durable(1,2)
    by (auto simp: sample_host_def entrypoint_main_def lit_def split: prod.splits)
  then show ?thesis
    unfolding gateway_files [OF n] using slack_durable by (simp add: proposal_files_def lit_def)
qed

text \<open>
  The layout: under any data root the five files are five different files, and two spellings of a relative data
  root, with a leading \<open>./\<close> or a trailing slash, name the same ones, so that the server that freezes a
  proposal and the command that sends it meet.
\<close>

theorem layout:
  "distinct [proposals_path base, payloads_path base, audit_path base, token_path base, client_bundle_path base] \<and>
   (take 1 base \<noteq> lit ''/'' \<longrightarrow> path_under (lit ''./'' @ base) names = path_under base names \<and>
      (base \<noteq> [] \<longrightarrow> path_under (base @ lit ''/'') names = path_under base names))"
  using layout_distinct [of base] path_under_spelling [of base names] by (auto simp: lit_def)

theorem layout_witness:
  "path_under (lit ''./d'') [lit ''audit'', lit ''audit.db''] = lit ''d/audit/audit.db'' \<and>
   path_under (lit ''d/'') [lit ''audit'', lit ''audit.db''] = lit ''d/audit/audit.db''"
proof -
  have "take 1 (lit ''d'') \<noteq> lit ''/''" "lit ''d'' \<noteq> []" by code_simp+
  with layout [of "lit ''d''" "[lit ''audit'', lit ''audit.db'']"] sample_paths(4) show ?thesis
    by (simp add: audit_path_def) (simp add: lit_def)
qed

end
