(* ===== verification/Tree_Pin.thy ===== *)
theory Tree_Pin
  imports Text_Codec
begin

text \<open>
  \<open>treepin.py\<close>: the pin of a file tree.  A tree is the walk over it, the list of its entries with the parts of
  their relative paths, in the order of \<open>sorted(root.rglob("*"))\<close>; SHA-256 is a parameter.
\<close>

subsection \<open>The walk\<close>

datatype node = Symlink | Directory | Regular "bytes res" | Special

type_synonym tree_entry = "pystr list \<times> node"

definition excluded_dirs :: "pystr list" where
  "excluded_dirs = [lit ''__pycache__'', lit ''.pytest_cache'', lit ''.hypothesis'']"

definition refuse :: exn where
  "refuse = Py (SystemExit 1)"

text \<open>One step of \<open>_iter_files\<close>: the reading of the file it yields, if it yields one.\<close>

definition iter_file :: "tree_entry \<Rightarrow> bytes res option res" where
  "iter_file e =
     (if set excluded_dirs \<inter> set (fst e) \<noteq> {} then Inr None
      else case snd e of
        Symlink \<Rightarrow> Inl refuse
      | Directory \<Rightarrow> Inr None
      | Special \<Rightarrow> Inl refuse
      | Regular content \<Rightarrow> Inr (Some content))"

text \<open>\<open>PurePosixPath.suffix\<close> of a last part: from its last dot, unless that is its first or last character.\<close>

definition suffix_of :: "pystr \<Rightarrow> pystr" where
  "suffix_of name = (let ext = takeWhile (\<lambda>c. c \<noteq> 46) (rev name)
     in if ext \<noteq> [] \<and> length ext + 1 < length name then 46 # rev ext else [])"

definition in_set :: "pystr \<Rightarrow> pystr list \<Rightarrow> bool res" where
  "in_set which rel =
     (if which = lit ''full'' then Inr True
      else if which = lit ''src'' then Inr (lit ''tests'' \<notin> set (butlast rel))
      else if which = lit ''py'' then Inr (suffix_of (last rel) = lit ''.py'')
      else Inl (Py ValueError))"

subsection \<open>The manifest\<close>

definition posix :: "pystr list \<Rightarrow> pystr" where
  "posix rel = join [47] rel"

definition tree_row :: "(bytes \<Rightarrow> pystr) \<Rightarrow> pystr \<Rightarrow> tree_entry \<Rightarrow> (bytes \<times> pystr) option res" where
  "tree_row sha which e = rbind (iter_file e) (\<lambda>file. case file of
     None \<Rightarrow> Inr None
   | Some content \<Rightarrow>
       rbind (rguard (10 \<notin> set (posix (fst e)) \<and> 13 \<notin> set (posix (fst e))) refuse) (\<lambda>_.
       rbind (in_set which (fst e)) (\<lambda>chosen.
       if \<not> chosen then Inr None
       else rbind (encode_utf8 (posix (fst e))) (\<lambda>path. rmap (\<lambda>raw. Some (path, sha raw)) content))))"

definition tree_rows :: "(bytes \<Rightarrow> pystr) \<Rightarrow> pystr \<Rightarrow> tree_entry list \<Rightarrow> (bytes \<times> pystr) list res" where
  "tree_rows sha which walk = rmap (List.map_filter (\<lambda>r. r)) (traverse (tree_row sha which) walk)"

definition manifest_line :: "bytes \<times> pystr \<Rightarrow> bytes" where
  "manifest_line row = snd row @ [32, 32] @ fst row @ [10]"

definition manifest :: "(bytes \<Rightarrow> pystr) \<Rightarrow> pystr \<Rightarrow> tree_entry list \<Rightarrow> bytes res" where
  "manifest sha which walk = rbind (tree_rows sha which walk) (\<lambda>rows.
     rbind (rguard (rows \<noteq> []) refuse) (\<lambda>_. Inr (concat (map manifest_line (sort_key fst rows)))))"

definition tree_pin :: "(bytes \<Rightarrow> pystr) \<Rightarrow> pystr \<Rightarrow> tree_entry list \<Rightarrow> pystr res" where
  "tree_pin sha which walk = rmap sha (manifest sha which walk)"

text \<open>The pins \<open>main\<close> prints, without and with a chosen set.\<close>

definition tree_pins :: "(bytes \<Rightarrow> pystr) \<Rightarrow> pystr option \<Rightarrow> tree_entry list \<Rightarrow> (pystr \<times> pystr) list res" where
  "tree_pins sha chosen walk =
     traverse (\<lambda>which. rmap (\<lambda>pin. (which, pin)) (tree_pin sha which walk))
       (case chosen of None \<Rightarrow> [lit ''full'', lit ''src'', lit ''py''] | Some which \<Rightarrow> [which])"

subsection \<open>The files of a tree\<close>

text \<open>What a pin is about: the regular files in scope with their contents.  Path parts come from a file system.\<close>

definition files :: "pystr \<Rightarrow> tree_entry list \<Rightarrow> (pystr list \<times> bytes) set" where
  "files which walk = {(rel, raw). (rel, Regular (Inr raw)) \<in> set walk \<and> set excluded_dirs \<inter> set rel = {} \<and> in_set which rel = Inr True}"

definition path_parts :: "pystr list \<Rightarrow> bool" where
  "path_parts rel \<longleftrightarrow> rel \<noteq> [] \<and> (\<forall>p \<in> set rel. p \<noteq> [] \<and> 47 \<notin> set p)"

definition walk_ok :: "tree_entry list \<Rightarrow> bool" where
  "walk_ok walk \<longleftrightarrow> distinct (map fst walk) \<and> list_all path_parts (map fst walk)"

lemma posix_inj: "posix a = posix b \<Longrightarrow> path_parts a \<Longrightarrow> path_parts b \<Longrightarrow> a = b"
  unfolding posix_def path_parts_def by (rule join_sep_inj) auto

lemma tree_row_Some:
  "tree_row sha which e = Inr (Some row) \<longleftrightarrow>
     (\<exists>rel raw. e = (rel, Regular (Inr raw)) \<and> set excluded_dirs \<inter> set rel = {} \<and> in_set which rel = Inr True \<and>
        10 \<notin> set (posix rel) \<and> 13 \<notin> set (posix rel) \<and> encodable (posix rel) \<and> row = (utf8 (posix rel), sha raw))"
  by (cases e; cases "snd e")
    (auto simp: tree_row_def iter_file_def encode_utf8_def encodable_def pm_inv split: if_splits)

lemma set_map_filter: "set (List.map_filter f xs) = {y. \<exists>x \<in> set xs. f x = Some y}"
  by (force simp: List.map_filter_def)

lemma tree_rows_set:
  assumes "tree_rows sha which walk = Inr rows"
  shows "set rows = (\<lambda>(rel, raw). (utf8 (posix rel), sha raw)) ` files which walk"
proof -
  from assms obtain qs where q: "traverse (tree_row sha which) walk = Inr qs" "rows = List.map_filter (\<lambda>r. r) qs"
    by (auto simp: tree_rows_def pm_inv)
  have "row \<in> set rows \<longleftrightarrow> (\<exists>e \<in> set walk. tree_row sha which e = Inr (Some row))" for row
    using q traverse_Inr_from [OF q(1)] traverse_Inr_all [OF q(1)] by (force simp: set_map_filter)
  moreover have "\<exists>row. tree_row sha which (rel, Regular (Inr raw)) = Inr row"
    if "(rel, raw) \<in> files which walk" for rel raw
    using that traverse_Inr_all [OF q(1)] by (force simp: files_def)
  moreover have "row = Some (utf8 (posix rel), sha raw)"
    if "(rel, raw) \<in> files which walk" "tree_row sha which (rel, Regular (Inr raw)) = Inr row" for rel raw row
    using that by (auto simp: files_def tree_row_def iter_file_def encode_utf8_def pm_inv split: if_splits)
  ultimately show ?thesis
    by (fastforce simp: tree_row_Some files_def)
qed

lemma tree_rows_Cons:
  "tree_rows sha which (e # walk) = Inr rows \<longleftrightarrow>
     (\<exists>r rest. tree_row sha which e = Inr r \<and> tree_rows sha which walk = Inr rest \<and>
        rows = (case r of None \<Rightarrow> rest | Some x \<Rightarrow> x # rest))"
  by (auto simp: tree_rows_def pm_inv List.map_filter_def split: option.splits)

lemma tree_rows_distinct:
  "tree_rows sha which walk = Inr rows \<Longrightarrow> walk_ok walk \<Longrightarrow> distinct (map fst rows)"
proof (induction walk arbitrary: rows)
  case Nil
  then show ?case by (simp add: tree_rows_def List.map_filter_def)
next
  case (Cons e walk)
  from Cons.prems(1) obtain r rest where r: "tree_row sha which e = Inr r" "tree_rows sha which walk = Inr rest"
    "rows = (case r of None \<Rightarrow> rest | Some x \<Rightarrow> x # rest)" by (auto simp: tree_rows_Cons)
  have ok: "walk_ok walk" using Cons.prems(2) by (simp add: walk_ok_def)
  have d: "distinct (map fst rest)" using Cons.IH [OF r(2) ok] .
  show ?case
  proof (cases r)
    case (Some x)
    with r(1) obtain rel raw where e: "e = (rel, Regular (Inr raw))" "x = (utf8 (posix rel), sha raw)"
      by (auto simp: tree_row_Some)
    have "rel' = rel" if "(rel', raw') \<in> files which walk" "utf8 (posix rel') = utf8 (posix rel)" for rel' raw'
      using that Cons.prems(2) e utf8_inj posix_inj by (force simp: files_def walk_ok_def list_all_iff)
    moreover have "(rel, raw') \<notin> files which walk" for raw'
      using Cons.prems(2) e by (force simp: files_def walk_ok_def)
    ultimately have "fst x \<notin> fst ` set rest"
      unfolding tree_rows_set [OF r(2)] e(2) by force
    with Some r(3) d show ?thesis by simp
  qed (use r d in simp)
qed

lemma files_parts: "walk_ok walk \<Longrightarrow> x \<in> files which walk \<Longrightarrow> path_parts (fst x)"
  by (force simp: files_def walk_ok_def list_all_iff)

text \<open>The lines tell the rows, and rows with different paths are sorted in one way only.\<close>

lemma sort_key_unique:
  assumes "distinct (map fst xs)" "distinct (map fst ys)" "set xs = set ys"
  shows "sort_key fst xs = sort_key fst (ys :: ('a :: linorder \<times> 'b) list)"
proof -
  have "map fst (sort_key fst xs) = sort (map fst xs)" "map fst (sort_key fst ys) = sort (map fst ys)"
    by (intro sorted_distinct_set_unique; use assms in \<open>simp add: distinct_map\<close>)+
  moreover have "sort (map fst xs) = sort (map fst ys)"
    by (intro sorted_distinct_set_unique) (use assms in simp_all)
  ultimately have k: "map fst (sort_key fst xs) = map fst (sort_key fst ys)" by simp
  have d: "distinct (map fst (sort_key fst xs))" "distinct (map fst (sort_key fst ys))"
    using assms by (simp_all add: distinct_map)
  have "map_of (sort_key fst xs) = map_of (sort_key fst ys)"
    using map_of_inject_set [OF d] assms(3) by simp
  moreover have "zs = map (\<lambda>k. (k, the (map_of zs k))) (map fst zs)" if "distinct (map fst zs)" for zs :: "('a \<times> 'b) list"
  proof -
    have "(fst x, the (map_of zs (fst x))) = x" if "x \<in> set zs" for x
      using that map_of_is_SomeI [OF \<open>distinct (map fst zs)\<close>, of "fst x" "snd x"] by (simp add: prod_eq_iff)
    then show ?thesis by (simp add: comp_def map_idI)
  qed
  ultimately show ?thesis using k d by metis
qed

lemma manifest_lines_inj:
  assumes "concat (map manifest_line xs) = concat (map manifest_line ys)"
    and "\<And>r. r \<in> set xs \<union> set ys \<Longrightarrow> length (snd r) = 64 \<and> 10 \<notin> set (snd r) \<and> 10 \<notin> set (fst r)"
  shows "xs = ys"
proof -
  let ?l = "\<lambda>r. snd r @ [32, 32] @ fst r"
  have "concat (map (\<lambda>l. l @ [10]) (map ?l xs)) = concat (map (\<lambda>l. l @ [10]) (map ?l ys))"
    using assms(1) by (simp add: manifest_line_def [abs_def] comp_def)
  moreover have "\<forall>l \<in> set (map ?l xs) \<union> set (map ?l ys). 10 \<notin> set l" using assms(2) by fastforce
  ultimately have "map ?l xs = map ?l ys" by (rule terminated_inj)
  moreover have "inj_on ?l (set xs \<union> set ys)"
    by (rule inj_onI) (use assms(2) in \<open>auto simp: prod_eq_iff\<close>)
  ultimately show ?thesis by (rule map_inj_on)
qed

lemma tree_rows_lines:
  assumes "hex_digest sha" "tree_rows sha which walk = Inr rows" "r \<in> set rows"
  shows "length (snd r) = 64 \<and> 10 \<notin> set (snd r) \<and> 10 \<notin> set (fst r)"
proof -
  from assms(2) obtain qs where q: "traverse (tree_row sha which) walk = Inr qs" "rows = List.map_filter (\<lambda>r. r) qs"
    by (auto simp: tree_rows_def pm_inv)
  with assms(3) have "Some r \<in> set qs" by (simp add: set_map_filter)
  from traverse_Inr_from [OF q(1) this] obtain e where "tree_row sha which e = Inr (Some r)" by blast
  then obtain rel raw where r: "10 \<notin> set (posix rel)" "r = (utf8 (posix rel), sha raw)" by (auto simp: tree_row_Some)
  moreover have "10 \<notin> set (sha raw)"
    using hex_digestD(2) [OF assms(1), of raw] by (auto simp: list_all_iff hex_char_def)
  ultimately show ?thesis using hex_digestD(1) [OF assms(1)] by (simp add: utf8_ascii)
qed

subsection \<open>Properties\<close>


definition sample_walk :: "tree_entry list" where
  "sample_walk = [([lit ''a.py''], Regular (Inr [1])), ([lit ''tests''], Directory), ([lit ''tests'', lit ''b''], Regular (Inr [])),
     ([lit ''__pycache__'', lit ''c''], Symlink)]"

definition toy_sha :: "bytes \<Rightarrow> pystr" where
  "toy_sha b = replicate 64 (if b = [] then 48 else 97)"

lemma sample_walk_pins:
  "hex_digest toy_sha" "walk_ok sample_walk" "walk_ok (rev sample_walk)" "files which (rev sample_walk) = files which sample_walk"
  "\<exists>p. tree_pin toy_sha (lit ''full'') sample_walk = Inr p" "\<exists>p. tree_pin toy_sha (lit ''full'') (rev sample_walk) = Inr p"
proof -
  show "hex_digest toy_sha" by (simp add: hex_digest_def toy_sha_def hex_char_def list_all_iff)
  show "walk_ok sample_walk" "walk_ok (rev sample_walk)"
    by (auto simp: walk_ok_def sample_walk_def path_parts_def lit_def)
  show "files which (rev sample_walk) = files which sample_walk" by (simp add: files_def)
  have "\<not> isl (tree_pin toy_sha (lit ''full'') sample_walk)" "\<not> isl (tree_pin toy_sha (lit ''full'') (rev sample_walk))"
    by code_simp+
  then show "\<exists>p. tree_pin toy_sha (lit ''full'') sample_walk = Inr p" "\<exists>p. tree_pin toy_sha (lit ''full'') (rev sample_walk) = Inr p"
    by (auto simp: isl_def) (metis sum.exhaust)+
qed


text \<open>Which entries do not stop the walk.\<close>

definition row_returns :: "pystr \<Rightarrow> pystr list \<Rightarrow> node \<Rightarrow> bool" where
  "row_returns which rel node \<longleftrightarrow> set excluded_dirs \<inter> set rel \<noteq> {} \<or>
     (case node of
        Directory \<Rightarrow> True
      | Regular content \<Rightarrow> 10 \<notin> set (posix rel) \<and> 13 \<notin> set (posix rel) \<and>
          (case in_set which rel of Inl _ \<Rightarrow> False | Inr chosen \<Rightarrow> chosen \<longrightarrow> encodable (posix rel) \<and> (\<exists>raw. content = Inr raw))
      | _ \<Rightarrow> False)"

lemma tree_row_returns: "(\<exists>r. tree_row sha which (rel, node) = Inr r) \<longleftrightarrow> row_returns which rel node"
proof (cases "set excluded_dirs \<inter> set rel = {}")
  case True
  show ?thesis
  proof (cases node)
    case (Regular content)
    with True show ?thesis
      by (cases "in_set which rel"; cases content)
        (auto simp: tree_row_def iter_file_def row_returns_def rguard_def encode_utf8_def encodable_def)
  qed (use True in \<open>simp_all add: tree_row_def iter_file_def row_returns_def\<close>)
qed (simp add: tree_row_def iter_file_def row_returns_def)

text \<open>
  A pin is refused, never taken over less than the tree.  A manifest is produced exactly when nothing outside the
  excluded directories is a link or a special file, no file there has a line break in its path, every file in scope has an
  encodable path and can be read, the set is known, and some file is in scope.
\<close>

theorem manifest_total:
  "(\<exists>m. manifest sha which walk = Inr m) \<longleftrightarrow>
     files which walk \<noteq> {} \<and> list_all (\<lambda>(rel, node). row_returns which rel node) walk"
proof -
  have all: "(\<exists>qs. traverse f xs = Inr qs) \<longleftrightarrow> (\<forall>x \<in> set xs. \<exists>q. f x = Inr q)" for f :: "tree_entry \<Rightarrow> 'q res" and xs
    by (induction xs) (auto simp: pm_inv)
  have "(\<exists>rows. tree_rows sha which walk = Inr rows) \<longleftrightarrow> (\<exists>qs. traverse (tree_row sha which) walk = Inr qs)"
    by (simp add: tree_rows_def pm_inv)
  moreover have "\<dots> \<longleftrightarrow> (\<forall>(rel, node) \<in> set walk. row_returns which rel node)"
    unfolding all using tree_row_returns by fastforce
  moreover have "(\<exists>m. manifest sha which walk = Inr m) \<longleftrightarrow> (\<exists>rows. tree_rows sha which walk = Inr rows \<and> rows \<noteq> [])"
    by (simp add: manifest_def pm_inv)
  moreover have "rows \<noteq> [] \<longleftrightarrow> files which walk \<noteq> {}" if "tree_rows sha which walk = Inr rows" for rows
    using tree_rows_set [OF that] by (metis image_is_empty set_empty)
  ultimately have "(\<exists>m. manifest sha which walk = Inr m) \<longleftrightarrow>
      files which walk \<noteq> {} \<and> (\<forall>(rel, node) \<in> set walk. row_returns which rel node)" by blast
  then show ?thesis by (simp add: list_all_iff)
qed


end
