(* ===== verification/Spec2Isabelle.thy ===== *)
theory Spec2Isabelle
  imports Orchestrator Concurrent_Server Store_Files Tree_Pin
begin

text \<open>
  A verification of the Gmail gateway.

  The program lets an agent propose an email and a human release it.  A proposal is canonicalized and
  frozen with its digest; a human confirms it over HTTP or with the send command, or a cloud-authorized run of the gate
  releases it; the send state machine calls the Gmail sender at most once for it and settles its status; every
  step leaves a row in an append-only log.  The sender uses an OAuth token that the operator obtained once through a consent
  in the browser and that stays sealed under a key of the keychain.

  Conventions.  A Python value is a \<open>pyval\<close> (\<open>PyValues\<close>), a string a list of code points, an
  exception a value of \<open>exn\<close> (\<open>Errors\<close>).  A pure function that can raise has the type
  \<open>'a res = exn + 'a\<close>; one that also changes state the type \<open>('s, 'a) pm\<close>, a function from a state to a
  result and a state, so that what was written before an exception stays written (\<open>Prelude\<close>).  The
  objects a component is constructed with are records of methods over the state.  The program has no loop that is not a pass
  over a list and no retry: every operation is a total function, and no fuel is needed.  Where operations run on several threads
  at once, each is a thread in the sense of \<open>Interleaving\<close>: its steps are its single accesses to shared state, and
  it is proved to be the sequential operation when it runs alone.

  Theories, bottom up, with the code they model.

  \<^item> \<open>Jcs\<close>: \<open>canonicalizer/jcs.py\<close>; canonical bytes and digest.
  \<^item> \<open>Payload\<close>: \<open>canonicalizer/payload.py\<close>; the closed schema, the payload digest and the v1 gate.
  \<^item> \<open>Actionset\<close>: \<open>actionset/\<close>; the catalog of actions and the projection of an action onto a payload.
  \<^item> \<open>Kv_Backend\<close>: \<open>store/backend.py\<close>; the storage protocols, their contracts as locales
    (\<open>kv_atomic\<close>, \<open>kv_live\<close>, \<open>log_atomic\<close>) and the in-memory backends, which meet them.
  \<^item> \<open>Persistence\<close>: \<open>gateway/persistence.py\<close>; the SQLite backends with commit, rollback and eviction.
    Each access takes the next element of a list of faults, so every failure pattern is covered.
  \<^item> \<open>Proposals\<close>, \<open>Ledger\<close>: \<open>store/\<close>; proposals with the idempotency index, and the audit ledger.
  \<^item> \<open>World\<close>: the state of the gateway process, and the stores as parts of it.
  \<^item> \<open>Send_Fsm\<close>: \<open>sendfsm/fsm.py\<close> and \<open>ConfirmDispatcher\<close> of \<open>gateway/send_path.py\<close>; one call
    at a time as a step of the state, and two calls interleaved store access by store access.
  \<^item> \<open>Proposal_Api\<close>: \<open>gateway/proposal_api.py\<close>; the service and the HTTP handler.
  \<^item> \<open>Capability\<close>: \<open>authz/capability.py\<close>; the envelope and grant parser, the signed messages.
  \<^item> \<open>Authz_State\<close>: \<open>authz/state.py\<close>; heads, revocations, the head state and the relay.
  \<^item> \<open>Decision_Policy\<close>: \<open>authz/service.py\<close>, \<open>authz/decision_policy.py\<close>; requests and decisions,
    single use, the high-water mark, the table that binds every field of a decision.
  \<^item> \<open>Authz_Audit\<close>: \<open>authz/audit.py\<close>, \<open>authz/clock.py\<close>.
  \<^item> \<open>Authz_Gate\<close>: \<open>authz/gate.py\<close>; \<open>authorize\<close> step by step.  \<open>Gate_Contract\<close> states what a gate
    promises over any providers that meet the locale \<open>gate_env\<close>; \<open>Gate_Stub\<close> interprets it on the
    providers of the repository.
  \<^item> \<open>Orchestrator\<close>: \<open>authz/dispatch_record.py\<close>, \<open>authz/orchestrator.py\<close>; the authorized send.
  \<^item> \<open>Aead\<close>: \<open>keystore/\<close>; sealed records, the cipher and the key providers.
  \<^item> \<open>Token_Store\<close>: \<open>gateway/token_store.py\<close> and \<open>gateway/sealed_token_store.py\<close>; the row of generations, operations and
    credentials, each method one transaction, as a refinement of an abstract store.
  \<^item> \<open>Oauth\<close>: \<open>oauth/\<close>; redirect, PKCE, state, callback and the requests.
  \<^item> \<open>Text_Codec\<close>: facts about texts put together from parts, shared by the codecs.
  \<^item> \<open>Egress\<close>: \<open>gateway/egress.py\<close>; the allow-list in front of the transport.
  \<^item> \<open>Sealed_Tokens\<close>: \<open>SealedTokenStore\<close> of \<open>gateway/send_path.py\<close>.
  \<^item> \<open>Token_Endpoint\<close>: code exchange of \<open>gateway/oauth_listener.py\<close> and \<open>gateway/token_revoke.py\<close>.
  \<^item> \<open>Token_Refresh\<close>: \<open>gateway/token_refresh.py\<close>, on the outside of a process (\<open>outbound\<close>): the requests that left with
    their answers, the answers still to come, the clock and the token database.
  \<^item> \<open>Gmail_Sender\<close>: \<open>gateway/gmail_sender.py\<close> and \<open>run_send\<close> of \<open>gateway/send_cli.py\<close>.
  \<^item> \<open>Loopback_Flow\<close>: the listener and the consent flow of \<open>gateway/oauth_listener.py\<close>, on whatever requests arrive.
  \<^item> \<open>Client_Bundle\<close>: \<open>gateway/bundle.py\<close>, \<open>gateway/trigger.py\<close> and the configuration of \<open>gateway/local_connect.py\<close>.
  \<^item> \<open>Authorize\<close>: \<open>gateway/authorize.py\<close> and the button.
  \<^item> \<open>Supervisor\<close>: \<open>gateway/supervisor.py\<close>; its calls and the exits of children as a step relation.
  \<^item> \<open>Entry_Points\<close>: \<open>gateway/entrypoint.py\<close>, \<open>gateway/seed_proposal.py\<close>, \<open>gateway/__main__.py\<close>,
    \<open>gateway/message_id.py\<close>, the click of \<open>gateway/local_connect.py\<close>, \<open>authz/sanitize.py\<close>.
  \<^item> \<open>Interleaving\<close>: threads as values, pools of threads over one state and their step relation; a bound on every
    schedule, and a rely/guarantee contract as the locale \<open>rg_pool\<close>, in which a thread owns what it has newly made.
  \<^item> \<open>Concurrent_Propose\<close>, \<open>Concurrent_Server\<close>: \<open>propose\<close> and the request handler of
    \<open>gateway/proposal_api.py\<close> as threads, which is how \<open>ThreadingHTTPServer\<close> runs them, down to the
    accesses \<open>store/proposals.py\<close> makes; \<open>Concurrent_Propose\<close> interprets \<open>rg_pool\<close> on them.
  \<^item> \<open>Store_Files\<close>: \<open>gateway/paths.py\<close>, opening and closing in \<open>gateway/persistence.py\<close>, and the commands
    of \<open>gateway/send_cli.py\<close>, \<open>gateway/seed_proposal.py\<close>, \<open>gateway/authorize.py\<close> and \<open>gateway/entrypoint.py\<close> on their files.
  \<^item> \<open>Tree_Pin\<close>: \<open>treepin.py\<close>; the pin of a file tree.

  What the groups of lemmas show.  Canonical bytes determine the value; the frozen payload is the one whose digest was
  approved; a proposal is sent at most once, only after its confirmation or an authorization of exactly its payload, and never
  without an audit row before it; the mail on the wire renders the frozen payload; a command exits with 0 only when its effect is
  there; a token never opens under a foreign key, is refreshed only at its endpoint and comes only from a consent of this run;
  one supervised gateway runs at a time, it cannot send, and however its requests interleave one idempotency key stands for one
  proposal, each request within 13 accesses; a command that cannot get durable files does nothing.  This theory adds the way through all of it,
  \<open>first_mail\<close>.

  Parameters.  SHA-256 is a function \<open>H\<close> from bytes to its hexadecimal text; injectivity is never assumed,
  the collision is a disjunct of the conclusion.  Ed25519 is the record \<open>ed25519\<close> of its four operations,
  with the hypothesis \<open>ed_correct\<close> (an own signature verifies) in the liveness results only.  AES-GCM is a record of two
  operations with the hypotheses that a ciphertext opens under its own key, nonce and associated data (\<open>gcm_exact\<close>) and consists of bytes (\<open>gcm_bytes\<close>); the keychain is a
  record of reads and writes on a state of its own.  \<open>EmailMessage\<close> is a record of the four operations used.
  \<open>datetime.fromisoformat\<close>, \<open>json.loads\<close>, \<open>json.dumps\<close> of tokens, \<open>urlsplit\<close>, \<open>unquote\<close> and \<open>ipaddress\<close> are
  functions.  Clocks, \<open>uuid4\<close>, \<open>make_msgid\<close> and random bytes are methods of the state.

  What is not modelled.  Drawing the window, argument parsing and printing beyond the ready line: a command starts from its parsed
  arguments, and a file is what reading it gives.  Opening and closing a store are modelled in \<open>Store_Files\<close>; the other
  theories start with the stores open.  A signal is the end of the list of requests.  Threads: the token provider and the token
  store hold a lock over each call, and the calls are steps; the confirm route is not mounted by the summoned gateway, and
  two confirmations at once, which race, are modelled in \<open>Send_Fsm\<close>; the wait of the consent flow for its listener is one step.
  Real time passes only where the code reads a clock: the timeouts of the supervisor and of the listener are events that may happen.
\<close>

text \<open>
  C8. From nothing to a sent mail.  An operator seeds a proposal, authorizes and sends it: when storage, key, codec and network are
  in order, the arguments have a UTF-8 encoding, the id is fresh, the clock stays before the expiry of the proposal and of the
  token, and Gmail answers with a 2xx the sender can read, each of the three commands exits with 0.  The seed prints the id, the
  digest of the canonical payload of its arguments and the expiry, and freezes that payload; the one request after the consent
  is the mail that renders it with the access token the flow returned, no refresh happens in between, and the proposal is SENT.
\<close>

theorem first_mail:
  fixes w :: "'k outbound world" and urlsplit :: "'u url_splitter"
  assumes "world_healthy w" "proposal_rows w pid = None" "seed_encodable B" "0 < sa_ttl_seconds B"
    and "en_time E (w_env w) = (Inr now, e1)" "en_uuid_hex E e1 = (Inr pid, e2)" "0 \<le> now"
    and "build_raw_message M (seed_canonical B) = Inr raw"
    and "authorize_client sha loads source e2 = (Inr (Some (cid, secret)), u)" "au_flow A cid secret u = (Inr result, v)"
    and "tr_received_at result = Some n" "tr_expires_in result = Some m" "vault_ready (au_store A) (ob_tokens v)"
    and "codec_ok (au_store A) (token_blob (authorized_fields result n cid secret))"
    and "0 \<le> ob_clock v 0" "ob_clock v 0 < now + sa_ttl_seconds B" "ob_clock v 1 < n + m - 60"
    and "admitted (gmail_client urlsplit :: ('u, 'k outbound) egress) gmail_send_url gmail_host"
    and "ob_replies v = Inr (st, b) # rest" "200 \<le> st" "st < 300" "reply_readable (ts_loads (au_store A)) b"
  shows "\<exists>h w1 w2 w3. digest sha (PDict (seed_canonical B)) = Inr h \<and>
    seed_main sha E B w = (Inr (0, Some (identifiers pid h (now + sa_ttl_seconds B))), w1) \<and>
    payload_rows w1 pid = Some (seed_canonical B) \<and> w_env w1 = e2 \<and> w_sent w1 = w_sent w \<and>
    operator_command sha loads A source urlsplit M pid [lit ''authorize''] w1 = (Inr 0, w2) \<and>
    operator_command sha loads A source urlsplit M pid [lit ''send''] w2 = (Inr 0, w3) \<and>
    ob_wire (w_env w3) = ob_wire v @ [(mail_request (tr_access_token result) raw, Inr (st, b))] \<and>
    status_at (proposal_rows w3) pid = Some SENT \<and> w_sent w3 = pid # w_sent w"
proof -
  let ?f = "authorized_fields result n cid secret" and ?ex = "now + sa_ttl_seconds B"
  obtain h w1 where seed: "digest sha (PDict (seed_canonical B)) = Inr h"
    "seed_main sha E B w = (Inr (0, Some (identifiers pid h ?ex)), w1)" "world_healthy w1" "w_env w1 = e2" "w_sent w1 = w_sent w"
    "payload_rows w1 pid = Some (seed_canonical B)"
    "proposal_rows w1 pid = Some (proposal_to_dict \<lparr>p_proposal_id = pid, p_payload_digest = h, p_expires_at = ?ex,
       p_created_at = now, p_status = PENDING, p_idempotency_key = None\<rparr>)"
    using seed_healthy [OF assms(1-7), of sha] by metis
  from run_seals [OF assms(10,11,13) refl assms(14)] obtain x summary where x:
    "run_authorize A cid secret u = (Inr summary, put_tokens x v)" "tokens_open (au_store A) x = (Inr (token_blob ?f), x)" .
  let ?w2 = "w1\<lparr>w_env := put_tokens x v\<rparr>"
  have "authorize_main sha loads A source e2 = (Inr 0, put_tokens x v)"
    using assms(9) x(1) by (simp add: authorize_main_def pbind_returns ptry_def)
  then have 1: "operator_command sha loads A source urlsplit M pid [lit ''authorize''] w1 = (Inr 0, ?w2)"
    using seed(4) by (simp add: operator_command_def gateway_main_verbs env_pm_def)
  have h: "world_healthy ?w2" "proposal_rows ?w2 pid = proposal_rows w1 pid" "payload_rows ?w2 pid = Some (seed_canonical B)"
    using seed(3,6) by (simp_all add: world_healthy_def proposal_rows_def payload_rows_def)
  have t: "token_record (au_store A) (ob_tokens (w_env ?w2)) = (Inr (token_blob ?f), x)"
    "access_token_of (token_blob ?f) = Inr (tr_access_token result)" "dget (token_blob ?f) (lit ''expires_at'') = PInt (n + m)"
    using x(2) assms(12) by (simp_all add: token_record_def access_token_of_def blob_dget authorized_fields_def expiry_def)
  from run_send_delivers [OF h(1) h(2) [unfolded seed(7)] _ _ _ h(3) seed_policy assms(8) t _ assms(18) _ assms(20-22)]
    assms(15-17,19) obtain w3 where
    "run_send urlsplit (au_store A) M sha pid ?w2 = (Inr (lit ''sent''), w3)" "send_exit (Inr (lit ''sent'')) = 0"
    "ob_wire (w_env w3) = ob_wire v @ [(mail_request (tr_access_token result) raw, Inr (st, b))]"
    "status_at (proposal_rows w3) pid = Some SENT" "w_sent w3 = pid # w_sent w1" by auto
  moreover from this(1,2) have "operator_command sha loads A source urlsplit M pid [lit ''send''] ?w2 = (Inr 0, w3)"
    by (simp add: operator_command_def gateway_main_verbs send_main_def)
  ultimately show ?thesis using 1 seed(1,2,4-6) by auto
qed

text \<open>The authorization, the seeding and the message of the samples on one machine.\<close>

definition first_vault :: "unit token_store" where
  "first_vault = mail_codec\<lparr>ts_loads := \<lambda>p. if p = [2] then Inr (PDict (token_blob sample_fields)) else ts_loads mail_codec p\<rparr>"

definition first_authorizer :: "unit authorizer" where
  "first_authorizer = sample_authorizer\<lparr>au_store := first_vault\<rparr>"

definition first_world :: "unit outbound world" where
  "first_world = \<lparr>w_proposals = empty_sqlite [], w_payloads = empty_sqlite [],
     w_audit = \<lparr>sq_committed = [], sq_pending = None, sq_broken = False, sq_faults = []\<rparr>, w_sent = [],
     w_env = \<lparr>ob_wire = [], ob_replies = [Inr (200, []), Inr (200, [3])], ob_clock = \<lambda>_. 12, ob_tokens = toy_tokens\<rparr>\<rparr>"

theorem first_mail_witness:
  "\<exists>w1 w2 w3 raw. build_raw_message line_email (seed_canonical sample_seed) = Inr raw \<and>
     seed_main (\<lambda>b. lit ''h'') sample_stdlib sample_seed first_world = (Inr (0, Some (identifiers (lit ''p7'') (lit ''h'') 15)), w1) \<and>
     operator_command (\<lambda>b. lit ''h'') (\<lambda>_. Inl (Py ValueError)) first_authorizer sample_client gmail_split line_email (lit ''p7'')
       [lit ''authorize''] w1 = (Inr 0, w2) \<and>
     operator_command (\<lambda>b. lit ''h'') (\<lambda>_. Inl (Py ValueError)) first_authorizer sample_client gmail_split line_email (lit ''p7'')
       [lit ''send''] w2 = (Inr 0, w3) \<and>
     ob_wire (w_env w3) = [(post_request default_token_endpoint [] [], Inr (200, [])), (mail_request (lit ''a'') raw, Inr (200, [3]))]"
proof -
  have "case build_raw_message line_email (seed_canonical sample_seed) of Inl _ \<Rightarrow> False | Inr _ \<Rightarrow> True" by code_simp
  then obtain raw where raw: "build_raw_message line_email (seed_canonical sample_seed) = Inr raw" by (auto split: sum.splits)
  let ?e = "w_env first_world"
  let ?v = "?e\<lparr>ob_wire := [(post_request default_token_endpoint [] [], Inr (200, []))], ob_replies := [Inr (200, [3])]\<rparr>"
  have w: "world_healthy first_world" "proposal_rows first_world (lit ''p7'') = None"
    by (simp_all add: world_healthy_def healthy_def first_world_def empty_sqlite_def clean_def proposal_rows_def)
  have B: "seed_encodable sample_seed" "0 < sa_ttl_seconds sample_seed" by code_simp+
  have E: "en_time sample_stdlib ?e = (Inr 5, ?e)" "en_uuid_hex sample_stdlib ?e = (Inr (lit ''p7''), ?e)"
    by (simp_all add: sample_stdlib_def preturn_def)
  have flow: "au_flow first_authorizer (lit ''c'') None ?e = (Inr sample_result, ?v)"
    by (simp add: first_authorizer_def sample_authorizer_def wire_transport_def first_world_def)
  have client: "authorize_client (\<lambda>b. lit ''h'') (\<lambda>_. Inl (Py ValueError)) sample_client ?e = (Inr (Some (lit ''c'', None)), ?e)"
    by (simp add: authorize_client_def sample_client_def read_client_credentials_def client_of_def installed_def dget_def
        ptry_def plift_def)
  have vault: "vault_ready (au_store first_authorizer) (ob_tokens ?v)"
    "codec_ok (au_store first_authorizer) (token_blob (authorized_fields sample_result 7 (lit ''c'') None))"
    using toy_vault_ready(1)
    by (simp_all add: first_authorizer_def first_vault_def mail_codec_def vault_ready_def toy_vault_def first_world_def codec_ok_def
        is_bytes_def sample_fields_def)
  have reply: "reply_readable (ts_loads (au_store first_authorizer)) [3]"
    using mail_reply by (simp add: reply_readable_def first_authorizer_def first_vault_def)
  have "\<exists>h w1 w2 w3. digest (\<lambda>b. lit ''h'') (PDict (seed_canonical sample_seed)) = Inr h \<and>
      seed_main (\<lambda>b. lit ''h'') sample_stdlib sample_seed first_world =
        (Inr (0, Some (identifiers (lit ''p7'') h (5 + sa_ttl_seconds sample_seed))), w1) \<and>
      payload_rows w1 (lit ''p7'') = Some (seed_canonical sample_seed) \<and> w_env w1 = ?e \<and> w_sent w1 = w_sent first_world \<and>
      operator_command (\<lambda>b. lit ''h'') (\<lambda>_. Inl (Py ValueError)) first_authorizer sample_client gmail_split line_email
        (lit ''p7'') [lit ''authorize''] w1 = (Inr 0, w2) \<and>
      operator_command (\<lambda>b. lit ''h'') (\<lambda>_. Inl (Py ValueError)) first_authorizer sample_client gmail_split line_email
        (lit ''p7'') [lit ''send''] w2 = (Inr 0, w3) \<and>
      ob_wire (w_env w3) = ob_wire ?v @ [(mail_request (tr_access_token sample_result) raw, Inr (200, [3]))] \<and>
      status_at (proposal_rows w3) (lit ''p7'') = Some SENT \<and> w_sent w3 = lit ''p7'' # w_sent first_world"
    by (rule first_mail [OF w B E _ raw client flow _ _ vault _ _ _ gmail_split_admitted _ _ _ reply, where m = 3600 and st = 200 and rest = "[]"])
      (use sample_authorization(1,3) in \<open>simp_all add: sample_result_def first_world_def sample_seed_def\<close>)
  with raw show ?thesis by (fastforce simp: sample_result_def sample_seed_def digest_def pm_inv)
qed

end
